(* ===== verification/Prelude.thy ===== *)
theory Prelude
  imports Main "HOL-Library.Word"
begin

unbundle bit_operations_syntax

text \<open>
  Shared vocabulary of the development: machine integers, Rust's \<open>Result\<close> as a sum,
  fallible operations that thread the state of the operating system, the list operations of
  \<open>Vec\<close> that the contexts use (\<open>position\<close>, \<open>swap_remove\<close>), Rust's decimal formatting of
  unsigned integers, and the lemmas that the component proofs share.
\<close>

section \<open>Machine integers\<close>

type_synonym u8 = "8 word"
type_synonym u16 = "16 word"
type_synonym u32 = "32 word"
type_synonym u64 = "64 word"
type_synonym i32 = "32 word"

text \<open>
  \<open>usize\<close> values are lengths and indices of objects in memory; they are modelled by \<open>nat\<close>.
  The 64-bit bound is written out where the code relies on it.
\<close>

type_synonym usize = nat

definition usize_MAX :: usize where
  "usize_MAX = 2 ^ 64 - 1"

text \<open>\<open>checked_add\<close>, \<open>checked_sub\<close> and \<open>saturating_add\<close> of the unsigned integer types.\<close>

definition checked_add :: "'a :: len word \<Rightarrow> 'a word \<Rightarrow> 'a word option" where
  "checked_add a b = (if unat a + unat b < 2 ^ LENGTH('a) then Some (a + b) else None)"

definition checked_sub :: "'a :: len word \<Rightarrow> 'a word \<Rightarrow> 'a word option" where
  "checked_sub a b = (if b \<le> a then Some (a - b) else None)"

definition saturating_add :: "'a :: len word \<Rightarrow> 'a word \<Rightarrow> 'a word" where
  "saturating_add a b = (case checked_add a b of Some c \<Rightarrow> c | None \<Rightarrow> - 1)"

text \<open>Collections: \<open>res\<close> for the result monad, \<open>bytes\<close> for byte-level decoding.\<close>

named_theorems res_simps
named_theorems byte_simps

section \<open>Results and stateful results\<close>

text \<open>
  A fallible operation returns \<open>Inl e\<close> for \<open>Err(e)\<close> and \<open>Inr a\<close> for \<open>Ok(a)\<close>. An operation
  that talks to the operating system also threads its state \<open>'k\<close>, which persists on errors.
\<close>

type_synonym ('k, 'e, 'a) io = "'k \<Rightarrow> ('e + 'a) \<times> 'k"

definition io_return :: "'a \<Rightarrow> ('k, 'e, 'a) io" where
  "io_return a = (\<lambda>k. (Inr a, k))"

definition io_throw :: "'e \<Rightarrow> ('k, 'e, 'a) io" where
  "io_throw e = (\<lambda>k. (Inl e, k))"

text \<open>\<open>let x = m?; f(x)\<close>\<close>

definition io_bind :: "('k, 'e, 'a) io \<Rightarrow> ('a \<Rightarrow> ('k, 'e, 'b) io) \<Rightarrow> ('k, 'e, 'b) io" where
  "io_bind m f = (\<lambda>k. case m k of (Inl e, k') \<Rightarrow> (Inl e, k') | (Inr a, k') \<Rightarrow> f a k')"

text \<open>\<open>m.map_err(f)\<close>\<close>

definition io_map_err :: "('e \<Rightarrow> 'f) \<Rightarrow> ('k, 'e, 'a) io \<Rightarrow> ('k, 'f, 'a) io" where
  "io_map_err f m = (\<lambda>k. case m k of (Inl e, k') \<Rightarrow> (Inl (f e), k') | (Inr a, k') \<Rightarrow> (Inr a, k'))"

text \<open>A result that does not touch the operating system.\<close>

definition io_lift :: "'e + 'a \<Rightarrow> ('k, 'e, 'a) io" where
  "io_lift r = (\<lambda>k. (r, k))"

text \<open>\<open>m\<close> observed as a value: the caller inspects the result itself.\<close>

definition io_attempt :: "('k, 'e, 'a) io \<Rightarrow> ('k, 'f, 'e + 'a) io" where
  "io_attempt m = (\<lambda>k. case m k of (r, k') \<Rightarrow> (Inr r, k'))"

definition res_bind :: "'e + 'a \<Rightarrow> ('a \<Rightarrow> 'e + 'b) \<Rightarrow> 'e + 'b" where
  "res_bind r f = (case r of Inl e \<Rightarrow> Inl e | Inr a \<Rightarrow> f a)"

definition res_ok :: "'e + 'a \<Rightarrow> 'a option" where
  "res_ok r = (case r of Inl _ \<Rightarrow> None | Inr a \<Rightarrow> Some a)"

definition res_err :: "'e + 'a \<Rightarrow> 'e option" where
  "res_err r = (case r of Inl e \<Rightarrow> Some e | Inr _ \<Rightarrow> None)"

definition ok_or :: "'a option \<Rightarrow> 'e \<Rightarrow> 'e + 'a" where
  "ok_or x e = (case x of None \<Rightarrow> Inl e | Some a \<Rightarrow> Inr a)"

definition opt_or :: "'a option \<Rightarrow> 'a option \<Rightarrow> 'a option" where
  "opt_or x y = (case x of None \<Rightarrow> y | Some a \<Rightarrow> Some a)"

definition unwrap_or :: "'a option \<Rightarrow> 'a \<Rightarrow> 'a" where
  "unwrap_or x d = (case x of None \<Rightarrow> d | Some a \<Rightarrow> a)"

section \<open>Vec operations\<close>

text \<open>\<open>iter().position(p)\<close>\<close>

fun position :: "('a \<Rightarrow> bool) \<Rightarrow> 'a list \<Rightarrow> nat option" where
  "position p [] = None"
| "position p (x # xs) = (if p x then Some 0 else map_option Suc (position p xs))"

text \<open>\<open>Vec::swap_remove\<close>: the last element takes the place of the removed one.\<close>

definition swap_remove :: "'a list \<Rightarrow> nat \<Rightarrow> 'a list" where
  "swap_remove xs i = (if i = length xs - 1 then butlast xs else butlast (xs[i := last xs]))"

text \<open>\<open>Vec::remove\<close> and \<open>Vec::insert\<close>: the tail is shifted.\<close>

definition vec_remove :: "'a list \<Rightarrow> nat \<Rightarrow> 'a list" where
  "vec_remove xs i = take i xs @ drop (Suc i) xs"

definition vec_insert :: "'a list \<Rightarrow> nat \<Rightarrow> 'a \<Rightarrow> 'a list" where
  "vec_insert xs i x = take i xs @ x # drop i xs"

text \<open>\<open>iter_mut().find(p)\<close> followed by an update of the element found.\<close>

fun update_first :: "('a \<Rightarrow> bool) \<Rightarrow> ('a \<Rightarrow> 'a) \<Rightarrow> 'a list \<Rightarrow> 'a list" where
  "update_first p f [] = []"
| "update_first p f (x # xs) = (if p x then f x # xs else x # update_first p f xs)"

section \<open>Bounded filtering loops\<close>

text \<open>
  The receive functions share a loop: read, return on a verdict, otherwise count the filtered
  read and give up once \<open>limit\<close> reads were filtered. \<open>budget_exhausted\<close> is the shared body of
  \<open>filtered_receive_budget_exhausted\<close> and \<open>raw_filter_budget_exhausted\<close>: the incremented counter
  and whether it reached the limit. The loop body yields \<open>Some r\<close> where the source returns \<open>r\<close>
  and \<open>None\<close> where it goes on to the budget check.
\<close>

definition budget_exhausted :: "usize \<Rightarrow> usize \<Rightarrow> usize \<times> bool" where
  "budget_exhausted limit filtered = (Suc filtered, limit \<le> Suc filtered)"

function filtered_loop ::
  "usize \<Rightarrow> 'r \<Rightarrow> ('k \<Rightarrow> 'r option \<times> 'k) \<Rightarrow> usize \<Rightarrow> 'k \<Rightarrow> 'r \<times> 'k" where
  "filtered_loop limit gave_up body filtered k =
     (case body k of
        (Some r, k') \<Rightarrow> (r, k')
      | (None, k') \<Rightarrow>
          (case budget_exhausted limit filtered of
             (filtered', True) \<Rightarrow> (gave_up, k')
           | (filtered', False) \<Rightarrow> filtered_loop limit gave_up body filtered' k'))"
  by pat_completeness auto
termination
  by (relation "measure (\<lambda>(limit, g, b, filtered, k). limit - filtered)")
     (auto simp: budget_exhausted_def)

declare filtered_loop.simps [simp del]

section \<open>Decimal formatting\<close>

fun dec_digits :: "nat \<Rightarrow> string" where
  "dec_digits n =
     (if n < 10 then [char_of (48 + n)] else dec_digits (n div 10) @ [char_of (48 + n mod 10)])"

declare dec_digits.simps [simp del]

section \<open>Lemmas on results\<close>

lemma io_return_run [simp]: "io_return a k = (Inr a, k)"
  by (simp add: io_return_def)

lemma io_throw_run [simp]: "io_throw e k = (Inl e, k)"
  by (simp add: io_throw_def)

lemma io_lift_run [simp]: "io_lift r k = (r, k)"
  by (simp add: io_lift_def)

lemma io_bind_Inr [res_simps]: "m k = (Inr a, k') \<Longrightarrow> io_bind m f k = f a k'"
  by (simp add: io_bind_def)

lemma io_bind_Inl [res_simps]: "m k = (Inl e, k') \<Longrightarrow> io_bind m f k = (Inl e, k')"
  by (simp add: io_bind_def)

lemma io_bind_eq_Inr:
  "io_bind m f k = (Inr b, k'') \<longleftrightarrow> (\<exists>a k'. m k = (Inr a, k') \<and> f a k' = (Inr b, k''))"
  by (auto simp: io_bind_def split: prod.splits sum.splits)

lemma io_bind_eq_Inl:
  "io_bind m f k = (Inl e, k'') \<longleftrightarrow>
     m k = (Inl e, k'') \<or> (\<exists>a k'. m k = (Inr a, k') \<and> f a k' = (Inl e, k''))"
  by (auto simp: io_bind_def split: prod.splits sum.splits)

lemma io_map_err_eq_Inr: "io_map_err g m k = (Inr a, k') \<longleftrightarrow> m k = (Inr a, k')"
  by (auto simp: io_map_err_def split: prod.splits sum.splits)

lemma io_map_err_eq_Inl:
  "io_map_err g m k = (Inl e, k') \<longleftrightarrow> (\<exists>e'. m k = (Inl e', k') \<and> e = g e')"
  by (auto simp: io_map_err_def split: prod.splits sum.splits)

lemmas io_eqs = io_bind_eq_Inr io_bind_eq_Inl io_map_err_eq_Inr io_map_err_eq_Inl

text \<open>The monad laws, which rewrite a sequence of calls to its first call that matters.\<close>

lemma io_laws [res_simps]:
  "io_bind (io_return a) f = f a"
  "io_bind (io_throw e) g = io_throw e"
  "io_bind (io_lift (Inr a)) f = f a"
  "io_bind (io_lift (Inl e)) g = io_throw e"
  "io_bind (io_bind m f) h = io_bind m (\<lambda>a. io_bind (f a) h)"
  "io_map_err w (io_throw e') = io_throw (w e')"
  by (auto simp: io_bind_def io_map_err_def io_return_def io_throw_def io_lift_def fun_eq_iff
      split: prod.splits sum.splits)

lemma ok_or_eq [simp]:
  "ok_or x e = Inr a \<longleftrightarrow> x = Some a"
  "ok_or x e = Inl e' \<longleftrightarrow> x = None \<and> e' = e"
  by (auto simp: ok_or_def split: option.splits)

lemma run_eq: "fst x = r \<Longrightarrow> x = (r, snd x)"
  by (simp add: prod_eq_iff)

lemma unit_sum_cases: "(r :: 'e + unit) = Inr () \<or> (\<exists>e. r = Inl e)"
  by (cases r) auto

section \<open>Lemmas on machine integers\<close>

lemma checked_add_Some:
  "checked_add a b = Some c \<longleftrightarrow> unat a + unat b < 2 ^ LENGTH('a) \<and> c = (a :: 'a :: len word) + b"
  by (auto simp: checked_add_def)

lemma checked_add_unat: "checked_add a b = Some c \<Longrightarrow> unat c = unat a + unat b"
  by (auto simp: checked_add_Some unat_word_ariths)

lemma checked_sub_Some:
  "checked_sub a b = Some c \<longleftrightarrow> unat b \<le> unat a \<and> unat c = unat a - unat b"
proof
  assume "checked_sub a b = Some c"
  then show "unat b \<le> unat a \<and> unat c = unat a - unat b"
    by (auto simp: checked_sub_def word_le_nat_alt unat_sub split: if_splits)
next
  assume c: "unat b \<le> unat a \<and> unat c = unat a - unat b"
  then have "unat c = unat (a - b)" by (simp add: word_le_nat_alt unat_sub)
  then have "c = a - b" by (rule word_unat_eq_iff [THEN iffD2])
  with c show "checked_sub a b = Some c" by (simp add: checked_sub_def word_le_nat_alt)
qed

lemma unat_and_not_mask: "unat ((w :: 'a :: len word) AND NOT (mask n)) = unat w div 2 ^ n * 2 ^ n"
proof -
  have eq: "w AND NOT (mask n) = push_bit n (drop_bit n w)"
    by (rule bit_word_eqI) (auto simp: bit_simps)
  have "push_bit n (drop_bit n w) + take_bit n w = w" by (rule bits_ident)
  then have "push_bit n (drop_bit n w) = w - take_bit n w" by (metis add_diff_cancel_right')
  moreover have m: "unat (take_bit n w) = unat w mod 2 ^ n"
    by (simp add: unsigned_take_bit_eq) (simp add: take_bit_eq_mod)
  moreover have "take_bit n w \<le> w"
    using m by (simp add: word_le_nat_alt)
  ultimately have "unat (push_bit n (drop_bit n w)) = unat w - unat w mod 2 ^ n"
    by (simp add: unat_sub)
  then show ?thesis unfolding eq by (simp add: minus_mod_eq_div_mult)
qed

lemma unat_of_nat_u64: "n < 2 ^ 64 \<Longrightarrow> unat (of_nat n :: u64) = n"
  by (simp add: unsigned_of_nat take_bit_nat_eq_self)

section \<open>Lemmas on vectors\<close>

lemma position_None [simp]: "position p xs = None \<longleftrightarrow> (\<forall>x \<in> set xs. \<not> p x)"
  by (induction xs) auto

lemma position_Some:
  "position p xs = Some i \<Longrightarrow> i < length xs \<and> p (xs ! i) \<and> (\<forall>j < i. \<not> p (xs ! j))"
proof (induction xs arbitrary: i)
  case (Cons x xs)
  then show ?case
    by (cases i) (auto split: if_splits simp: nth_Cons split: nat.splits)
qed simp

lemma find_Some_position: "find p xs = map_option (\<lambda>i. xs ! i) (position p xs)"
  by (induction xs) (auto simp: option.map_comp comp_def)

lemma length_update_first [simp]: "length (update_first p f xs) = length xs"
  by (induction xs) auto

lemma map_update_first:
  "(\<And>x. x \<in> set xs \<Longrightarrow> p x \<Longrightarrow> g (f x) = g x) \<Longrightarrow> map g (update_first p f xs) = map g xs"
  by (induction xs) auto

lemma find_update_first:
  "(\<And>x. p x \<Longrightarrow> p (f x)) \<Longrightarrow> find p (update_first p f xs) = map_option f (find p xs)"
  by (induction xs) auto

lemma find_update_first_other:
  "(\<And>x. p x \<Longrightarrow> \<not> q x \<and> \<not> q (f x)) \<Longrightarrow> find q (update_first p f xs) = find q xs"
  by (induction xs) auto

lemma length_swap_remove [simp]: "length (swap_remove xs i) = length xs - 1"
  by (simp add: swap_remove_def)

lemma mset_swap_remove_aux:
  assumes "i < length xs" and "i \<noteq> length xs - 1"
  shows "\<exists>ys zs. xs = ys @ xs ! i # zs @ [last xs] \<and> swap_remove xs i = ys @ last xs # zs"
proof -
  from assms have ne: "xs \<noteq> []" by auto
  then have xs: "xs = butlast xs @ [last xs]" by simp
  let ?b = "butlast xs"
  from assms have i: "i < length ?b" by simp
  then have b: "?b = take i ?b @ ?b ! i # drop (Suc i) ?b" by (rule id_take_nth_drop)
  have bi: "?b ! i = xs ! i" using i by (simp add: nth_butlast)
  have 1: "xs = take i ?b @ xs ! i # drop (Suc i) ?b @ [last xs]"
    using xs b bi by (metis append_Cons append_assoc)
  have "swap_remove xs i = ?b[i := last xs]"
    using assms i by (simp add: swap_remove_def butlast_list_update)
  also have "\<dots> = take i ?b @ last xs # drop (Suc i) ?b"
    using i by (rule upd_conv_take_nth_drop)
  finally show ?thesis using 1 by blast
qed

lemma swap_remove_split:
  assumes "i < length xs"
  obtains (last) "xs = swap_remove xs i @ [xs ! i]"
  | (middle) ys zs where "xs = ys @ xs ! i # zs @ [last xs]" "swap_remove xs i = ys @ last xs # zs"
proof (cases "i = length xs - 1")
  case True
  then have "xs ! i = List.last xs" using assms by (metis last_conv_nth length_0_conv not_less_zero)
  then have "xs = swap_remove xs i @ [xs ! i]"
    using True assms by (metis append_butlast_last_id length_0_conv not_less_zero swap_remove_def)
  then show thesis by (rule that(1))
next
  case False
  with assms mset_swap_remove_aux [of i xs] that(2) show thesis by blast
qed

lemma set_swap_remove:
  assumes "distinct (map g xs)" and "i < length xs"
  shows "set (swap_remove xs i) = {x \<in> set xs. g x \<noteq> g (xs ! i)}"
  using assms(2)
proof (cases rule: swap_remove_split)
  case last
  then obtain ys where ys: "xs = ys @ [xs ! i]" "swap_remove xs i = ys" by blast
  from assms(1) have "distinct (map g (ys @ [xs ! i]))" using ys(1) by metis
  moreover have "set xs = set (ys @ [xs ! i])" using ys(1) by metis
  ultimately show ?thesis using ys(2) by (auto intro: rev_image_eqI)
next
  case (middle ys zs)
  have "distinct (map g (ys @ xs ! i # zs @ [List.last xs]))"
    using assms(1) middle(1) by metis
  moreover have "set xs = set (ys @ xs ! i # zs @ [List.last xs])" using middle(1) by metis
  ultimately show ?thesis using middle(2) by (auto simp: image_iff)
qed

lemma distinct_swap_remove:
  assumes "distinct (map g xs)" and "i < length xs"
  shows "distinct (map g (swap_remove xs i))"
  using assms(2)
proof (cases rule: swap_remove_split)
  case last
  then have "map g xs = map g (swap_remove xs i) @ [g (xs ! i)]"
    by (metis list.map(1) list.map(2) map_append)
  then show ?thesis using assms(1) by (metis distinct_append)
next
  case (middle ys zs)
  have "distinct (map g (ys @ xs ! i # zs @ [List.last xs]))"
    using assms(1) middle(1) by metis
  then show ?thesis using middle(2) by auto
qed

lemma find_distinct:
  assumes "distinct (map g xs)" and "x \<in> set xs"
  shows "find (\<lambda>y. g y = g x) xs = Some x"
  using assms by (induction xs) (auto simp: rev_image_eqI)

lemma find_None_key: "find (\<lambda>y. g y = v) xs = None \<longleftrightarrow> v \<notin> g ` set xs"
  by (auto simp: find_None_iff)

section \<open>Lemmas on bounded filtering loops\<close>

text \<open>The state after \<open>n\<close> runs of the loop body.\<close>

definition runs :: "('k \<Rightarrow> 'r option \<times> 'k) \<Rightarrow> nat \<Rightarrow> 'k \<Rightarrow> 'k" where
  "runs body n = (snd \<circ> body) ^^ n"

lemma runs_0 [simp]: "runs body 0 k = k"
  by (simp add: runs_def)

lemma runs_Suc: "runs body (Suc n) k = runs body n (snd (body k))"
  by (simp add: runs_def funpow_swap1)

text \<open>
  The loop runs its body at least once and at most \<open>limit - filtered\<close> times; every run but the
  last is filtered; and the result is the verdict of the last run, or \<open>gave_up\<close> when the whole
  budget was filtered.
\<close>

lemma filtered_loop_runs:
  assumes "filtered < limit"
  shows "\<exists>n. 0 < n \<and> n \<le> limit - filtered \<and>
     (\<forall>i < n - 1. fst (body (runs body i k)) = None) \<and>
     snd (filtered_loop limit gave_up body filtered k) = runs body n k \<and>
     (case fst (body (runs body (n - 1) k)) of
        Some r \<Rightarrow> fst (filtered_loop limit gave_up body filtered k) = r
      | None \<Rightarrow> n = limit - filtered \<and> fst (filtered_loop limit gave_up body filtered k) = gave_up)"
  using assms
proof (induction limit gave_up body filtered k rule: filtered_loop.induct)
  case (1 limit gave_up body filtered k)
  note step = filtered_loop.simps [of limit gave_up body filtered k]
  obtain v k' where b: "body k = (v, k')" by fastforce
  show ?case
  proof (cases v)
    case (Some r)
    then show ?thesis using 1(2) b
      by (intro exI [of _ "1::nat"]) (auto simp: step runs_Suc)
  next
    case None
    show ?thesis
    proof (cases "limit \<le> Suc filtered")
      case True
      then show ?thesis using 1(2) b None
        by (intro exI [of _ "1::nat"]) (auto simp: step runs_Suc budget_exhausted_def)
    next
      case False
      have eq: "filtered_loop limit gave_up body filtered k =
          filtered_loop limit gave_up body (Suc filtered) k'"
        using b None False by (simp add: step budget_exhausted_def)
      have run: "runs body (Suc m) k = runs body m k'" for m using b by (simp add: runs_Suc)
      have "\<exists>n. 0 < n \<and> n \<le> limit - Suc filtered \<and>
         (\<forall>i < n - 1. fst (body (runs body i k')) = None) \<and>
         snd (filtered_loop limit gave_up body (Suc filtered) k') = runs body n k' \<and>
         (case fst (body (runs body (n - 1) k')) of
            Some r \<Rightarrow> fst (filtered_loop limit gave_up body (Suc filtered) k') = r
          | None \<Rightarrow> n = limit - Suc filtered \<and>
              fst (filtered_loop limit gave_up body (Suc filtered) k') = gave_up)"
        using 1(1) [OF b [symmetric, unfolded None], of "Suc filtered" False] None False
        by (simp add: budget_exhausted_def)
      then obtain n where n: "0 < n" "n \<le> limit - Suc filtered"
        "\<forall>i < n - 1. fst (body (runs body i k')) = None"
        "snd (filtered_loop limit gave_up body (Suc filtered) k') = runs body n k'"
        "case fst (body (runs body (n - 1) k')) of
            Some r \<Rightarrow> fst (filtered_loop limit gave_up body (Suc filtered) k') = r
          | None \<Rightarrow> n = limit - Suc filtered \<and>
              fst (filtered_loop limit gave_up body (Suc filtered) k') = gave_up" by blast
      have first: "\<forall>i < n. fst (body (runs body i k)) = None"
      proof (intro allI impI)
        fix i assume "i < n"
        then show "fst (body (runs body i k)) = None"
          using n(3) b None by (cases i) (auto simp: run)
      qed
      have last: "runs body n k = runs body (n - 1) k'" using n(1) by (cases n) (auto simp: run)
      show ?thesis
        using n first last False
        by (intro exI [of _ "Suc n"]) (auto simp: eq run split: option.splits)
    qed
  qed
qed

text \<open>Any verdict of the loop is a verdict of its body, in some state the loop reached.\<close>

lemma filtered_loop_verdict:
  assumes "filtered_loop limit gave_up body filtered k = (r, k')" and "r \<noteq> gave_up"
  shows "\<exists>k0 k1. body k0 = (Some r, k1)"
  using assms
proof (induction limit gave_up body filtered k rule: filtered_loop.induct)
  case (1 limit gave_up body filtered k)
  from "1.prems" show ?case
    using "1.IH" filtered_loop.simps [of limit gave_up body filtered k]
    by (fastforce simp: budget_exhausted_def split: prod.splits option.splits bool.splits if_splits)
qed

end
