(* ===== verification/Net.thy ===== *)
theory Net
  imports Prelude
begin

text \<open>
  The part of \<open>std::net\<close> and \<open>std::io\<close> that the sources use: IP and socket addresses, their
  classification predicates, \<open>io::Error\<close> with its kind, and the error type \<open>McrxError\<close> of
  \<open>src/error.rs\<close> with its \<open>Display\<close> text.
\<close>

unbundle bit_operations_syntax

section \<open>Addresses\<close>

text \<open>
  Four octets in network order; an IPv6 address is four such groups, which is the grouping
  (\<open>chunks_exact(4)\<close>) in which the packet filters compare it.
\<close>

datatype quad = Quad u8 u8 u8 u8

type_synonym ipv4_addr = quad

datatype ipv6_addr = Ipv6Addr quad quad quad quad

datatype ip_addr = V4 ipv4_addr | V6 ipv6_addr

datatype socket_addr =
    SocketAddrV4 ipv4_addr u16
  | SocketAddrV6 ipv6_addr u16 u32 u32

fun quad_octets :: "quad \<Rightarrow> u8 list" where
  "quad_octets (Quad a b c d) = [a, b, c, d]"

fun ipv6_quads :: "ipv6_addr \<Rightarrow> quad list" where
  "ipv6_quads (Ipv6Addr p q r s) = [p, q, r, s]"

definition ipv6_octets :: "ipv6_addr \<Rightarrow> u8 list" where
  "ipv6_octets a = concat (map quad_octets (ipv6_quads a))"

fun ip_quads :: "ip_addr \<Rightarrow> quad list" where
  "ip_quads (V4 a) = [a]"
| "ip_quads (V6 a) = ipv6_quads a"

definition ip_octets :: "ip_addr \<Rightarrow> u8 list" where
  "ip_octets a = concat (map quad_octets (ip_quads a))"

text \<open>\<open>u16::from_be_bytes\<close> and \<open>u32::from_be_bytes\<close>\<close>

definition u16_from_be_bytes :: "u8 \<Rightarrow> u8 \<Rightarrow> u16" where
  "u16_from_be_bytes a b = push_bit 8 (ucast a) OR ucast b"

fun u32_from_be_bytes :: "quad \<Rightarrow> u32" where
  "u32_from_be_bytes (Quad a b c d) =
     push_bit 24 (ucast a) OR push_bit 16 (ucast b) OR push_bit 8 (ucast c) OR ucast d"

definition ipv4_UNSPECIFIED :: ipv4_addr where
  "ipv4_UNSPECIFIED = Quad 0 0 0 0"

definition ipv6_UNSPECIFIED :: ipv6_addr where
  "ipv6_UNSPECIFIED = Ipv6Addr (Quad 0 0 0 0) (Quad 0 0 0 0) (Quad 0 0 0 0) (Quad 0 0 0 0)"

fun ipv4_is_multicast :: "ipv4_addr \<Rightarrow> bool" where
  "ipv4_is_multicast (Quad a b c d) \<longleftrightarrow> 224 \<le> a \<and> a \<le> 239"

fun ipv6_is_multicast :: "ipv6_addr \<Rightarrow> bool" where
  "ipv6_is_multicast (Ipv6Addr (Quad a b c d) q r s) \<longleftrightarrow> a = 0xff"

fun ip_is_multicast :: "ip_addr \<Rightarrow> bool" where
  "ip_is_multicast (V4 a) = ipv4_is_multicast a"
| "ip_is_multicast (V6 a) = ipv6_is_multicast a"

definition ipv4_is_unspecified :: "ipv4_addr \<Rightarrow> bool" where
  "ipv4_is_unspecified a \<longleftrightarrow> a = ipv4_UNSPECIFIED"

definition ipv4_is_broadcast :: "ipv4_addr \<Rightarrow> bool" where
  "ipv4_is_broadcast a \<longleftrightarrow> a = Quad 255 255 255 255"

definition ipv6_is_unspecified :: "ipv6_addr \<Rightarrow> bool" where
  "ipv6_is_unspecified a \<longleftrightarrow> a = ipv6_UNSPECIFIED"

fun sa_ip :: "socket_addr \<Rightarrow> ip_addr" where
  "sa_ip (SocketAddrV4 a p) = V4 a"
| "sa_ip (SocketAddrV6 a p f s) = V6 a"

fun sa_port :: "socket_addr \<Rightarrow> u16" where
  "sa_port (SocketAddrV4 a p) = p"
| "sa_port (SocketAddrV6 a p f s) = p"

section \<open>Input/output errors\<close>

datatype error_kind =
    WouldBlock | Unsupported | PermissionDenied | KindNotFound | InvalidData | InvalidInput
  | UnexpectedEof | KindOther | OtherKind nat

text \<open>An error reported by the operating system with its code, or one built by the library.\<close>

datatype io_error = OsError error_kind int | CustomError error_kind string

fun err_kind :: "io_error \<Rightarrow> error_kind" where
  "err_kind (OsError k c) = k"
| "err_kind (CustomError k m) = k"

fun raw_os_error :: "io_error \<Rightarrow> int option" where
  "raw_os_error (OsError k c) = Some c"
| "raw_os_error (CustomError k m) = None"

section \<open>The error type of the library\<close>

datatype mcrx_error =
    InvalidDestinationPort
  | InvalidMulticastGroup
  | SsmGroupRequiresSource
  | InvalidSourceAddress
  | InvalidIpv6SsmGroup
  | InvalidIpv4SsmGroup
  | SourceAddressFamilyMismatch
  | InterfaceAddressFamilyMismatch
  | InvalidInterfaceIndex
  | InterfaceIndexRequiresIpv6
  | DuplicateSubscription
  | SubscriptionNotFound
  | SubscriptionNotJoined
  | SubscriptionAlreadyJoined
  | SocketCreateFailed io_error
  | SocketOptionFailed io_error
  | SocketBindFailed io_error
  | RawSocketCreateFailed io_error
  | RawSocketBindFailed io_error
  | RawPacketReceiveUnsupported string
  | InvalidSharedRawCaptureLimits
  | SharedRawCaptureSubscriptionLimitExceeded usize
  | Ipv6NotYetImplemented
  | InvalidSubscriptionAddressFamily
  | ReceiveSocketSetupFailed string
  | ReceiveMetadataUnavailable
  | SocketLocalAddrFailed io_error
  | SocketIoctlFailed io_error
  | ExistingSocketAddressFamilyMismatch
  | ExistingSocketPortMismatch u16 u16
  | MulticastJoinFailed io_error
  | MulticastLeaveFailed io_error
  | SourceSpecificMulticastUnsupported
  | Ipv6SourceSpecificMulticastRequiresInterface
  | Ipv6SourceSpecificMulticastNotYetImplemented
  | InterfaceProbeBindFailed io_error
  | InterfaceProbeConnectFailed io_error
  | InterfaceProbeLocalAddrFailed io_error
  | InterfaceDiscoveryFailed string
  | NonIpSocketAddress
  | ReceiveFailed io_error

text \<open>
  The \<open>Display\<close> text from the \<open>#[error]\<close> attributes. How an \<open>io::Error\<close> prints is the
  platform's business and is the argument \<open>show\<close>.
\<close>

primrec mcrx_error_display :: "(io_error \<Rightarrow> string) \<Rightarrow> mcrx_error \<Rightarrow> string" where
  "mcrx_error_display show InvalidDestinationPort = ''MCRX: invalid destination port''"
| "mcrx_error_display show InvalidMulticastGroup = ''MCRX: group must be a multicast IP address''"
| "mcrx_error_display show SsmGroupRequiresSource =
     ''MCRX: SSM-range multicast groups require a source address''"
| "mcrx_error_display show InvalidSourceAddress = ''MCRX: invalid source address''"
| "mcrx_error_display show InvalidIpv6SsmGroup =
     ''MCRX: IPv6 SSM groups must use the ff3x:: prefix''"
| "mcrx_error_display show InvalidIpv4SsmGroup =
     ''MCRX: IPv4 SSM groups must use the 232.0.0.0/8 range''"
| "mcrx_error_display show SourceAddressFamilyMismatch =
     ''MCRX: source address family must match group address family''"
| "mcrx_error_display show InterfaceAddressFamilyMismatch =
     ''MCRX: interface address family must match group address family''"
| "mcrx_error_display show InvalidInterfaceIndex =
     ''MCRX: interface index must be greater than 0''"
| "mcrx_error_display show InterfaceIndexRequiresIpv6 =
     ''MCRX: interface index is only supported for IPv6 subscriptions''"
| "mcrx_error_display show DuplicateSubscription = ''MCRX: subscription already exists''"
| "mcrx_error_display show SubscriptionNotFound = ''MCRX: subscription not found''"
| "mcrx_error_display show SubscriptionNotJoined = ''MCRX: subscription not joined''"
| "mcrx_error_display show SubscriptionAlreadyJoined = ''MCRX: subscription already joined''"
| "mcrx_error_display show (SocketCreateFailed e) =
     ''MCRX: failed to create UDP socket: '' @ show e"
| "mcrx_error_display show (SocketOptionFailed e) =
     ''MCRX: failed to set socket option: '' @ show e"
| "mcrx_error_display show (SocketBindFailed e) =
     ''MCRX: failed to bind UDP socket: '' @ show e"
| "mcrx_error_display show (RawSocketCreateFailed e) =
     ''MCRX: failed to create raw receive socket: '' @ show e"
| "mcrx_error_display show (RawSocketBindFailed e) =
     ''MCRX: failed to bind raw receive socket: '' @ show e"
| "mcrx_error_display show (RawPacketReceiveUnsupported m) =
     ''MCRX: raw multicast receive is not supported on this platform: '' @ m"
| "mcrx_error_display show InvalidSharedRawCaptureLimits =
     ''MCRX: shared raw capture limits must be greater than zero''"
| "mcrx_error_display show (SharedRawCaptureSubscriptionLimitExceeded limit) =
     ''MCRX: shared raw capture subscription limit of '' @ dec_digits limit @ '' reached''"
| "mcrx_error_display show Ipv6NotYetImplemented =
     ''MCRX: requested IPv6 functionality is not implemented yet''"
| "mcrx_error_display show InvalidSubscriptionAddressFamily =
     ''MCRX: invalid subscription address-family combination''"
| "mcrx_error_display show (ReceiveSocketSetupFailed m) =
     ''MCRX: receive socket setup failed: '' @ m"
| "mcrx_error_display show ReceiveMetadataUnavailable =
     ''MCRX: receive packet did not include destination address metadata''"
| "mcrx_error_display show (SocketLocalAddrFailed e) =
     ''MCRX: failed to read local address from existing socket: '' @ show e"
| "mcrx_error_display show (SocketIoctlFailed e) =
     ''MCRX: failed to look up socket extension function: '' @ show e"
| "mcrx_error_display show ExistingSocketAddressFamilyMismatch =
     ''MCRX: existing socket address family does not match the subscription configuration''"
| "mcrx_error_display show (ExistingSocketPortMismatch expected actual) =
     ''MCRX: existing socket is bound to UDP port '' @ dec_digits (unat actual) @
     '', expected '' @ dec_digits (unat expected)"
| "mcrx_error_display show (MulticastJoinFailed e) =
     ''MCRX: failed to join multicast group: '' @ show e"
| "mcrx_error_display show (MulticastLeaveFailed e) =
     ''MCRX: failed to leave multicast group: '' @ show e"
| "mcrx_error_display show SourceSpecificMulticastUnsupported =
     ''MCRX: source-specific multicast is not supported on this platform''"
| "mcrx_error_display show Ipv6SourceSpecificMulticastRequiresInterface =
     ''MCRX: IPv6 source-specific multicast requires an explicit interface address or interface index''"
| "mcrx_error_display show Ipv6SourceSpecificMulticastNotYetImplemented =
     ''MCRX: IPv6 source-specific multicast is not implemented yet''"
| "mcrx_error_display show (InterfaceProbeBindFailed e) =
     ''MCRX: failed to bind interface probe socket: '' @ show e"
| "mcrx_error_display show (InterfaceProbeConnectFailed e) =
     ''MCRX: failed to connect interface probe socket: '' @ show e"
| "mcrx_error_display show (InterfaceProbeLocalAddrFailed e) =
     ''MCRX: failed to read local address from interface probe socket: '' @ show e"
| "mcrx_error_display show (InterfaceDiscoveryFailed m) =
     ''MCRX: failed to discover local interface: '' @ m"
| "mcrx_error_display show NonIpSocketAddress =
     ''MCRX: received packet from non-IP socket address''"
| "mcrx_error_display show (ReceiveFailed e) = ''MCRX: receive failed: '' @ show e"

section \<open>Lemmas\<close>

lemma quad_octets_inject: "quad_octets p = quad_octets q \<longleftrightarrow> p = q"
  by (cases p; cases q) simp

lemma length_quad_octets [simp]: "length (quad_octets q) = 4"
  by (cases q) simp

lemma length_ipv6_octets: "length (ipv6_octets a) = 16"
  by (cases a) (simp add: ipv6_octets_def)

lemma ipv6_octets_inject: "ipv6_octets a = ipv6_octets b \<longleftrightarrow> a = b"
proof -
  obtain p q r s where a: "a = Ipv6Addr p q r s" by (cases a)
  obtain p' q' r' s' where b: "b = Ipv6Addr p' q' r' s'" by (cases b)
  show ?thesis
    by (cases p; cases q; cases r; cases s; cases p'; cases q'; cases r'; cases s')
       (auto simp: a b ipv6_octets_def)
qed

text \<open>Equality of big-endian words is equality of the octets.\<close>

lemma bit_u32_from_be_bytes:
  "bit (u32_from_be_bytes (Quad a b c d)) n \<longleftrightarrow>
     (n < 8 \<and> bit d n) \<or> (8 \<le> n \<and> n < 16 \<and> bit c (n - 8)) \<or>
     (16 \<le> n \<and> n < 24 \<and> bit b (n - 16)) \<or> (24 \<le> n \<and> n < 32 \<and> bit a (n - 24))"
  by (auto simp: bit_simps dest: bit_imp_le_length)

lemma u32_from_be_bytes_inject: "u32_from_be_bytes p = u32_from_be_bytes q \<longleftrightarrow> p = q"
proof
  assume eq: "u32_from_be_bytes p = u32_from_be_bytes q"
  obtain a b c d where p: "p = Quad a b c d" by (cases p)
  obtain a' b' c' d' where q: "q = Quad a' b' c' d'" by (cases q)
  have bits: "bit (u32_from_be_bytes (Quad a b c d)) n = bit (u32_from_be_bytes (Quad a' b' c' d')) n" for n
    using eq p q by simp
  have "d = d'"
  proof (rule bit_word_eqI)
    fix n assume "n < LENGTH(8)"
    then show "bit d n = bit d' n" using bits [of n] by (simp only: bit_u32_from_be_bytes) auto
  qed
  moreover have "c = c'"
  proof (rule bit_word_eqI)
    fix n assume "n < LENGTH(8)"
    then show "bit c n = bit c' n" using bits [of "n + 8"] by (simp only: bit_u32_from_be_bytes) auto
  qed
  moreover have "b = b'"
  proof (rule bit_word_eqI)
    fix n assume "n < LENGTH(8)"
    then show "bit b n = bit b' n" using bits [of "n + 16"] by (simp only: bit_u32_from_be_bytes) auto
  qed
  moreover have "a = a'"
  proof (rule bit_word_eqI)
    fix n assume "n < LENGTH(8)"
    then show "bit a n = bit a' n" using bits [of "n + 24"] by (simp only: bit_u32_from_be_bytes) auto
  qed
  ultimately show "p = q" by (simp add: p q)
qed simp

lemma u8_and_255 [simp]: "(x :: u8) AND 255 = x"
proof -
  have "(255 :: u8) = - 1" by simp
  then show ?thesis by (simp only: and.right_neutral)
qed

lemma unat_u8: "unat (x :: u8) < 256"
  using unsigned_less [of x] by simp

lemma unat_u16_from_be_bytes: "unat (u16_from_be_bytes a b) = 256 * unat a + unat b"
proof -
  have "push_bit 8 (ucast a :: u16) AND ucast b = 0"
    by (rule bit_word_eqI) (auto simp: bit_simps dest: bit_imp_le_length)
  then have "u16_from_be_bytes a b = push_bit 8 (ucast a) + ucast b"
    by (simp add: u16_from_be_bytes_def disjunctive_add_eq_or)
  also have "\<dots> = of_nat (256 * unat a + unat b)"
    by (simp add: push_bit_eq_mult)
  finally have "u16_from_be_bytes a b = of_nat (256 * unat a + unat b)" .
  moreover have "256 * unat a + unat b < 2 ^ LENGTH(16)"
    using unat_u8 [of a] unat_u8 [of b] by simp
  ultimately show ?thesis by (simp only: unsigned_of_nat take_bit_nat_eq_self of_nat_id)
qed

end
