(* ===== verification/Config.thy ===== *)
theory Config
  imports Net
begin

text \<open>
  \<open>src/config.rs\<close> and \<open>src/raw/config.rs\<close>: subscription configurations, their validation, and
  the membership views that the platform layer joins with. The lemmas say which
  configurations validation accepts, which error each rejected one gets, and that an accepted
  configuration always has the membership view of its address family.
\<close>

unbundle bit_operations_syntax

section \<open>Data\<close>

datatype subscription_address_family = Ipv4 | Ipv6

datatype source_filter = Any | Source ip_addr

record subscription_config =
  cfg_group :: ip_addr
  cfg_source :: source_filter
  cfg_dst_port :: u16
  cfg_interface :: "ip_addr option"
  cfg_interface_index :: "u32 option"

record ipv4_membership =
  m4_group :: ipv4_addr
  m4_source :: "ipv4_addr option"
  m4_interface :: "ipv4_addr option"

record ipv6_membership =
  m6_group :: ipv6_addr
  m6_source :: "ipv6_addr option"
  m6_interface :: "ipv6_addr option"
  m6_interface_index :: "u32 option"

record raw_subscription_config =
  rcfg_group :: ip_addr
  rcfg_source :: source_filter
  rcfg_interface :: "ip_addr option"
  rcfg_interface_index :: "u32 option"

section \<open>Validation\<close>

fun same_family :: "ip_addr \<Rightarrow> ip_addr \<Rightarrow> bool" where
  "same_family (V4 _) (V4 _) = True"
| "same_family (V6 _) (V6 _) = True"
| "same_family _ _ = False"

fun is_ipv4_ssm_group :: "ipv4_addr \<Rightarrow> bool" where
  "is_ipv4_ssm_group (Quad a b c d) \<longleftrightarrow> a = 232"

fun is_ipv6_ssm_group :: "ipv6_addr \<Rightarrow> bool" where
  "is_ipv6_ssm_group (Ipv6Addr (Quad a b c d) q r s) \<longleftrightarrow>
     a = 0xff \<and> drop_bit 4 b = 3 \<and> c = 0 \<and> d = 0"

fun is_valid_source_address :: "ip_addr \<Rightarrow> bool" where
  "is_valid_source_address (V4 s) \<longleftrightarrow>
     \<not> ipv4_is_unspecified s \<and> \<not> ipv4_is_multicast s \<and> \<not> ipv4_is_broadcast s"
| "is_valid_source_address (V6 s) \<longleftrightarrow> \<not> ipv6_is_unspecified s \<and> \<not> ipv6_is_multicast s"

definition group_is_ssm :: "ip_addr \<Rightarrow> bool" where
  "group_is_ssm grp = (case grp of V4 g \<Rightarrow> is_ipv4_ssm_group g | V6 g \<Rightarrow> is_ipv6_ssm_group g)"

definition validate_multicast_selection ::
  "ip_addr \<Rightarrow> source_filter \<Rightarrow> ip_addr option \<Rightarrow> u32 option \<Rightarrow> mcrx_error + unit" where
  "validate_multicast_selection grp source interface interface_index =
     (if \<not> ip_is_multicast grp then Inl InvalidMulticastGroup
      else if source = Any \<and> group_is_ssm grp then Inl SsmGroupRequiresSource
      else
        res_bind
          (case source of
             Any \<Rightarrow> Inr ()
           | Source src \<Rightarrow>
               (if \<not> is_valid_source_address src then Inl InvalidSourceAddress
                else if \<not> same_family grp src then Inl SourceAddressFamilyMismatch
                else
                  (case (grp, src) of
                     (V4 g, V4 _) \<Rightarrow> if \<not> is_ipv4_ssm_group g then Inl InvalidIpv4SsmGroup else Inr ()
                   | (V6 g, V6 _) \<Rightarrow> if \<not> is_ipv6_ssm_group g then Inl InvalidIpv6SsmGroup else Inr ()
                   | _ \<Rightarrow> Inr ())))
          (\<lambda>_.
        res_bind
          (case interface of
             Some i \<Rightarrow> if \<not> same_family grp i then Inl InterfaceAddressFamilyMismatch else Inr ()
           | None \<Rightarrow> Inr ())
          (\<lambda>_.
        (case interface_index of
           None \<Rightarrow> Inr ()
         | Some ix \<Rightarrow>
             (if ix = 0 then Inl InvalidInterfaceIndex
              else case grp of V6 _ \<Rightarrow> Inr () | V4 _ \<Rightarrow> Inl InterfaceIndexRequiresIpv6)))))"

definition validate :: "subscription_config \<Rightarrow> mcrx_error + unit" where
  "validate cfg =
     (if cfg_dst_port cfg = 0 then Inl InvalidDestinationPort
      else validate_multicast_selection (cfg_group cfg) (cfg_source cfg)
             (cfg_interface cfg) (cfg_interface_index cfg))"

definition family :: "subscription_config \<Rightarrow> subscription_address_family" where
  "family cfg = (case cfg_group cfg of V4 _ \<Rightarrow> Ipv4 | V6 _ \<Rightarrow> Ipv6)"

definition is_ipv4 :: "subscription_config \<Rightarrow> bool" where
  "is_ipv4 cfg \<longleftrightarrow> family cfg = Ipv4"

definition is_ipv6 :: "subscription_config \<Rightarrow> bool" where
  "is_ipv6 cfg \<longleftrightarrow> family cfg = Ipv6"

definition source_addr :: "subscription_config \<Rightarrow> ip_addr option" where
  "source_addr cfg = (case cfg_source cfg of Any \<Rightarrow> None | Source s \<Rightarrow> Some s)"

section \<open>Constructors\<close>

definition asm_ip :: "ip_addr \<Rightarrow> u16 \<Rightarrow> subscription_config" where
  "asm_ip grp port =
     \<lparr>cfg_group = grp, cfg_source = Any, cfg_dst_port = port,
      cfg_interface = None, cfg_interface_index = None\<rparr>"

definition asm :: "ipv4_addr \<Rightarrow> u16 \<Rightarrow> subscription_config" where
  "asm grp port = asm_ip (V4 grp) port"

definition asm_v6 :: "ipv6_addr \<Rightarrow> u16 \<Rightarrow> subscription_config" where
  "asm_v6 grp port = asm_ip (V6 grp) port"

definition ssm_ip :: "ip_addr \<Rightarrow> ip_addr \<Rightarrow> u16 \<Rightarrow> subscription_config" where
  "ssm_ip grp src port =
     \<lparr>cfg_group = grp, cfg_source = Source src, cfg_dst_port = port,
      cfg_interface = None, cfg_interface_index = None\<rparr>"

definition ssm :: "ipv4_addr \<Rightarrow> ipv4_addr \<Rightarrow> u16 \<Rightarrow> subscription_config" where
  "ssm grp src port = ssm_ip (V4 grp) (V4 src) port"

definition ssm_v6 :: "ipv6_addr \<Rightarrow> ipv6_addr \<Rightarrow> u16 \<Rightarrow> subscription_config" where
  "ssm_v6 grp src port = ssm_ip (V6 grp) (V6 src) port"

section \<open>Membership views\<close>

definition config_ipv4_membership :: "subscription_config \<Rightarrow> ipv4_membership option" where
  "config_ipv4_membership cfg =
     (case cfg_group cfg of
        V6 _ \<Rightarrow> None
      | V4 grp \<Rightarrow>
          Option.bind
            (case cfg_source cfg of
               Any \<Rightarrow> Some None | Source (V4 s) \<Rightarrow> Some (Some s) | Source (V6 _) \<Rightarrow> None)
            (\<lambda>src.
          Option.bind
            (case cfg_interface cfg of
               None \<Rightarrow> Some None | Some (V4 i) \<Rightarrow> Some (Some i) | Some (V6 _) \<Rightarrow> None)
            (\<lambda>interface.
          Some \<lparr>m4_group = grp, m4_source = src, m4_interface = interface\<rparr>)))"

definition config_ipv6_membership :: "subscription_config \<Rightarrow> ipv6_membership option" where
  "config_ipv6_membership cfg =
     (case cfg_group cfg of
        V4 _ \<Rightarrow> None
      | V6 grp \<Rightarrow>
          Option.bind
            (case cfg_source cfg of
               Any \<Rightarrow> Some None | Source (V6 s) \<Rightarrow> Some (Some s) | Source (V4 _) \<Rightarrow> None)
            (\<lambda>src.
          Option.bind
            (case cfg_interface cfg of
               None \<Rightarrow> Some None | Some (V6 i) \<Rightarrow> Some (Some i) | Some (V4 _) \<Rightarrow> None)
            (\<lambda>interface.
          Some \<lparr>m6_group = grp, m6_source = src, m6_interface = interface,
                m6_interface_index = cfg_interface_index cfg\<rparr>)))"

section \<open>Raw configurations\<close>

definition raw_validate :: "raw_subscription_config \<Rightarrow> mcrx_error + unit" where
  "raw_validate cfg =
     validate_multicast_selection (rcfg_group cfg) (rcfg_source cfg)
       (rcfg_interface cfg) (rcfg_interface_index cfg)"

definition raw_family :: "raw_subscription_config \<Rightarrow> subscription_address_family" where
  "raw_family cfg = (case rcfg_group cfg of V4 _ \<Rightarrow> Ipv4 | V6 _ \<Rightarrow> Ipv6)"

definition raw_is_ipv4 :: "raw_subscription_config \<Rightarrow> bool" where
  "raw_is_ipv4 cfg \<longleftrightarrow> raw_family cfg = Ipv4"

definition raw_is_ipv6 :: "raw_subscription_config \<Rightarrow> bool" where
  "raw_is_ipv6 cfg \<longleftrightarrow> raw_family cfg = Ipv6"

definition raw_source_addr :: "raw_subscription_config \<Rightarrow> ip_addr option" where
  "raw_source_addr cfg = (case rcfg_source cfg of Any \<Rightarrow> None | Source s \<Rightarrow> Some s)"

definition raw_asm_ip :: "ip_addr \<Rightarrow> raw_subscription_config" where
  "raw_asm_ip grp =
     \<lparr>rcfg_group = grp, rcfg_source = Any, rcfg_interface = None, rcfg_interface_index = None\<rparr>"

definition raw_asm :: "ipv4_addr \<Rightarrow> raw_subscription_config" where
  "raw_asm grp = raw_asm_ip (V4 grp)"

definition raw_asm_v6 :: "ipv6_addr \<Rightarrow> raw_subscription_config" where
  "raw_asm_v6 grp = raw_asm_ip (V6 grp)"

definition raw_ssm_ip :: "ip_addr \<Rightarrow> ip_addr \<Rightarrow> raw_subscription_config" where
  "raw_ssm_ip grp src =
     \<lparr>rcfg_group = grp, rcfg_source = Source src, rcfg_interface = None,
      rcfg_interface_index = None\<rparr>"

definition raw_ssm :: "ipv4_addr \<Rightarrow> ipv4_addr \<Rightarrow> raw_subscription_config" where
  "raw_ssm grp src = raw_ssm_ip (V4 grp) (V4 src)"

definition raw_ssm_v6 :: "ipv6_addr \<Rightarrow> ipv6_addr \<Rightarrow> raw_subscription_config" where
  "raw_ssm_v6 grp src = raw_ssm_ip (V6 grp) (V6 src)"

definition membership_compat_config :: "raw_subscription_config \<Rightarrow> subscription_config" where
  "membership_compat_config cfg =
     \<lparr>cfg_group = rcfg_group cfg, cfg_source = rcfg_source cfg, cfg_dst_port = 1,
      cfg_interface = rcfg_interface cfg, cfg_interface_index = rcfg_interface_index cfg\<rparr>"

section \<open>What validation promises\<close>

text \<open>
  The specification of a usable selection, independent of the order of the checks: a multicast
  group; a source exactly when the group lies in the SSM range, of the same family and a
  unicast address; an interface of the same family; an index only for IPv6 and not zero.
\<close>

definition usable_selection ::
  "ip_addr \<Rightarrow> source_filter \<Rightarrow> ip_addr option \<Rightarrow> u32 option \<Rightarrow> bool" where
  "usable_selection grp source interface interface_index \<longleftrightarrow>
     ip_is_multicast grp \<and>
     (group_is_ssm grp \<longleftrightarrow> source \<noteq> Any) \<and>
     (\<forall>s. source = Source s \<longrightarrow> is_valid_source_address s \<and> same_family grp s) \<and>
     (\<forall>i. interface = Some i \<longrightarrow> same_family grp i) \<and>
     (\<forall>ix. interface_index = Some ix \<longrightarrow> ix \<noteq> 0 \<and> (\<exists>g. grp = V6 g))"

lemmas selection_splits = ip_addr.splits source_filter.splits option.splits if_splits

lemma validate_selection_iff:
  "validate_multicast_selection g s i ix = Inr () \<longleftrightarrow> usable_selection g s i ix"
  by (cases g; cases s; cases i; cases ix)
     (auto simp: validate_multicast_selection_def usable_selection_def group_is_ssm_def res_bind_def
           split: selection_splits)

text \<open>The SSM ranges as prefixes of the 32-bit words: \<open>232.0.0.0/8\<close> and \<open>ff3x::/32\<close>.\<close>

lemma high_nibble: "(b :: u8) AND 0xf0 = push_bit 4 (drop_bit 4 b)"
proof -
  have m: "(0xf0 :: u8) = NOT (mask 4)" by (simp add: mask_eq_exp_minus_1)
  show ?thesis
    unfolding m by (rule bit_word_eqI) (auto simp: bit_simps)
qed

lemma drop_bit_4_eq: "drop_bit 4 (b :: u8) = 3 \<longleftrightarrow> b AND 0xf0 = 0x30"
proof
  assume "b AND 0xf0 = 0x30"
  then have "drop_bit 4 (b AND 0xf0) = drop_bit 4 0x30" by simp
  moreover have "drop_bit 4 b AND mask 4 = drop_bit 4 b"
    by (rule bit_word_eqI) (auto simp: bit_simps dest: bit_imp_le_length)
  ultimately show "drop_bit 4 b = 3" by (simp add: drop_bit_and mask_eq_exp_minus_1)
qed (simp add: high_nibble)

lemma u32_from_be_bytes_and:
  "u32_from_be_bytes (Quad a b c d) AND u32_from_be_bytes (Quad a' b' c' d') =
   u32_from_be_bytes (Quad (a AND a') (b AND b') (c AND c') (d AND d'))"
  by (rule bit_word_eqI) (auto simp: bit_u32_from_be_bytes bit_and_iff simp del: u32_from_be_bytes.simps)

lemma ipv6_ssm_prefix:
  "is_ipv6_ssm_group (Ipv6Addr p q r s) \<longleftrightarrow> u32_from_be_bytes p AND 0xfff0ffff = 0xff300000"
proof -
  obtain a b c d where p: "p = Quad a b c d" by (cases p)
  have mask: "(0xfff0ffff :: u32) = u32_from_be_bytes (Quad 0xff 0xf0 0xff 0xff)" by simp
  have val: "(0xff300000 :: u32) = u32_from_be_bytes (Quad 0xff 0x30 0 0)" by simp
  show ?thesis
    unfolding p mask val u32_from_be_bytes_and u32_from_be_bytes_inject
    by (simp add: drop_bit_4_eq)
qed

lemma ipv4_ssm_prefix:
  "is_ipv4_ssm_group p \<longleftrightarrow> u32_from_be_bytes p AND 0xff000000 = 0xe8000000"
proof -
  obtain a b c d where p: "p = Quad a b c d" by (cases p)
  have mask: "(0xff000000 :: u32) = u32_from_be_bytes (Quad 0xff 0 0 0)" by simp
  have val: "(0xe8000000 :: u32) = u32_from_be_bytes (Quad 0xe8 0 0 0)" by simp
  show ?thesis
    unfolding p mask val u32_from_be_bytes_and u32_from_be_bytes_inject
    by simp
qed

section \<open>Properties\<close>

text \<open>
  C14. \<open>SubscriptionConfig::validate\<close> accepts exactly the usable configurations: a non-zero port
  and a multicast group, with a source filter if and only if the group lies in the SSM range
  \<open>232.0.0.0/8\<close> or \<open>ff3x::/32\<close>, a unicast source and an interface address of the group's
  family, and an interface index that is non-zero and only given for IPv6.
\<close>

theorem validate_iff_usable:
  "validate cfg = Inr () \<longleftrightarrow>
     cfg_dst_port cfg \<noteq> 0 \<and>
     usable_selection (cfg_group cfg) (cfg_source cfg) (cfg_interface cfg) (cfg_interface_index cfg)"
  by (simp add: validate_def validate_selection_iff)

text \<open>
  Which requirement an error of \<open>validate\<close> reports as violated.
\<close>

definition reports_violation :: "mcrx_error \<Rightarrow> subscription_config \<Rightarrow> bool" where
  "reports_violation e cfg \<longleftrightarrow>
     e = InvalidDestinationPort \<and> cfg_dst_port cfg = 0 \<or>
     e = InvalidMulticastGroup \<and> \<not> ip_is_multicast (cfg_group cfg) \<or>
     e = SsmGroupRequiresSource \<and> group_is_ssm (cfg_group cfg) \<and> source_addr cfg = None \<or>
     e = InvalidSourceAddress \<and> (\<exists>s. source_addr cfg = Some s \<and> \<not> is_valid_source_address s) \<or>
     e = SourceAddressFamilyMismatch \<and> (\<exists>s. source_addr cfg = Some s \<and> \<not> same_family (cfg_group cfg) s) \<or>
     e = InvalidIpv4SsmGroup \<and> is_ipv4 cfg \<and> source_addr cfg \<noteq> None \<and> \<not> group_is_ssm (cfg_group cfg) \<or>
     e = InvalidIpv6SsmGroup \<and> is_ipv6 cfg \<and> source_addr cfg \<noteq> None \<and> \<not> group_is_ssm (cfg_group cfg) \<or>
     e = InterfaceAddressFamilyMismatch \<and> (\<exists>i. cfg_interface cfg = Some i \<and> \<not> same_family (cfg_group cfg) i) \<or>
     e = InvalidInterfaceIndex \<and> cfg_interface_index cfg = Some 0 \<or>
     e = InterfaceIndexRequiresIpv6 \<and> is_ipv4 cfg \<and> cfg_interface_index cfg \<noteq> None"

text \<open>
  Every error of \<open>SubscriptionConfig::validate\<close> is accurate: it is one of the ten
  configuration errors and the requirement it names is violated by the configuration.
\<close>

theorem validate_error_accurate:
  assumes "validate cfg = Inl e"
  shows "reports_violation e cfg"
  using assms
  by (cases "cfg_group cfg"; cases "cfg_source cfg"; cases "cfg_interface cfg"; cases "cfg_interface_index cfg")
     (auto simp: validate_def validate_multicast_selection_def reports_violation_def res_bind_def
        source_addr_def group_is_ssm_def is_ipv4_def is_ipv6_def family_def
      split: selection_splits)

theorem validate_error_accurate_witness:
  "validate (asm (Quad 232 1 2 3) 5000) = Inl SsmGroupRequiresSource \<and>
   reports_violation SsmGroupRequiresSource (asm (Quad 232 1 2 3) 5000)"
proof -
  have "validate (asm (Quad 232 1 2 3) 5000) = Inl SsmGroupRequiresSource"
    by (simp add: validate_def validate_multicast_selection_def asm_def asm_ip_def group_is_ssm_def)
  with validate_error_accurate [OF this] show ?thesis by simp
qed

text \<open>
  A validated configuration has exactly the membership view of its own family, and that view
  carries the configured group, source, interface and index unchanged. So after validation the
  platform layer never fails with \<open>InvalidSubscriptionAddressFamily\<close>.
\<close>

theorem validated_membership:
  assumes "validate cfg = Inr ()"
  shows "(is_ipv4 cfg \<and> config_ipv6_membership cfg = None \<and>
           (\<exists>m. config_ipv4_membership cfg = Some m \<and> V4 (m4_group m) = cfg_group cfg \<and>
              map_option V4 (m4_source m) = source_addr cfg \<and>
              map_option V4 (m4_interface m) = cfg_interface cfg \<and> cfg_interface_index cfg = None)) \<or>
         (is_ipv6 cfg \<and> config_ipv4_membership cfg = None \<and>
           (\<exists>m. config_ipv6_membership cfg = Some m \<and> V6 (m6_group m) = cfg_group cfg \<and>
              map_option V6 (m6_source m) = source_addr cfg \<and>
              map_option V6 (m6_interface m) = cfg_interface cfg \<and>
              m6_interface_index m = cfg_interface_index cfg))"
  using assms unfolding validate_def validate_multicast_selection_def
  by (cases "cfg_group cfg"; cases "cfg_source cfg"; cases "cfg_interface cfg"; cases "cfg_interface_index cfg")
     (auto simp: res_bind_def is_ipv4_def is_ipv6_def family_def source_addr_def
        config_ipv4_membership_def config_ipv6_membership_def
      split: selection_splits)

theorem validated_membership_witness:
  "validate (ssm (Quad 232 1 2 3) (Quad 192 168 1 10) 5000) = Inr () \<and>
   (\<exists>m. config_ipv4_membership (ssm (Quad 232 1 2 3) (Quad 192 168 1 10) 5000) = Some m)"
proof -
  let ?c = "ssm (Quad 232 1 2 3) (Quad 192 168 1 10) 5000"
  have v: "validate ?c = Inr ()"
    by (simp add: validate_def validate_multicast_selection_def ssm_def ssm_ip_def group_is_ssm_def
        res_bind_def ipv4_is_unspecified_def ipv4_is_broadcast_def ipv4_UNSPECIFIED_def)
  have "is_ipv4 ?c" by (simp add: is_ipv4_def family_def ssm_def ssm_ip_def)
  with validated_membership [OF v] v show ?thesis
    by (auto simp: is_ipv6_def is_ipv4_def)
qed

text \<open>The compatibility view of a raw configuration validates exactly when it does itself.\<close>

lemma validate_membership_compat: "validate (membership_compat_config r) = raw_validate r"
  by (simp add: validate_def raw_validate_def membership_compat_config_def)

lemma family_membership_compat [simp]: "family (membership_compat_config r) = raw_family r"
  by (simp add: family_def raw_family_def membership_compat_config_def)

end
