(* ===== verification/Packet.thy ===== *)
theory Packet
  imports Config
begin

text \<open>
  \<open>src/packet.rs\<close> and \<open>src/raw/packet.rs\<close>: received packets and their metadata, with the
  identifier and lifecycle state of a subscription from \<open>src/subscription.rs\<close>.
\<close>

datatype subscription_id = SubscriptionId (sid: u64)

datatype subscription_state = Bound | Joined

type_synonym bytes = "u8 list"

record packet =
  pkt_subscription_id :: subscription_id
  pkt_source :: socket_addr
  pkt_group :: ip_addr
  pkt_dst_port :: u16
  pkt_payload :: bytes

record receive_metadata =
  md_socket_local_addr :: "socket_addr option"
  md_configured_interface :: "ip_addr option"
  md_configured_interface_index :: "u32 option"
  md_destination_local_ip :: "ip_addr option"
  md_ingress_interface_index :: "u32 option"

definition empty_metadata :: receive_metadata where
  "empty_metadata =
     \<lparr>md_socket_local_addr = None, md_configured_interface = None,
      md_configured_interface_index = None, md_destination_local_ip = None,
      md_ingress_interface_index = None\<rparr>"

record packet_with_metadata =
  pwm_packet :: packet
  pwm_metadata :: receive_metadata

definition payload_len :: "packet \<Rightarrow> usize" where
  "payload_len p = length (pkt_payload p)"

definition into_packet :: "packet_with_metadata \<Rightarrow> packet" where
  "into_packet p = pwm_packet p"

record raw_packet =
  rp_subscription_id :: subscription_id
  rp_datagram :: bytes
  rp_source_ip :: "ip_addr option"
  rp_group :: "ip_addr option"
  rp_ip_protocol :: "u8 option"
  rp_metadata :: receive_metadata

definition datagram_len :: "raw_packet \<Rightarrow> usize" where
  "datagram_len p = length (rp_datagram p)"

end
