(* ===== verification/Os.thy ===== *)
theory Os
  imports Packet
begin

text \<open>
  The operating system and the C ABI below the library (\<open>socket2\<close>, \<open>libc\<close>, \<open>windows-sys\<close>, the
  system clock). None of it is code of the repository, so it is a parameter: a record of
  operations over an unknown kernel state \<open>'k\<close>. Every theorem holds for all such records
  unless it names what it needs of them as a hypothesis.
\<close>

section \<open>Compilation targets\<close>

text \<open>The classes of targets that the \<open>cfg\<close> attributes of the platform layer distinguish.\<close>

datatype target =
    Linux          \<comment> \<open>\<open>target_os = "linux"\<close>\<close>
  | Android        \<comment> \<open>\<open>target_os = "android"\<close>\<close>
  | Apple          \<comment> \<open>macOS: \<open>target_vendor = "apple"\<close>, \<open>target_os = "macos"\<close>\<close>
  | Bsd            \<comment> \<open>freebsd, dragonfly, netbsd, openbsd\<close>
  | SolarisLike    \<comment> \<open>solaris, illumos, cygwin: unix without \<open>SO_REUSEPORT\<close> in socket2\<close>
  | OtherUnix      \<comment> \<open>any other unix\<close>
  | WindowsTarget  \<comment> \<open>\<open>windows\<close>\<close>
  | OtherTarget    \<comment> \<open>neither unix nor windows\<close>

fun target_unix :: "target \<Rightarrow> bool" where
  "target_unix WindowsTarget = False"
| "target_unix OtherTarget = False"
| "target_unix _ = True"

section \<open>Sockets\<close>

datatype socket = Socket nat

datatype domain = DomainIPV4 | DomainIPV6 | DomainPacket

datatype sock_type = TypeDgram | TypeRaw

datatype protocol = ProtocolUDP | ProtocolIP | ProtocolEthAll

datatype opt_level = IPPROTO_IP | IPPROTO_IPV6

datatype opt_name =
    IP_PKTINFO | IPV6_RECVPKTINFO | IPV6_PKTINFO | IP_RECVDSTADDR | IP_RECVIF
  | MCAST_JOIN_SOURCE_GROUP | MCAST_LEAVE_SOURCE_GROUP
  | IP_ADD_SOURCE_MEMBERSHIP | IP_DROP_SOURCE_MEMBERSHIP

text \<open>A classic BPF instruction, as \<open>platform/raw.rs\<close> lays it out (\<open>repr(C)\<close>).\<close>

record classic_bpf_instruction =
  bpf_code :: u16
  bpf_jt :: u8
  bpf_jf :: u8
  bpf_k :: u32

text \<open>The socket options that the library sets, one constructor per call it makes.\<close>

datatype sock_request =
    SetOnlyV6 bool
  | SetReuseAddress bool
  | SetReusePort bool
  | SetNonblocking bool
  | SetMulticastAllV4 bool
  | SetMulticastAllV6 bool
  | SetFlag opt_level opt_name
  | JoinMulticastV4 ipv4_addr ipv4_addr          \<comment> \<open>group, interface\<close>
  | LeaveMulticastV4 ipv4_addr ipv4_addr
  | JoinMulticastV6 ipv6_addr u32                \<comment> \<open>group, interface index\<close>
  | LeaveMulticastV6 ipv6_addr u32
  | JoinSsmV4 ipv4_addr ipv4_addr ipv4_addr      \<comment> \<open>source, group, interface\<close>
  | LeaveSsmV4 ipv4_addr ipv4_addr ipv4_addr
  | SourceMembershipV4 opt_name ipv4_addr ipv4_addr ipv4_addr  \<comment> \<open>group, source, interface\<close>
  | SourceMembershipV6 opt_name ipv6_addr ipv6_addr u32        \<comment> \<open>group, source, index\<close>
  | AttachFilter "classic_bpf_instruction list"
  | ReceiveAll bool                              \<comment> \<open>\<open>SIO_RCVALL_MCAST\<close> for \<open>True\<close>, \<open>SIO_RCVALL\<close>\<close>
  | SetStatusFlags u32                           \<comment> \<open>\<open>fcntl(F_SETFL)\<close>\<close>
  | BpfSetInterface string                       \<comment> \<open>\<open>BIOCSETIF\<close>\<close>
  | BpfImmediate u32                             \<comment> \<open>\<open>BIOCIMMEDIATE\<close>\<close>
  | BpfSeeSent u32                               \<comment> \<open>\<open>BIOCSSEESENT\<close>\<close>
  | BpfSetFilter "classic_bpf_instruction list"  \<comment> \<open>\<open>BIOCSETF\<close>\<close>

text \<open>The values that the library reads off a descriptor: \<open>F_GETFL\<close>, \<open>BIOCGBLEN\<close>, \<open>BIOCGDLT\<close>.\<close>

datatype get_request = GetStatusFlags | BpfBufferLen | BpfDatalink

section \<open>Received messages\<close>

text \<open>A control message header with the bytes behind \<open>CMSG_DATA\<close>.\<close>

record cmsg =
  cmsg_level :: opt_level
  cmsg_type :: opt_name
  cmsg_len :: usize
  cmsg_data :: bytes

text \<open>
  What \<open>recvmsg\<close> fills in: the payload prefix of the buffer, the sender's address when it is an
  IP address, the length of the control data, and the headers that \<open>CMSG_FIRSTHDR\<close> and
  \<open>CMSG_NXTHDR\<close> enumerate in a control buffer of a given length.
\<close>

record recv_msg =
  rm_payload :: bytes
  rm_source :: "socket_addr option"
  rm_controllen :: usize
  rm_cmsgs :: "usize \<Rightarrow> cmsg list"

text \<open>
  What \<open>WSARecvMsg\<close> fills in: the control buffer is its address and length, with the header found
  at each address of it.
\<close>

record wsa_cmsg =
  wc_len :: u64
  wc_level :: opt_level
  wc_type :: opt_name
  wc_data :: bytes

record wsa_msg =
  wm_payload :: bytes
  wm_source :: "socket_addr option"
  wm_control_base :: u64
  wm_control_len :: u32
  wm_header :: "u64 \<Rightarrow> wsa_cmsg"

text \<open>What \<open>recvfrom\<close> on a packet socket fills in: the datagram and \<open>sll_ifindex\<close>.\<close>

record packet_msg =
  pm_datagram :: bytes
  pm_ifindex :: i32

section \<open>The C ABI\<close>

text \<open>Structures are read at the sizes and layouts of the platform's C headers.\<close>

datatype c_struct = C_in_pktinfo | C_in6_pktinfo | C_in_addr | C_sockaddr_dl | C_sock_addr_dl_prefix

record in_pktinfo =
  ipi_addr :: quad        \<comment> \<open>\<open>s_addr\<close> in memory order\<close>
  ipi_ifindex :: i32

record in6_pktinfo =
  ipi6_addr :: ipv6_addr
  ipi6_ifindex :: u32

record abi =
  abi_CMSG_LEN :: "usize \<Rightarrow> usize"
  abi_CMSG_SPACE :: "usize \<Rightarrow> usize"
  abi_sizeof :: "c_struct \<Rightarrow> usize"
  abi_in_pktinfo :: "bytes \<Rightarrow> in_pktinfo"
  abi_in6_pktinfo :: "bytes \<Rightarrow> in6_pktinfo"
  abi_in_addr :: "bytes \<Rightarrow> quad"
  abi_wsa_cmsghdr_size :: u64
  abi_wsa_cmsghdr_align :: u64
  abi_u16_ne :: "u8 \<Rightarrow> u8 \<Rightarrow> u16"

section \<open>Interfaces and time\<close>

text \<open>
  One entry of the list of \<open>getifaddrs\<close>: its name if the pointer is not null, and its address
  if the pointer is not null and the family is \<open>AF_INET\<close> or \<open>AF_INET6\<close>.
\<close>

record ifaddr =
  ifa_name :: "string option"
  ifa_addr :: "ip_addr option"

text \<open>
  One adapter of the list of \<open>GetAdaptersAddresses\<close> on Windows: its IPv6 interface index and the
  IPv6 addresses among its unicast addresses.
\<close>

record adapter =
  ad_ipv6_if_index :: u32
  ad_unicast_ipv6 :: "ipv6_addr list"

text \<open>Nanoseconds since the Unix epoch.\<close>

type_synonym system_time = int

section \<open>The parameter\<close>

record 'k os =
  os_target :: target
  os_abi :: abi
  os_show_error :: "io_error \<Rightarrow> string"
  os_show_ip :: "ip_addr \<Rightarrow> string"
  os_show_socket_addr :: "socket_addr \<Rightarrow> string"
  os_socket_new :: "domain \<Rightarrow> sock_type \<Rightarrow> protocol \<Rightarrow> ('k, io_error, socket) io"
  os_close :: "socket \<Rightarrow> 'k \<Rightarrow> 'k"
  os_set_option :: "socket \<Rightarrow> sock_request \<Rightarrow> ('k, io_error, unit) io"
  os_bind :: "socket \<Rightarrow> socket_addr \<Rightarrow> ('k, io_error, unit) io"
  os_bind_packet :: "socket \<Rightarrow> i32 \<Rightarrow> ('k, io_error, unit) io"
  os_connect :: "socket \<Rightarrow> socket_addr \<Rightarrow> ('k, io_error, unit) io"
  os_local_addr :: "socket \<Rightarrow> ('k, io_error, socket_addr option) io"
  os_recvmsg :: "socket \<Rightarrow> usize \<Rightarrow> usize \<Rightarrow> ('k, io_error, recv_msg) io"
  os_get_wsarecvmsg :: "socket \<Rightarrow> ('k, io_error, bool) io"
  os_wsarecvmsg :: "socket \<Rightarrow> usize \<Rightarrow> usize \<Rightarrow> ('k, io_error, wsa_msg) io"
  os_recvfrom :: "socket \<Rightarrow> usize \<Rightarrow> ('k, io_error, packet_msg) io"
  os_getifaddrs :: "('k, io_error, ifaddr list) io"
  os_if_nametoindex :: "string \<Rightarrow> 'k \<Rightarrow> u32 \<times> 'k"
  os_now :: "'k \<Rightarrow> system_time \<times> 'k"
  os_adapters :: "('k, u32, adapter list) io"
    \<comment> \<open>\<open>GetAdaptersAddresses\<close> with a growing buffer; the status code when it fails\<close>
  os_open_bpf :: "nat \<Rightarrow> ('k, io_error, socket) io"
    \<comment> \<open>\<open>open("/dev/bpf<n>")\<close>\<close>
  os_get_u32 :: "socket \<Rightarrow> get_request \<Rightarrow> ('k, io_error, u32) io"
  os_read :: "socket \<Rightarrow> usize \<Rightarrow> ('k, io_error, bytes) io"
    \<comment> \<open>\<open>read\<close> of a BPF device, \<open>recv\<close> of a Windows raw socket\<close>
  os_if_indextoname :: "u32 \<Rightarrow> 'k \<Rightarrow> string option \<times> 'k"

text \<open>
  A value that owns a socket closes it when it goes out of scope. \<open>owning os s m\<close> is a body that
  owns \<open>s\<close> and returns early on an error, which drops the socket.
\<close>

definition owning :: "'k os \<Rightarrow> socket \<Rightarrow> ('k, 'e, 'a) io \<Rightarrow> ('k, 'e, 'a) io" where
  "owning os s m =
     (\<lambda>k. case m k of (Inl e, k') \<Rightarrow> (Inl e, os_close os s k') | (Inr a, k') \<Rightarrow> (Inr a, k'))"

lemma owning_eq_Inr: "owning os s m k = (Inr a, k') \<longleftrightarrow> m k = (Inr a, k')"
  by (auto simp: owning_def split: prod.splits sum.splits)

lemma owning_eq_Inl:
  "owning os s m k = (Inl e, k') \<longleftrightarrow> (\<exists>k''. m k = (Inl e, k'') \<and> k' = os_close os s k'')"
  by (auto simp: owning_def split: prod.splits sum.splits)

section \<open>Ownership of sockets\<close>

text \<open>
  What the library relies on of the operating system for resource safety: \<open>opens\<close> reads the set
  of open sockets off the kernel state, \<open>socket\<close> adds a fresh one, \<open>close\<close> removes the one it is
  given, and no other call changes the set.
\<close>

definition accounts :: "'k os \<Rightarrow> ('k \<Rightarrow> socket set) \<Rightarrow> bool" where
  "accounts os opens \<longleftrightarrow>
     (\<forall>d t p k s k'. os_socket_new os d t p k = (Inr s, k') \<longrightarrow>
        s \<notin> opens k \<and> opens k' = insert s (opens k)) \<and>
     (\<forall>d t p k e k'. os_socket_new os d t p k = (Inl e, k') \<longrightarrow> opens k' = opens k) \<and>
     (\<forall>s k. opens (os_close os s k) = opens k - {s}) \<and>
     (\<forall>s r k. opens (snd (os_set_option os s r k)) = opens k) \<and>
     (\<forall>s a k. opens (snd (os_bind os s a k)) = opens k) \<and>
     (\<forall>s i k. opens (snd (os_bind_packet os s i k)) = opens k) \<and>
     (\<forall>s a k. opens (snd (os_connect os s a k)) = opens k) \<and>
     (\<forall>s k. opens (snd (os_local_addr os s k)) = opens k) \<and>
     (\<forall>s n c k. opens (snd (os_recvmsg os s n c k)) = opens k) \<and>
     (\<forall>s k. opens (snd (os_get_wsarecvmsg os s k)) = opens k) \<and>
     (\<forall>s n c k. opens (snd (os_wsarecvmsg os s n c k)) = opens k) \<and>
     (\<forall>s n k. opens (snd (os_recvfrom os s n k)) = opens k) \<and>
     (\<forall>k. opens (snd (os_getifaddrs os k)) = opens k) \<and>
     (\<forall>name k. opens (snd (os_if_nametoindex os name k)) = opens k) \<and>
     (\<forall>k. opens (snd (os_now os k)) = opens k) \<and>
     (\<forall>k. opens (snd (os_adapters os k)) = opens k) \<and>
     (\<forall>i k s k'. os_open_bpf os i k = (Inr s, k') \<longrightarrow>
        s \<notin> opens k \<and> opens k' = insert s (opens k)) \<and>
     (\<forall>i k e k'. os_open_bpf os i k = (Inl e, k') \<longrightarrow> opens k' = opens k) \<and>
     (\<forall>s r k. opens (snd (os_get_u32 os s r k)) = opens k) \<and>
     (\<forall>s n k. opens (snd (os_read os s n k)) = opens k) \<and>
     (\<forall>i k. opens (snd (os_if_indextoname os i k)) = opens k)"

text \<open>A call that neither opens nor closes a socket.\<close>

definition keeps :: "('k \<Rightarrow> socket set) \<Rightarrow> ('k \<Rightarrow> 'a \<times> 'k) \<Rightarrow> bool" where
  "keeps opens m \<longleftrightarrow> (\<forall>k. opens (snd (m k)) = opens k)"

named_theorems keeps_intros

lemma keeps_run: "keeps opens m \<Longrightarrow> m k = (r, k') \<Longrightarrow> opens k' = opens k"
  by (metis keeps_def snd_conv)

lemma keeps_accounts [keeps_intros]:
  assumes "accounts os opens"
  shows "keeps opens (os_set_option os s r)" "keeps opens (os_bind os s a)"
    "keeps opens (os_bind_packet os s i)" "keeps opens (os_connect os s a)"
    "keeps opens (os_local_addr os s)" "keeps opens (os_recvmsg os s n c)"
    "keeps opens (os_get_wsarecvmsg os s)" "keeps opens (os_wsarecvmsg os s n c)"
    "keeps opens (os_recvfrom os s n)" "keeps opens (os_getifaddrs os)"
    "keeps opens (os_if_nametoindex os name)" "keeps opens (os_now os)"
    "keeps opens (os_adapters os)" "keeps opens (os_get_u32 os s g)"
    "keeps opens (os_read os s n)" "keeps opens (os_if_indextoname os ix)"
  using assms unfolding accounts_def keeps_def by simp_all

lemma accounts_new:
  assumes "accounts os opens"
  shows "os_socket_new os d t p k = (Inr s, k') \<Longrightarrow> s \<notin> opens k \<and> opens k' = insert s (opens k)"
    and "os_socket_new os d t p k = (Inl e, k') \<Longrightarrow> opens k' = opens k"
    and "os_open_bpf os n k = (Inr s, k') \<Longrightarrow> s \<notin> opens k \<and> opens k' = insert s (opens k)"
    and "os_open_bpf os n k = (Inl e, k') \<Longrightarrow> opens k' = opens k"
  using assms unfolding accounts_def by metis+

lemma accounts_close: "accounts os opens \<Longrightarrow> opens (os_close os s k) = opens k - {s}"
  by (simp add: accounts_def)

lemma keeps_pure [keeps_intros]:
  "keeps opens (io_return a)" "keeps opens (io_throw e)" "keeps opens (io_lift r)"
  by (simp_all add: keeps_def)

lemma keeps_bind [keeps_intros]:
  "keeps opens m \<Longrightarrow> (\<And>a. keeps opens (f a)) \<Longrightarrow> keeps opens (io_bind m f)"
  by (simp add: keeps_def io_bind_def split: prod.splits sum.splits) (metis snd_conv)

lemma keeps_map_err [keeps_intros]: "keeps opens m \<Longrightarrow> keeps opens (io_map_err f m)"
  by (simp add: keeps_def io_map_err_def split: prod.splits sum.splits) (metis snd_conv)

lemma keeps_if [keeps_intros]:
  "(b \<Longrightarrow> keeps opens m) \<Longrightarrow> (\<not> b \<Longrightarrow> keeps opens n) \<Longrightarrow> keeps opens (if b then m else n)"
  by simp

lemma keeps_filtered_loop [keeps_intros]:
  assumes "keeps opens body"
  shows "keeps opens (filtered_loop limit gave_up body filtered)"
proof -
  have "opens (snd (filtered_loop limit gave_up body filtered k)) = opens k" for k
    using assms
  proof (induction limit gave_up body filtered k rule: filtered_loop.induct)
    case (1 limit gave_up body filtered k)
    obtain v k' where b: "body k = (v, k')" by fastforce
    then have "opens k' = opens k" using "1.prems" by (simp add: keeps_run)
    then show ?case
      using "1.IH" [OF b [symmetric]] "1.prems" b filtered_loop.simps [of limit gave_up body filtered k]
      by (cases "limit \<le> Suc filtered") (auto simp: budget_exhausted_def split: option.splits)
  qed
  then show ?thesis by (simp add: keeps_def)
qed

text \<open>
  \<open>acquires os opens own m\<close>: the body \<open>m\<close> opens exactly the sockets \<open>own a\<close> that its result \<open>a\<close>
  holds, all of them fresh, and on an error it leaves the set of open sockets as it was.
\<close>

definition acquires :: "('k \<Rightarrow> socket set) \<Rightarrow> ('a \<Rightarrow> socket set) \<Rightarrow> ('k, 'e, 'a) io \<Rightarrow> bool" where
  "acquires opens own m \<longleftrightarrow>
     (\<forall>k a k'. m k = (Inr a, k') \<longrightarrow> own a \<inter> opens k = {} \<and> opens k' = own a \<union> opens k) \<and>
     (\<forall>k e k'. m k = (Inl e, k') \<longrightarrow> opens k' = opens k)"

lemma acquiresI:
  assumes "\<And>k a k'. m k = (Inr a, k') \<Longrightarrow> own a \<inter> opens k = {} \<and> opens k' = own a \<union> opens k"
    and "\<And>k e k'. m k = (Inl e, k') \<Longrightarrow> opens k' = opens k"
  shows "acquires opens own m"
  using assms by (auto simp: acquires_def)

lemma acquires_Inr:
  "acquires opens own m \<Longrightarrow> m k = (Inr a, k') \<Longrightarrow> own a \<inter> opens k = {} \<and> opens k' = own a \<union> opens k"
  by (auto simp: acquires_def)

lemma acquires_Inl: "acquires opens own m \<Longrightarrow> m k = (Inl e, k') \<Longrightarrow> opens k' = opens k"
  by (auto simp: acquires_def)

lemma acquires_new:
  assumes "accounts os opens"
  shows "acquires opens (\<lambda>s. {s}) (io_map_err f (os_socket_new os d t p))"
  using accounts_new(1,2) [OF assms, of d t p] by (auto simp: acquires_def io_map_err_eq_Inr io_map_err_eq_Inl)

lemma acquires_keeps: "keeps opens m \<Longrightarrow> (\<And>a. own a = {}) \<Longrightarrow> acquires opens own m"
  by (auto simp: acquires_def dest: keeps_run)

lemma acquires_bind_keeps:
  assumes m: "keeps opens m" and f: "\<And>a. acquires opens own (f a)"
  shows "acquires opens own (io_bind m f)"
proof (rule acquiresI)
  fix k a k' assume "io_bind m f k = (Inr a, k')"
  then obtain b k1 where "m k = (Inr b, k1)" "f b k1 = (Inr a, k')" by (auto simp: io_eqs)
  then show "own a \<inter> opens k = {} \<and> opens k' = own a \<union> opens k"
    using acquires_Inr [OF f] keeps_run [OF m] by metis
next
  fix k e k' assume "io_bind m f k = (Inl e, k')"
  then consider "m k = (Inl e, k')" | b k1 where "m k = (Inr b, k1)" "f b k1 = (Inl e, k')"
    by (auto simp: io_eqs)
  then show "opens k' = opens k"
    using acquires_Inl [OF f] keeps_run [OF m] by cases metis+
qed

lemma acquires_map:
  assumes m: "acquires opens own m" and h: "\<And>a. own' (h a) = own a"
  shows "acquires opens own' (io_bind m (\<lambda>a. io_return (h a)))"
proof (rule acquiresI)
  fix k a k' assume "io_bind m (\<lambda>a. io_return (h a)) k = (Inr a, k')"
  then obtain b where "m k = (Inr b, k')" "a = h b" by (auto simp: io_eqs)
  then show "own' a \<inter> opens k = {} \<and> opens k' = own' a \<union> opens k"
    using acquires_Inr [OF m] h by simp
next
  fix k e k' assume "io_bind m (\<lambda>a. io_return (h a)) k = (Inl e, k')"
  then have "m k = (Inl e, k')" by (auto simp: io_eqs)
  then show "opens k' = opens k" by (rule acquires_Inl [OF m])
qed

lemma acquires_throw: "acquires opens own (io_throw e)"
  by (simp add: acquires_def)

lemma acquires_if:
  "(b \<Longrightarrow> acquires opens own m) \<Longrightarrow> (\<not> b \<Longrightarrow> acquires opens own n) \<Longrightarrow>
   acquires opens own (if b then m else n)"
  by simp

text \<open>A socket that is opened and then owned by the rest of the body.\<close>

lemma acquires_owning:
  assumes "accounts os opens" and m: "acquires opens (\<lambda>a. {g a}) m"
    and f: "\<And>a. acquires opens own (f a)"
    and owns: "\<And>a k b k'. f a k = (Inr b, k') \<Longrightarrow> own' b = {g a} \<union> own b"
  shows "acquires opens own' (io_bind m (\<lambda>a. owning os (g a) (f a)))"
proof -
  have "own' b \<inter> opens k = {} \<and> opens k' = own' b \<union> opens k"
    if run: "m k = (Inr a, k1)" "f a k1 = (Inr b, k')" for k a k1 b k'
    using acquires_Inr [OF m run(1)] acquires_Inr [OF f run(2)] owns [OF run(2)] by auto
  moreover have "opens (os_close os (g a) k2) = opens k"
    if run: "m k = (Inr a, k1)" "f a k1 = (Inl e, k2)" for k a k1 e k2
    using acquires_Inr [OF m run(1)] acquires_Inl [OF f run(2)] accounts_close [OF assms(1)] by auto
  ultimately show ?thesis
    using acquires_Inl [OF m]
    unfolding acquires_def by (simp add: io_eqs owning_eq_Inr owning_eq_Inl) blast
qed

end
