(* ===== verification/Sim.thy ===== *)
theory Sim
  imports Os
begin

text \<open>
  A small deterministic operating system: an instance of the parameter record on which the
  model is evaluated at concrete inputs. It hands out fresh sockets, remembers what they are
  bound to and which options were set on them, and serves received messages from queues.
\<close>

record sim =
  sim_open :: "socket list"
  sim_next :: nat
  sim_bound :: "(socket \<times> socket_addr) list"
  sim_log :: "(socket \<times> sock_request) list"
  sim_inbox :: "recv_msg list"
  sim_wsa_inbox :: "wsa_msg list"
  sim_frames :: "packet_msg list"
  sim_ifaddrs :: "ifaddr list"
  sim_clock :: system_time
  sim_ready :: bool      \<comment> \<open>what a reactor over this system remembers\<close>

definition sim_init :: sim where
  "sim_init =
     \<lparr>sim_open = [], sim_next = 3, sim_bound = [], sim_log = [], sim_inbox = [],
      sim_wsa_inbox = [], sim_frames = [], sim_ifaddrs = [], sim_clock = 0, sim_ready = True\<rparr>"

definition sim_sockets :: "sim \<Rightarrow> socket set" where
  "sim_sockets k = {s \<in> set (sim_open k). \<exists>n < sim_next k. s = Socket n}"

definition would_block :: io_error where
  "would_block = CustomError WouldBlock ''would block''"

fun pop :: "'m list \<Rightarrow> (io_error + 'm) \<times> 'm list" where
  "pop [] = (Inl would_block, [])"
| "pop (m # ms) = (Inr m, ms)"

definition le_u32 :: "bytes \<Rightarrow> u32" where
  "le_u32 bs =
     (case bs of a # b # c # d # _ \<Rightarrow> u32_from_be_bytes (Quad d c b a) | _ \<Rightarrow> 0)"

definition quad_of :: "bytes \<Rightarrow> quad" where
  "quad_of bs = (case bs of a # b # c # d # _ \<Rightarrow> Quad a b c d | _ \<Rightarrow> Quad 0 0 0 0)"

fun sim_sizeof :: "c_struct \<Rightarrow> usize" where
  "sim_sizeof C_in_pktinfo = 12"
| "sim_sizeof C_in6_pktinfo = 20"
| "sim_sizeof C_in_addr = 4"
| "sim_sizeof C_sockaddr_dl = 20"
| "sim_sizeof C_sock_addr_dl_prefix = 4"

definition sim_abi :: abi where
  "sim_abi =
     \<lparr>abi_CMSG_LEN = (\<lambda>n. 16 + n),
      abi_CMSG_SPACE = (\<lambda>n. 16 + (n + 7) div 8 * 8),
      abi_sizeof = sim_sizeof,
      abi_in_pktinfo = (\<lambda>bs. \<lparr>ipi_addr = quad_of (drop 8 bs), ipi_ifindex = le_u32 bs\<rparr>),
      abi_in6_pktinfo = (\<lambda>bs. \<lparr>ipi6_addr =
          Ipv6Addr (quad_of bs) (quad_of (drop 4 bs)) (quad_of (drop 8 bs)) (quad_of (drop 12 bs)),
          ipi6_ifindex = le_u32 (drop 16 bs)\<rparr>),
      abi_in_addr = quad_of,
      abi_wsa_cmsghdr_size = 16,
      abi_wsa_cmsghdr_align = 8,
      abi_u16_ne = (\<lambda>a b. u16_from_be_bytes b a)\<rparr>"

definition sim_os :: "target \<Rightarrow> sim os" where
  "sim_os t =
     \<lparr>os_target = t,
      os_abi = sim_abi,
      os_show_error = (\<lambda>e. ''error''),
      os_show_ip = (\<lambda>a. ''ip''),
      os_show_socket_addr = (\<lambda>a. ''addr''),
      os_socket_new = (\<lambda>d ty p k.
         (Inr (Socket (sim_next k)),
          k\<lparr>sim_next := Suc (sim_next k), sim_open := Socket (sim_next k) # sim_open k\<rparr>)),
      os_close = (\<lambda>s k. k\<lparr>sim_open := removeAll s (sim_open k)\<rparr>),
      os_set_option = (\<lambda>s r k. (Inr (), k\<lparr>sim_log := sim_log k @ [(s, r)]\<rparr>)),
      os_bind = (\<lambda>s a k. (Inr (), k\<lparr>sim_bound := (s, a) # sim_bound k\<rparr>)),
      os_bind_packet = (\<lambda>s i k. (Inr (), k)),
      os_connect = (\<lambda>s a k. (Inr (), k)),
      os_local_addr = (\<lambda>s k. (Inr (map_of (sim_bound k) s), k)),
      os_recvmsg = (\<lambda>s n c k.
         case pop (sim_inbox k) of (r, ms) \<Rightarrow> (r, k\<lparr>sim_inbox := ms\<rparr>)),
      os_get_wsarecvmsg = (\<lambda>s k. (Inr True, k)),
      os_wsarecvmsg = (\<lambda>s n c k.
         case pop (sim_wsa_inbox k) of (r, ms) \<Rightarrow> (r, k\<lparr>sim_wsa_inbox := ms\<rparr>)),
      os_recvfrom = (\<lambda>s n k.
         case pop (sim_frames k) of (r, ms) \<Rightarrow> (r, k\<lparr>sim_frames := ms\<rparr>)),
      os_getifaddrs = (\<lambda>k. (Inr (sim_ifaddrs k), k)),
      os_if_nametoindex = (\<lambda>name k. (of_nat (length name), k)),
      os_now = (\<lambda>k. (sim_clock k, k\<lparr>sim_clock := sim_clock k + 1\<rparr>)),
      os_adapters = (\<lambda>k. (Inr [], k)),
      os_open_bpf = (\<lambda>n k.
         (Inr (Socket (sim_next k)),
          k\<lparr>sim_next := Suc (sim_next k), sim_open := Socket (sim_next k) # sim_open k\<rparr>)),
      os_get_u32 = (\<lambda>s r k. (Inr (case r of GetStatusFlags \<Rightarrow> 0 | BpfBufferLen \<Rightarrow> 4096 | BpfDatalink \<Rightarrow> 1), k)),
      os_read = (\<lambda>s n k.
         case pop (sim_frames k) of (r, ms) \<Rightarrow> (map_sum id pm_datagram r, k\<lparr>sim_frames := ms\<rparr>)),
      os_if_indextoname = (\<lambda>i k. (Some ''en0'', k))\<rparr>"

text \<open>The simulated system keeps the account of open sockets that the library relies on.\<close>

lemma sim_accounts: "accounts (sim_os t) sim_sockets"
  by (auto simp: accounts_def sim_os_def sim_sockets_def less_Suc_eq split: prod.splits)

lemmas sim_simps = sim_os_def sim_abi_def sim_init_def le_u32_def quad_of_def would_block_def

text \<open>A message of the simulated Linux with one \<open>IP_PKTINFO\<close> control message.\<close>

definition pktinfo_msg :: "socket_addr \<Rightarrow> quad \<Rightarrow> u8 \<Rightarrow> bytes \<Rightarrow> recv_msg" where
  "pktinfo_msg source dst index payload =
     \<lparr>rm_payload = payload, rm_source = Some source, rm_controllen = 32,
      rm_cmsgs = (\<lambda>n. [\<lparr>cmsg_level = IPPROTO_IP, cmsg_type = IP_PKTINFO, cmsg_len = 28,
        cmsg_data = [index, 0, 0, 0] @ quad_octets dst @ quad_octets dst\<rparr>])\<rparr>"

end
