(* ===== verification/Platform.thy ===== *)
theory Platform
  imports Sim
begin

unbundle bit_operations_syntax

text \<open>
  \<open>src/platform/mod.rs\<close>: opening, adopting and joining UDP sockets, decoding ancillary data, and
  the receive loop. Functions with one body per target take the target from \<open>os_target\<close>.
\<close>

section \<open>Membership views and interface resolution\<close>

definition ipv4_membership :: "subscription_config \<Rightarrow> mcrx_error + ipv4_membership" where
  "ipv4_membership cfg = ok_or (config_ipv4_membership cfg) InvalidSubscriptionAddressFamily"

definition ipv6_membership :: "subscription_config \<Rightarrow> mcrx_error + ipv6_membership" where
  "ipv6_membership cfg = ok_or (config_ipv6_membership cfg) InvalidSubscriptionAddressFamily"

definition resolve_ipv4_interface :: "subscription_config \<Rightarrow> mcrx_error + ipv4_addr" where
  "resolve_ipv4_interface cfg =
     res_bind (ipv4_membership cfg) (\<lambda>m. Inr (unwrap_or (m4_interface m) ipv4_UNSPECIFIED))"

text \<open>
  The walk over the list of \<open>getifaddrs\<close>: the first entry with a name and the wanted address
  whose name resolves to a non-zero index.
\<close>

fun scan_ifaddrs :: "'k os \<Rightarrow> ip_addr \<Rightarrow> ifaddr list \<Rightarrow> 'k \<Rightarrow> u32 option \<times> 'k" where
  "scan_ifaddrs os interface [] k = (None, k)"
| "scan_ifaddrs os interface (entry # rest) k =
     (case (ifa_name entry, ifa_addr entry) of
        (Some name, Some addr) \<Rightarrow>
          (if addr = interface
           then (case os_if_nametoindex os name k of (index, k') \<Rightarrow>
                   if index \<noteq> 0 then (Some index, k') else scan_ifaddrs os interface rest k')
           else scan_ifaddrs os interface rest k)
      | _ \<Rightarrow> scan_ifaddrs os interface rest k)"

definition resolve_ipv6_interface_index_unix ::
  "'k os \<Rightarrow> ipv6_addr \<Rightarrow> ('k, mcrx_error, u32) io" where
  "resolve_ipv6_interface_index_unix os interface =
     io_bind (io_map_err (\<lambda>e. InterfaceDiscoveryFailed (os_show_error os e)) (os_getifaddrs os))
       (\<lambda>entries k.
          case scan_ifaddrs os (V6 interface) entries k of
            (Some index, k') \<Rightarrow> (Inr index, k')
          | (None, k') \<Rightarrow>
              (Inl (InterfaceDiscoveryFailed
                 (''failed to resolve IPv6 interface address '' @ os_show_ip os (V6 interface) @
                  '' to an interface index'')), k'))"

definition resolve_ipv6_interface_index_windows ::
  "'k os \<Rightarrow> ipv6_addr \<Rightarrow> ('k, mcrx_error, u32) io" where
  "resolve_ipv6_interface_index_windows os interface =
     io_bind (io_map_err (\<lambda>status. InterfaceDiscoveryFailed
                (''GetAdaptersAddresses failed with status '' @ dec_digits (unat status)))
                (os_adapters os))
       (\<lambda>adapters.
          case find (\<lambda>a. interface \<in> set (ad_unicast_ipv6 a)) adapters of
            Some a \<Rightarrow> io_return (ad_ipv6_if_index a)
          | None \<Rightarrow>
              io_throw (InterfaceDiscoveryFailed
                (''failed to resolve IPv6 interface address '' @ os_show_ip os (V6 interface) @
                 '' to an interface index'')))"

definition resolve_ipv6_interface_index :: "'k os \<Rightarrow> ipv6_addr \<Rightarrow> ('k, mcrx_error, u32) io" where
  "resolve_ipv6_interface_index os interface =
     (if target_unix (os_target os) then resolve_ipv6_interface_index_unix os interface
      else if os_target os = WindowsTarget then resolve_ipv6_interface_index_windows os interface
      else io_throw (InterfaceDiscoveryFailed
             (''IPv6 interface resolution is not implemented on this platform for '' @
              os_show_ip os (V6 interface))))"

definition resolve_ipv6_interface :: "'k os \<Rightarrow> subscription_config \<Rightarrow> ('k, mcrx_error, u32) io" where
  "resolve_ipv6_interface os cfg =
     io_bind (io_lift (ipv6_membership cfg)) (\<lambda>m.
       if os_target os = Apple \<and> m6_source m \<noteq> None \<and> m6_interface m = None \<and>
          m6_interface_index m = None
       then io_throw Ipv6SourceSpecificMulticastRequiresInterface
       else
         (case (m6_interface_index m, m6_interface m) of
            (Some index, _) \<Rightarrow> io_return index
          | (None, None) \<Rightarrow> io_return 0
          | (None, Some interface) \<Rightarrow>
              if ipv6_is_unspecified interface then io_return 0
              else resolve_ipv6_interface_index os interface))"

section \<open>Socket options\<close>

definition set_port_reuse_if_supported :: "'k os \<Rightarrow> socket \<Rightarrow> ('k, io_error, unit) io" where
  "set_port_reuse_if_supported os s =
     (if target_unix (os_target os) \<and> os_target os \<noteq> SolarisLike
      then os_set_option os s (SetReusePort True) else io_return ())"

definition restrict_multicast_delivery_to_socket_memberships ::
  "'k os \<Rightarrow> socket \<Rightarrow> subscription_address_family \<Rightarrow> ('k, io_error, unit) io" where
  "restrict_multicast_delivery_to_socket_memberships os s fam =
     (if os_target os = Linux
      then (case fam of
              Ipv4 \<Rightarrow> os_set_option os s (SetMulticastAllV4 False)
            | Ipv6 \<Rightarrow> os_set_option os s (SetMulticastAllV6 False))
      else io_return ())"

definition set_socket_option_flag ::
  "'k os \<Rightarrow> socket \<Rightarrow> opt_level \<Rightarrow> opt_name \<Rightarrow> ('k, mcrx_error, unit) io" where
  "set_socket_option_flag os s level name =
     io_map_err SocketOptionFailed (os_set_option os s (SetFlag level name))"

definition enable_receive_metadata ::
  "'k os \<Rightarrow> socket \<Rightarrow> subscription_address_family \<Rightarrow> ('k, mcrx_error, unit) io" where
  "enable_receive_metadata os s fam =
     (case fam of
        Ipv4 \<Rightarrow>
          (if os_target os = Apple \<or> os_target os = Bsd
           then io_bind (set_socket_option_flag os s IPPROTO_IP IP_RECVDSTADDR) (\<lambda>_.
                  set_socket_option_flag os s IPPROTO_IP IP_RECVIF)
           else set_socket_option_flag os s IPPROTO_IP IP_PKTINFO)
      | Ipv6 \<Rightarrow>
          (if os_target os = WindowsTarget
           then set_socket_option_flag os s IPPROTO_IPV6 IPV6_PKTINFO
           else set_socket_option_flag os s IPPROTO_IPV6 IPV6_RECVPKTINFO))"

definition try_socket_local_addr :: "'k os \<Rightarrow> socket \<Rightarrow> ('k, mcrx_error, socket_addr) io" where
  "try_socket_local_addr os s =
     io_bind (io_map_err SocketLocalAddrFailed (os_local_addr os s)) (\<lambda>addr.
       io_lift (ok_or addr NonIpSocketAddress))"

definition socket_local_addr :: "'k os \<Rightarrow> socket \<Rightarrow> ('k, mcrx_error, socket_addr) io" where
  "socket_local_addr os s = try_socket_local_addr os s"

fun addr_family :: "socket_addr \<Rightarrow> subscription_address_family" where
  "addr_family (SocketAddrV4 _ _) = Ipv4"
| "addr_family (SocketAddrV6 _ _ _ _) = Ipv6"

definition socket_family ::
  "'k os \<Rightarrow> socket \<Rightarrow> 'k \<Rightarrow> subscription_address_family option \<times> 'k" where
  "socket_family os s k =
     (case try_socket_local_addr os s k of (r, k') \<Rightarrow> (map_option addr_family (res_ok r), k'))"

definition get_wsarecvmsg :: "'k os \<Rightarrow> socket \<Rightarrow> ('k, mcrx_error, bool) io" where
  "get_wsarecvmsg os s =
     io_bind (io_map_err SocketIoctlFailed (os_get_wsarecvmsg os s)) (\<lambda>found.
       if found then io_return True
       else io_throw (SocketIoctlFailed (CustomError KindOther ''WSARecvMsg lookup returned null'')))"

text \<open>
  \<open>configure_detailed_receive\<close>: the result says whether a \<open>WSARecvMsg\<close> pointer was obtained
  (Windows only).
\<close>

definition configure_detailed_receive :: "'k os \<Rightarrow> socket \<Rightarrow> ('k, mcrx_error, bool) io" where
  "configure_detailed_receive os s =
     (if os_target os \<in> {Linux, Android, Apple, Bsd, WindowsTarget}
      then
        (\<lambda>k. case socket_family os s k of
               (None, k') \<Rightarrow> (Inl ExistingSocketAddressFamilyMismatch, k')
             | (Some fam, k') \<Rightarrow>
                 io_bind (enable_receive_metadata os s fam) (\<lambda>_.
                   if os_target os = WindowsTarget then get_wsarecvmsg os s else io_return False) k')
      else io_throw (ReceiveSocketSetupFailed
             ''destination-address metadata is unsupported on this platform''))"

section \<open>Receive sockets\<close>

record receive_socket =
  rs_socket :: socket
  rs_local_addr :: "socket_addr option"
  rs_setup_error :: "string option"
  rs_wsarecvmsg :: bool

definition err_text :: "'k os \<Rightarrow> mcrx_error \<Rightarrow> string" where
  "err_text os e = mcrx_error_display (os_show_error os) e"

text \<open>\<open>adopt\<close> never fails: the first setup error is kept and reported by the first receive.\<close>

definition adopt :: "'k os \<Rightarrow> socket \<Rightarrow> subscription_config \<Rightarrow> 'k \<Rightarrow> receive_socket \<times> 'k" where
  "adopt os s cfg k =
     (case try_socket_local_addr os s k of (laddr, k1) \<Rightarrow>
      let validation_error = map_option (err_text os) (res_err (validate cfg)) in
      case restrict_multicast_delivery_to_socket_memberships os s (family cfg) k1 of (isolation, k2) \<Rightarrow>
      let isolation_error = map_option (\<lambda>e. err_text os (SocketOptionFailed e)) (res_err isolation) in
      case os_set_option os s (SetNonblocking True) k2 of (nonb, k3) \<Rightarrow>
      let nonblocking_error = map_option (\<lambda>e. err_text os (SocketOptionFailed e)) (res_err nonb) in
      case (if validation_error \<noteq> None \<or> isolation_error \<noteq> None \<or> nonblocking_error \<noteq> None
            then ((False, None), k3)
            else case configure_detailed_receive os s k3 of
                   (Inr recvmsg, k4) \<Rightarrow> ((recvmsg, None), k4)
                 | (Inl e, k4) \<Rightarrow> ((False, Some (err_text os e)), k4)) of
        ((wsarecvmsg, metadata_error), k5) \<Rightarrow>
      (\<lparr>rs_socket = s, rs_local_addr = res_ok laddr,
        rs_setup_error =
          opt_or (opt_or (opt_or validation_error isolation_error) nonblocking_error) metadata_error,
        rs_wsarecvmsg = wsarecvmsg\<rparr>, k5))"

definition try_adopt :: "'k os \<Rightarrow> socket \<Rightarrow> subscription_config \<Rightarrow> ('k, mcrx_error, receive_socket) io" where
  "try_adopt os s cfg =
     owning os s
       (io_bind (io_lift (validate cfg)) (\<lambda>_.
        io_bind (io_map_err SocketOptionFailed
                   (restrict_multicast_delivery_to_socket_memberships os s (family cfg))) (\<lambda>_.
        io_bind (io_map_err SocketOptionFailed (os_set_option os s (SetNonblocking True))) (\<lambda>_.
        io_bind (try_socket_local_addr os s) (\<lambda>laddr.
        io_bind (configure_detailed_receive os s) (\<lambda>wsarecvmsg.
        io_return \<lparr>rs_socket = s, rs_local_addr = Some laddr, rs_setup_error = None,
                   rs_wsarecvmsg = wsarecvmsg\<rparr>))))))"

definition ensure_ready :: "receive_socket \<Rightarrow> mcrx_error + unit" where
  "ensure_ready rs =
     (case rs_setup_error rs of
        Some message \<Rightarrow> Inl (ReceiveSocketSetupFailed message)
      | None \<Rightarrow> Inr ())"

definition rs_local_addr_op :: "'k os \<Rightarrow> receive_socket \<Rightarrow> ('k, mcrx_error, socket_addr) io" where
  "rs_local_addr_op os rs =
     (\<lambda>k. case (case rs_local_addr rs of
                  Some a \<Rightarrow> (Some a, k)
                | None \<Rightarrow> (case try_socket_local_addr os (rs_socket rs) k of (r, k') \<Rightarrow> (res_ok r, k'))) of
            (found, k') \<Rightarrow>
              (ok_or found (SocketLocalAddrFailed
                 (CustomError KindOther ''failed to determine socket laddr address'')), k'))"

definition base_metadata ::
  "'k os \<Rightarrow> receive_socket \<Rightarrow> subscription_config \<Rightarrow> ('k, mcrx_error, receive_metadata) io" where
  "base_metadata os rs cfg =
     io_bind (rs_local_addr_op os rs) (\<lambda>a.
       io_return \<lparr>md_socket_local_addr = Some a,
                  md_configured_interface = cfg_interface cfg,
                  md_configured_interface_index = cfg_interface_index cfg,
                  md_destination_local_ip = None,
                  md_ingress_interface_index = None\<rparr>)"

section \<open>Opening and preparing sockets\<close>

definition check_existing_address :: "subscription_config \<Rightarrow> socket_addr \<Rightarrow> mcrx_error + unit" where
  "check_existing_address cfg laddr =
     (case (family cfg, laddr) of
        (Ipv4, SocketAddrV4 ip port) \<Rightarrow>
          if port \<noteq> cfg_dst_port cfg
          then Inl (ExistingSocketPortMismatch (cfg_dst_port cfg) port) else Inr ()
      | (Ipv6, SocketAddrV6 ip port flow scope) \<Rightarrow>
          if port \<noteq> cfg_dst_port cfg
          then Inl (ExistingSocketPortMismatch (cfg_dst_port cfg) port) else Inr ()
      | (Ipv4, SocketAddrV6 _ _ _ _) \<Rightarrow> Inl ExistingSocketAddressFamilyMismatch
      | (Ipv6, SocketAddrV4 _ _) \<Rightarrow> Inl ExistingSocketAddressFamilyMismatch)"

definition prepare_existing_socket ::
  "'k os \<Rightarrow> socket \<Rightarrow> subscription_config \<Rightarrow> ('k, mcrx_error, receive_socket) io" where
  "prepare_existing_socket os s cfg =
     io_bind
       (owning os s
          (io_bind (socket_local_addr os s) (\<lambda>laddr.
           io_bind (io_lift (check_existing_address cfg laddr)) (\<lambda>_. io_return laddr))))
       (\<lambda>laddr.
     io_bind (try_adopt os s cfg) (\<lambda>rs.
     io_return (rs\<lparr>rs_local_addr := Some laddr\<rparr>)))"

definition open_bound_socket :: "'k os \<Rightarrow> subscription_config \<Rightarrow> ('k, mcrx_error, receive_socket) io" where
  "open_bound_socket os cfg =
     io_bind
       (case family cfg of
          Ipv4 \<Rightarrow> io_map_err SocketCreateFailed (os_socket_new os DomainIPV4 TypeDgram ProtocolUDP)
        | Ipv6 \<Rightarrow>
            io_bind (io_map_err SocketCreateFailed (os_socket_new os DomainIPV6 TypeDgram ProtocolUDP))
              (\<lambda>s. owning os s
                 (io_bind (io_map_err SocketOptionFailed (os_set_option os s (SetOnlyV6 True)))
                    (\<lambda>_. io_return s))))
       (\<lambda>s.
     io_bind
       (owning os s
          (io_bind (io_map_err SocketOptionFailed (os_set_option os s (SetReuseAddress True))) (\<lambda>_.
           io_bind (io_map_err SocketOptionFailed (set_port_reuse_if_supported os s)) (\<lambda>_.
           io_map_err SocketBindFailed
             (case family cfg of
                Ipv4 \<Rightarrow> os_bind os s (SocketAddrV4 ipv4_UNSPECIFIED (cfg_dst_port cfg))
              | Ipv6 \<Rightarrow> os_bind os s (SocketAddrV6 ipv6_UNSPECIFIED (cfg_dst_port cfg) 0 0))))))
       (\<lambda>_. prepare_existing_socket os s cfg))"

section \<open>Ancillary data\<close>

definition ipv4_from_u32 :: "u32 \<Rightarrow> ipv4_addr" where
  "ipv4_from_u32 w =
     Quad (ucast (drop_bit 24 w)) (ucast (drop_bit 16 w)) (ucast (drop_bit 8 w)) (ucast w)"

text \<open>
  \<open>s_addr\<close> holds the address in network order, so \<open>u32::from_be\<close> of it is the big-endian value
  of its bytes in memory.
\<close>

definition ipv4_from_in_addr :: "quad \<Rightarrow> ipv4_addr" where
  "ipv4_from_in_addr addr = ipv4_from_u32 (u32_from_be_bytes addr)"

definition ANCILLARY_STACK_BUFFER_SIZE :: usize where
  "ANCILLARY_STACK_BUFFER_SIZE = 256"

definition MAX_FILTERED_DATAGRAMS_PER_RECEIVE :: usize where
  "MAX_FILTERED_DATAGRAMS_PER_RECEIVE = 256"

definition ancillary_buffer_size :: "'k os \<Rightarrow> subscription_address_family \<Rightarrow> usize" where
  "ancillary_buffer_size os fam =
     (let space = (\<lambda>st. abi_CMSG_SPACE (os_abi os) (abi_sizeof (os_abi os) st)) in
      if os_target os = Linux \<or> os_target os = Android
      then (case fam of Ipv4 \<Rightarrow> space C_in_pktinfo | Ipv6 \<Rightarrow> space C_in6_pktinfo)
      else if os_target os = Apple \<or> os_target os = Bsd
      then (case fam of
              Ipv4 \<Rightarrow> space C_in_addr + space C_sockaddr_dl
            | Ipv6 \<Rightarrow> space C_in6_pktinfo)
      else 0)"

definition control_message_contains :: "'k os \<Rightarrow> c_struct \<Rightarrow> cmsg \<Rightarrow> bool" where
  "control_message_contains os st c \<longleftrightarrow>
     abi_CMSG_LEN (os_abi os) (abi_sizeof (os_abi os) st) \<le> cmsg_len c"

text \<open>\<open>SockAddrDlPrefix.sdl_index\<close>: a native-endian \<open>u16\<close> at offset 2.\<close>

definition sdl_index :: "'k os \<Rightarrow> bytes \<Rightarrow> u16" where
  "sdl_index os bs = (case drop 2 bs of a # b # _ \<Rightarrow> abi_u16_ne (os_abi os) a b | _ \<Rightarrow> 0)"

definition set_ingress :: "u32 \<Rightarrow> receive_metadata \<Rightarrow> receive_metadata" where
  "set_ingress index md =
     (if index \<noteq> 0 then md\<lparr>md_ingress_interface_index := Some index\<rparr> else md)"

definition apply_cmsg ::
  "'k os \<Rightarrow> subscription_address_family \<Rightarrow> cmsg \<Rightarrow> receive_metadata \<Rightarrow> receive_metadata" where
  "apply_cmsg os fam c md =
     (case fam of
        Ipv4 \<Rightarrow>
          (if cmsg_level c = IPPROTO_IP
           then
             (if os_target os = Linux \<or> os_target os = Android
              then
                (if cmsg_type c = IP_PKTINFO \<and> control_message_contains os C_in_pktinfo c
                 then let pktinfo = abi_in_pktinfo (os_abi os) (cmsg_data c) in
                      set_ingress (ipi_ifindex pktinfo)
                        (md\<lparr>md_destination_local_ip := Some (V4 (ipv4_from_in_addr (ipi_addr pktinfo)))\<rparr>)
                 else md)
              else if os_target os = Apple \<or> os_target os = Bsd
              then
                (if cmsg_type c = IP_RECVDSTADDR \<and> control_message_contains os C_in_addr c
                 then md\<lparr>md_destination_local_ip :=
                           Some (V4 (ipv4_from_in_addr (abi_in_addr (os_abi os) (cmsg_data c))))\<rparr>
                 else if cmsg_type c = IP_RECVIF \<and> control_message_contains os C_sock_addr_dl_prefix c
                 then set_ingress (ucast (sdl_index os (cmsg_data c))) md
                 else md)
              else md)
           else md)
      | Ipv6 \<Rightarrow>
          (if cmsg_level c = IPPROTO_IPV6 \<and> cmsg_type c = IPV6_PKTINFO \<and>
              control_message_contains os C_in6_pktinfo c
           then let pktinfo = abi_in6_pktinfo (os_abi os) (cmsg_data c) in
                set_ingress (ipi6_ifindex pktinfo)
                  (md\<lparr>md_destination_local_ip := Some (V6 (ipi6_addr pktinfo))\<rparr>)
           else md))"

fun apply_receive_ancillary_data ::
  "'k os \<Rightarrow> subscription_address_family \<Rightarrow> cmsg list \<Rightarrow> receive_metadata \<Rightarrow> receive_metadata" where
  "apply_receive_ancillary_data os fam [] md = md"
| "apply_receive_ancillary_data os fam (c # cs) md =
     apply_receive_ancillary_data os fam cs (apply_cmsg os fam c md)"

section \<open>Receiving\<close>

definition packet_matches_subscription ::
  "socket_addr \<Rightarrow> receive_metadata \<Rightarrow> subscription_config \<Rightarrow> mcrx_error + bool" where
  "packet_matches_subscription source md cfg =
     res_bind (ok_or (md_destination_local_ip md) ReceiveMetadataUnavailable) (\<lambda>destination.
       if destination \<noteq> cfg_group cfg then Inr False
       else if (case cfg_source cfg of Source expected \<Rightarrow> sa_ip source \<noteq> expected | Any \<Rightarrow> False)
       then Inr False
       else if (case cfg_interface_index cfg of
                  Some expected \<Rightarrow> md_ingress_interface_index md \<noteq> Some expected
                | None \<Rightarrow> False)
       then Inr False
       else Inr True)"

definition filtered_receive_budget_exhausted :: "usize \<Rightarrow> usize \<times> bool" where
  "filtered_receive_budget_exhausted filtered =
     budget_exhausted MAX_FILTERED_DATAGRAMS_PER_RECEIVE filtered"

text \<open>
  One turn of the receive loop on Unix: \<open>Some r\<close> where the loop returns \<open>r\<close>, \<open>None\<close> where the
  datagram is filtered and the budget is checked.
\<close>

definition recv_unix_body ::
  "'k os \<Rightarrow> receive_socket \<Rightarrow> subscription_id \<Rightarrow> subscription_config \<Rightarrow> usize \<Rightarrow>
   'k \<Rightarrow> (mcrx_error + packet_with_metadata option) option \<times> 'k" where
  "recv_unix_body os rs sub_id cfg control_size k =
     (case os_recvmsg os (rs_socket rs) 65535 control_size k of
        (Inl e, k1) \<Rightarrow>
          (if err_kind e = WouldBlock then (Some (Inr None), k1)
           else (Some (Inl (ReceiveFailed e)), k1))
      | (Inr msg, k1) \<Rightarrow>
          (case rm_source msg of
             None \<Rightarrow> (Some (Inl NonIpSocketAddress), k1)
           | Some source \<Rightarrow>
               (case base_metadata os rs cfg k1 of
                  (Inl e, k2) \<Rightarrow> (Some (Inl e), k2)
                | (Inr md0, k2) \<Rightarrow>
                    (let control_len = min (rm_controllen msg) control_size;
                         md = (if control_len \<noteq> 0
                               then apply_receive_ancillary_data os (family cfg)
                                      (rm_cmsgs msg control_len) md0
                               else md0)
                     in
                     case packet_matches_subscription source md cfg of
                       Inl e \<Rightarrow> (Some (Inl e), k2)
                     | Inr False \<Rightarrow> (None, k2)
                     | Inr True \<Rightarrow>
                         (Some (Inr (Some
                            \<lparr>pwm_packet =
                               \<lparr>pkt_subscription_id = sub_id, pkt_source = source,
                                pkt_group = cfg_group cfg, pkt_dst_port = cfg_dst_port cfg,
                                pkt_payload = rm_payload msg\<rparr>,
                             pwm_metadata = md\<rparr>)), k2)))))"

definition recv_packet_with_metadata_unix ::
  "'k os \<Rightarrow> receive_socket \<Rightarrow> subscription_id \<Rightarrow> subscription_config \<Rightarrow>
   ('k, mcrx_error, packet_with_metadata option) io" where
  "recv_packet_with_metadata_unix os rs sub_id cfg =
     (let control_size = ancillary_buffer_size os (family cfg) in
      if ANCILLARY_STACK_BUFFER_SIZE < control_size
      then io_throw (ReceiveSocketSetupFailed
             (''ancillary buffer requirement '' @ dec_digits control_size @ '' exceeds '' @
              dec_digits ANCILLARY_STACK_BUFFER_SIZE @ '' bytes''))
      else filtered_loop MAX_FILTERED_DATAGRAMS_PER_RECEIVE (Inr None)
             (recv_unix_body os rs sub_id cfg control_size) 0)"

text \<open>
  Windows walks the control buffer with the library's own \<open>CMSG\<close> functions. Null pointers are
  \<open>None\<close>; additions that the source checks for overflow are \<open>checked_add\<close> on 64-bit addresses.
\<close>

definition wsa_cmsg_align :: "'k os \<Rightarrow> u64 \<Rightarrow> u64" where
  "wsa_cmsg_align os len =
     (let align = abi_wsa_cmsghdr_align (os_abi os) in (len + align - 1) AND NOT (align - 1))"

definition wsa_cmsg_space :: "'k os \<Rightarrow> u64 \<Rightarrow> u64" where
  "wsa_cmsg_space os len =
     wsa_cmsg_align os (abi_wsa_cmsghdr_size (os_abi os)) + wsa_cmsg_align os len"

definition wsa_cmsg_len :: "'k os \<Rightarrow> u64 \<Rightarrow> u64" where
  "wsa_cmsg_len os len = wsa_cmsg_align os (abi_wsa_cmsghdr_size (os_abi os)) + len"

definition wsa_control_message_contains :: "'k os \<Rightarrow> c_struct \<Rightarrow> wsa_cmsg \<Rightarrow> bool" where
  "wsa_control_message_contains os st c \<longleftrightarrow>
     wsa_cmsg_len os (of_nat (abi_sizeof (os_abi os) st)) \<le> wc_len c"

definition wsa_cmsg_firsthdr :: "'k os \<Rightarrow> wsa_msg \<Rightarrow> u64 option" where
  "wsa_cmsg_firsthdr os msg =
     (if wm_control_base msg = 0 \<or> ucast (wm_control_len msg) < wsa_cmsg_space os 0
      then None else Some (wm_control_base msg))"

definition wsa_cmsg_nxthdr :: "'k os \<Rightarrow> wsa_msg \<Rightarrow> u64 \<Rightarrow> u64 option" where
  "wsa_cmsg_nxthdr os msg cmsg =
     (let base = wm_control_base msg;
          size = abi_wsa_cmsghdr_size (os_abi os);
          align = abi_wsa_cmsghdr_align (os_abi os) in
      Option.bind (checked_add base (ucast (wm_control_len msg))) (\<lambda>end_addr.
      Option.bind (checked_add cmsg size) (\<lambda>current_header_end.
      if cmsg < base \<or> end_addr < current_header_end then None
      else
        let current_len = wc_len (wm_header msg cmsg) in
        if current_len < wsa_cmsg_len os 0 then None
        else
          Option.bind (map_option (\<lambda>l. l AND NOT (align - 1)) (checked_add current_len (align - 1)))
            (\<lambda>aligned_len.
          Option.bind (checked_add cmsg aligned_len) (\<lambda>next_addr.
          Option.bind (checked_add next_addr (wsa_cmsg_align os size)) (\<lambda>next_end.
          if end_addr < next_end then None else Some next_addr))))))"

definition apply_wsa_cmsg ::
  "'k os \<Rightarrow> subscription_address_family \<Rightarrow> wsa_cmsg \<Rightarrow> receive_metadata \<Rightarrow> receive_metadata" where
  "apply_wsa_cmsg os fam c md =
     (case fam of
        Ipv4 \<Rightarrow>
          (if wc_level c = IPPROTO_IP \<and> wc_type c = IP_PKTINFO \<and>
              wsa_control_message_contains os C_in_pktinfo c
           then let pktinfo = abi_in_pktinfo (os_abi os) (wc_data c) in
                set_ingress (ipi_ifindex pktinfo)
                  (md\<lparr>md_destination_local_ip := Some (V4 (ipv4_from_in_addr (ipi_addr pktinfo)))\<rparr>)
           else md)
      | Ipv6 \<Rightarrow>
          (if wc_level c = IPPROTO_IPV6 \<and> wc_type c = IPV6_PKTINFO \<and>
              wsa_control_message_contains os C_in6_pktinfo c
           then let pktinfo = abi_in6_pktinfo (os_abi os) (wc_data c) in
                set_ingress (ipi6_ifindex pktinfo)
                  (md\<lparr>md_destination_local_ip := Some (V6 (ipi6_addr pktinfo))\<rparr>)
           else md))"

text \<open>
  The walk over the headers. Its fuel is the length of the control buffer, which is enough
  because every step moves to a higher address inside the buffer (\<open>wsa_walk_fuel_enough\<close>).
\<close>

fun wsa_walk ::
  "nat \<Rightarrow> 'k os \<Rightarrow> wsa_msg \<Rightarrow> subscription_address_family \<Rightarrow> u64 option \<Rightarrow> receive_metadata \<Rightarrow>
   receive_metadata option" where
  "wsa_walk fuel os msg fam None md = Some md"
| "wsa_walk 0 os msg fam (Some cmsg) md = None"
| "wsa_walk (Suc fuel) os msg fam (Some cmsg) md =
     wsa_walk fuel os msg fam (wsa_cmsg_nxthdr os msg cmsg)
       (apply_wsa_cmsg os fam (wm_header msg cmsg) md)"

definition apply_receive_ancillary_data_windows ::
  "'k os \<Rightarrow> subscription_address_family \<Rightarrow> wsa_msg \<Rightarrow> receive_metadata \<Rightarrow> receive_metadata" where
  "apply_receive_ancillary_data_windows os fam msg md =
     (case wsa_walk (unat (wm_control_len msg)) os msg fam (wsa_cmsg_firsthdr os msg) md of
        Some md' \<Rightarrow> md' | None \<Rightarrow> md)"

definition ancillary_buffer_size_windows :: "'k os \<Rightarrow> subscription_address_family \<Rightarrow> usize" where
  "ancillary_buffer_size_windows os fam =
     unat (wsa_cmsg_space os (of_nat (abi_sizeof (os_abi os)
       (case fam of Ipv4 \<Rightarrow> C_in_pktinfo | Ipv6 \<Rightarrow> C_in6_pktinfo))))"

definition recv_windows_body ::
  "'k os \<Rightarrow> receive_socket \<Rightarrow> subscription_id \<Rightarrow> subscription_config \<Rightarrow> usize \<Rightarrow>
   'k \<Rightarrow> (mcrx_error + packet_with_metadata option) option \<times> 'k" where
  "recv_windows_body os rs sub_id cfg control_size k =
     (case os_wsarecvmsg os (rs_socket rs) 65535 control_size k of
        (Inl e, k1) \<Rightarrow>
          (if err_kind e = WouldBlock then (Some (Inr None), k1)
           else (Some (Inl (ReceiveFailed e)), k1))
      | (Inr received, k1) \<Rightarrow>
          (let msg = received\<lparr>wm_control_len := min (wm_control_len received) (of_nat control_size)\<rparr> in
           case wm_source msg of
             None \<Rightarrow> (Some (Inl NonIpSocketAddress), k1)
           | Some source \<Rightarrow>
               (case base_metadata os rs cfg k1 of
                  (Inl e, k2) \<Rightarrow> (Some (Inl e), k2)
                | (Inr md0, k2) \<Rightarrow>
                    (let md = (if wm_control_base msg \<noteq> 0 \<and> wm_control_len msg \<noteq> 0
                               then apply_receive_ancillary_data_windows os (family cfg) msg md0
                               else md0)
                     in
                     case packet_matches_subscription source md cfg of
                       Inl e \<Rightarrow> (Some (Inl e), k2)
                     | Inr False \<Rightarrow> (None, k2)
                     | Inr True \<Rightarrow>
                         (Some (Inr (Some
                            \<lparr>pwm_packet =
                               \<lparr>pkt_subscription_id = sub_id, pkt_source = source,
                                pkt_group = cfg_group cfg, pkt_dst_port = cfg_dst_port cfg,
                                pkt_payload = wm_payload msg\<rparr>,
                             pwm_metadata = md\<rparr>)), k2)))))"

definition recv_packet_with_metadata_windows ::
  "'k os \<Rightarrow> receive_socket \<Rightarrow> subscription_id \<Rightarrow> subscription_config \<Rightarrow>
   ('k, mcrx_error, packet_with_metadata option) io" where
  "recv_packet_with_metadata_windows os rs sub_id cfg =
     (if \<not> rs_wsarecvmsg rs
      then io_throw (ReceiveSocketSetupFailed ''WSARecvMsg is unavailable'')
      else
        let control_size = ancillary_buffer_size_windows os (family cfg) in
        if ANCILLARY_STACK_BUFFER_SIZE < control_size
        then io_throw (ReceiveSocketSetupFailed
               (''ancillary buffer requirement '' @ dec_digits control_size @ '' exceeds '' @
                dec_digits ANCILLARY_STACK_BUFFER_SIZE @ '' bytes''))
        else filtered_loop MAX_FILTERED_DATAGRAMS_PER_RECEIVE (Inr None)
               (recv_windows_body os rs sub_id cfg control_size) 0)"

definition recv_packet_with_ancillary_metadata ::
  "'k os \<Rightarrow> receive_socket \<Rightarrow> subscription_id \<Rightarrow> subscription_config \<Rightarrow>
   ('k, mcrx_error, packet_with_metadata option) io" where
  "recv_packet_with_ancillary_metadata os rs sub_id cfg =
     (if target_unix (os_target os) then recv_packet_with_metadata_unix os rs sub_id cfg
      else if os_target os = WindowsTarget then recv_packet_with_metadata_windows os rs sub_id cfg
      else io_throw (ReceiveSocketSetupFailed
             ''destination-address metadata is unsupported on this platform''))"

definition recv_packet_with_metadata ::
  "'k os \<Rightarrow> receive_socket \<Rightarrow> subscription_id \<Rightarrow> subscription_config \<Rightarrow>
   ('k, mcrx_error, packet_with_metadata option) io" where
  "recv_packet_with_metadata os rs sub_id cfg =
     io_bind (io_lift (ensure_ready rs)) (\<lambda>_. recv_packet_with_ancillary_metadata os rs sub_id cfg)"

definition recv_packet ::
  "'k os \<Rightarrow> receive_socket \<Rightarrow> subscription_id \<Rightarrow> subscription_config \<Rightarrow>
   ('k, mcrx_error, packet option) io" where
  "recv_packet os rs sub_id cfg =
     io_bind (recv_packet_with_metadata os rs sub_id cfg) (\<lambda>p. io_return (map_option into_packet p))"

section \<open>Joining and leaving groups\<close>

text \<open>
  The interface probe of Apple targets: an unconnected UDP socket is connected to the source and
  its local address read back. The probe socket is closed in every case.
\<close>

definition resolve_default_ipv4_interface :: "'k os \<Rightarrow> ipv4_addr \<Rightarrow> ('k, mcrx_error, ipv4_addr) io" where
  "resolve_default_ipv4_interface os source =
     io_bind (io_map_err InterfaceProbeBindFailed (os_socket_new os DomainIPV4 TypeDgram ProtocolUDP))
       (\<lambda>probe k.
          case io_bind (io_map_err InterfaceProbeBindFailed
                          (os_bind os probe (SocketAddrV4 ipv4_UNSPECIFIED 0))) (\<lambda>_.
               io_bind (io_map_err InterfaceProbeConnectFailed
                          (os_connect os probe (SocketAddrV4 source 9))) (\<lambda>_.
               io_bind (io_map_err InterfaceProbeLocalAddrFailed
                          (io_bind (os_local_addr os probe) (\<lambda>a.
                             io_lift (ok_or a (CustomError InvalidInput ''invalid argument'')))))
               (\<lambda>laddr.
                  io_lift
                    (case laddr of
                       SocketAddrV4 ip port \<Rightarrow>
                         if \<not> ipv4_is_unspecified ip then Inr ip
                         else Inl (InterfaceDiscoveryFailed
                                (''failed to infer default IPv4 interface for source '' @
                                 os_show_ip os (V4 source) @ '': probe bound to '' @
                                 os_show_socket_addr os laddr))
                     | SocketAddrV6 _ _ _ _ \<Rightarrow>
                         Inl (InterfaceDiscoveryFailed
                                (''failed to infer default IPv4 interface for source '' @
                                 os_show_ip os (V4 source) @ '': probe bound to '' @
                                 os_show_socket_addr os laddr)))))) k of
            (r, k') \<Rightarrow> (r, os_close os probe k'))"

definition resolve_ipv4_source_interface_address ::
  "'k os \<Rightarrow> ipv4_addr \<Rightarrow> ipv4_addr \<Rightarrow> ('k, mcrx_error, ipv4_addr) io" where
  "resolve_ipv4_source_interface_address os interface source =
     (if ipv4_is_unspecified interface then resolve_default_ipv4_interface os source
      else io_return interface)"

definition set_ipv6_source_membership_option ::
  "'k os \<Rightarrow> socket \<Rightarrow> opt_name \<Rightarrow> ipv6_addr \<Rightarrow> ipv6_addr \<Rightarrow> u32 \<Rightarrow> ('k, io_error, unit) io" where
  "set_ipv6_source_membership_option os s name grp source interface =
     (if os_target os \<in> {Linux, Android, Apple, WindowsTarget}
      then os_set_option os s (SourceMembershipV6 name grp source interface)
      else io_throw (CustomError Unsupported
             ''IPv6 source-specific multicast is not supported on this platform''))"

text \<open>Apple targets set IPv4 source memberships with a \<open>ip_mreq_source\<close> structure of their own.\<close>

definition set_ipv4_source_membership_option ::
  "'k os \<Rightarrow> socket \<Rightarrow> opt_name \<Rightarrow> ipv4_addr \<Rightarrow> ipv4_addr \<Rightarrow> ipv4_addr \<Rightarrow> ('k, io_error, unit) io" where
  "set_ipv4_source_membership_option os s name grp source interface =
     os_set_option os s (SourceMembershipV4 name grp source interface)"

definition join_source_multicast_v4 ::
  "'k os \<Rightarrow> socket \<Rightarrow> ipv4_addr \<Rightarrow> ipv4_addr \<Rightarrow> ipv4_addr \<Rightarrow> ('k, mcrx_error, unit) io" where
  "join_source_multicast_v4 os s grp source interface =
     (if os_target os = Apple
      then io_bind (resolve_ipv4_source_interface_address os interface source) (\<lambda>resolved.
             io_map_err MulticastJoinFailed
               (set_ipv4_source_membership_option os s IP_ADD_SOURCE_MEMBERSHIP grp source resolved))
      else io_map_err MulticastJoinFailed (os_set_option os s (JoinSsmV4 source grp interface)))"

definition leave_source_multicast_v4 ::
  "'k os \<Rightarrow> socket \<Rightarrow> ipv4_addr \<Rightarrow> ipv4_addr \<Rightarrow> ipv4_addr \<Rightarrow> ('k, mcrx_error, unit) io" where
  "leave_source_multicast_v4 os s grp source interface =
     (if os_target os = Apple
      then io_bind (resolve_ipv4_source_interface_address os interface source) (\<lambda>resolved.
             io_map_err MulticastLeaveFailed
               (set_ipv4_source_membership_option os s IP_DROP_SOURCE_MEMBERSHIP grp source resolved))
      else io_map_err MulticastLeaveFailed (os_set_option os s (LeaveSsmV4 source grp interface)))"

definition ssm_v6_error :: "(io_error \<Rightarrow> mcrx_error) \<Rightarrow> io_error \<Rightarrow> mcrx_error" where
  "ssm_v6_error wrap e =
     (if err_kind e = Unsupported then SourceSpecificMulticastUnsupported else wrap e)"

definition join_multicast_group :: "'k os \<Rightarrow> socket \<Rightarrow> subscription_config \<Rightarrow> ('k, mcrx_error, unit) io" where
  "join_multicast_group os s cfg =
     (case family cfg of
        Ipv4 \<Rightarrow>
          io_bind (io_lift (ipv4_membership cfg)) (\<lambda>m.
          io_bind (io_lift (resolve_ipv4_interface cfg)) (\<lambda>interface.
          (case m4_source m of
             None \<Rightarrow> io_map_err MulticastJoinFailed
                       (os_set_option os s (JoinMulticastV4 (m4_group m) interface))
           | Some source \<Rightarrow> join_source_multicast_v4 os s (m4_group m) source interface)))
      | Ipv6 \<Rightarrow>
          io_bind (io_lift (ipv6_membership cfg)) (\<lambda>m.
          io_bind (resolve_ipv6_interface os cfg) (\<lambda>interface.
          (case m6_source m of
             None \<Rightarrow> io_map_err MulticastJoinFailed
                       (os_set_option os s (JoinMulticastV6 (m6_group m) interface))
           | Some source \<Rightarrow>
               io_map_err (ssm_v6_error MulticastJoinFailed)
                 (set_ipv6_source_membership_option os s MCAST_JOIN_SOURCE_GROUP
                    (m6_group m) source interface)))))"

definition leave_multicast_group :: "'k os \<Rightarrow> socket \<Rightarrow> subscription_config \<Rightarrow> ('k, mcrx_error, unit) io" where
  "leave_multicast_group os s cfg =
     (case family cfg of
        Ipv4 \<Rightarrow>
          io_bind (io_lift (ipv4_membership cfg)) (\<lambda>m.
          io_bind (io_lift (resolve_ipv4_interface cfg)) (\<lambda>interface.
          (case m4_source m of
             None \<Rightarrow> io_map_err MulticastLeaveFailed
                       (os_set_option os s (LeaveMulticastV4 (m4_group m) interface))
           | Some source \<Rightarrow> leave_source_multicast_v4 os s (m4_group m) source interface)))
      | Ipv6 \<Rightarrow>
          io_bind (io_lift (ipv6_membership cfg)) (\<lambda>m.
          io_bind (resolve_ipv6_interface os cfg) (\<lambda>interface.
          (case m6_source m of
             None \<Rightarrow> io_map_err MulticastLeaveFailed
                       (os_set_option os s (LeaveMulticastV6 (m6_group m) interface))
           | Some source \<Rightarrow>
               io_map_err (ssm_v6_error MulticastLeaveFailed)
                 (set_ipv6_source_membership_option os s MCAST_LEAVE_SOURCE_GROUP
                    (m6_group m) source interface)))))"

section \<open>What the receive filter guarantees\<close>

text \<open>
  A datagram belongs to a subscription when its pktinfo destination is the subscribed group, its
  sender is the configured source (if any), and it arrived on the configured interface index
  (if any).
\<close>

definition belongs_to :: "subscription_config \<Rightarrow> socket_addr \<Rightarrow> receive_metadata \<Rightarrow> bool" where
  "belongs_to cfg source md \<longleftrightarrow>
     md_destination_local_ip md = Some (cfg_group cfg) \<and>
     (\<forall>expected. source_addr cfg = Some expected \<longrightarrow> sa_ip source = expected) \<and>
     (\<forall>expected. cfg_interface_index cfg = Some expected \<longrightarrow>
        md_ingress_interface_index md = Some expected)"

lemma packet_matches_True:
  "packet_matches_subscription source md cfg = Inr True \<longleftrightarrow> belongs_to cfg source md"
  by (auto simp: packet_matches_subscription_def belongs_to_def res_bind_def ok_or_def source_addr_def
      split: option.splits source_filter.splits if_splits)

lemma packet_matches_Inl:
  "packet_matches_subscription source md cfg = Inl e \<longleftrightarrow>
     md_destination_local_ip md = None \<and> e = ReceiveMetadataUnavailable"
  by (auto simp: packet_matches_subscription_def res_bind_def ok_or_def
      split: option.splits source_filter.splits if_splits)

lemma packet_matches_False:
  "packet_matches_subscription source md cfg = Inr False \<longleftrightarrow>
     md_destination_local_ip md \<noteq> None \<and> \<not> belongs_to cfg source md"
  using packet_matches_True [of source md cfg] packet_matches_Inl [of source md cfg]
  by (cases "packet_matches_subscription source md cfg") fastforce+

text \<open>Ancillary data only ever sets the destination and the ingress index.\<close>

definition same_configuration :: "receive_metadata \<Rightarrow> receive_metadata \<Rightarrow> bool" where
  "same_configuration md md' \<longleftrightarrow>
     md_socket_local_addr md' = md_socket_local_addr md \<and>
     md_configured_interface md' = md_configured_interface md \<and>
     md_configured_interface_index md' = md_configured_interface_index md"

lemma same_configuration_refl [simp]: "same_configuration md md"
  by (simp add: same_configuration_def)

lemma same_configuration_trans:
  "same_configuration a b \<Longrightarrow> same_configuration b c \<Longrightarrow> same_configuration a c"
  by (simp add: same_configuration_def)

lemma apply_cmsg_configuration: "same_configuration md (apply_cmsg os fam c md)"
  by (simp add: apply_cmsg_def same_configuration_def set_ingress_def Let_def
      split: subscription_address_family.splits)

lemma apply_ancillary_configuration:
  "same_configuration md (apply_receive_ancillary_data os fam cs md)"
  by (induction cs arbitrary: md) (auto intro: same_configuration_trans apply_cmsg_configuration)

lemma apply_wsa_cmsg_configuration: "same_configuration md (apply_wsa_cmsg os fam c md)"
  by (simp add: apply_wsa_cmsg_def same_configuration_def set_ingress_def Let_def
      split: subscription_address_family.splits)

lemma wsa_walk_configuration:
  "wsa_walk fuel os msg fam hdr md = Some md' \<Longrightarrow> same_configuration md md'"
  by (induction fuel os msg fam hdr md rule: wsa_walk.induct)
     (auto intro: same_configuration_trans apply_wsa_cmsg_configuration)

lemma apply_ancillary_windows_configuration:
  "same_configuration md (apply_receive_ancillary_data_windows os fam msg md)"
  by (auto simp: apply_receive_ancillary_data_windows_def split: option.splits
      intro: wsa_walk_configuration)

text \<open>What every delivered packet carries.\<close>

definition delivered_for ::
  "subscription_id \<Rightarrow> subscription_config \<Rightarrow> packet_with_metadata \<Rightarrow> bool" where
  "delivered_for sub_id cfg p \<longleftrightarrow>
     pkt_subscription_id (pwm_packet p) = sub_id \<and>
     pkt_group (pwm_packet p) = cfg_group cfg \<and>
     pkt_dst_port (pwm_packet p) = cfg_dst_port cfg \<and>
     belongs_to cfg (pkt_source (pwm_packet p)) (pwm_metadata p) \<and>
     md_configured_interface (pwm_metadata p) = cfg_interface cfg \<and>
     md_configured_interface_index (pwm_metadata p) = cfg_interface_index cfg \<and>
     md_socket_local_addr (pwm_metadata p) \<noteq> None"

lemma base_metadata_Inr:
  "base_metadata os rs cfg k = (Inr md, k') \<Longrightarrow>
     md_configured_interface md = cfg_interface cfg \<and>
     md_configured_interface_index md = cfg_interface_index cfg \<and>
     md_socket_local_addr md \<noteq> None"
  by (auto simp: base_metadata_def io_eqs)

lemma recv_unix_body_delivers:
  assumes "recv_unix_body os rs sub_id cfg n k = (Some (Inr (Some p)), k')"
  shows "delivered_for sub_id cfg p"
proof -
  from assms obtain msg k1 where "os_recvmsg os (rs_socket rs) 65535 n k = (Inr msg, k1)"
    by (auto simp: recv_unix_body_def split: prod.splits sum.splits if_splits)
  moreover from assms this obtain source where "rm_source msg = Some source"
    by (auto simp: recv_unix_body_def split: option.splits)
  moreover from assms calculation obtain md0 k2 where b: "base_metadata os rs cfg k1 = (Inr md0, k2)"
    by (auto simp: recv_unix_body_def split: prod.splits sum.splits)
  moreover define md where "md = (if min (rm_controllen msg) n \<noteq> 0
      then apply_receive_ancillary_data os (family cfg) (rm_cmsgs msg (min (rm_controllen msg) n)) md0
      else md0)"
  ultimately have *: "packet_matches_subscription source md cfg = Inr True"
    "pwm_metadata p = md" "pkt_source (pwm_packet p) = source"
    "pkt_subscription_id (pwm_packet p) = sub_id" "pkt_group (pwm_packet p) = cfg_group cfg"
    "pkt_dst_port (pwm_packet p) = cfg_dst_port cfg"
    using assms by (auto simp: recv_unix_body_def Let_def split: sum.splits bool.splits)
  have "same_configuration md0 md" by (simp add: md_def apply_ancillary_configuration)
  with base_metadata_Inr [OF b] * show ?thesis
    by (simp add: delivered_for_def packet_matches_True same_configuration_def)
qed

lemma recv_windows_body_delivers:
  assumes "recv_windows_body os rs sub_id cfg n k = (Some (Inr (Some p)), k')"
  shows "delivered_for sub_id cfg p"
proof -
  from assms obtain got k1 where "os_wsarecvmsg os (rs_socket rs) 65535 n k = (Inr got, k1)"
    by (auto simp: recv_windows_body_def split: prod.splits sum.splits if_splits)
  moreover define msg where "msg = got\<lparr>wm_control_len := min (wm_control_len got) (of_nat n)\<rparr>"
  moreover from assms calculation obtain source where "wm_source msg = Some source"
    by (auto simp: recv_windows_body_def Let_def split: option.splits)
  moreover from assms calculation obtain md0 k2 where b: "base_metadata os rs cfg k1 = (Inr md0, k2)"
    by (auto simp: recv_windows_body_def Let_def split: prod.splits sum.splits)
  moreover define md where "md = (if wm_control_base msg \<noteq> 0 \<and> wm_control_len msg \<noteq> 0
      then apply_receive_ancillary_data_windows os (family cfg) msg md0 else md0)"
  ultimately have *: "packet_matches_subscription source md cfg = Inr True"
    "pwm_metadata p = md" "pkt_source (pwm_packet p) = source"
    "pkt_subscription_id (pwm_packet p) = sub_id" "pkt_group (pwm_packet p) = cfg_group cfg"
    "pkt_dst_port (pwm_packet p) = cfg_dst_port cfg"
    using assms by (auto simp: recv_windows_body_def Let_def split: sum.splits bool.splits)
  have "same_configuration md0 md" by (simp add: md_def apply_ancillary_windows_configuration)
  with base_metadata_Inr [OF b] * show ?thesis
    by (simp add: delivered_for_def packet_matches_True same_configuration_def)
qed

lemma recv_with_metadata_delivers:
  assumes "recv_packet_with_metadata os rs sub_id cfg k = (Inr (Some p), k')"
  shows "delivered_for sub_id cfg p"
  using assms
  unfolding recv_packet_with_metadata_def recv_packet_with_ancillary_metadata_def
    recv_packet_with_metadata_unix_def recv_packet_with_metadata_windows_def
  by (auto simp: io_eqs Let_def split: if_splits
      dest!: filtered_loop_verdict recv_unix_body_delivers recv_windows_body_delivers)

lemma recv_packet_delivers:
  assumes "recv_packet os rs sub_id cfg k = (Inr (Some p), k')"
  shows "\<exists>md. delivered_for sub_id cfg \<lparr>pwm_packet = p, pwm_metadata = md\<rparr>"
proof -
  from assms obtain q where "recv_packet_with_metadata os rs sub_id cfg k = (Inr (Some q), k')"
    and "p = pwm_packet q"
    by (auto simp: recv_packet_def io_eqs into_packet_def)
  with recv_with_metadata_delivers [of os rs sub_id cfg k q k'] show ?thesis
    by (intro exI [of _ "pwm_metadata q"]) (simp add: delivered_for_def)
qed

section \<open>Sockets are never leaked\<close>

lemma keeps_scan_ifaddrs:
  "accounts os opens \<Longrightarrow> keeps opens (scan_ifaddrs os interface entries)"
proof (induction entries)
  case (Cons entry rest)
  then show ?case
    using keeps_run [OF keeps_accounts(11) [OF Cons.prems]]
    by (fastforce simp: keeps_def split: option.splits prod.splits)
qed (simp add: keeps_def)

lemma keeps_resolve_ipv6_interface_index [keeps_intros]:
  assumes "accounts os opens"
  shows "keeps opens (resolve_ipv6_interface_index os interface)"
proof -
  have "keeps opens (\<lambda>k. case scan_ifaddrs os (V6 interface) entries k of
            (Some index, k') \<Rightarrow> (Inr index, k') | (None, k') \<Rightarrow> (Inl e, k'))" for entries and e :: mcrx_error
    using keeps_run [OF keeps_scan_ifaddrs [OF assms]]
    by (fastforce simp: keeps_def split: option.splits prod.splits)
  then show ?thesis
    unfolding resolve_ipv6_interface_index_def resolve_ipv6_interface_index_unix_def
      resolve_ipv6_interface_index_windows_def
    using assms by (auto intro!: keeps_intros split: option.splits)
qed

lemma keeps_resolve_ipv6_interface [keeps_intros]:
  "accounts os opens \<Longrightarrow> keeps opens (resolve_ipv6_interface os cfg)"
  unfolding resolve_ipv6_interface_def
  by (auto intro!: keeps_intros split: option.splits)

lemma keeps_try_socket_local_addr [keeps_intros]:
  "accounts os opens \<Longrightarrow> keeps opens (try_socket_local_addr os s)"
  unfolding try_socket_local_addr_def by (intro keeps_intros)

lemma keeps_enable_receive_metadata [keeps_intros]:
  "accounts os opens \<Longrightarrow> keeps opens (enable_receive_metadata os s fam)"
  unfolding enable_receive_metadata_def set_socket_option_flag_def
  by (auto intro!: keeps_intros split: subscription_address_family.splits)

lemma keeps_restrict [keeps_intros]:
  "accounts os opens \<Longrightarrow> keeps opens (restrict_multicast_delivery_to_socket_memberships os s fam)"
  unfolding restrict_multicast_delivery_to_socket_memberships_def
  by (auto intro!: keeps_intros split: subscription_address_family.splits)

lemma keeps_configure_detailed_receive [keeps_intros]:
  assumes "accounts os opens"
  shows "keeps opens (configure_detailed_receive os s)"
proof -
  have "keeps opens (io_bind (enable_receive_metadata os s fam)
      (\<lambda>_. if os_target os = WindowsTarget then get_wsarecvmsg os s else io_return False))" for fam
    unfolding get_wsarecvmsg_def using assms by (intro keeps_intros)
  then show ?thesis
    using keeps_run [OF keeps_try_socket_local_addr [OF assms]]
    unfolding configure_detailed_receive_def socket_family_def
    by (fastforce simp: keeps_def split: option.splits prod.splits)
qed

lemma keeps_base_metadata [keeps_intros]:
  assumes "accounts os opens"
  shows "keeps opens (base_metadata os rs cfg)"
proof -
  have "keeps opens (rs_local_addr_op os rs)"
    using keeps_run [OF keeps_try_socket_local_addr [OF assms]]
    unfolding rs_local_addr_op_def
    by (fastforce simp: keeps_def split: option.splits prod.splits)
  then show ?thesis unfolding base_metadata_def by (intro keeps_intros)
qed

lemma keeps_recv_unix_body [keeps_intros]:
  assumes "accounts os opens"
  shows "keeps opens (recv_unix_body os rs sub_id cfg n)"
  using keeps_run [OF keeps_accounts(6) [OF assms]] keeps_run [OF keeps_base_metadata [OF assms]]
  unfolding keeps_def recv_unix_body_def Let_def
  by (auto split: option.splits prod.splits sum.splits bool.splits)

lemma keeps_recv_windows_body [keeps_intros]:
  assumes "accounts os opens"
  shows "keeps opens (recv_windows_body os rs sub_id cfg n)"
  using keeps_run [OF keeps_accounts(8) [OF assms]] keeps_run [OF keeps_base_metadata [OF assms]]
  unfolding keeps_def recv_windows_body_def Let_def
  by (auto split: option.splits prod.splits sum.splits bool.splits)

lemma keeps_recv_packet_with_metadata [keeps_intros]:
  "accounts os opens \<Longrightarrow> keeps opens (recv_packet_with_metadata os rs sub_id cfg)"
  unfolding recv_packet_with_metadata_def recv_packet_with_ancillary_metadata_def
    recv_packet_with_metadata_unix_def recv_packet_with_metadata_windows_def Let_def
  by (intro keeps_intros)

lemma keeps_recv_packet [keeps_intros]:
  "accounts os opens \<Longrightarrow> keeps opens (recv_packet os rs sub_id cfg)"
  unfolding recv_packet_def by (intro keeps_intros)

text \<open>
  A body that takes ownership of a socket keeps the set of open sockets when it succeeds and
  closes that socket, and no other, when it fails.
\<close>

definition takes :: "('k \<Rightarrow> socket set) \<Rightarrow> socket \<Rightarrow> ('k, 'e, 'a) io \<Rightarrow> bool" where
  "takes opens s m \<longleftrightarrow>
     (\<forall>k a k'. m k = (Inr a, k') \<longrightarrow> opens k' = opens k) \<and>
     (\<forall>k e k'. m k = (Inl e, k') \<longrightarrow> opens k' = opens k - {s})"

lemma takes_owning: "accounts os opens \<Longrightarrow> keeps opens m \<Longrightarrow> takes opens s (owning os s m)"
  by (auto simp: takes_def owning_eq_Inr owning_eq_Inl accounts_close dest: keeps_run)

lemma takes_return: "takes opens s (io_return a)"
  by (simp add: takes_def)

lemma takes_bind:
  "takes opens s m \<Longrightarrow> (\<And>a. takes opens s (f a)) \<Longrightarrow> takes opens s (io_bind m f)"
  unfolding takes_def by (simp add: io_eqs) metis

lemma takes_try_adopt: "accounts os opens \<Longrightarrow> takes opens s (try_adopt os s cfg)"
  unfolding try_adopt_def by (intro takes_owning keeps_intros)

lemma takes_prepare_existing_socket:
  "accounts os opens \<Longrightarrow> takes opens s (prepare_existing_socket os s cfg)"
  unfolding prepare_existing_socket_def socket_local_addr_def
  by (intro takes_bind takes_owning takes_try_adopt takes_return keeps_intros)

lemma check_existing_address_Inr:
  "check_existing_address cfg a = Inr () \<longleftrightarrow>
     addr_family a = family cfg \<and> sa_port a = cfg_dst_port cfg"
  by (cases "family cfg"; cases a) (auto simp: check_existing_address_def)

lemma prepare_existing_socket_Inr:
  assumes "prepare_existing_socket os s cfg k = (Inr rs, k')"
  shows "validate cfg = Inr () \<and> rs_socket rs = s \<and> rs_setup_error rs = None \<and>
     (\<exists>a. rs_local_addr rs = Some a \<and> addr_family a = family cfg \<and> sa_port a = cfg_dst_port cfg)"
  using assms unfolding prepare_existing_socket_def try_adopt_def
  by (auto simp: io_eqs owning_eq_Inr check_existing_address_Inr)

lemma open_bound_socket_ownership:
  assumes acc: "accounts os opens"
  shows "open_bound_socket os cfg k = (Inl e, k') \<Longrightarrow> opens k' = opens k"
    and "open_bound_socket os cfg k = (Inr rs, k') \<Longrightarrow>
      rs_socket rs \<notin> opens k \<and> opens k' = insert (rs_socket rs) (opens k)"
proof -
  define create where "create =
       (case family cfg of
          Ipv4 \<Rightarrow> io_map_err SocketCreateFailed (os_socket_new os DomainIPV4 TypeDgram ProtocolUDP)
        | Ipv6 \<Rightarrow>
            io_bind (io_map_err SocketCreateFailed (os_socket_new os DomainIPV6 TypeDgram ProtocolUDP))
              (\<lambda>s. owning os s
                 (io_bind (io_map_err SocketOptionFailed (os_set_option os s (SetOnlyV6 True)))
                    (\<lambda>_. io_return s))))"
  define bring_up where "bring_up = (\<lambda>s. io_bind
       (owning os s
          (io_bind (io_map_err SocketOptionFailed (os_set_option os s (SetReuseAddress True))) (\<lambda>_.
           io_bind (io_map_err SocketOptionFailed (set_port_reuse_if_supported os s)) (\<lambda>_.
           io_map_err SocketBindFailed
             (case family cfg of
                Ipv4 \<Rightarrow> os_bind os s (SocketAddrV4 ipv4_UNSPECIFIED (cfg_dst_port cfg))
              | Ipv6 \<Rightarrow> os_bind os s (SocketAddrV6 ipv6_UNSPECIFIED (cfg_dst_port cfg) 0 0))))))
       (\<lambda>_. prepare_existing_socket os s cfg))"
  have eq: "open_bound_socket os cfg = io_bind create bring_up"
    by (simp add: open_bound_socket_def create_def bring_up_def)
  have v6: "takes opens s (owning os s
       (io_bind (io_map_err SocketOptionFailed (os_set_option os s (SetOnlyV6 True)))
                    (\<lambda>_. io_return s)))" for s
    by (intro takes_owning keeps_intros acc)
  have created: "s \<notin> opens k \<and> opens k1 = insert s (opens k)" if "create k = (Inr s, k1)" for s k1
    using that unfolding create_def
    by (auto simp: io_eqs owning_eq_Inr split: subscription_address_family.splits
        dest: accounts_new(1) [OF acc] keeps_run [OF keeps_accounts(1) [OF acc]])
  have failed: "opens k1 = opens k" if "create k = (Inl e, k1)" for e k1
    using that v6 unfolding create_def takes_def
    by (force simp: io_eqs split: subscription_address_family.splits
        dest: accounts_new [OF acc])
  have "keeps opens (set_port_reuse_if_supported os s)" for s
    unfolding set_port_reuse_if_supported_def by (intro keeps_intros acc)
  then have bring_up: "takes opens s (bring_up s)" for s
    unfolding bring_up_def
    by (cases "family cfg")
       (auto intro!: takes_bind takes_owning takes_prepare_existing_socket keeps_intros acc)
  have sock: "rs_socket rs = s" if "bring_up s k1 = (Inr rs, k2)" for s k1 rs k2
    using that unfolding bring_up_def by (auto simp: io_eqs dest: prepare_existing_socket_Inr)
  { assume "open_bound_socket os cfg k = (Inl e, k')"
    then show "opens k' = opens k"
      using failed created bring_up unfolding eq takes_def io_bind_eq_Inl by blast }
  { assume "open_bound_socket os cfg k = (Inr rs, k')"
    then show "rs_socket rs \<notin> opens k \<and> opens k' = insert (rs_socket rs) (opens k)"
      using created bring_up sock unfolding eq takes_def io_bind_eq_Inr by metis }
qed

lemma keeps_resolve_default_ipv4_interface [keeps_intros]:
  assumes acc: "accounts os opens"
  shows "keeps opens (resolve_default_ipv4_interface os source)"
proof -
  have *: "opens (snd ((\<lambda>k. case m k of (r, k') \<Rightarrow> (r, os_close os probe k')) k1)) = opens k"
    if "keeps opens m" "probe \<notin> opens k" "opens k1 = insert probe (opens k)"
    for m :: "'a \<Rightarrow> (mcrx_error + ipv4_addr) \<times> 'a" and probe k k1
    using that by (auto simp: accounts_close [OF acc] split: prod.splits dest!: keeps_run)
  show ?thesis
    unfolding keeps_def
  proof
    fix k
    show "opens (snd (resolve_default_ipv4_interface os source k)) = opens k"
    proof (cases "os_socket_new os DomainIPV4 TypeDgram ProtocolUDP k")
      case (Pair r k1)
      show ?thesis
      proof (cases r)
        case (Inl e)
        then show ?thesis using Pair accounts_new(2) [OF acc]
          by (simp add: resolve_default_ipv4_interface_def io_bind_def io_map_err_def)
      next
        case (Inr probe)
        with Pair have "probe \<notin> opens k \<and> opens k1 = insert probe (opens k)"
          using accounts_new(1) [OF acc] by simp
        then show ?thesis
          unfolding resolve_default_ipv4_interface_def
          using Pair Inr
          apply (subst io_bind_Inr [where a = probe and k' = k1])
           apply (simp add: io_map_err_def)
          apply (rule *)
            apply (intro keeps_intros acc)
           apply simp_all
          done
      qed
    qed
  qed
qed

lemma keeps_join_multicast_group [keeps_intros]:
  "accounts os opens \<Longrightarrow> keeps opens (join_multicast_group os s cfg)"
  unfolding join_multicast_group_def join_source_multicast_v4_def
    resolve_ipv4_source_interface_address_def set_ipv6_source_membership_option_def
    set_ipv4_source_membership_option_def
  by (auto intro!: keeps_intros split: option.splits subscription_address_family.splits)

lemma keeps_leave_multicast_group [keeps_intros]:
  "accounts os opens \<Longrightarrow> keeps opens (leave_multicast_group os s cfg)"
  unfolding leave_multicast_group_def leave_source_multicast_v4_def
    resolve_ipv4_source_interface_address_def set_ipv6_source_membership_option_def
    set_ipv4_source_membership_option_def
  by (auto intro!: keeps_intros split: option.splits subscription_address_family.splits)

section \<open>Joining and leaving are dual\<close>

text \<open>
  The specification of membership changes: a configuration resolves to one membership, joining
  issues its add request and leaving its drop request.
\<close>

datatype resolved_membership =
    AnySourceV4 ipv4_addr ipv4_addr
  | OneSourceV4 ipv4_addr ipv4_addr ipv4_addr
  | AnySourceV6 ipv6_addr u32
  | OneSourceV6 ipv6_addr ipv6_addr u32

fun membership_group :: "resolved_membership \<Rightarrow> ip_addr" where
  "membership_group (AnySourceV4 g _) = V4 g"
| "membership_group (OneSourceV4 g _ _) = V4 g"
| "membership_group (AnySourceV6 g _) = V6 g"
| "membership_group (OneSourceV6 g _ _) = V6 g"

fun membership_source :: "resolved_membership \<Rightarrow> ip_addr option" where
  "membership_source (OneSourceV4 _ s _) = Some (V4 s)"
| "membership_source (OneSourceV6 _ s _) = Some (V6 s)"
| "membership_source _ = None"

definition resolve_membership ::
  "'k os \<Rightarrow> subscription_config \<Rightarrow> ('k, mcrx_error, resolved_membership) io" where
  "resolve_membership os cfg =
     (case family cfg of
        Ipv4 \<Rightarrow>
          io_bind (io_lift (ipv4_membership cfg)) (\<lambda>m.
            let interface = unwrap_or (m4_interface m) ipv4_UNSPECIFIED in
            case m4_source m of
              None \<Rightarrow> io_return (AnySourceV4 (m4_group m) interface)
            | Some source \<Rightarrow>
                io_bind (if os_target os = Apple
                         then resolve_ipv4_source_interface_address os interface source
                         else io_return interface)
                  (\<lambda>i. io_return (OneSourceV4 (m4_group m) source i)))
      | Ipv6 \<Rightarrow>
          io_bind (io_lift (ipv6_membership cfg)) (\<lambda>m.
          io_bind (resolve_ipv6_interface os cfg) (\<lambda>interface.
            case m6_source m of
              None \<Rightarrow> io_return (AnySourceV6 (m6_group m) interface)
            | Some source \<Rightarrow>
                if os_target os \<in> {Linux, Android, Apple, WindowsTarget}
                then io_return (OneSourceV6 (m6_group m) source interface)
                else io_throw SourceSpecificMulticastUnsupported)))"

definition join_request :: "target \<Rightarrow> resolved_membership \<Rightarrow> sock_request" where
  "join_request t m =
     (case m of
        AnySourceV4 g i \<Rightarrow> JoinMulticastV4 g i
      | OneSourceV4 g s i \<Rightarrow>
          if t = Apple then SourceMembershipV4 IP_ADD_SOURCE_MEMBERSHIP g s i else JoinSsmV4 s g i
      | AnySourceV6 g i \<Rightarrow> JoinMulticastV6 g i
      | OneSourceV6 g s i \<Rightarrow> SourceMembershipV6 MCAST_JOIN_SOURCE_GROUP g s i)"

definition leave_request :: "target \<Rightarrow> resolved_membership \<Rightarrow> sock_request" where
  "leave_request t m =
     (case m of
        AnySourceV4 g i \<Rightarrow> LeaveMulticastV4 g i
      | OneSourceV4 g s i \<Rightarrow>
          if t = Apple then SourceMembershipV4 IP_DROP_SOURCE_MEMBERSHIP g s i else LeaveSsmV4 s g i
      | AnySourceV6 g i \<Rightarrow> LeaveMulticastV6 g i
      | OneSourceV6 g s i \<Rightarrow> SourceMembershipV6 MCAST_LEAVE_SOURCE_GROUP g s i)"

definition request_error :: "(io_error \<Rightarrow> mcrx_error) \<Rightarrow> resolved_membership \<Rightarrow> io_error \<Rightarrow> mcrx_error" where
  "request_error wrap m = (case m of OneSourceV6 _ _ _ \<Rightarrow> ssm_v6_error wrap | _ \<Rightarrow> wrap)"

definition issue ::
  "'k os \<Rightarrow> socket \<Rightarrow> subscription_config \<Rightarrow> (target \<Rightarrow> resolved_membership \<Rightarrow> sock_request) \<Rightarrow>
   (io_error \<Rightarrow> mcrx_error) \<Rightarrow> ('k, mcrx_error, unit) io" where
  "issue os s cfg request wrap =
     io_bind (resolve_membership os cfg) (\<lambda>m.
       io_map_err (request_error wrap m) (os_set_option os s (request (os_target os) m)))"

lemma join_is_issue: "join_multicast_group os s cfg = issue os s cfg join_request MulticastJoinFailed"
proof (cases "family cfg")
  case Ipv4
  then show ?thesis
    by (cases "ipv4_membership cfg"; cases "m4_source (projr (ipv4_membership cfg))")
       (auto simp: join_multicast_group_def issue_def resolve_membership_def resolve_ipv4_interface_def
         join_source_multicast_v4_def set_ipv4_source_membership_option_def join_request_def request_error_def res_bind_def res_simps)
next
  case Ipv6
  then show ?thesis
    by (cases "ipv6_membership cfg"; cases "m6_source (projr (ipv6_membership cfg))";
        cases "os_target os \<in> {Linux, Android, Apple, WindowsTarget}")
       (auto simp: join_multicast_group_def issue_def resolve_membership_def join_request_def
         request_error_def set_ipv6_source_membership_option_def ssm_v6_error_def res_simps
         simp del: insert_iff)
qed

lemma leave_is_issue:
  "leave_multicast_group os s cfg = issue os s cfg leave_request MulticastLeaveFailed"
proof (cases "family cfg")
  case Ipv4
  then show ?thesis
    by (cases "ipv4_membership cfg"; cases "m4_source (projr (ipv4_membership cfg))")
       (auto simp: leave_multicast_group_def issue_def resolve_membership_def resolve_ipv4_interface_def
         leave_source_multicast_v4_def set_ipv4_source_membership_option_def leave_request_def request_error_def res_bind_def res_simps)
next
  case Ipv6
  then show ?thesis
    by (cases "ipv6_membership cfg"; cases "m6_source (projr (ipv6_membership cfg))";
        cases "os_target os \<in> {Linux, Android, Apple, WindowsTarget}")
       (auto simp: leave_multicast_group_def issue_def resolve_membership_def leave_request_def
         request_error_def set_ipv6_source_membership_option_def ssm_v6_error_def res_simps
         simp del: insert_iff)
qed

lemma resolve_membership_Inr:
  assumes "resolve_membership os cfg k = (Inr m, k')"
  shows "membership_group m = cfg_group cfg \<and> membership_source m = source_addr cfg"
  using assms
  by (auto simp: resolve_membership_def io_eqs Let_def ipv4_membership_def ipv6_membership_def
      config_ipv4_membership_def config_ipv6_membership_def source_addr_def bind_eq_Some_conv
      split: subscription_address_family.splits option.splits if_splits ip_addr.splits
        source_filter.splits)

section \<open>The Windows control-buffer walk terminates\<close>

text \<open>The layout of \<open>CMSGHDR\<close> on 64-bit Windows: 16 bytes, aligned to 8.\<close>

definition wsa_layout :: "'k os \<Rightarrow> bool" where
  "wsa_layout os \<longleftrightarrow>
     abi_wsa_cmsghdr_size (os_abi os) = 16 \<and> abi_wsa_cmsghdr_align (os_abi os) = 8"

lemma unat_clear_low: "unat (w AND NOT 7 :: u64) = unat w div 8 * 8"
  using unat_and_not_mask [of w 3] by (simp add: mask_eq_exp_minus_1)

lemma unat_align_up:
  assumes "checked_add l 7 = Some (r :: u64)"
  shows "unat l \<le> unat (r AND NOT 7)"
  unfolding unat_clear_low using checked_add_unat [OF assms] by simp

lemma wsa_nxthdr_advances:
  assumes "wsa_layout os" and "wsa_cmsg_nxthdr os msg addr = Some next_addr"
  shows "unat addr < unat next_addr \<and>
     unat next_addr + 16 \<le> unat (wm_control_base msg) + unat (wm_control_len msg)"
proof -
  have a16: "wsa_cmsg_align os 16 = 16" "wsa_cmsg_len os 0 = 16"
    using assms(1) by (simp_all add: wsa_layout_def wsa_cmsg_align_def wsa_cmsg_len_def)
  from assms a16 obtain e h l r ne where
    e: "checked_add (wm_control_base msg) (ucast (wm_control_len msg)) = Some e" and
    l: "l = wc_len (wm_header msg addr)" "16 \<le> l" "checked_add l 7 = Some r" and
    n: "checked_add addr (r AND NOT 7) = Some next_addr" and
    ne: "checked_add next_addr 16 = Some ne" "ne \<le> e"
    by (auto simp: wsa_cmsg_nxthdr_def wsa_layout_def bind_eq_Some_conv Let_def not_less
        split: if_splits)
  have "16 \<le> unat l" using l(2) by (simp add: word_le_nat_alt)
  then have "16 \<le> unat (r AND NOT 7)" using unat_align_up [OF l(3)] by simp
  moreover have "unat e = unat (wm_control_base msg) + unat (wm_control_len msg)"
    using checked_add_unat [OF e] unsigned_less [of "wm_control_len msg", where ?'a = nat]
    by (simp add: unsigned_ucast_eq take_bit_nat_eq_self)
  moreover have "unat next_addr + 16 \<le> unat e"
    using checked_add_unat [OF ne(1)] ne(2) by (simp add: word_le_nat_alt)
  ultimately show ?thesis using checked_add_unat [OF n] by simp
qed

lemma wsa_walk_fuel_enough:
  assumes "wsa_layout os"
    and "\<And>a. hdr = Some a \<Longrightarrow>
      unat (wm_control_base msg) + unat (wm_control_len msg) \<le> unat a + fuel"
    and "\<And>a. hdr = Some a \<Longrightarrow> unat a < unat (wm_control_base msg) + unat (wm_control_len msg)"
  shows "wsa_walk fuel os msg fam hdr md \<noteq> None"
  using assms
proof (induction fuel os msg fam hdr md rule: wsa_walk.induct)
  case (3 fuel os msg fam addr md)
  from "3.prems" have "wsa_walk fuel os msg fam (wsa_cmsg_nxthdr os msg addr)
      (apply_wsa_cmsg os fam (wm_header msg addr) md) \<noteq> None"
    by (intro "3.IH") (auto dest!: wsa_nxthdr_advances)
  then show ?case by simp
qed auto

section \<open>Properties\<close>

text \<open>
  C5. Whatever the operating system does and on every target, a packet that a receive call
  delivers carries the identifier, group and port of the subscription, was sent to the
  subscribed group, comes from the configured source when one is configured, and arrived on the
  configured interface index when one is configured.
\<close>

theorem receive_delivers_only_matching:
  assumes "recv_packet_with_metadata os rs sub_id cfg k = (Inr (Some p), k')"
  shows "pkt_subscription_id (pwm_packet p) = sub_id \<and>
     pkt_group (pwm_packet p) = cfg_group cfg \<and>
     pkt_dst_port (pwm_packet p) = cfg_dst_port cfg \<and>
     md_destination_local_ip (pwm_metadata p) = Some (cfg_group cfg) \<and>
     (cfg_source cfg = Any \<or> cfg_source cfg = Source (sa_ip (pkt_source (pwm_packet p)))) \<and>
     (cfg_interface_index cfg = None \<or>
      cfg_interface_index cfg = md_ingress_interface_index (pwm_metadata p))"
  using recv_with_metadata_delivers [OF assms]
  by (cases "cfg_source cfg"; cases "cfg_interface_index cfg")
     (auto simp: delivered_for_def belongs_to_def source_addr_def)

definition demo_group :: quad where
  "demo_group = Quad 239 1 2 3"

definition demo_config :: subscription_config where
  "demo_config = asm demo_group 5000"

definition demo_receive_socket :: receive_socket where
  "demo_receive_socket =
     \<lparr>rs_socket = Socket 3, rs_local_addr = Some (SocketAddrV4 ipv4_UNSPECIFIED 5000),
      rs_setup_error = None, rs_wsarecvmsg = False\<rparr>"

text \<open>A foreign datagram followed by one for the subscribed group.\<close>

definition demo_state :: sim where
  "demo_state = sim_init\<lparr>sim_inbox :=
     [pktinfo_msg (SocketAddrV4 (Quad 10 0 0 9) 700) (Quad 239 9 9 9) 2 [1],
      pktinfo_msg (SocketAddrV4 (Quad 10 0 0 1) 700) demo_group 2 [7, 8]]\<rparr>"

definition demo_packet :: packet_with_metadata where
  "demo_packet =
     \<lparr>pwm_packet =
        \<lparr>pkt_subscription_id = SubscriptionId 1, pkt_source = SocketAddrV4 (Quad 10 0 0 1) 700,
         pkt_group = V4 demo_group, pkt_dst_port = 5000, pkt_payload = [7, 8]\<rparr>,
      pwm_metadata =
        \<lparr>md_socket_local_addr = Some (SocketAddrV4 ipv4_UNSPECIFIED 5000),
         md_configured_interface = None, md_configured_interface_index = None,
         md_destination_local_ip = Some (V4 demo_group), md_ingress_interface_index = Some 2\<rparr>\<rparr>"

lemmas demo_defs = demo_state_def demo_group_def demo_config_def demo_receive_socket_def demo_packet_def

lemmas receive_unfold = recv_packet_with_metadata_def recv_packet_with_ancillary_metadata_def
  recv_packet_with_metadata_unix_def recv_unix_body_def ensure_ready_def base_metadata_def
  rs_local_addr_op_def ok_or_def res_bind_def Let_def res_simps ancillary_buffer_size_def
  control_message_contains_def apply_cmsg_def set_ingress_def ipv4_from_in_addr_def ipv4_from_u32_def
  packet_matches_subscription_def budget_exhausted_def MAX_FILTERED_DATAGRAMS_PER_RECEIVE_def
  ANCILLARY_STACK_BUFFER_SIZE_def family_def asm_def asm_ip_def

lemma demo_receive:
  "fst (recv_packet_with_metadata (sim_os Linux) demo_receive_socket (SubscriptionId 1) demo_config
     demo_state) = Inr (Some demo_packet)"
  by (simp add: receive_unfold demo_defs filtered_loop.simps sim_simps pktinfo_msg_def)

theorem receive_delivers_only_matching_witness:
  "fst (recv_packet_with_metadata (sim_os Linux) demo_receive_socket (SubscriptionId 1) demo_config
     demo_state) = Inr (Some demo_packet) \<and>
   pkt_group (pwm_packet demo_packet) = cfg_group demo_config \<and>
   md_destination_local_ip (pwm_metadata demo_packet) = Some (cfg_group demo_config)"
  using receive_delivers_only_matching [OF run_eq [OF demo_receive]] demo_receive by blast



text \<open>
  Opening a subscription socket never leaks a descriptor: on an operating system that
  accounts for open sockets, a failure on any step leaves exactly the sockets that were open
  before, and a success adds exactly the socket that is returned. The returned socket is ready,
  bound in the configuration's family to its destination port.
\<close>

theorem open_bound_socket_no_leak:
  assumes "accounts os opens" and "open_bound_socket os cfg k = (r, k')"
  shows "case r of
     Inl e \<Rightarrow> opens k' = opens k
   | Inr rs \<Rightarrow>
       rs_socket rs \<notin> opens k \<and> opens k' = insert (rs_socket rs) (opens k) \<and>
       ensure_ready rs = Inr () \<and> validate cfg = Inr () \<and>
       (\<exists>a. rs_local_addr rs = Some a \<and> addr_family a = family cfg \<and> sa_port a = cfg_dst_port cfg)"
proof (cases r)
  case (Inl e)
  then show ?thesis using open_bound_socket_ownership(1) [OF assms(1)] assms(2) by simp
next
  case (Inr rs)
  with assms(2) obtain s k1 where "prepare_existing_socket os s cfg k1 = (Inr rs, k')"
    unfolding open_bound_socket_def by (auto simp: io_eqs)
  from prepare_existing_socket_Inr [OF this]
    open_bound_socket_ownership(2) [OF assms(1) assms(2) [unfolded Inr]] Inr
  show ?thesis by (simp add: ensure_ready_def)
qed

lemma demo_open: "fst (open_bound_socket (sim_os Linux) demo_config sim_init) = Inr demo_receive_socket"
  by code_simp

theorem open_bound_socket_no_leak_witness:
  "accounts (sim_os Linux) sim_sockets \<and>
   sim_sockets (snd (open_bound_socket (sim_os Linux) demo_config sim_init)) =
     insert (Socket 3) (sim_sockets sim_init)"
  using open_bound_socket_no_leak [OF sim_accounts run_eq [OF demo_open]]
  by (simp add: sim_accounts demo_receive_socket_def)

text \<open>
  Joining and leaving are dual: both resolve the configuration to the same membership (group,
  source and interface), with the configured group and source, and then issue the add request and
  the drop request of that membership. Every error of the request is reported as a join or leave
  failure, except that IPv6 source memberships report a missing platform feature as such.
\<close>

theorem join_leave_dual:
  "join_multicast_group os s cfg = issue os s cfg join_request MulticastJoinFailed \<and>
   leave_multicast_group os s cfg = issue os s cfg leave_request MulticastLeaveFailed \<and>
   (\<forall>k. case fst (resolve_membership os cfg k) of
      Inr m \<Rightarrow> membership_group m = cfg_group cfg \<and> membership_source m = source_addr cfg
    | Inl e \<Rightarrow> True)"
proof -
  have "case fst (resolve_membership os cfg k) of
      Inr m \<Rightarrow> membership_group m = cfg_group cfg \<and> membership_source m = source_addr cfg
    | Inl e \<Rightarrow> True" for k
    by (cases "resolve_membership os cfg k") (auto split: sum.splits dest: resolve_membership_Inr)
  then show ?thesis by (simp add: join_is_issue leave_is_issue)
qed

text \<open>
  The Windows walk over the control buffer always ends: on the 64-bit \<open>CMSGHDR\<close> layout, with
  as much fuel as the buffer has bytes, it visits every header and returns a result, for every
  content of the buffer.
\<close>

theorem windows_control_walk_terminates:
  assumes "wsa_layout os"
  shows "\<exists>md'. wsa_walk (unat (wm_control_len msg)) os msg fam (wsa_cmsg_firsthdr os msg) md = Some md' \<and>
     apply_receive_ancillary_data_windows os fam msg md = md'"
proof -
  have "0 < unat (wm_control_len msg)" if "wsa_cmsg_firsthdr os msg = Some a" for a
  proof (rule ccontr)
    assume "\<not> 0 < unat (wm_control_len msg)"
    then have "wm_control_len msg = 0" by (simp add: unat_eq_zero)
    with that assms show False
      by (simp add: wsa_cmsg_firsthdr_def wsa_layout_def wsa_cmsg_space_def wsa_cmsg_align_def
          split: if_splits)
  qed
  then have "wsa_walk (unat (wm_control_len msg)) os msg fam (wsa_cmsg_firsthdr os msg) md \<noteq> None"
    by (intro wsa_walk_fuel_enough assms) (auto simp: wsa_cmsg_firsthdr_def split: if_splits)
  then show ?thesis by (auto simp: apply_receive_ancillary_data_windows_def)
qed

theorem windows_control_walk_terminates_witness:
  "wsa_layout (sim_os WindowsTarget) \<and>
   (\<exists>md'. apply_receive_ancillary_data_windows (sim_os WindowsTarget) Ipv4
      \<lparr>wm_payload = [], wm_source = None, wm_control_base = 4096, wm_control_len = 64,
       wm_header = (\<lambda>a. \<lparr>wc_len = 16, wc_level = IPPROTO_IP, wc_type = IP_PKTINFO, wc_data = []\<rparr>)\<rparr>
      empty_metadata = md')"
proof -
  have "wsa_layout (sim_os WindowsTarget)" by (simp add: wsa_layout_def sim_os_def sim_abi_def)
  then show ?thesis using windows_control_walk_terminates by blast
qed

end
