(* ===== verification/Metrics.thy ===== *)
theory Metrics
  imports Os
begin

text \<open>
  \<open>src/metrics.rs\<close>: point-in-time snapshots of cumulative counters, the deltas between them, and
  the samplers that keep the previous snapshot as a baseline. The three samplers share one
  contract, stated as the locale \<open>delta_counter\<close>. Capturing a snapshot of the process is in
  the theory \<open>ProcMetrics\<close>.

  Floating-point values are a parameter: a type \<open>'f\<close> with the operations of \<open>f64\<close> that the code
  calls, so that nothing is assumed about rounding.
\<close>

section \<open>Floating point\<close>

record 'f f64_ops =
  f_from_u64 :: "u64 \<Rightarrow> 'f"
  f_zero :: 'f
  f_hundred :: 'f
  f_add :: "'f \<Rightarrow> 'f \<Rightarrow> 'f"
  f_sub :: "'f \<Rightarrow> 'f \<Rightarrow> 'f"
  f_mul :: "'f \<Rightarrow> 'f \<Rightarrow> 'f"
  f_div :: "'f \<Rightarrow> 'f \<Rightarrow> 'f"
  f_less :: "'f \<Rightarrow> 'f \<Rightarrow> bool"
  f_as_secs :: "nat \<Rightarrow> 'f"     \<comment> \<open>\<open>Duration::as_secs_f64\<close> of a number of nanoseconds\<close>

text \<open>\<open>SystemTime::duration_since\<close>: \<open>None\<close> when the argument is later.\<close>

definition duration_since :: "system_time \<Rightarrow> system_time \<Rightarrow> nat option" where
  "duration_since later earlier = (if earlier \<le> later then Some (nat (later - earlier)) else None)"

definition rate_per_sec :: "'f f64_ops \<Rightarrow> u64 \<Rightarrow> 'f \<Rightarrow> 'f" where
  "rate_per_sec fl count interval_secs =
     (if f_less fl (f_zero fl) interval_secs then f_div fl (f_from_u64 fl count) interval_secs
      else f_zero fl)"

definition duration_since_epoch_secs :: "'f f64_ops \<Rightarrow> system_time \<Rightarrow> 'f" where
  "duration_since_epoch_secs fl time = f_as_secs fl (unwrap_or (duration_since time 0) 0)"

section \<open>Subscription metrics\<close>

record subscription_metrics_snapshot =
  sms_packets_received :: u64
  sms_bytes_received :: u64
  sms_would_block_count :: u64
  sms_receive_errors :: u64
  sms_join_count :: u64
  sms_leave_count :: u64
  sms_last_payload_len :: "usize option"
  sms_last_source :: "socket_addr option"
  sms_last_receive_at :: "system_time option"
  sms_captured_at :: system_time

record 'f subscription_metrics_delta =
  smd_interval_secs :: 'f
  smd_packets_received :: u64
  smd_bytes_received :: u64
  smd_would_block_count :: u64
  smd_receive_errors :: u64
  smd_join_count :: u64
  smd_leave_count :: u64

definition sub_delta_since ::
  "'f f64_ops \<Rightarrow> subscription_metrics_snapshot \<Rightarrow> subscription_metrics_snapshot \<Rightarrow> 'f subscription_metrics_delta option" where
  "sub_delta_since fl self earlier =
     Option.bind (duration_since (sms_captured_at self) (sms_captured_at earlier)) (\<lambda>duration.
     Option.bind (checked_sub (sms_packets_received self) (sms_packets_received earlier)) (\<lambda>packets_received.
     Option.bind (checked_sub (sms_bytes_received self) (sms_bytes_received earlier)) (\<lambda>bytes_received.
     Option.bind (checked_sub (sms_would_block_count self) (sms_would_block_count earlier)) (\<lambda>would_block_count.
     Option.bind (checked_sub (sms_receive_errors self) (sms_receive_errors earlier)) (\<lambda>receive_errors.
     Option.bind (checked_sub (sms_join_count self) (sms_join_count earlier)) (\<lambda>join_count.
     Option.bind (checked_sub (sms_leave_count self) (sms_leave_count earlier)) (\<lambda>leave_count.
     Some \<lparr>smd_interval_secs = f_as_secs fl duration,
           smd_packets_received = packets_received,
           smd_bytes_received = bytes_received,
           smd_would_block_count = would_block_count,
           smd_receive_errors = receive_errors,
           smd_join_count = join_count,
           smd_leave_count = leave_count\<rparr>)))))))"

definition sub_packets_per_sec :: "'f f64_ops \<Rightarrow> 'f subscription_metrics_delta \<Rightarrow> 'f" where
  "sub_packets_per_sec fl d = rate_per_sec fl (smd_packets_received d) (smd_interval_secs d)"

definition sub_bytes_per_sec :: "'f f64_ops \<Rightarrow> 'f subscription_metrics_delta \<Rightarrow> 'f" where
  "sub_bytes_per_sec fl d = rate_per_sec fl (smd_bytes_received d) (smd_interval_secs d)"

definition sub_would_block_per_sec :: "'f f64_ops \<Rightarrow> 'f subscription_metrics_delta \<Rightarrow> 'f" where
  "sub_would_block_per_sec fl d = rate_per_sec fl (smd_would_block_count d) (smd_interval_secs d)"

definition sub_receive_errors_per_sec :: "'f f64_ops \<Rightarrow> 'f subscription_metrics_delta \<Rightarrow> 'f" where
  "sub_receive_errors_per_sec fl d = rate_per_sec fl (smd_receive_errors d) (smd_interval_secs d)"

section \<open>Hardware metrics\<close>

record 'f hardware_metrics_snapshot =
  hms_cpu_user_secs_total :: 'f
  hms_cpu_system_secs_total :: 'f
  hms_rss_bytes :: u64
  hms_virtual_memory_bytes :: u64
  hms_thread_count :: u64
  hms_open_fds :: u64
  hms_page_faults_minor_total :: u64
  hms_page_faults_major_total :: u64
  hms_ctx_switches_voluntary_total :: u64
  hms_ctx_switches_involuntary_total :: u64
  hms_captured_at :: system_time

record 'f hardware_metrics_delta =
  hmd_ts :: 'f
  hmd_interval_secs :: 'f
  hmd_cpu_user_secs :: 'f
  hmd_cpu_system_secs :: 'f
  hmd_cpu_total_secs :: 'f
  hmd_cpu_util_percent :: 'f
  hmd_rss_bytes :: u64
  hmd_virtual_memory_bytes :: u64
  hmd_thread_count :: u64
  hmd_open_fds :: u64
  hmd_page_faults_minor :: u64
  hmd_page_faults_major :: u64
  hmd_ctx_switches_voluntary :: u64
  hmd_ctx_switches_involuntary :: u64

definition hardware_delta_since ::
  "'f f64_ops \<Rightarrow> 'f hardware_metrics_snapshot \<Rightarrow> 'f hardware_metrics_snapshot \<Rightarrow>
   'f hardware_metrics_delta option" where
  "hardware_delta_since fl self earlier =
     Option.bind (duration_since (hms_captured_at self) (hms_captured_at earlier)) (\<lambda>duration.
     let interval_secs = f_as_secs fl duration in
     if f_less fl (hms_cpu_user_secs_total self) (hms_cpu_user_secs_total earlier) \<or>
        f_less fl (hms_cpu_system_secs_total self) (hms_cpu_system_secs_total earlier)
     then None
     else
       let cpu_user_secs = f_sub fl (hms_cpu_user_secs_total self) (hms_cpu_user_secs_total earlier);
           cpu_system_secs =
             f_sub fl (hms_cpu_system_secs_total self) (hms_cpu_system_secs_total earlier);
           cpu_total_secs = f_add fl cpu_user_secs cpu_system_secs;
           cpu_util_percent =
             (if f_less fl (f_zero fl) interval_secs
              then f_mul fl (f_div fl cpu_total_secs interval_secs) (f_hundred fl) else f_zero fl)
       in
     Option.bind (checked_sub (hms_page_faults_minor_total self) (hms_page_faults_minor_total earlier)) (\<lambda>page_faults_minor.
     Option.bind (checked_sub (hms_page_faults_major_total self) (hms_page_faults_major_total earlier)) (\<lambda>page_faults_major.
     Option.bind (checked_sub (hms_ctx_switches_voluntary_total self) (hms_ctx_switches_voluntary_total earlier)) (\<lambda>ctx_switches_voluntary.
     Option.bind (checked_sub (hms_ctx_switches_involuntary_total self) (hms_ctx_switches_involuntary_total earlier)) (\<lambda>ctx_switches_involuntary.
     Some \<lparr>hmd_ts = duration_since_epoch_secs fl (hms_captured_at self),
           hmd_interval_secs = interval_secs,
           hmd_cpu_user_secs = cpu_user_secs, hmd_cpu_system_secs = cpu_system_secs,
           hmd_cpu_total_secs = cpu_total_secs, hmd_cpu_util_percent = cpu_util_percent,
           hmd_rss_bytes = hms_rss_bytes self,
           hmd_virtual_memory_bytes = hms_virtual_memory_bytes self,
           hmd_thread_count = hms_thread_count self,
           hmd_open_fds = hms_open_fds self,
           hmd_page_faults_minor = page_faults_minor,
           hmd_page_faults_major = page_faults_major,
           hmd_ctx_switches_voluntary = ctx_switches_voluntary,
           hmd_ctx_switches_involuntary = ctx_switches_involuntary\<rparr>)))))"

section \<open>Context metrics\<close>

record context_metrics_snapshot =
  cms_subscriptions_added :: u64
  cms_subscriptions_removed :: u64
  cms_active_subscriptions :: usize
  cms_joined_subscriptions :: usize
  cms_total_packets_received :: u64
  cms_total_bytes_received :: u64
  cms_total_would_block_count :: u64
  cms_total_receive_errors :: u64
  cms_total_join_count :: u64
  cms_total_leave_count :: u64
  cms_batch_calls :: u64
  cms_batch_packets_received :: u64
  cms_captured_at :: system_time

record 'f context_metrics_delta =
  cmd_interval_secs :: 'f
  cmd_packets_received :: u64
  cmd_bytes_received :: u64
  cmd_would_block_count :: u64
  cmd_receive_errors :: u64
  cmd_join_count :: u64
  cmd_leave_count :: u64
  cmd_batch_calls :: u64
  cmd_batch_packets_received :: u64

definition ctx_delta_since ::
  "'f f64_ops \<Rightarrow> context_metrics_snapshot \<Rightarrow> context_metrics_snapshot \<Rightarrow> 'f context_metrics_delta option" where
  "ctx_delta_since fl self earlier =
     Option.bind (duration_since (cms_captured_at self) (cms_captured_at earlier)) (\<lambda>duration.
     Option.bind (checked_sub (cms_total_packets_received self) (cms_total_packets_received earlier)) (\<lambda>packets_received.
     Option.bind (checked_sub (cms_total_bytes_received self) (cms_total_bytes_received earlier)) (\<lambda>bytes_received.
     Option.bind (checked_sub (cms_total_would_block_count self) (cms_total_would_block_count earlier)) (\<lambda>would_block_count.
     Option.bind (checked_sub (cms_total_receive_errors self) (cms_total_receive_errors earlier)) (\<lambda>receive_errors.
     Option.bind (checked_sub (cms_total_join_count self) (cms_total_join_count earlier)) (\<lambda>join_count.
     Option.bind (checked_sub (cms_total_leave_count self) (cms_total_leave_count earlier)) (\<lambda>leave_count.
     Option.bind (checked_sub (cms_batch_calls self) (cms_batch_calls earlier)) (\<lambda>batch_calls.
     Option.bind (checked_sub (cms_batch_packets_received self) (cms_batch_packets_received earlier)) (\<lambda>batch_packets_received.
     Some \<lparr>cmd_interval_secs = f_as_secs fl duration,
           cmd_packets_received = packets_received,
           cmd_bytes_received = bytes_received,
           cmd_would_block_count = would_block_count,
           cmd_receive_errors = receive_errors,
           cmd_join_count = join_count,
           cmd_leave_count = leave_count,
           cmd_batch_calls = batch_calls,
           cmd_batch_packets_received = batch_packets_received\<rparr>)))))))))"

definition ctx_packets_per_sec :: "'f f64_ops \<Rightarrow> 'f context_metrics_delta \<Rightarrow> 'f" where
  "ctx_packets_per_sec fl d = rate_per_sec fl (cmd_packets_received d) (cmd_interval_secs d)"

definition ctx_bytes_per_sec :: "'f f64_ops \<Rightarrow> 'f context_metrics_delta \<Rightarrow> 'f" where
  "ctx_bytes_per_sec fl d = rate_per_sec fl (cmd_bytes_received d) (cmd_interval_secs d)"

definition ctx_would_block_per_sec :: "'f f64_ops \<Rightarrow> 'f context_metrics_delta \<Rightarrow> 'f" where
  "ctx_would_block_per_sec fl d = rate_per_sec fl (cmd_would_block_count d) (cmd_interval_secs d)"

definition ctx_receive_errors_per_sec :: "'f f64_ops \<Rightarrow> 'f context_metrics_delta \<Rightarrow> 'f" where
  "ctx_receive_errors_per_sec fl d = rate_per_sec fl (cmd_receive_errors d) (cmd_interval_secs d)"

section \<open>Samplers\<close>

text \<open>
  \<open>SubscriptionMetricsSampler\<close>, \<open>HardwareMetricsSampler\<close> and \<open>ContextMetricsSampler\<close> hold the
  previous snapshot. They differ only in the snapshot type.
\<close>

record 's sampler =
  sampler_previous :: "'s option"

definition sampler_new :: "'s sampler" where
  "sampler_new = \<lparr>sampler_previous = None\<rparr>"

definition sampler_sample ::
  "('s \<Rightarrow> 's \<Rightarrow> 'd option) \<Rightarrow> 's sampler \<Rightarrow> 's \<Rightarrow> 'd option \<times> 's sampler" where
  "sampler_sample delta_since sampler current =
     (let delta = (case sampler_previous sampler of
                     Some previous \<Rightarrow> delta_since current previous
                   | None \<Rightarrow> None)
      in (delta, sampler\<lparr>sampler_previous := Some current\<rparr>))"

definition sampler_reset :: "'s sampler \<Rightarrow> 's sampler" where
  "sampler_reset sampler = sampler\<lparr>sampler_previous := None\<rparr>"

definition sub_sample ::
  "'f f64_ops \<Rightarrow> subscription_metrics_snapshot sampler \<Rightarrow> subscription_metrics_snapshot \<Rightarrow>
   'f subscription_metrics_delta option \<times> subscription_metrics_snapshot sampler" where
  "sub_sample fl = sampler_sample (sub_delta_since fl)"

definition hardware_sample ::
  "'f f64_ops \<Rightarrow> 'f hardware_metrics_snapshot sampler \<Rightarrow> 'f hardware_metrics_snapshot \<Rightarrow>
   'f hardware_metrics_delta option \<times> 'f hardware_metrics_snapshot sampler" where
  "hardware_sample fl = sampler_sample (hardware_delta_since fl)"

definition ctx_sample ::
  "'f f64_ops \<Rightarrow> context_metrics_snapshot sampler \<Rightarrow> context_metrics_snapshot \<Rightarrow>
   'f context_metrics_delta option \<times> context_metrics_snapshot sampler" where
  "ctx_sample fl = sampler_sample (ctx_delta_since fl)"

text \<open>Feeding a sampler a sequence of snapshots.\<close>

fun sample_all ::
  "('s sampler \<Rightarrow> 's \<Rightarrow> 'd option \<times> 's sampler) \<Rightarrow> 's sampler \<Rightarrow> 's list \<Rightarrow> 'd option list" where
  "sample_all sample sampler [] = []"
| "sample_all sample sampler (s # ss) =
     (case sample sampler s of (d, sampler') \<Rightarrow> d # sample_all sample sampler' ss)"

lemma sampler_sample_Some:
  "sampler_sample delta \<lparr>sampler_previous = Some s\<rparr> t = (delta t s, \<lparr>sampler_previous = Some t\<rparr>)"
  by (simp add: sampler_sample_def)

section \<open>The contract of a delta\<close>

text \<open>
  A delta between two snapshots exists exactly when time and every counter moved forward (and a
  snapshot-specific condition \<open>extra\<close> holds), and it then holds the differences of the counters.
\<close>

locale delta_counter =
  fixes delta_since :: "'s \<Rightarrow> 's \<Rightarrow> 'd option"
    and captured_at :: "'s \<Rightarrow> system_time"
    and counters :: "'s \<Rightarrow> u64 list"
    and deltas :: "'d \<Rightarrow> u64 list"
    and extra :: "'s \<Rightarrow> 's \<Rightarrow> bool"
  assumes delta_defined: "delta_since self earlier \<noteq> None \<longleftrightarrow>
      captured_at earlier \<le> captured_at self \<and> extra self earlier \<and>
      list_all2 (\<le>) (counters earlier) (counters self)"
    and delta_values: "delta_since self earlier = Some d \<Longrightarrow>
      deltas d = map2 (-) (counters self) (counters earlier)"
    and same_width: "length (counters self) = length (counters earlier)"
begin

text \<open>
  The deltas of consecutive samples add up: over a run in which every sample has a delta, the
  sum of one counter's deltas is the difference between its last and its first value.
\<close>

lemma deltas_telescope:
  assumes "sample_all (sampler_sample delta_since) \<lparr>sampler_previous = Some s\<rparr> ss = map Some ds"
    and "i < length (counters s)"
  shows "sum_list (map (\<lambda>d. deltas d ! i) ds) = counters (last (s # ss)) ! i - counters s ! i"
  using assms
proof (induction ss arbitrary: s ds)
  case (Cons t ts)
  from Cons.prems(1) obtain d ds' where ds: "ds = d # ds'" and d: "delta_since t s = Some d"
    and rest: "sample_all (sampler_sample delta_since) \<lparr>sampler_previous = Some t\<rparr> ts = map Some ds'"
    by (cases ds) (auto simp: sampler_sample_Some)
  have "deltas d ! i = counters t ! i - counters s ! i"
    using delta_values [OF d] Cons.prems(2) same_width [of s t] by simp
  moreover have "sum_list (map (\<lambda>d. deltas d ! i) ds') = counters (last (t # ts)) ! i - counters t ! i"
    using Cons.IH [OF rest] Cons.prems(2) same_width [of s t] by simp
  ultimately show ?case by (simp add: ds)
qed simp

text \<open>Counters that move back give no delta, and the next sample compares with the new baseline.\<close>

lemma backwards_is_rebased:
  assumes "\<not> list_all2 (\<le>) (counters s) (counters t)"
  shows "sampler_sample delta_since \<lparr>sampler_previous = Some s\<rparr> t = (None, \<lparr>sampler_previous = Some t\<rparr>)"
  using assms delta_defined [of t s] by (auto simp: sampler_sample_Some)

end

definition sub_counters :: "subscription_metrics_snapshot \<Rightarrow> u64 list" where
  "sub_counters s =
     [sms_packets_received s,
      sms_bytes_received s,
      sms_would_block_count s,
      sms_receive_errors s,
      sms_join_count s,
      sms_leave_count s]"

definition sub_deltas :: "'f subscription_metrics_delta \<Rightarrow> u64 list" where
  "sub_deltas s =
     [smd_packets_received s,
      smd_bytes_received s,
      smd_would_block_count s,
      smd_receive_errors s,
      smd_join_count s,
      smd_leave_count s]"

definition hardware_counters :: "'f hardware_metrics_snapshot \<Rightarrow> u64 list" where
  "hardware_counters s =
     [hms_page_faults_minor_total s,
      hms_page_faults_major_total s,
      hms_ctx_switches_voluntary_total s,
      hms_ctx_switches_involuntary_total s]"

definition hardware_deltas :: "'f hardware_metrics_delta \<Rightarrow> u64 list" where
  "hardware_deltas s =
     [hmd_page_faults_minor s,
      hmd_page_faults_major s,
      hmd_ctx_switches_voluntary s,
      hmd_ctx_switches_involuntary s]"

definition cpu_not_backwards ::
  "'f f64_ops \<Rightarrow> 'f hardware_metrics_snapshot \<Rightarrow> 'f hardware_metrics_snapshot \<Rightarrow> bool" where
  "cpu_not_backwards fl self earlier \<longleftrightarrow>
     \<not> f_less fl (hms_cpu_user_secs_total self) (hms_cpu_user_secs_total earlier) \<and>
     \<not> f_less fl (hms_cpu_system_secs_total self) (hms_cpu_system_secs_total earlier)"

definition ctx_counters :: "context_metrics_snapshot \<Rightarrow> u64 list" where
  "ctx_counters s =
     [cms_total_packets_received s,
      cms_total_bytes_received s,
      cms_total_would_block_count s,
      cms_total_receive_errors s,
      cms_total_join_count s,
      cms_total_leave_count s,
      cms_batch_calls s,
      cms_batch_packets_received s]"

definition ctx_deltas :: "'f context_metrics_delta \<Rightarrow> u64 list" where
  "ctx_deltas s =
     [cmd_packets_received s,
      cmd_bytes_received s,
      cmd_would_block_count s,
      cmd_receive_errors s,
      cmd_join_count s,
      cmd_leave_count s,
      cmd_batch_calls s,
      cmd_batch_packets_received s]"

lemma checked_sub_bind: "(checked_sub a b \<noteq> None) = (b \<le> a)"
  by (simp add: checked_sub_def)

lemma checked_sub_eq_Some: "checked_sub a b = Some c \<longleftrightarrow> b \<le> a \<and> c = a - b"
  by (auto simp: checked_sub_def)

lemma duration_since_eq_Some:
  "duration_since a b = Some d \<longleftrightarrow> b \<le> a \<and> d = nat (a - b)"
  by (auto simp: duration_since_def)

lemmas delta_simps = bind_eq_Some_conv checked_sub_eq_Some duration_since_eq_Some not_None_eq

interpretation sub_metrics: delta_counter
  "sub_delta_since fl" sms_captured_at sub_counters sub_deltas "\<lambda>_ _. True"
  by unfold_locales
     (auto simp: sub_delta_since_def sub_counters_def sub_deltas_def delta_simps)

interpretation hardware_metrics: delta_counter
  "hardware_delta_since fl" hms_captured_at hardware_counters hardware_deltas "cpu_not_backwards fl"
  by unfold_locales
     (auto simp: hardware_delta_since_def hardware_counters_def hardware_deltas_def
       cpu_not_backwards_def delta_simps Let_def split: if_splits)

interpretation ctx_metrics: delta_counter
  "ctx_delta_since fl" cms_captured_at ctx_counters ctx_deltas "\<lambda>_ _. True"
  by unfold_locales
     (auto simp: ctx_delta_since_def ctx_counters_def ctx_deltas_def delta_simps)

section \<open>Properties\<close>

text \<open>
  The delta of two subscription snapshots exists exactly when the later one was captured no
  earlier and no counter moved back; it then holds the exact differences, without wrap-around.
\<close>

theorem sub_delta_exact:
  "case sub_delta_since fl self earlier of
     None \<Rightarrow> sms_captured_at self < sms_captured_at earlier \<or>
       (\<exists>i. i < 6 \<and> sub_counters self ! i < sub_counters earlier ! i)
   | Some d \<Rightarrow>
       map unat (sub_deltas d) = map2 (\<lambda>a b. unat a - unat b) (sub_counters self) (sub_counters earlier) \<and>
       smd_interval_secs d = f_as_secs fl (nat (sms_captured_at self - sms_captured_at earlier))"
proof (cases "sub_delta_since fl self earlier")
  case None
  have len: "length (sub_counters s) = 6" for s by (simp add: sub_counters_def)
  show ?thesis
    using None sub_metrics.delta_defined [of fl self earlier] not_less
    unfolding list_all2_conv_all_nth len by auto
next
  case (Some d)
  then have "map unat (sub_deltas d) =
       map2 (\<lambda>a b. unat a - unat b) (sub_counters self) (sub_counters earlier) \<and>
     smd_interval_secs d = f_as_secs fl (nat (sms_captured_at self - sms_captured_at earlier))"
    by (auto simp: sub_delta_since_def sub_counters_def sub_deltas_def bind_eq_Some_conv
        checked_sub_Some duration_since_eq_Some)
  with Some show ?thesis by simp
qed

text \<open>
  A context sampler loses and double-counts nothing: when every sample of a run has a delta,
  the deltas of each counter add up to the difference between the last and the first snapshot.
\<close>

theorem ctx_samples_telescope:
  assumes "sample_all (ctx_sample fl) \<lparr>sampler_previous = Some s\<rparr> ss = map Some ds" and "i < 8"
  shows "sum_list (map (\<lambda>d. ctx_deltas d ! i) ds) = ctx_counters (last (s # ss)) ! i - ctx_counters s ! i"
  using ctx_metrics.deltas_telescope [of fl s ss ds i] assms by (simp add: ctx_sample_def ctx_counters_def)

definition demo_ops :: "nat f64_ops" where
  "demo_ops =
     \<lparr>f_from_u64 = unat, f_zero = 0, f_hundred = 100, f_add = (+), f_sub = (-), f_mul = (*),
      f_div = (div), f_less = (<), f_as_secs = (\<lambda>ns. ns)\<rparr>"

definition demo_snapshot :: "u64 \<Rightarrow> system_time \<Rightarrow> context_metrics_snapshot" where
  "demo_snapshot n t =
     \<lparr>cms_subscriptions_added = 1, cms_subscriptions_removed = 0, cms_active_subscriptions = 1,
      cms_joined_subscriptions = 1, cms_total_packets_received = n, cms_total_bytes_received = n,
      cms_total_would_block_count = 0, cms_total_receive_errors = 0, cms_total_join_count = 1,
      cms_total_leave_count = 0, cms_batch_calls = 0, cms_batch_packets_received = 0,
      cms_captured_at = t\<rparr>"

definition demo_delta :: "u64 \<Rightarrow> nat \<Rightarrow> nat context_metrics_delta" where
  "demo_delta n t =
     \<lparr>cmd_interval_secs = t, cmd_packets_received = n, cmd_bytes_received = n,
      cmd_would_block_count = 0, cmd_receive_errors = 0, cmd_join_count = 0, cmd_leave_count = 0,
      cmd_batch_calls = 0, cmd_batch_packets_received = 0\<rparr>"

lemma demo_samples:
  "sample_all (ctx_sample demo_ops) \<lparr>sampler_previous = Some (demo_snapshot 2 10)\<rparr>
     [demo_snapshot 5 20, demo_snapshot 9 25] = map Some [demo_delta 3 10, demo_delta 4 5]"
  by (simp add: ctx_sample_def sampler_sample_def ctx_delta_since_def demo_snapshot_def demo_delta_def
      demo_ops_def duration_since_def checked_sub_def)

theorem ctx_samples_telescope_witness:
  "sample_all (ctx_sample demo_ops) \<lparr>sampler_previous = Some (demo_snapshot 2 10)\<rparr>
     [demo_snapshot 5 20, demo_snapshot 9 25] = map Some [demo_delta 3 10, demo_delta 4 5] \<and>
   sum_list (map (\<lambda>d. ctx_deltas d ! 0) [demo_delta 3 10, demo_delta 4 5]) =
     ctx_counters (demo_snapshot 9 25) ! 0 - ctx_counters (demo_snapshot 2 10) ! 0"
  using ctx_samples_telescope [OF demo_samples, of 0] demo_samples by simp

end
