(* ===== verification/Subscription.thy ===== *)
theory Subscription
  imports Platform Metrics
begin

text \<open>
  \<open>src/subscription.rs\<close>: a subscription owns a receive socket, is bound or joined, and counts what
  it receives (the \<open>metrics\<close> feature is modelled as enabled). The counters are atomics behind
  \<open>&self\<close>, so a receive returns the subscription with its counters updated; \<open>fetch_add\<close> wraps.
\<close>

section \<open>Data\<close>

record subscription_metrics =
  sm_packets_received :: u64
  sm_bytes_received :: u64
  sm_would_block_count :: u64
  sm_receive_errors :: u64
  sm_join_count :: u64
  sm_leave_count :: u64
  sm_last_payload_len :: usize
  sm_last_source :: "socket_addr option"
  sm_last_receive_at :: "system_time option"

definition subscription_metrics_default :: subscription_metrics where
  "subscription_metrics_default =
     \<lparr>sm_packets_received = 0, sm_bytes_received = 0, sm_would_block_count = 0,
      sm_receive_errors = 0, sm_join_count = 0, sm_leave_count = 0,
      sm_last_payload_len = usize_MAX, sm_last_source = None, sm_last_receive_at = None\<rparr>"

record subscription =
  sub_id :: subscription_id
  sub_config :: subscription_config
  sub_socket :: receive_socket
  sub_state :: subscription_state
  sub_metrics :: subscription_metrics

record subscription_parts =
  parts_id :: subscription_id
  parts_config :: subscription_config
  parts_socket :: socket
  parts_state :: subscription_state

section \<open>Construction and lifecycle\<close>

definition with_socket :: "subscription_id \<Rightarrow> subscription_config \<Rightarrow> receive_socket \<Rightarrow> subscription" where
  "with_socket i cfg rs =
     \<lparr>sub_id = i, sub_config = cfg, sub_socket = rs, sub_state = Bound,
      sub_metrics = subscription_metrics_default\<rparr>"

definition from_receive_socket ::
  "subscription_id \<Rightarrow> subscription_config \<Rightarrow> receive_socket \<Rightarrow> subscription" where
  "from_receive_socket i cfg rs = with_socket i cfg rs"

definition subscription_new ::
  "'k os \<Rightarrow> subscription_id \<Rightarrow> subscription_config \<Rightarrow> socket \<Rightarrow> 'k \<Rightarrow> subscription \<times> 'k" where
  "subscription_new os i cfg s k =
     (case adopt os s cfg k of (rs, k') \<Rightarrow> (with_socket i cfg rs, k'))"

definition is_joined :: "subscription \<Rightarrow> bool" where
  "is_joined s \<longleftrightarrow> sub_state s = Joined"

definition mark_joined :: "subscription \<Rightarrow> mcrx_error + subscription" where
  "mark_joined s =
     (if sub_state s = Joined then Inl SubscriptionAlreadyJoined
      else Inr (s\<lparr>sub_state := Joined,
                  sub_metrics := (sub_metrics s)\<lparr>sm_join_count := sm_join_count (sub_metrics s) + 1\<rparr>\<rparr>))"

definition mark_bound :: "subscription \<Rightarrow> mcrx_error + subscription" where
  "mark_bound s =
     (if sub_state s = Bound then Inl SubscriptionNotJoined
      else Inr (s\<lparr>sub_state := Bound,
                  sub_metrics := (sub_metrics s)\<lparr>sm_leave_count := sm_leave_count (sub_metrics s) + 1\<rparr>\<rparr>))"

definition into_socket :: "subscription \<Rightarrow> socket" where
  "into_socket s = rs_socket (sub_socket s)"

definition into_parts :: "subscription \<Rightarrow> subscription_parts" where
  "into_parts s =
     \<lparr>parts_id = sub_id s, parts_config = sub_config s, parts_socket = into_socket s,
      parts_state = sub_state s\<rparr>"

definition subscription_local_addr :: "'k os \<Rightarrow> subscription \<Rightarrow> ('k, mcrx_error, socket_addr) io" where
  "subscription_local_addr os s =
     (\<lambda>k. case rs_local_addr_op os (sub_socket s) k of
            (Inr a, k') \<Rightarrow> (Inr a, k')
          | (Inl _, k') \<Rightarrow> socket_local_addr os (rs_socket (sub_socket s)) k')"

section \<open>Receiving\<close>

definition record_received_packet :: "'k os \<Rightarrow> packet \<Rightarrow> subscription \<Rightarrow> 'k \<Rightarrow> subscription \<times> 'k" where
  "record_received_packet os p s k =
     (case os_now os k of (t, k') \<Rightarrow>
        (s\<lparr>sub_metrics := (sub_metrics s)
             \<lparr>sm_packets_received := sm_packets_received (sub_metrics s) + 1,
              sm_bytes_received := sm_bytes_received (sub_metrics s) + of_nat (payload_len p),
              sm_last_payload_len := payload_len p,
              sm_last_source := Some (pkt_source p),
              sm_last_receive_at := Some t\<rparr>\<rparr>, k'))"

definition record_would_block :: "subscription \<Rightarrow> subscription" where
  "record_would_block s =
     s\<lparr>sub_metrics := (sub_metrics s)
         \<lparr>sm_would_block_count := sm_would_block_count (sub_metrics s) + 1\<rparr>\<rparr>"

definition record_receive_error :: "subscription \<Rightarrow> subscription" where
  "record_receive_error s =
     s\<lparr>sub_metrics := (sub_metrics s)
         \<lparr>sm_receive_errors := sm_receive_errors (sub_metrics s) + 1\<rparr>\<rparr>"

text \<open>A receive on a subscription: its result, the updated subscription and the kernel state.\<close>

type_synonym ('k, 'p) receiver =
  "subscription \<Rightarrow> 'k \<Rightarrow> (mcrx_error + 'p option) \<times> subscription \<times> 'k"

definition try_recv :: "'k os \<Rightarrow> ('k, packet) receiver" where
  "try_recv os s k =
     (if \<not> is_joined s then (Inl SubscriptionNotJoined, s, k)
      else
        (case recv_packet os (sub_socket s) (sub_id s) (sub_config s) k of
           (Inr (Some p), k') \<Rightarrow>
             (case record_received_packet os p s k' of (s', k'') \<Rightarrow> (Inr (Some p), s', k''))
         | (Inr None, k') \<Rightarrow> (Inr None, record_would_block s, k')
         | (Inl e, k') \<Rightarrow> (Inl e, record_receive_error s, k')))"

definition try_recv_with_metadata :: "'k os \<Rightarrow> ('k, packet_with_metadata) receiver" where
  "try_recv_with_metadata os s k =
     (if \<not> is_joined s then (Inl SubscriptionNotJoined, s, k)
      else
        (case recv_packet_with_metadata os (sub_socket s) (sub_id s) (sub_config s) k of
           (Inr (Some p), k') \<Rightarrow>
             (case record_received_packet os (pwm_packet p) s k' of
                (s', k'') \<Rightarrow> (Inr (Some p), s', k''))
         | (Inr None, k') \<Rightarrow> (Inr None, record_would_block s, k')
         | (Inl e, k') \<Rightarrow> (Inl e, record_receive_error s, k')))"

definition metrics_snapshot :: "'k os \<Rightarrow> subscription \<Rightarrow> 'k \<Rightarrow> subscription_metrics_snapshot \<times> 'k" where
  "metrics_snapshot os s k =
     (let m = sub_metrics s in
      case os_now os k of (t, k') \<Rightarrow>
        (\<lparr>sms_packets_received = sm_packets_received m,
          sms_bytes_received = sm_bytes_received m,
          sms_would_block_count = sm_would_block_count m,
          sms_receive_errors = sm_receive_errors m,
          sms_join_count = sm_join_count m,
          sms_leave_count = sm_leave_count m,
          sms_last_payload_len =
            (if sm_last_payload_len m = usize_MAX then None else Some (sm_last_payload_len m)),
          sms_last_source = sm_last_source m,
          sms_last_receive_at = sm_last_receive_at m,
          sms_captured_at = t\<rparr>, k'))"

section \<open>Operations of a subscription as steps\<close>

text \<open>
  The history of one subscription: every operation that changes it, from its construction. The
  list holds the packets it delivered, oldest first.
\<close>

definition delivered :: "mcrx_error + 'p option \<Rightarrow> 'p list" where
  "delivered r = (case r of Inr (Some p) \<Rightarrow> [p] | _ \<Rightarrow> [])"

inductive sub_history ::
  "'k os \<Rightarrow> subscription_id \<Rightarrow> subscription_config \<Rightarrow> subscription \<Rightarrow> packet list \<Rightarrow> bool"
  for os i cfg where
  created: "sub_history os i cfg (with_socket i cfg rs) []"
| joined: "sub_history os i cfg s ps \<Longrightarrow> mark_joined s = Inr s' \<Longrightarrow> sub_history os i cfg s' ps"
| bound: "sub_history os i cfg s ps \<Longrightarrow> mark_bound s = Inr s' \<Longrightarrow> sub_history os i cfg s' ps"
| received: "sub_history os i cfg s ps \<Longrightarrow> try_recv os s k = (r, s', k') \<Longrightarrow>
    sub_history os i cfg s' (ps @ delivered r)"
| received_with_metadata: "sub_history os i cfg s ps \<Longrightarrow>
    try_recv_with_metadata os s k = (q, s', k') \<Longrightarrow>
    sub_history os i cfg s' (ps @ map pwm_packet (delivered q))"

section \<open>Lemmas on receives\<close>

text \<open>The parts of a subscription that a receive leaves alone.\<close>

definition same_identity :: "subscription \<Rightarrow> subscription \<Rightarrow> bool" where
  "same_identity s s' \<longleftrightarrow>
     sub_id s' = sub_id s \<and> sub_config s' = sub_config s \<and> sub_socket s' = sub_socket s"

lemma same_identity_refl [simp]: "same_identity s s"
  by (simp add: same_identity_def)

lemma record_preserves:
  "record_received_packet os p s k = (s', k') \<Longrightarrow> same_identity s s' \<and> sub_state s' = sub_state s"
  "same_identity s (record_would_block s)" "sub_state (record_would_block s) = sub_state s"
  "same_identity s (record_receive_error s)" "sub_state (record_receive_error s) = sub_state s"
  by (auto simp: record_received_packet_def record_would_block_def record_receive_error_def
      same_identity_def split: prod.splits)

lemma try_recv_preserves:
  "try_recv os s k = (r, s', k') \<Longrightarrow> same_identity s s' \<and> sub_state s' = sub_state s"
  by (auto simp: try_recv_def record_preserves dest: record_preserves(1)
      split: if_splits prod.splits sum.splits option.splits)

lemma try_recv_with_metadata_preserves:
  "try_recv_with_metadata os s k = (r, s', k') \<Longrightarrow> same_identity s s' \<and> sub_state s' = sub_state s"
  by (auto simp: try_recv_with_metadata_def record_preserves dest: record_preserves(1)
      split: if_splits prod.splits sum.splits option.splits)

lemma mark_preserves:
  "mark_joined s = Inr s' \<Longrightarrow> same_identity s s' \<and> sub_state s = Bound \<and> sub_state s' = Joined"
  "mark_bound s = Inr s' \<Longrightarrow> same_identity s s' \<and> sub_state s = Joined \<and> sub_state s' = Bound"
  by (cases "sub_state s"; auto simp: mark_joined_def mark_bound_def same_identity_def)+

text \<open>
  The two receives are one: without metadata, a receive is the receive with metadata whose result
  has the metadata dropped.
\<close>

lemma try_recv_eq:
  "try_recv os s k =
     (case try_recv_with_metadata os s k of (r, s', k') \<Rightarrow> (map_sum id (map_option pwm_packet) r, s', k'))"
  by (auto simp: try_recv_def try_recv_with_metadata_def recv_packet_def io_bind_def into_packet_def
      split: prod.splits sum.splits option.splits)

lemma try_recv_with_metadata_delivers:
  assumes "try_recv_with_metadata os s k = (Inr (Some q), s', k')"
  shows "is_joined s \<and> delivered_for (sub_id s) (sub_config s) q"
  using assms
  by (auto simp: try_recv_with_metadata_def dest: recv_with_metadata_delivers
      split: if_splits prod.splits sum.splits option.splits)

section \<open>The counters are exact\<close>

text \<open>
  What the counters of a subscription say after delivering \<open>ps\<close>: the numbers of packets and
  bytes (modulo \<open>2 ^ 64\<close>), the last packet, and one more join than leaves exactly while joined.
\<close>

definition accounted :: "subscription \<Rightarrow> packet list \<Rightarrow> bool" where
  "accounted s ps \<longleftrightarrow>
     sm_packets_received (sub_metrics s) = of_nat (length ps) \<and>
     sm_bytes_received (sub_metrics s) = of_nat (sum_list (map payload_len ps)) \<and>
     sm_last_payload_len (sub_metrics s) = (if ps = [] then usize_MAX else payload_len (last ps)) \<and>
     sm_last_source (sub_metrics s) = (if ps = [] then None else Some (pkt_source (last ps))) \<and>
     sm_join_count (sub_metrics s) =
       sm_leave_count (sub_metrics s) + (if is_joined s then 1 else 0)"

lemma accounted_new: "accounted (with_socket i cfg rs) []"
  by (simp add: accounted_def with_socket_def subscription_metrics_default_def is_joined_def)

lemma accounted_mark:
  "accounted s ps \<Longrightarrow> mark_joined s = Inr s' \<Longrightarrow> accounted s' ps"
  "accounted s ps \<Longrightarrow> mark_bound s = Inr s' \<Longrightarrow> accounted s' ps"
  by (cases "sub_state s"; auto simp: accounted_def mark_joined_def mark_bound_def is_joined_def)+

lemma accounted_recv:
  assumes "accounted s ps" and "try_recv_with_metadata os s k = (r, s', k')"
  shows "accounted s' (ps @ map pwm_packet (delivered r))"
  using assms
  by (auto simp: accounted_def try_recv_with_metadata_def record_received_packet_def
      record_would_block_def record_receive_error_def is_joined_def delivered_def
      split: if_splits prod.splits sum.splits option.splits)

definition history_ok ::
  "subscription_id \<Rightarrow> subscription_config \<Rightarrow> subscription \<Rightarrow> packet list \<Rightarrow> bool" where
  "history_ok i cfg s ps \<longleftrightarrow>
     accounted s ps \<and> sub_id s = i \<and> sub_config s = cfg \<and>
     list_all (\<lambda>p. \<exists>md. delivered_for i cfg \<lparr>pwm_packet = p, pwm_metadata = md\<rparr>) ps"

lemma history_ok_recv:
  assumes "history_ok i cfg s ps" and r: "try_recv_with_metadata os s k = (q, s', k')"
  shows "history_ok i cfg s' (ps @ map pwm_packet (delivered q))"
proof -
  have "list_all (\<lambda>p. \<exists>md. delivered_for i cfg \<lparr>pwm_packet = p, pwm_metadata = md\<rparr>)
          (map pwm_packet (delivered q))"
    using assms try_recv_with_metadata_delivers [of os s k]
    by (auto simp: delivered_def history_ok_def delivered_for_def split: sum.splits option.splits)
  then show ?thesis
    using assms accounted_recv [OF _ r] try_recv_with_metadata_preserves [OF r]
    by (simp add: history_ok_def same_identity_def)
qed

lemma sub_history_ok: "sub_history os i cfg s ps \<Longrightarrow> history_ok i cfg s ps"
proof (induction rule: sub_history.induct)
  case (created rs)
  show ?case by (simp add: history_ok_def accounted_new) (simp add: with_socket_def)
next
  case (joined s ps s')
  then show ?case using mark_preserves(1) [of s s'] accounted_mark(1) [of s ps s']
    by (simp add: history_ok_def same_identity_def)
next
  case (bound s ps s')
  then show ?case using mark_preserves(2) [of s s'] accounted_mark(2) [of s ps s']
    by (simp add: history_ok_def same_identity_def)
next
  case (received s ps k r s' k')
  then obtain q where q: "try_recv_with_metadata os s k = (q, s', k')"
    "r = map_sum id (map_option pwm_packet) q"
    by (auto simp: try_recv_eq split: prod.splits)
  have "delivered r = map pwm_packet (delivered q)"
    by (auto simp: q(2) delivered_def split: sum.splits option.splits)
  then show ?case using history_ok_recv [OF received.IH q(1)] by simp
next
  case (received_with_metadata s ps k q s' k')
  then show ?case by (intro history_ok_recv)
qed

section \<open>Properties\<close>


definition demo_joined :: subscription where
  "demo_joined = (with_socket (SubscriptionId 1) demo_config demo_receive_socket)
     \<lparr>sub_state := Joined, sub_metrics := subscription_metrics_default\<lparr>sm_join_count := 1\<rparr>\<rparr>"

lemma demo_joined_history:
  "sub_history (sim_os Linux) (SubscriptionId 1) demo_config demo_joined []"
proof (rule joined)
  show "sub_history (sim_os Linux) (SubscriptionId 1) demo_config
      (with_socket (SubscriptionId 1) demo_config demo_receive_socket) []" by (rule created)
  show "mark_joined (with_socket (SubscriptionId 1) demo_config demo_receive_socket) = Inr demo_joined"
    by (simp add: mark_joined_def with_socket_def demo_joined_def subscription_metrics_default_def)
qed

lemma demo_try_recv: "fst (try_recv_with_metadata (sim_os Linux) demo_joined demo_state) = Inr (Some demo_packet)"
  using demo_receive
  by (cases "recv_packet_with_metadata (sim_os Linux) demo_receive_socket (SubscriptionId 1)
        demo_config demo_state")
     (auto simp: try_recv_with_metadata_def demo_joined_def with_socket_def is_joined_def
       split: prod.splits)


text \<open>
  The two receive calls of a subscription agree: \<open>try_recv\<close> is \<open>try_recv_with_metadata\<close> with the
  metadata dropped from the result, with the same effect on the counters and on the kernel.
\<close>

lemma try_recv_drops_metadata:
  "try_recv os s k =
     (case try_recv_with_metadata os s k of (r, s', k') \<Rightarrow> (map_sum id (map_option into_packet) r, s', k'))"
proof -
  have "into_packet = pwm_packet" by (simp add: fun_eq_iff into_packet_def)
  then show ?thesis by (simp add: try_recv_eq)
qed

end
