(* ===== verification/Table.thy ===== *)
theory Table
  imports Packet
begin

text \<open>
  The interfaces that \<open>Context\<close> and \<open>RawContext\<close> share. Both keep a vector of subscriptions with
  unique identifiers, add at the end, remove with \<open>swap_remove\<close>, and scan the joined
  subscriptions round-robin from a cursor. Each interface is a locale over the operations; the
  contexts interpret them on their own definitions.
\<close>

section \<open>The table of subscriptions\<close>

text \<open>
  Identifiers are handed out in increasing order, so the table is well formed when the
  identifiers in it are distinct and below the next one, and the cursor is an index of the table.
\<close>

definition table_ok :: "('s \<Rightarrow> subscription_id) \<Rightarrow> 's list \<Rightarrow> u64 \<Rightarrow> usize \<Rightarrow> bool" where
  "table_ok ident subs next_id cursor \<longleftrightarrow>
     distinct (map ident subs) \<and>
     (\<forall>s \<in> set subs. unat (sid (ident s)) < unat next_id) \<and>
     (if subs = [] then cursor = 0 else cursor < length subs)"

definition cursor_after_removal :: "'s list \<Rightarrow> usize \<Rightarrow> usize" where
  "cursor_after_removal subs cursor = (if subs = [] then 0 else cursor mod length subs)"

lemma unat_Suc_u64: "unat n < 2 ^ 64 - 1 \<Longrightarrow> unat (n + 1 :: u64) = Suc (unat n)"
  by (simp add: unat_word_ariths)

lemma table_ok_push:
  assumes "table_ok ident subs next_id cursor" and "ident s = SubscriptionId next_id"
    and "unat next_id < 2 ^ 64 - 1"
  shows "table_ok ident (subs @ [s]) (next_id + 1) cursor"
proof -
  have "unat (next_id + 1) = Suc (unat next_id)" using assms(3) by (rule unat_Suc_u64)
  moreover have "ident s \<notin> ident ` set subs"
    using assms(1,2) by (fastforce simp: table_ok_def)
  ultimately show ?thesis
    using assms(1,2) by (auto simp: table_ok_def less_Suc_eq split: if_splits)
qed

lemma table_ok_swap_remove:
  assumes "table_ok ident subs next_id cursor" and "i < length subs"
  shows "table_ok ident (swap_remove subs i) next_id (cursor_after_removal (swap_remove subs i) cursor)"
proof -
  have "distinct (map ident subs)" using assms(1) by (simp add: table_ok_def)
  moreover have "0 < length subs - Suc 0" if "swap_remove subs i \<noteq> []"
    using that by (metis One_nat_def length_greater_0_conv length_swap_remove)
  ultimately show ?thesis
    using assms set_swap_remove [of ident subs i] distinct_swap_remove [of ident subs i]
    by (auto simp: table_ok_def cursor_after_removal_def)
qed

lemma table_ok_same:
  assumes "table_ok ident subs next_id cursor" and "map ident subs' = map ident subs"
    and "cursor' = cursor \<or> cursor' < length subs"
  shows "table_ok ident subs' next_id cursor'"
proof -
  have "length subs' = length subs" using assms(2) by (metis length_map)
  moreover have "ident ` set subs' = ident ` set subs" using assms(2) by (metis set_map)
  then have "\<forall>s \<in> set subs'. unat (sid (ident s)) < unat next_id"
    using assms(1) unfolding table_ok_def by (metis (no_types, lifting) image_iff)
  ultimately show ?thesis
    using assms unfolding table_ok_def by (cases subs) auto
qed

locale subscription_table =
  fixes subs :: "'c \<Rightarrow> 's list"
    and next_id :: "'c \<Rightarrow> u64"
    and cursor :: "'c \<Rightarrow> usize"
    and ident :: "'s \<Rightarrow> subscription_id"
    and push :: "'c \<Rightarrow> 'x \<Rightarrow> subscription_id \<times> 'c"
    and created :: "subscription_id \<Rightarrow> 'x \<Rightarrow> 's"
    and take_out :: "'c \<Rightarrow> subscription_id \<Rightarrow> 's option \<times> 'c"
  assumes push: "push c x = (i, c') \<Longrightarrow>
      i = SubscriptionId (next_id c) \<and> subs c' = subs c @ [created i x] \<and>
      next_id c' = next_id c + 1 \<and> cursor c' = cursor c"
    and created: "ident (created i x) = i"
    and take_None: "position (\<lambda>s. ident s = i) (subs c) = None \<Longrightarrow> take_out c i = (None, c)"
    and take_Some: "position (\<lambda>s. ident s = i) (subs c) = Some n \<Longrightarrow>
      \<exists>c'. take_out c i = (Some (subs c ! n), c') \<and>
        subs c' = swap_remove (subs c) n \<and> next_id c' = next_id c \<and>
        cursor c' = cursor_after_removal (swap_remove (subs c) n) (cursor c)"
begin

definition ok :: "'c \<Rightarrow> bool" where
  "ok c \<longleftrightarrow> table_ok ident (subs c) (next_id c) (cursor c)"

definition lookup :: "'c \<Rightarrow> subscription_id \<Rightarrow> 's option" where
  "lookup c i = find (\<lambda>s. ident s = i) (subs c)"

lemma lookup_Some: "ok c \<Longrightarrow> lookup c i = Some s \<longleftrightarrow> s \<in> set (subs c) \<and> ident s = i"
  using find_distinct [of ident "subs c" s]
  by (auto simp: ok_def table_ok_def lookup_def find_Some_iff)

lemma ok_push:
  assumes "ok c" and "push c x = (i, c')" and "unat (next_id c) < 2 ^ 64 - 1"
  shows "ok c'"
  using assms push [OF assms(2)] created [of i x] unfolding ok_def by (simp add: table_ok_push)

lemma lookup_push:
  assumes "ok c" and "push c x = (i, c')"
  shows "lookup c i = None \<and> lookup c' j = (if j = i then Some (created i x) else lookup c j)"
proof -
  have fresh: "i \<notin> ident ` set (subs c)"
  proof
    assume "i \<in> ident ` set (subs c)"
    then have "unat (sid i) < unat (next_id c)" using assms(1) by (auto simp: ok_def table_ok_def)
    then show False using push [OF assms(2)] by simp
  qed
  have "find p (xs @ [y]) = (case find p xs of Some z \<Rightarrow> Some z | None \<Rightarrow> if p y then Some y else None)"
    for p and xs :: "'s list" and y
    by (induction xs) auto
  moreover from fresh have "find (\<lambda>s. ident s = i) (subs c) = None" by (simp add: find_None_key)
  ultimately show ?thesis
    using push [OF assms(2)] created [of i x] by (auto simp: lookup_def split: option.splits)
qed

lemma take_out_cases:
  assumes "take_out c i = (r, c')"
  obtains (absent) "r = None" "c' = c" "lookup c i = None"
  | (present) n where "n < length (subs c)" "ident (subs c ! n) = i" "r = Some (subs c ! n)"
      "lookup c i = Some (subs c ! n)"
      "subs c' = swap_remove (subs c) n" "next_id c' = next_id c"
      "cursor c' = cursor_after_removal (swap_remove (subs c) n) (cursor c)"
proof (cases "position (\<lambda>s. ident s = i) (subs c)")
  case None
  then show thesis using absent assms take_None [OF None] by (simp add: lookup_def find_Some_position)
next
  case (Some n)
  from take_Some [OF Some] position_Some [OF Some] assms Some show thesis
    by (intro present [of n]) (auto simp: lookup_def find_Some_position)
qed

lemma ok_take_out: "ok c \<Longrightarrow> take_out c i = (r, c') \<Longrightarrow> ok c'"
  by (erule take_out_cases) (auto simp: ok_def table_ok_swap_remove)

lemma lookup_take_out:
  assumes "ok c" and "take_out c i = (r, c')"
  shows "r = lookup c i \<and> lookup c' j = (if j = i then None else lookup c j)"
  using assms(2)
proof (cases rule: take_out_cases)
  case (present n)
  have d: "distinct (map ident (subs c))" using assms(1) by (simp add: ok_def table_ok_def)
  have set: "set (subs c') = {s \<in> set (subs c). ident s \<noteq> i}"
    using set_swap_remove [OF d present(1)] present by simp
  have ok': "ok c'" using assms ok_take_out by blast
  have "lookup c' j = Some s \<longleftrightarrow> lookup c j = Some s \<and> j \<noteq> i" for s
    using lookup_Some [OF ok'] lookup_Some [OF assms(1)] set by auto
  then have "lookup c' j = (if j = i then None else lookup c j)"
    by (metis not_None_eq)
  then show ?thesis using present by simp
qed simp

end

section \<open>Round-robin scanning\<close>

text \<open>
  The specification of a scan: the table positions are visited in cyclic order from the cursor,
  positions that are not joined are skipped, and the first visit that yields a packet or an error
  decides.
\<close>

definition next_index :: "usize \<Rightarrow> usize \<Rightarrow> usize" where
  "next_index count index = (if index + 1 = count then 0 else index + 1)"

fun order :: "usize \<Rightarrow> usize \<Rightarrow> nat \<Rightarrow> usize list" where
  "order count index 0 = []"
| "order count index (Suc n) = index # order count (next_index count index) n"

fun rr_visit ::
  "('s \<Rightarrow> bool) \<Rightarrow> ('s \<Rightarrow> 'k \<Rightarrow> ('e + 'p option) \<times> 's \<times> 'k) \<Rightarrow> usize list \<Rightarrow> 's list \<Rightarrow> 'k \<Rightarrow>
   ('e + (usize \<times> 'p) option) \<times> 's list \<times> 'k" where
  "rr_visit joined recv [] ss k = (Inr None, ss, k)"
| "rr_visit joined recv (i # is) ss k =
     (if \<not> joined (ss ! i) then rr_visit joined recv is ss k
      else
        (case recv (ss ! i) k of
           (Inr (Some p), s', k') \<Rightarrow> (Inr (Some (i, p)), ss[i := s'], k')
         | (Inr None, s', k') \<Rightarrow> rr_visit joined recv is (ss[i := s']) k'
         | (Inl e, s', k') \<Rightarrow> (Inl e, ss[i := s'], k')))"

definition rr_scan ::
  "('s \<Rightarrow> bool) \<Rightarrow> ('s \<Rightarrow> 'k \<Rightarrow> ('e + 'p option) \<times> 's \<times> 'k) \<Rightarrow> usize \<Rightarrow> 's list \<Rightarrow> 'k \<Rightarrow>
   ('e + (usize \<times> 'p) option) \<times> 's list \<times> 'k" where
  "rr_scan joined recv start ss k = rr_visit joined recv (order (length ss) start (length ss)) ss k"

lemma next_index_less: "index < count \<Longrightarrow> next_index count index < count"
  by (auto simp: next_index_def)

lemma next_index_mod: "index < count \<Longrightarrow> next_index count index = (index + 1) mod count"
  by (auto simp: next_index_def)

lemma length_order [simp]: "length (order count index n) = n"
  by (induction n arbitrary: index) auto

lemma order_nth:
  "index < count \<Longrightarrow> d < n \<Longrightarrow> order count index n ! d = (index + d) mod count"
proof (induction n arbitrary: index d)
  case (Suc n)
  then show ?case
    by (cases d) (auto simp: next_index_mod mod_Suc_eq mod_add_left_eq)
qed simp

lemma set_order: "index < count \<Longrightarrow> i \<in> set (order count index n) \<Longrightarrow> i < count"
  by (induction n arbitrary: index) (auto dest: next_index_less)

text \<open>A scan keeps what every receive keeps.\<close>

lemma rr_visit_keeps:
  assumes "\<And>s k. g (fst (snd (recv s k))) = g s"
  shows "map g (fst (snd (rr_visit joined recv is ss k))) = map g ss"
proof (induction "is" arbitrary: ss k)
  case (Cons i "is")
  have upd: "map g (ss[i := s']) = map g ss" if "g s' = g (ss ! i)" for s'
    by (cases "i < length ss") (simp_all add: map_update that list_update_same_conv list_update_beyond)
  show ?case
    using Cons.IH assms [of "ss ! i" k]
    by (auto simp: upd split: prod.splits sum.splits option.splits)
qed simp

text \<open>A packet that a scan delivers comes from a receive of the subscription at the position it names.\<close>

lemma rr_visit_source:
  assumes keep: "\<And>s k. key (fst (snd (recv s k))) = key s"
    and "\<forall>i \<in> set is. i < length ss"
    and "rr_visit joined recv is ss k = (Inr (Some (i, p)), ss', k')"
  shows "i < length ss \<and> (\<exists>s0 k0. key s0 = key (ss ! i) \<and> fst (recv s0 k0) = Inr (Some p))"
  using assms(2,3)
proof (induction "is" arbitrary: ss k)
  case (Cons j "is")
  obtain r s' k1 where r: "recv (ss ! j) k = (r, s', k1)" by (metis prod_cases3)
  have upd: "key (ss[j := s'] ! m) = key (ss ! m)" for m
    using keep [of "ss ! j" k] r by (cases "m = j"; cases "j < length ss"; simp add: list_update_beyond)
  show ?case
  proof (cases "joined (ss ! j) \<and> r = Inr None")
    case True
    then show ?thesis using Cons.IH [of "ss[j := s']" k1] Cons.prems r upd by auto
  next
    case False
    show ?thesis
    proof (cases "joined (ss ! j)")
      case joined: True
      then have "r = Inr (Some p)" "i = j"
        using False Cons.prems(2) r by (auto split: sum.splits option.splits)
      then show ?thesis using r Cons.prems(1) by (metis fst_conv list.set_intros(1))
    qed (use Cons.IH [of ss k] Cons.prems in simp)
  qed
qed simp

text \<open>
  If, while the kernel satisfies \<open>Q\<close>, the joined subscriptions with a key in \<open>K\<close> never fail and
  the one with key \<open>kj\<close> always delivers, and it stands at offset \<open>d\<close> of the scan, then the scan
  delivers from some offset up to \<open>d\<close>.
\<close>

lemma rr_visit_delivers:
  assumes no_error: "\<And>s k e. Q k \<Longrightarrow> key s \<in> K \<Longrightarrow> joined s \<Longrightarrow> fst (recv s k) \<noteq> Inl e"
    and ready: "\<And>s k. Q k \<Longrightarrow> key s = kj \<Longrightarrow> joined s \<Longrightarrow> fst (recv s k) \<noteq> Inr None"
    and Q: "\<And>s k. Q k \<Longrightarrow> Q (snd (snd (recv s k)))"
    and keep: "\<And>s k. key (fst (snd (recv s k))) = key s"
    and keepj: "\<And>s k. joined (fst (snd (recv s k))) = joined s"
    and j: "d < length is" "is ! d = j" "joined (ss ! j)" "key (ss ! j) = kj"
    and range: "\<forall>i \<in> set is. i < length ss" and "\<forall>s \<in> set ss. key s \<in> K" and "Q k"
  shows "\<exists>d' p. d' \<le> d \<and> fst (rr_visit joined recv is ss k) = Inr (Some (is ! d', p)) \<and>
     Q (snd (snd (rr_visit joined recv is ss k))) \<and>
     (\<exists>s0 k0. key s0 = key (ss ! (is ! d')) \<and> fst (recv s0 k0) = Inr (Some p))"
  using j range assms(11,12)
proof (induction "is" arbitrary: ss d k)
  case (Cons i "is")
  obtain r s' k' where r: "recv (ss ! i) k = (r, s', k')" by (metis prod_cases3)
  have s': "key s' = key (ss ! i)" "joined s' = joined (ss ! i)"
    using keep [of "ss ! i" k] keepj [of "ss ! i" k] r by simp_all
  have Qk': "Q k'" using Q [OF Cons.prems(7), of "ss ! i"] r by simp
  have i: "i < length ss" using Cons.prems(5) by simp
  have K: "key (ss ! i) \<in> K" using Cons.prems(6) i by simp
  have deliver: ?case if "joined (ss ! i)" "r = Inr (Some p)" for p
    using that r Qk' by (intro exI [of _ "0::nat"] exI [of _ p]) (simp, metis fst_conv)
  have no_err: "r \<noteq> Inl e" if "joined (ss ! i)" for e
    using no_error [OF Cons.prems(7) K that] r by simp
  show ?case
  proof (cases d)
    case 0
    then have "i = j" using Cons.prems(2) by simp
    then have "r \<noteq> Inr None" "joined (ss ! i)"
      using ready [OF Cons.prems(7), of "ss ! i"] Cons.prems(3,4) r by auto
    then obtain p where "r = Inr (Some p)" using no_err by (cases r) auto
    then show ?thesis using deliver \<open>joined (ss ! i)\<close> by blast
  next
    case (Suc d0)
    have lift: ?thesis
      if eq: "rr_visit joined recv (i # is) ss k = rr_visit joined recv is ss' k1"
        and ss': "length ss' = length ss" "\<And>m. key (ss' ! m) = key (ss ! m)" "joined (ss' ! j)"
        and k1: "Q k1" for ss' k1
    proof -
      have "\<forall>s \<in> set ss'. key s \<in> K"
        using Cons.prems(6) ss'(1,2) by (metis in_set_conv_nth)
      then obtain d' p s0 k0 where
        "d' \<le> d0" "fst (rr_visit joined recv is ss' k1) = Inr (Some (is ! d', p))"
        "Q (snd (snd (rr_visit joined recv is ss' k1)))"
        "key s0 = key (ss' ! (is ! d'))" "fst (recv s0 k0) = Inr (Some p)"
        using Cons.IH [of d0 ss' k1] Cons.prems Suc ss' k1 by auto
      then show ?thesis using eq ss'(2) Suc
        by (intro exI [of _ "Suc d'"] exI [of _ p]) (simp, metis)
    qed
    show ?thesis
    proof (cases "joined (ss ! i)")
      case False
      then show ?thesis using lift [of ss k] Cons.prems(3,7) by simp
    next
      case True
      have upd: "key (ss[i := s'] ! m) = key (ss ! m)" "joined (ss[i := s'] ! m) = joined (ss ! m)" for m
        using s' by (cases "m = i"; cases "i < length ss"; simp add: list_update_beyond)+
      consider (none) "r = Inr None" | (some) p where "r = Inr (Some p)"
        using no_err [OF True] by (metis not_None_eq sum.exhaust)
      then show ?thesis
      proof cases
        case none
        then show ?thesis using lift [of "ss[i := s']" k'] Cons.prems(3) True r upd Qk' by simp
      next
        case some
        then show ?thesis using deliver True by blast
      qed
    qed
  qed
qed simp

text \<open>
  \<open>served_within try_any origin n i c k\<close>: among the next \<open>n\<close> receive calls, one delivers a packet
  of the subscription \<open>i\<close>.
\<close>

primrec served_within ::
  "('c \<Rightarrow> 'k \<Rightarrow> (('e + 'p option) \<times> 'c \<times> 'k) option) \<Rightarrow> ('p \<Rightarrow> 'i) \<Rightarrow> nat \<Rightarrow> 'i \<Rightarrow> 'c \<Rightarrow> 'k \<Rightarrow> bool" where
  "served_within try_any origin 0 i c k = False"
| "served_within try_any origin (Suc n) i c k =
     (case try_any c k of
        None \<Rightarrow> False
      | Some (r, c', k') \<Rightarrow>
          (case r of Inr (Some p) \<Rightarrow> origin p = i | _ \<Rightarrow> False) \<or>
          served_within try_any origin n i c' k')"

text \<open>
  The contract of a receive call on a context: it performs the round-robin scan from the cursor,
  never fails to return, and moves the cursor behind the position that delivered. The outer
  \<open>option\<close> is \<open>None\<close> where an index would be out of range.
\<close>

locale round_robin =
  fixes subs :: "'c \<Rightarrow> 's list"
    and cursor :: "'c \<Rightarrow> usize"
    and joined :: "'s \<Rightarrow> bool"
    and key :: "'s \<Rightarrow> 'i"
    and recv :: "'s \<Rightarrow> 'k \<Rightarrow> ('e + 'p option) \<times> 's \<times> 'k"
    and ident :: "'i \<Rightarrow> 'j"
    and origin :: "'p \<Rightarrow> 'j"
    and try_any :: "'c \<Rightarrow> 'k \<Rightarrow> (('e + 'p option) \<times> 'c \<times> 'k) option"
  assumes scans: "cursor c < length (subs c) \<Longrightarrow>
      rr_scan joined recv (cursor c) (subs c) k = (r, ss, k') \<Longrightarrow>
      \<exists>c'. try_any c k = Some (map_sum id (map_option snd) r, c', k') \<and> subs c' = ss \<and>
        cursor c' =
          (case r of Inr (Some (i, _)) \<Rightarrow> (i + 1) mod length (subs c) | _ \<Rightarrow> cursor c)"
    and empty: "subs c = [] \<Longrightarrow> try_any c k = Some (Inr None, c, k)"
    and recv_key: "key (fst (snd (recv s k))) = key s"
    and recv_joined: "joined (fst (snd (recv s k))) = joined s"
    and recv_origin: "fst (recv s k) = Inr (Some p) \<Longrightarrow> origin p = ident (key s)"
begin

definition cursor_ok :: "'c \<Rightarrow> bool" where
  "cursor_ok c \<longleftrightarrow> (if subs c = [] then cursor c = 0 else cursor c < length (subs c))"

lemma rr_scan_cursor:
  assumes "start < length ss" and "rr_scan joined recv start ss k = (Inr (Some (i, p)), ss', k')"
  shows "i < length ss"
proof -
  have "i \<in> set is" if "rr_visit joined recv is ss k = (Inr (Some (i, p)), ss', k')" for "is" ss k
    using that
    by (induction "is" arbitrary: ss k) (auto split: if_splits prod.splits sum.splits option.splits)
  then show ?thesis using assms set_order unfolding rr_scan_def by blast
qed

text \<open>A receive call never panics, keeps the table and leaves a valid cursor.\<close>

lemma try_any_total:
  assumes "cursor_ok c"
  shows "\<exists>r c' k'. try_any c k = Some (r, c', k') \<and> cursor_ok c' \<and>
     map key (subs c') = map key (subs c) \<and> map joined (subs c') = map joined (subs c)"
proof (cases "subs c = []")
  case True
  then show ?thesis using assms empty [of c k] by auto
next
  case False
  then have lt: "cursor c < length (subs c)" using assms by (simp add: cursor_ok_def)
  obtain r ss k' where scan: "rr_scan joined recv (cursor c) (subs c) k = (r, ss, k')"
    by (metis prod_cases3)
  obtain c' where c': "try_any c k = Some (map_sum id (map_option snd) r, c', k')" "subs c' = ss"
    "cursor c' = (case r of Inr (Some (i, _)) \<Rightarrow> (i + 1) mod length (subs c) | _ \<Rightarrow> cursor c)"
    using scans [OF lt scan] by blast
  have keep: "map key ss = map key (subs c)" "map joined ss = map joined (subs c)"
    using rr_visit_keeps [of key recv, OF recv_key] rr_visit_keeps [of joined recv, OF recv_joined] scan
    unfolding rr_scan_def by (metis fst_conv snd_conv)+
  then have "length ss = length (subs c)" by (metis length_map)
  moreover have "m mod length (subs c) < length (subs c)" for m
    by (rule mod_less_divisor) (use lt in linarith)
  ultimately have "cursor_ok c'"
    using c' lt by (auto simp: cursor_ok_def split: sum.splits option.splits)
  then show ?thesis using c' keep by blast
qed

text \<open>
  A subscription that is joined and always has a packet is served within as many calls as there
  are positions from the cursor to it, provided no receive fails.
\<close>

lemma served_within_mono: "served_within try_any origin n i c k \<Longrightarrow> n \<le> m \<Longrightarrow> served_within try_any origin m i c k"
proof (induction n arbitrary: m c k)
  case (Suc n)
  then obtain m' where "m = Suc m'" "n \<le> m'" by (cases m) auto
  with Suc show ?case by (cases "try_any c k") auto
qed simp

lemma served_from_distance:
  assumes "\<And>s k e. Q k \<Longrightarrow> key s \<in> K \<Longrightarrow> joined s \<Longrightarrow> fst (recv s k) \<noteq> Inl e"
    and "\<And>s k. Q k \<Longrightarrow> key s = i \<Longrightarrow> joined s \<Longrightarrow> fst (recv s k) \<noteq> Inr None"
    and "\<And>s k. Q k \<Longrightarrow> Q (snd (snd (recv s k)))"
    and "cursor c < length (subs c)" and "j < length (subs c)"
    and "key (subs c ! j) = i" and "joined (subs c ! j)"
    and "d < length (subs c)" and "(cursor c + d) mod length (subs c) = j"
    and "\<forall>s \<in> set (subs c). key s \<in> K" and "Q k"
  shows "served_within try_any origin (Suc d) (ident i) c k"
  using assms(4-)
proof (induction d arbitrary: c k rule: less_induct)
  case (less d c k)
  let ?n = "length (subs c)"
  let ?is = "order ?n (cursor c) ?n"
  obtain r ss k' where scan: "rr_scan joined recv (cursor c) (subs c) k = (r, ss, k')"
    by (metis prod_cases3)
  have at: "?is ! m = (cursor c + m) mod ?n" if "m < ?n" for m
    using order_nth [OF less.prems(1) that] .
  have "\<exists>d' p. d' \<le> d \<and> fst (rr_visit joined recv ?is (subs c) k) = Inr (Some (?is ! d', p)) \<and>
     Q (snd (snd (rr_visit joined recv ?is (subs c) k))) \<and>
     (\<exists>s0 k0. key s0 = key (subs c ! (?is ! d')) \<and> fst (recv s0 k0) = Inr (Some p))"
    by (rule rr_visit_delivers [where key = key and j = j and K = K and kj = i])
       (use assms(1-3) recv_key recv_joined less.prems at set_order [OF less.prems(1)] in auto)
  then obtain d' p s0 k0 where d': "d' \<le> d" and r: "r = Inr (Some (?is ! d', p))" and "Q k'"
    and src: "key s0 = key (subs c ! (?is ! d'))" "fst (recv s0 k0) = Inr (Some p)"
    using scan unfolding rr_scan_def by auto
  have i': "?is ! d' = (cursor c + d') mod ?n" using at d' less.prems(5) by simp
  obtain c' where c': "try_any c k = Some (Inr (Some p), c', k')" "subs c' = ss"
    "cursor c' = (?is ! d' + 1) mod ?n"
    using scans [OF less.prems(1) scan] r by auto
  have orig: "origin p = ident (key (subs c ! (?is ! d')))" using recv_origin [OF src(2)] src(1) by simp
  show ?case
  proof (cases "d' = d")
    case True
    then have "?is ! d' = j" using i' less.prems(6) by simp
    then show ?thesis using c'(1) orig less.prems(3) by simp
  next
    case False
    have keep: "map key ss = map key (subs c)" "map joined ss = map joined (subs c)"
      using rr_visit_keeps [of key recv, OF recv_key] rr_visit_keeps [of joined recv, OF recv_joined] scan
      unfolding rr_scan_def by (metis fst_conv snd_conv)+
    then have len: "length ss = ?n" by (metis length_map)
    have nth: "key (ss ! j) = i" "joined (ss ! j)"
      using keep less.prems(2,3,4) len by (metis nth_map)+
    have K: "\<forall>s \<in> set ss. key s \<in> K"
      using less.prems(7) keep(1) len by (metis in_set_conv_nth nth_map)
    have pos: "m mod ?n < ?n" for m by (rule mod_less_divisor) (use less.prems(1) in linarith)
    have "(cursor c' + (d - d' - 1)) mod ?n = (cursor c + (d' + 1 + (d - d' - 1))) mod ?n"
      unfolding c'(3) i' by (metis add.assoc mod_add_left_eq)
    moreover have "d' + 1 + (d - d' - 1) = d" using d' False by simp
    ultimately have "(cursor c' + (d - d' - 1)) mod ?n = j" using less.prems(6) by simp
    then have "served_within try_any origin (Suc (d - d' - 1)) (ident i) c' k'"
      using less.prems(2,5) nth len c'(2,3) d' False pos K \<open>Q k'\<close> by (intro less.IH) auto
    then have "served_within try_any origin d (ident i) c' k'"
      by (rule served_within_mono) (use d' False in simp)
    then show ?thesis using c'(1) by simp
  qed
qed

lemma fairness:
  assumes "\<And>s k e. Q k \<Longrightarrow> key s \<in> key ` set (subs c) \<Longrightarrow> joined s \<Longrightarrow> fst (recv s k) \<noteq> Inl e"
    and "\<And>s k. Q k \<Longrightarrow> key s = i \<Longrightarrow> joined s \<Longrightarrow> fst (recv s k) \<noteq> Inr None"
    and "\<And>s k. Q k \<Longrightarrow> Q (snd (snd (recv s k)))"
    and "cursor_ok c" and "s \<in> set (subs c)" and "key s = i" and "joined s" and "Q k"
  shows "served_within try_any origin (length (subs c)) (ident i) c k"
proof -
  let ?n = "length (subs c)"
  obtain j where j: "j < ?n" "subs c ! j = s" using assms(5) by (meson in_set_conv_nth)
  then have lt: "cursor c < ?n" using assms(4) by (auto simp: cursor_ok_def split: if_splits)
  define d where "d = (j + ?n - cursor c) mod ?n"
  have "(cursor c + d) mod ?n = (cursor c + (j + ?n - cursor c)) mod ?n"
    unfolding d_def by (simp add: mod_add_right_eq)
  also have "\<dots> = j" using j lt by simp
  finally have dj: "(cursor c + d) mod ?n = j" .
  have dn: "d < ?n" unfolding d_def by (rule mod_less_divisor) (use lt in linarith)
  have "served_within try_any origin (Suc d) (ident i) c k"
    by (rule served_from_distance [where Q = Q and K = "key ` set (subs c)" and i = i and j = j])
       (use assms lt j dn dj in auto)
  then show ?thesis by (rule served_within_mono) (use dn in simp)
qed

text \<open>
  When the subscription at the cursor is joined and its receive fails, the call fails and the
  cursor stays, whatever the other subscriptions have to deliver.
\<close>

lemma error_keeps_cursor:
  assumes "cursor c < length (subs c)" and "joined (subs c ! cursor c)"
    and "fst (recv (subs c ! cursor c) k) = Inl e"
  shows "\<exists>c' k'. try_any c k = Some (Inl e, c', k') \<and> cursor c' = cursor c"
proof -
  obtain s' k' where "recv (subs c ! cursor c) k = (Inl e, s', k')" using assms(3) by (metis prod.collapse)
  moreover obtain m where "length (subs c) = Suc m" using assms(1) by (cases "length (subs c)") auto
  ultimately have "rr_scan joined recv (cursor c) (subs c) k = (Inl e, (subs c)[cursor c := s'], k')"
    using assms(2) by (simp add: rr_scan_def)
  from scans [OF assms(1) this] show ?thesis by auto
qed

end

end
