(* ===== verification/Context.thy ===== *)
theory Context
  imports Subscription Table
begin

text \<open>
  \<open>src/context.rs\<close>: the context owns the subscriptions, hands out their identifiers, joins and
  leaves groups, and receives from the joined subscriptions in round-robin order. Dropping a
  subscription closes its socket. Indexing a vector out of range panics in Rust; the receive
  operations return \<open>None\<close> there, and the properties show that this never happens.
\<close>

section \<open>State\<close>

record context_metrics =
  cm_subscriptions_added :: u64
  cm_subscriptions_removed :: u64
  cm_total_packets_received :: u64
  cm_total_bytes_received :: u64
  cm_total_would_block_count :: u64
  cm_total_receive_errors :: u64
  cm_total_join_count :: u64
  cm_total_leave_count :: u64
  cm_batch_calls :: u64
  cm_batch_packets_received :: u64

definition context_metrics_default :: context_metrics where
  "context_metrics_default =
     \<lparr>cm_subscriptions_added = 0, cm_subscriptions_removed = 0, cm_total_packets_received = 0,
      cm_total_bytes_received = 0, cm_total_would_block_count = 0, cm_total_receive_errors = 0,
      cm_total_join_count = 0, cm_total_leave_count = 0, cm_batch_calls = 0,
      cm_batch_packets_received = 0\<rparr>"

record mcrx_context =
  ctx_subscriptions :: "subscription list"
  ctx_next_subscription_id :: u64
  ctx_next_recv_index :: usize
  ctx_metrics :: context_metrics

definition MAX_DRAIN_PACKETS_PER_CALL :: usize where
  "MAX_DRAIN_PACKETS_PER_CALL = 4096"

definition context_new :: mcrx_context where
  "context_new =
     \<lparr>ctx_subscriptions = [], ctx_next_subscription_id = 1, ctx_next_recv_index = 0,
      ctx_metrics = context_metrics_default\<rparr>"

section \<open>Metrics\<close>

definition ctx_record_received_packet :: "usize \<Rightarrow> mcrx_context \<Rightarrow> mcrx_context" where
  "ctx_record_received_packet len c =
     c\<lparr>ctx_metrics := (ctx_metrics c)
         \<lparr>cm_total_packets_received := cm_total_packets_received (ctx_metrics c) + 1,
          cm_total_bytes_received := cm_total_bytes_received (ctx_metrics c) + of_nat len\<rparr>\<rparr>"

definition ctx_record_would_block :: "mcrx_context \<Rightarrow> mcrx_context" where
  "ctx_record_would_block c =
     c\<lparr>ctx_metrics := (ctx_metrics c)
         \<lparr>cm_total_would_block_count := cm_total_would_block_count (ctx_metrics c) + 1\<rparr>\<rparr>"

definition ctx_record_receive_error :: "mcrx_context \<Rightarrow> mcrx_context" where
  "ctx_record_receive_error c =
     c\<lparr>ctx_metrics := (ctx_metrics c)
         \<lparr>cm_total_receive_errors := cm_total_receive_errors (ctx_metrics c) + 1\<rparr>\<rparr>"

definition ctx_record_batch_call :: "mcrx_context \<Rightarrow> mcrx_context" where
  "ctx_record_batch_call c =
     c\<lparr>ctx_metrics := (ctx_metrics c)\<lparr>cm_batch_calls := cm_batch_calls (ctx_metrics c) + 1\<rparr>\<rparr>"

definition ctx_record_batch_packets_received :: "usize \<Rightarrow> mcrx_context \<Rightarrow> mcrx_context" where
  "ctx_record_batch_packets_received n c =
     c\<lparr>ctx_metrics := (ctx_metrics c)
         \<lparr>cm_batch_packets_received := cm_batch_packets_received (ctx_metrics c) + of_nat n\<rparr>\<rparr>"

definition ctx_metrics_snapshot :: "'k os \<Rightarrow> mcrx_context \<Rightarrow> 'k \<Rightarrow> context_metrics_snapshot \<times> 'k" where
  "ctx_metrics_snapshot os c k =
     (let m = ctx_metrics c in
      case os_now os k of (t, k') \<Rightarrow>
        (\<lparr>cms_subscriptions_added = cm_subscriptions_added m,
          cms_subscriptions_removed = cm_subscriptions_removed m,
          cms_active_subscriptions = length (ctx_subscriptions c),
          cms_joined_subscriptions = length (filter is_joined (ctx_subscriptions c)),
          cms_total_packets_received = cm_total_packets_received m,
          cms_total_bytes_received = cm_total_bytes_received m,
          cms_total_would_block_count = cm_total_would_block_count m,
          cms_total_receive_errors = cm_total_receive_errors m,
          cms_total_join_count = cm_total_join_count m,
          cms_total_leave_count = cm_total_leave_count m,
          cms_batch_calls = cm_batch_calls m,
          cms_batch_packets_received = cm_batch_packets_received m,
          cms_captured_at = t\<rparr>, k'))"

section \<open>Adding, finding and removing subscriptions\<close>

definition ensure_subscription_config_is_unique ::
  "mcrx_context \<Rightarrow> subscription_config \<Rightarrow> mcrx_error + unit" where
  "ensure_subscription_config_is_unique c cfg =
     (if \<exists>s \<in> set (ctx_subscriptions c). sub_config s = cfg then Inl DuplicateSubscription
      else Inr ())"

definition insert_subscription ::
  "mcrx_context \<Rightarrow> subscription_config \<times> receive_socket \<Rightarrow> subscription_id \<times> mcrx_context" where
  "insert_subscription c x =
     (let i = SubscriptionId (ctx_next_subscription_id c) in
      (i, c\<lparr>ctx_next_subscription_id := ctx_next_subscription_id c + 1,
            ctx_subscriptions := ctx_subscriptions c @ [from_receive_socket i (fst x) (snd x)],
            ctx_metrics := (ctx_metrics c)
              \<lparr>cm_subscriptions_added := cm_subscriptions_added (ctx_metrics c) + 1\<rparr>\<rparr>))"

definition finish_subscription_removal :: "mcrx_context \<Rightarrow> usize \<Rightarrow> subscription \<times> mcrx_context" where
  "finish_subscription_removal c index =
     (let removed = ctx_subscriptions c ! index;
          rest = swap_remove (ctx_subscriptions c) index
      in (removed,
          c\<lparr>ctx_subscriptions := rest,
            ctx_next_recv_index :=
              (if rest = [] then 0 else ctx_next_recv_index c mod length rest),
            ctx_metrics := (ctx_metrics c)
              \<lparr>cm_subscriptions_removed := cm_subscriptions_removed (ctx_metrics c) + 1\<rparr>\<rparr>))"

definition subscription_count :: "mcrx_context \<Rightarrow> usize" where
  "subscription_count c = length (ctx_subscriptions c)"

definition contains_subscription :: "mcrx_context \<Rightarrow> subscription_id \<Rightarrow> bool" where
  "contains_subscription c i \<longleftrightarrow> (\<exists>s \<in> set (ctx_subscriptions c). sub_id s = i)"

definition get_subscription :: "mcrx_context \<Rightarrow> subscription_id \<Rightarrow> subscription option" where
  "get_subscription c i = find (\<lambda>s. sub_id s = i) (ctx_subscriptions c)"

text \<open>An update through the reference that \<open>get_subscription_mut\<close> returns.\<close>

definition set_subscription ::
  "subscription_id \<Rightarrow> subscription \<Rightarrow> mcrx_context \<Rightarrow> mcrx_context" where
  "set_subscription i s c =
     c\<lparr>ctx_subscriptions := update_first (\<lambda>x. sub_id x = i) (\<lambda>_. s) (ctx_subscriptions c)\<rparr>"

definition take_subscription ::
  "mcrx_context \<Rightarrow> subscription_id \<Rightarrow> subscription option \<times> mcrx_context" where
  "take_subscription c i =
     (case position (\<lambda>s. sub_id s = i) (ctx_subscriptions c) of
        None \<Rightarrow> (None, c)
      | Some index \<Rightarrow>
          (case finish_subscription_removal c index of (removed, c') \<Rightarrow> (Some removed, c')))"

text \<open>The dropped subscription closes its socket.\<close>

definition remove_subscription ::
  "'k os \<Rightarrow> mcrx_context \<Rightarrow> subscription_id \<Rightarrow> 'k \<Rightarrow> bool \<times> mcrx_context \<times> 'k" where
  "remove_subscription os c i k =
     (case take_subscription c i of
        (Some removed, c') \<Rightarrow> (True, c', os_close os (into_socket removed) k)
      | (None, c') \<Rightarrow> (False, c', k))"

definition add_subscription ::
  "'k os \<Rightarrow> mcrx_context \<Rightarrow> subscription_config \<Rightarrow> 'k \<Rightarrow>
   (mcrx_error + subscription_id) \<times> mcrx_context \<times> 'k" where
  "add_subscription os c cfg k =
     (case io_bind (io_lift (validate cfg)) (\<lambda>_.
           io_bind (io_lift (ensure_subscription_config_is_unique c cfg)) (\<lambda>_.
           open_bound_socket os cfg)) k of
        (Inl e, k') \<Rightarrow> (Inl e, c, k')
      | (Inr rs, k') \<Rightarrow> (case insert_subscription c (cfg, rs) of (i, c') \<Rightarrow> (Inr i, c', k')))"

text \<open>The caller's socket is moved into the call, which closes it when a check fails.\<close>

definition add_subscription_with_socket ::
  "'k os \<Rightarrow> mcrx_context \<Rightarrow> subscription_config \<Rightarrow> socket \<Rightarrow> 'k \<Rightarrow>
   (mcrx_error + subscription_id) \<times> mcrx_context \<times> 'k" where
  "add_subscription_with_socket os c cfg s k =
     (case io_bind (owning os s
              (io_bind (io_lift (validate cfg)) (\<lambda>_.
               io_lift (ensure_subscription_config_is_unique c cfg)))) (\<lambda>_.
           prepare_existing_socket os s cfg) k of
        (Inl e, k') \<Rightarrow> (Inl e, c, k')
      | (Inr rs, k') \<Rightarrow> (case insert_subscription c (cfg, rs) of (i, c') \<Rightarrow> (Inr i, c', k')))"

section \<open>Joining and leaving\<close>

definition ctx_record_join :: "mcrx_context \<Rightarrow> mcrx_context" where
  "ctx_record_join c =
     c\<lparr>ctx_metrics := (ctx_metrics c)
         \<lparr>cm_total_join_count := cm_total_join_count (ctx_metrics c) + 1\<rparr>\<rparr>"

definition ctx_record_leave :: "mcrx_context \<Rightarrow> mcrx_context" where
  "ctx_record_leave c =
     c\<lparr>ctx_metrics := (ctx_metrics c)
         \<lparr>cm_total_leave_count := cm_total_leave_count (ctx_metrics c) + 1\<rparr>\<rparr>"

definition join_subscription ::
  "'k os \<Rightarrow> mcrx_context \<Rightarrow> subscription_id \<Rightarrow> 'k \<Rightarrow> (mcrx_error + unit) \<times> mcrx_context \<times> 'k" where
  "join_subscription os c i k =
     (case get_subscription c i of
        None \<Rightarrow> (Inl SubscriptionNotFound, c, k)
      | Some s \<Rightarrow>
          (if is_joined s then (Inl SubscriptionAlreadyJoined, c, k)
           else
             (case join_multicast_group os (rs_socket (sub_socket s)) (sub_config s) k of
                (Inl e, k') \<Rightarrow> (Inl e, c, k')
              | (Inr _, k') \<Rightarrow>
                  (case mark_joined s of
                     Inl e \<Rightarrow> (Inl e, c, k')
                   | Inr s' \<Rightarrow> (Inr (), ctx_record_join (set_subscription i s' c), k')))))"

definition leave_subscription ::
  "'k os \<Rightarrow> mcrx_context \<Rightarrow> subscription_id \<Rightarrow> 'k \<Rightarrow> (mcrx_error + unit) \<times> mcrx_context \<times> 'k" where
  "leave_subscription os c i k =
     (case get_subscription c i of
        None \<Rightarrow> (Inl SubscriptionNotFound, c, k)
      | Some s \<Rightarrow>
          (if \<not> is_joined s then (Inl SubscriptionNotJoined, c, k)
           else
             (case leave_multicast_group os (rs_socket (sub_socket s)) (sub_config s) k of
                (Inl e, k') \<Rightarrow> (Inl e, c, k')
              | (Inr _, k') \<Rightarrow>
                  (case mark_bound s of
                     Inl e \<Rightarrow> (Inl e, c, k')
                   | Inr s' \<Rightarrow> (Inr (), ctx_record_leave (set_subscription i s' c), k')))))"

section \<open>Receiving\<close>

text \<open>
  The \<open>for\<close> loop of \<open>try_recv_from_joined\<close>: \<open>remaining\<close> turns are left and \<open>index\<close> is the position
  to visit.
\<close>

fun scan_joined ::
  "('k, 'p) receiver \<Rightarrow> ('p \<Rightarrow> usize) \<Rightarrow> usize \<Rightarrow> nat \<Rightarrow> usize \<Rightarrow> mcrx_context \<Rightarrow> 'k \<Rightarrow>
   ((mcrx_error + 'p option) \<times> mcrx_context \<times> 'k) option" where
  "scan_joined recv packet_len count 0 index c k = Some (Inr None, c, k)"
| "scan_joined recv packet_len count (Suc remaining) index c k =
     (if \<not> index < length (ctx_subscriptions c) then None
      else
        let s = ctx_subscriptions c ! index in
        if \<not> is_joined s
        then scan_joined recv packet_len count remaining
               (if index + 1 = count then 0 else index + 1) c k
        else
          (case recv s k of (r, s', k') \<Rightarrow>
             (let c' = c\<lparr>ctx_subscriptions := (ctx_subscriptions c)[index := s']\<rparr> in
              case r of
                Inr (Some p) \<Rightarrow>
                  Some (Inr (Some p),
                        ctx_record_received_packet (packet_len p)
                          (c'\<lparr>ctx_next_recv_index := (index + 1) mod count\<rparr>), k')
              | Inr None \<Rightarrow>
                  scan_joined recv packet_len count remaining
                    (if index + 1 = count then 0 else index + 1) (ctx_record_would_block c') k'
              | Inl e \<Rightarrow> Some (Inl e, ctx_record_receive_error c', k'))))"

definition try_recv_from_joined ::
  "('k, 'p) receiver \<Rightarrow> ('p \<Rightarrow> usize) \<Rightarrow> mcrx_context \<Rightarrow> 'k \<Rightarrow>
   ((mcrx_error + 'p option) \<times> mcrx_context \<times> 'k) option" where
  "try_recv_from_joined recv packet_len c k =
     (let count = length (ctx_subscriptions c) in
      if count = 0 then Some (Inr None, c, k)
      else scan_joined recv packet_len count count (ctx_next_recv_index c) c k)"

definition try_recv_any ::
  "'k os \<Rightarrow> mcrx_context \<Rightarrow> 'k \<Rightarrow> ((mcrx_error + packet option) \<times> mcrx_context \<times> 'k) option" where
  "try_recv_any os = try_recv_from_joined (try_recv os) (\<lambda>p. length (pkt_payload p))"

definition try_recv_any_with_metadata ::
  "'k os \<Rightarrow> mcrx_context \<Rightarrow> 'k \<Rightarrow>
   ((mcrx_error + packet_with_metadata option) \<times> mcrx_context \<times> 'k) option" where
  "try_recv_any_with_metadata os =
     try_recv_from_joined (try_recv_with_metadata os) (\<lambda>p. length (pkt_payload (pwm_packet p)))"

text \<open>
  The loop of \<open>try_recv_batch_into_impl\<close> and its metadata variant: \<open>left\<close> turns remain. The result
  holds the vector \<open>out\<close>, which keeps the packets pushed before an error.
\<close>

fun batch_loop ::
  "(mcrx_context \<Rightarrow> 'k \<Rightarrow> ((mcrx_error + 'p option) \<times> mcrx_context \<times> 'k) option) \<Rightarrow> nat \<Rightarrow>
   'p list \<Rightarrow> usize \<Rightarrow> mcrx_context \<Rightarrow> 'k \<Rightarrow>
   ((mcrx_error + usize) \<times> 'p list \<times> mcrx_context \<times> 'k) option" where
  "batch_loop recv_any 0 out received c k =
     Some (Inr received, out, ctx_record_batch_packets_received received c, k)"
| "batch_loop recv_any (Suc left) out received c k =
     (case recv_any c k of
        None \<Rightarrow> None
      | Some (Inl e, c', k') \<Rightarrow> Some (Inl e, out, c', k')
      | Some (Inr (Some p), c', k') \<Rightarrow> batch_loop recv_any left (out @ [p]) (received + 1) c' k'
      | Some (Inr None, c', k') \<Rightarrow>
          Some (Inr received, out, ctx_record_batch_packets_received received c', k'))"

definition try_recv_batch_into_impl where
  "try_recv_batch_into_impl os out max_packets c k =
     batch_loop (try_recv_any os) max_packets out 0 c k"

definition try_recv_batch_into where
  "try_recv_batch_into os out max_packets c k =
     try_recv_batch_into_impl os out max_packets (ctx_record_batch_call c) k"

definition try_recv_batch_with_metadata_into_impl where
  "try_recv_batch_with_metadata_into_impl os out max_packets c k =
     batch_loop (try_recv_any_with_metadata os) max_packets out 0 c k"

definition try_recv_batch_with_metadata_into where
  "try_recv_batch_with_metadata_into os out max_packets c k =
     try_recv_batch_with_metadata_into_impl os out max_packets (ctx_record_batch_call c) k"

definition try_recv_all_into where
  "try_recv_all_into os out c k =
     try_recv_batch_into_impl os out MAX_DRAIN_PACKETS_PER_CALL (ctx_record_batch_call c) k"

definition try_recv_all_with_metadata_into where
  "try_recv_all_with_metadata_into os out c k =
     try_recv_batch_with_metadata_into_impl os out MAX_DRAIN_PACKETS_PER_CALL
       (ctx_record_batch_call c) k"

section \<open>The context is a table of subscriptions\<close>

lemma take_subscription_Some:
  assumes "position (\<lambda>s. sub_id s = i) (ctx_subscriptions c) = Some n"
  shows "\<exists>c'. take_subscription c i = (Some (ctx_subscriptions c ! n), c') \<and>
     ctx_subscriptions c' = swap_remove (ctx_subscriptions c) n \<and>
     ctx_next_subscription_id c' = ctx_next_subscription_id c \<and>
     ctx_next_recv_index c' =
       cursor_after_removal (swap_remove (ctx_subscriptions c) n) (ctx_next_recv_index c)"
  using assms
  by (simp add: take_subscription_def finish_subscription_removal_def cursor_after_removal_def Let_def)

interpretation ctx_table: subscription_table
  ctx_subscriptions ctx_next_subscription_id ctx_next_recv_index sub_id
  insert_subscription "\<lambda>i x. from_receive_socket i (fst x) (snd x)" take_subscription
proof unfold_locales
  show "insert_subscription c x = (i, c') \<Longrightarrow> i = SubscriptionId (ctx_next_subscription_id c) \<and>
      ctx_subscriptions c' = ctx_subscriptions c @ [from_receive_socket i (fst x) (snd x)] \<and>
      ctx_next_subscription_id c' = ctx_next_subscription_id c + 1 \<and>
      ctx_next_recv_index c' = ctx_next_recv_index c" for c x i c'
    by (auto simp: insert_subscription_def Let_def)
  show "sub_id (from_receive_socket i (fst x) (snd x)) = i" for i and x :: "subscription_config \<times> receive_socket"
    by (simp add: from_receive_socket_def with_socket_def)
  show "position (\<lambda>s. sub_id s = i) (ctx_subscriptions c) = None \<Longrightarrow> take_subscription c i = (None, c)"
    for i c by (simp add: take_subscription_def del: position_None)
qed (rule take_subscription_Some)

section \<open>The context scans round-robin\<close>

lemma record_keeps [simp]:
  "ctx_subscriptions (ctx_record_received_packet n c) = ctx_subscriptions c"
  "ctx_next_recv_index (ctx_record_received_packet n c) = ctx_next_recv_index c"
  "ctx_next_subscription_id (ctx_record_received_packet n c) = ctx_next_subscription_id c"
  "ctx_subscriptions (ctx_record_would_block c) = ctx_subscriptions c"
  "ctx_next_recv_index (ctx_record_would_block c) = ctx_next_recv_index c"
  "ctx_next_subscription_id (ctx_record_would_block c) = ctx_next_subscription_id c"
  "ctx_subscriptions (ctx_record_receive_error c) = ctx_subscriptions c"
  "ctx_next_recv_index (ctx_record_receive_error c) = ctx_next_recv_index c"
  "ctx_next_subscription_id (ctx_record_receive_error c) = ctx_next_subscription_id c"
  "ctx_subscriptions (ctx_record_batch_call c) = ctx_subscriptions c"
  "ctx_next_recv_index (ctx_record_batch_call c) = ctx_next_recv_index c"
  "ctx_next_subscription_id (ctx_record_batch_call c) = ctx_next_subscription_id c"
  "ctx_subscriptions (ctx_record_batch_packets_received n c) = ctx_subscriptions c"
  "ctx_next_recv_index (ctx_record_batch_packets_received n c) = ctx_next_recv_index c"
  "ctx_next_subscription_id (ctx_record_batch_packets_received n c) = ctx_next_subscription_id c"
  "ctx_subscriptions (ctx_record_join c) = ctx_subscriptions c"
  "ctx_next_recv_index (ctx_record_join c) = ctx_next_recv_index c"
  "ctx_next_subscription_id (ctx_record_join c) = ctx_next_subscription_id c"
  "ctx_subscriptions (ctx_record_leave c) = ctx_subscriptions c"
  "ctx_next_recv_index (ctx_record_leave c) = ctx_next_recv_index c"
  "ctx_next_subscription_id (ctx_record_leave c) = ctx_next_subscription_id c"
  by (simp_all add: ctx_record_received_packet_def ctx_record_would_block_def
      ctx_record_receive_error_def ctx_record_batch_call_def ctx_record_batch_packets_received_def
      ctx_record_join_def ctx_record_leave_def)

lemma scan_joined_refines:
  assumes "index < count" and "length (ctx_subscriptions c) = count"
    and "rr_visit is_joined recv (order count index n) (ctx_subscriptions c) k = (r, ss, k')"
  shows "\<exists>c'. scan_joined recv packet_len count n index c k =
       Some (map_sum id (map_option snd) r, c', k') \<and>
     ctx_subscriptions c' = ss \<and>
     ctx_next_subscription_id c' = ctx_next_subscription_id c \<and>
     ctx_next_recv_index c' =
       (case r of Inr (Some (i, _)) \<Rightarrow> (i + 1) mod count | _ \<Rightarrow> ctx_next_recv_index c)"
  using assms
proof (induction n arbitrary: index c k)
  case (Suc n)
  have nxt: "(if index + 1 = count then 0 else index + 1) = next_index count index"
    by (simp add: next_index_def)
  show ?case
  proof (cases "is_joined (ctx_subscriptions c ! index)")
    case False
    then show ?thesis
      using Suc.IH [of "next_index count index" c k] Suc.prems next_index_less [OF Suc.prems(1)]
      by (simp add: nxt Let_def del: One_nat_def)
  next
    case True
    obtain x s' k1 where x: "recv (ctx_subscriptions c ! index) k = (x, s', k1)" by (metis prod_cases3)
    show ?thesis
    proof (cases x)
      case (Inl e)
      then show ?thesis using Suc.prems True x by auto
    next
      case (Inr y)
      show ?thesis
      proof (cases y)
        case None
        define c1 where
          "c1 = ctx_record_would_block (c\<lparr>ctx_subscriptions := (ctx_subscriptions c)[index := s']\<rparr>)"
        have c1: "ctx_subscriptions c1 = (ctx_subscriptions c)[index := s']"
          "ctx_next_subscription_id c1 = ctx_next_subscription_id c"
          "ctx_next_recv_index c1 = ctx_next_recv_index c"
          by (simp_all add: c1_def)
        from None show ?thesis
          using Suc.IH [of "next_index count index" c1 k1, unfolded c1] Suc.prems
            next_index_less [OF Suc.prems(1)] True x Inr
          by (simp add: nxt Let_def c1_def del: One_nat_def)
      next
        case (Some p)
        then show ?thesis using Suc.prems True x Inr by (auto simp: Let_def)
      qed
    qed
  qed
qed auto

lemma try_recv_from_joined_refines:
  assumes "ctx_next_recv_index c < length (ctx_subscriptions c)"
    and "rr_scan is_joined recv (ctx_next_recv_index c) (ctx_subscriptions c) k = (r, ss, k')"
  shows "\<exists>c'. try_recv_from_joined recv packet_len c k =
       Some (map_sum id (map_option snd) r, c', k') \<and> ctx_subscriptions c' = ss \<and>
     ctx_next_recv_index c' =
       (case r of Inr (Some (i, _)) \<Rightarrow> (i + 1) mod length (ctx_subscriptions c)
        | _ \<Rightarrow> ctx_next_recv_index c)"
  using scan_joined_refines [OF assms(1) refl assms(2) [unfolded rr_scan_def], of packet_len] assms(1)
  by (auto simp: try_recv_from_joined_def Let_def)

lemma try_recv_keeps:
  "sub_id (fst (snd (try_recv os s k))) = sub_id s"
  "is_joined (fst (snd (try_recv os s k))) = is_joined s"
  "sub_config (fst (snd (try_recv os s k))) = sub_config s"
  "sub_socket (fst (snd (try_recv os s k))) = sub_socket s"
  using try_recv_preserves [of os s k]
  by (cases "try_recv os s k"; auto simp: same_identity_def is_joined_def)+

lemma try_recv_with_metadata_keeps:
  "sub_id (fst (snd (try_recv_with_metadata os s k))) = sub_id s"
  "is_joined (fst (snd (try_recv_with_metadata os s k))) = is_joined s"
  "sub_config (fst (snd (try_recv_with_metadata os s k))) = sub_config s"
  "sub_socket (fst (snd (try_recv_with_metadata os s k))) = sub_socket s"
  using try_recv_with_metadata_preserves [of os s k]
  by (cases "try_recv_with_metadata os s k"; auto simp: same_identity_def is_joined_def)+

text \<open>The parts of a subscription that never change.\<close>

definition frame :: "subscription \<Rightarrow> subscription_id \<times> subscription_config \<times> receive_socket" where
  "frame s = (sub_id s, sub_config s, sub_socket s)"

lemma frame_try_recv:
  "frame (fst (snd (try_recv os s k))) = frame s"
  "frame (fst (snd (try_recv_with_metadata os s k))) = frame s"
  by (simp_all add: frame_def try_recv_keeps try_recv_with_metadata_keeps)

lemma try_recv_from_joined_empty:
  "ctx_subscriptions c = [] \<Longrightarrow> try_recv_from_joined recv packet_len c k = Some (Inr None, c, k)"
  by (simp add: try_recv_from_joined_def)

interpretation ctx_any: round_robin
  ctx_subscriptions ctx_next_recv_index is_joined frame "try_recv os" fst pkt_subscription_id
  "try_recv_any os"
proof unfold_locales
  show "fst (try_recv os s k) = Inr (Some p) \<Longrightarrow> pkt_subscription_id p = fst (frame s)" for s k p
    using try_recv_with_metadata_delivers [of os s k]
    by (cases "try_recv_with_metadata os s k")
       (auto simp: try_recv_eq delivered_for_def map_sum_def frame_def split: sum.splits)
qed (simp_all add: try_recv_any_def try_recv_from_joined_refines try_recv_from_joined_empty
      try_recv_keeps frame_try_recv)

interpretation ctx_any_metadata: round_robin
  ctx_subscriptions ctx_next_recv_index is_joined frame "try_recv_with_metadata os" fst
  "\<lambda>p. pkt_subscription_id (pwm_packet p)" "try_recv_any_with_metadata os"
proof unfold_locales
  show "fst (try_recv_with_metadata os s k) = Inr (Some p) \<Longrightarrow>
      pkt_subscription_id (pwm_packet p) = fst (frame s)" for s k p
    using try_recv_with_metadata_delivers [of os s k p]
    by (cases "try_recv_with_metadata os s k") (auto simp: delivered_for_def frame_def)
qed (simp_all add: try_recv_any_with_metadata_def try_recv_from_joined_refines
      try_recv_from_joined_empty try_recv_with_metadata_keeps frame_try_recv)

section \<open>Operations as steps\<close>

text \<open>
  The operations of a context, including what a caller can do to one subscription through
  \<open>get_subscription\<close> and \<open>get_subscription_mut\<close>.
\<close>

datatype ctx_op =
    OpAdd subscription_config
  | OpAddWithSocket subscription_config socket
  | OpRemove subscription_id
  | OpTake subscription_id
  | OpJoin subscription_id
  | OpLeave subscription_id
  | OpMarkJoined subscription_id
  | OpMarkBound subscription_id
  | OpTryRecv subscription_id
  | OpRecvAny
  | OpRecvAnyWithMetadata
  | OpBatch nat
  | OpBatchWithMetadata nat
  | OpDrain
  | OpDrainWithMetadata

inductive ctx_step :: "'k os \<Rightarrow> ctx_op \<Rightarrow> mcrx_context \<Rightarrow> 'k \<Rightarrow> mcrx_context \<Rightarrow> 'k \<Rightarrow> bool"
  for os where
  step_add: "add_subscription os c cfg k = (r, c', k') \<Longrightarrow> ctx_step os (OpAdd cfg) c k c' k'"
| step_add_with_socket: "add_subscription_with_socket os c cfg s k = (r, c', k') \<Longrightarrow>
    ctx_step os (OpAddWithSocket cfg s) c k c' k'"
| step_remove: "remove_subscription os c i k = (b, c', k') \<Longrightarrow> ctx_step os (OpRemove i) c k c' k'"
| step_take: "take_subscription c i = (r, c') \<Longrightarrow> ctx_step os (OpTake i) c k c' k"
| step_join: "join_subscription os c i k = (r, c', k') \<Longrightarrow> ctx_step os (OpJoin i) c k c' k'"
| step_leave: "leave_subscription os c i k = (r, c', k') \<Longrightarrow> ctx_step os (OpLeave i) c k c' k'"
| step_mark_joined: "get_subscription c i = Some s \<Longrightarrow> mark_joined s = Inr s' \<Longrightarrow>
    ctx_step os (OpMarkJoined i) c k (set_subscription i s' c) k"
| step_mark_bound: "get_subscription c i = Some s \<Longrightarrow> mark_bound s = Inr s' \<Longrightarrow>
    ctx_step os (OpMarkBound i) c k (set_subscription i s' c) k"
| step_try_recv: "get_subscription c i = Some s \<Longrightarrow> try_recv os s k = (r, s', k') \<Longrightarrow>
    ctx_step os (OpTryRecv i) c k (set_subscription i s' c) k'"
| step_recv_any: "try_recv_any os c k = Some (r, c', k') \<Longrightarrow> ctx_step os OpRecvAny c k c' k'"
| step_recv_any_with_metadata: "try_recv_any_with_metadata os c k = Some (q, c', k') \<Longrightarrow>
    ctx_step os OpRecvAnyWithMetadata c k c' k'"
| step_batch: "try_recv_batch_into os out n c k = Some (r, out', c', k') \<Longrightarrow>
    ctx_step os (OpBatch n) c k c' k'"
| step_batch_with_metadata: "try_recv_batch_with_metadata_into os qout n c k = Some (r, qout', c', k') \<Longrightarrow>
    ctx_step os (OpBatchWithMetadata n) c k c' k'"
| step_drain: "try_recv_all_into os out c k = Some (r, out', c', k') \<Longrightarrow>
    ctx_step os OpDrain c k c' k'"
| step_drain_with_metadata: "try_recv_all_with_metadata_into os qout c k = Some (r, qout', c', k') \<Longrightarrow>
    ctx_step os OpDrainWithMetadata c k c' k'"

inductive_cases ctx_step_cases: "ctx_step os op c k c' k'"

definition owned :: "mcrx_context \<Rightarrow> socket set" where
  "owned c = into_socket ` set (ctx_subscriptions c)"

text \<open>
  Reachable states after \<open>n\<close> operations. Between two operations the rest of the world may change
  the kernel in any way that does not close a socket of the context. A socket handed to the
  context is open and not already the context's, which Rust's ownership guarantees.
\<close>

inductive ctx_reach :: "'k os \<Rightarrow> ('k \<Rightarrow> socket set) \<Rightarrow> nat \<Rightarrow> mcrx_context \<Rightarrow> 'k \<Rightarrow> bool"
  for os opens where
  reach_new: "ctx_reach os opens 0 context_new k"
| reach_world: "ctx_reach os opens n c k \<Longrightarrow> owned c \<subseteq> opens k' \<Longrightarrow> ctx_reach os opens n c k'"
| reach_step: "ctx_reach os opens n c k \<Longrightarrow> ctx_step os op c k c' k' \<Longrightarrow>
    (case op of OpAddWithSocket _ s \<Rightarrow> s \<in> opens k \<and> s \<notin> owned c | _ \<Rightarrow> True) \<Longrightarrow>
    ctx_reach os opens (Suc n) c' k'"

section \<open>The invariant\<close>

definition good_subscription :: "subscription \<Rightarrow> bool" where
  "good_subscription s \<longleftrightarrow>
     validate (sub_config s) = Inr () \<and> ensure_ready (sub_socket s) = Inr () \<and>
     (\<exists>a. rs_local_addr (sub_socket s) = Some a \<and> addr_family a = family (sub_config s) \<and>
        sa_port a = cfg_dst_port (sub_config s))"

definition ctx_inv :: "mcrx_context \<Rightarrow> bool" where
  "ctx_inv c \<longleftrightarrow>
     table_ok sub_id (ctx_subscriptions c) (ctx_next_subscription_id c) (ctx_next_recv_index c) \<and>
     distinct (map sub_config (ctx_subscriptions c)) \<and>
     distinct (map into_socket (ctx_subscriptions c)) \<and>
     (\<forall>s \<in> set (ctx_subscriptions c). good_subscription s) \<and>
     cm_subscriptions_added (ctx_metrics c) =
       cm_subscriptions_removed (ctx_metrics c) + of_nat (length (ctx_subscriptions c))"

text \<open>The parts of a context that receives, joins and leaves keep.\<close>

definition ctx_frame :: "mcrx_context \<Rightarrow> mcrx_context \<Rightarrow> bool" where
  "ctx_frame c c' \<longleftrightarrow>
     map frame (ctx_subscriptions c') = map frame (ctx_subscriptions c) \<and>
     ctx_next_subscription_id c' = ctx_next_subscription_id c \<and>
     (ctx_next_recv_index c' = ctx_next_recv_index c \<or>
      ctx_next_recv_index c' < length (ctx_subscriptions c)) \<and>
     cm_subscriptions_added (ctx_metrics c') = cm_subscriptions_added (ctx_metrics c) \<and>
     cm_subscriptions_removed (ctx_metrics c') = cm_subscriptions_removed (ctx_metrics c)"

lemma ctx_frame_refl [simp]: "ctx_frame c c"
  by (simp add: ctx_frame_def)

lemma ctx_frame_length: "ctx_frame c c' \<Longrightarrow> length (ctx_subscriptions c') = length (ctx_subscriptions c)"
  unfolding ctx_frame_def by (metis length_map)

lemma ctx_frame_trans: "ctx_frame a b \<Longrightarrow> ctx_frame b c \<Longrightarrow> ctx_frame a c"
  using ctx_frame_length [of a b] by (auto simp: ctx_frame_def)

lemma map_frame_eq:
  assumes "map frame xs = map frame ys"
  shows "map sub_id xs = map sub_id ys" "map sub_config xs = map sub_config ys"
    "map sub_socket xs = map sub_socket ys" "map into_socket xs = map into_socket ys"
proof -
  have "map (g \<circ> frame) xs = map (g \<circ> frame) ys" for g :: "_ \<Rightarrow> 'a"
    using assms by (metis map_map)
  from this [of fst] show "map sub_id xs = map sub_id ys" by (simp add: frame_def comp_def)
next
  have "map ((fst \<circ> snd) \<circ> frame) xs = map ((fst \<circ> snd) \<circ> frame) ys" using assms by (metis map_map)
  then show "map sub_config xs = map sub_config ys" by (simp add: frame_def comp_def)
next
  have "map ((snd \<circ> snd) \<circ> frame) xs = map ((snd \<circ> snd) \<circ> frame) ys" using assms by (metis map_map)
  then show "map sub_socket xs = map sub_socket ys" by (simp add: frame_def comp_def)
next
  have "map ((rs_socket \<circ> snd \<circ> snd) \<circ> frame) xs = map ((rs_socket \<circ> snd \<circ> snd) \<circ> frame) ys"
    using assms by (metis map_map)
  then show "map into_socket xs = map into_socket ys" by (simp add: frame_def into_socket_def [abs_def] comp_def)
qed

lemma ctx_frame_owned: "ctx_frame c c' \<Longrightarrow> owned c' = owned c"
  using map_frame_eq(4) unfolding ctx_frame_def owned_def by (metis set_map)

lemma ctx_frame_inv:
  assumes "ctx_inv c" and "ctx_frame c c'"
  shows "ctx_inv c'"
proof -
  have f: "map frame (ctx_subscriptions c') = map frame (ctx_subscriptions c)"
    using assms(2) by (simp add: ctx_frame_def)
  have "good_subscription s'" if "s' \<in> set (ctx_subscriptions c')" for s'
  proof -
    from that have "frame s' \<in> set (map frame (ctx_subscriptions c))" using f by (metis image_eqI set_map)
    then obtain s where "s \<in> set (ctx_subscriptions c)" "frame s' = frame s" by auto
    then show ?thesis using assms(1) by (auto simp: ctx_inv_def good_subscription_def frame_def)
  qed
  then show ?thesis
    using assms map_frame_eq [OF f] ctx_frame_length [OF assms(2)]
      table_ok_same [of sub_id "ctx_subscriptions c" "ctx_next_subscription_id c"
        "ctx_next_recv_index c" "ctx_subscriptions c'" "ctx_next_recv_index c'"]
    by (auto simp: ctx_inv_def ctx_frame_def)
qed

lemma frame_update:
  assumes "get_subscription c i = Some s" and "frame s' = frame s"
  shows "ctx_frame c (set_subscription i s' c)"
proof -
  have "map frame (update_first (\<lambda>x. sub_id x = i) (\<lambda>_. s') xs) = map frame xs"
    if "find (\<lambda>x. sub_id x = i) xs = Some s" for xs
    using that assms(2) by (induction xs) (auto split: if_splits)
  then show ?thesis using assms(1) by (simp add: ctx_frame_def set_subscription_def get_subscription_def)
qed

lemma ctx_frame_records:
  "ctx_frame c (ctx_record_received_packet n c)" "ctx_frame c (ctx_record_would_block c)"
  "ctx_frame c (ctx_record_receive_error c)" "ctx_frame c (ctx_record_batch_call c)"
  "ctx_frame c (ctx_record_batch_packets_received n c)" "ctx_frame c (ctx_record_join c)"
  "ctx_frame c (ctx_record_leave c)"
  by (simp_all add: ctx_frame_def ctx_record_received_packet_def ctx_record_would_block_def
      ctx_record_receive_error_def ctx_record_batch_call_def ctx_record_batch_packets_received_def
      ctx_record_join_def ctx_record_leave_def)

lemma ctx_frame_nth:
  assumes "frame s' = frame (ctx_subscriptions c ! i)"
  shows "ctx_frame c (c\<lparr>ctx_subscriptions := (ctx_subscriptions c)[i := s']\<rparr>)"
proof -
  have "map frame ((ctx_subscriptions c)[i := s']) = map frame (ctx_subscriptions c)"
    by (cases "i < length (ctx_subscriptions c)")
       (simp_all add: map_update assms list_update_same_conv list_update_beyond)
  then show ?thesis by (simp add: ctx_frame_def)
qed

lemma scan_joined_frame:
  assumes keep: "\<And>s k. frame (fst (snd (recv s k))) = frame s"
    and keepP: "\<And>s k. P k \<Longrightarrow> P (snd (snd (recv s k)))"
    and "count = length (ctx_subscriptions c)" and "P k"
    and "scan_joined recv packet_len count n index c k = Some (r, c', k')"
  shows "ctx_frame c c' \<and> P k'"
  using assms(3-)
proof (induction n arbitrary: index c k)
  case (Suc n)
  have lt: "index < length (ctx_subscriptions c)" using Suc.prems(3) by (auto split: if_splits)
  show ?case
  proof (cases "is_joined (ctx_subscriptions c ! index)")
    case False
    then show ?thesis using Suc.IH Suc.prems lt by (simp add: Let_def)
  next
    case True
    obtain x s' k1 where x: "recv (ctx_subscriptions c ! index) k = (x, s', k1)" by (metis prod_cases3)
    define c1 where "c1 = c\<lparr>ctx_subscriptions := (ctx_subscriptions c)[index := s']\<rparr>"
    have f: "ctx_frame c c1"
      using keep [of "ctx_subscriptions c ! index" k] x unfolding c1_def by (intro ctx_frame_nth) simp
    have k1: "P k1" using keepP [OF Suc.prems(2), of "ctx_subscriptions c ! index"] x by simp
    consider (err) e where "x = Inl e" | (none) "x = Inr None" | (some) p where "x = Inr (Some p)"
      by (metis not_None_eq sum.exhaust)
    then show ?thesis
    proof cases
      case err
      then show ?thesis
        using Suc.prems(3) lt True x k1 f ctx_frame_records(3) ctx_frame_trans
        by (auto simp: c1_def)
    next
      case none
      then have "ctx_frame (ctx_record_would_block c1) c' \<and> P k'"
        using Suc.prems lt True x k1
        by (intro Suc.IH [where index = "if index + 1 = count then 0 else index + 1" and k = k1])
           (simp_all add: c1_def Let_def)
      then show ?thesis using f ctx_frame_records(2) ctx_frame_trans by blast
    next
      case some
      have "0 < count" using lt Suc.prems(1) by auto
      then have "ctx_frame c1 (c1\<lparr>ctx_next_recv_index := (index + 1) mod count\<rparr>)"
        using Suc.prems(1) by (simp add: ctx_frame_def c1_def)
      then show ?thesis
        using Suc.prems(3) lt True x some k1 f ctx_frame_records(1) ctx_frame_trans
        by (auto simp: c1_def)
    qed
  qed
qed simp

lemma try_recv_from_joined_frame:
  assumes "\<And>s k. frame (fst (snd (recv s k))) = frame s"
    and "\<And>s k. P k \<Longrightarrow> P (snd (snd (recv s k)))"
    and "P k" and "try_recv_from_joined recv packet_len c k = Some (r, c', k')"
  shows "ctx_frame c c' \<and> P k'"
  using assms(3,4) scan_joined_frame [where P = P and recv = recv, OF assms(1,2) refl assms(3)]
  unfolding try_recv_from_joined_def Let_def by (auto split: if_splits)

lemma batch_loop_frame:
  assumes "\<And>c k r c' k'. P k \<Longrightarrow> recv_any c k = Some (r, c', k') \<Longrightarrow> ctx_frame c c' \<and> P k'"
    and "P k" and "batch_loop recv_any n out received c k = Some (r, out', c', k')"
  shows "ctx_frame c c' \<and> P k'"
  using assms(2,3)
proof (induction n arbitrary: out received c k)
  case 0
  then show ?case using ctx_frame_records(5) by auto
next
  case (Suc n)
  obtain x c1 k1 where x: "recv_any c k = Some (x, c1, k1)"
    using Suc.prems(2) by (cases "recv_any c k") auto
  have f: "ctx_frame c c1 \<and> P k1" using assms(1) [OF Suc.prems(1) x] .
  consider (err) e where "x = Inl e" | (none) "x = Inr None" | (some) p where "x = Inr (Some p)"
    by (metis not_None_eq sum.exhaust)
  then show ?case
  proof cases
    case err
    then show ?thesis using Suc.prems(2) x f by simp
  next
    case none
    then show ?thesis using Suc.prems(2) x f ctx_frame_records(5) ctx_frame_trans by fastforce
  next
    case some
    then have "ctx_frame c1 c' \<and> P k'"
      using Suc.prems(2) x f by (intro Suc.IH [of k1 "out @ [p]" "received + 1" c1]) auto
    then show ?thesis using f ctx_frame_trans by blast
  qed
qed

lemma keeps_try_recv_with_metadata:
  assumes "accounts os opens"
  shows "opens (snd (snd (try_recv_with_metadata os s k))) = opens k"
  using keeps_run [OF keeps_recv_packet_with_metadata [OF assms]] keeps_run [OF keeps_accounts(12) [OF assms]]
  unfolding try_recv_with_metadata_def record_received_packet_def
  by (auto split: prod.splits sum.splits option.splits)

lemma keeps_try_recv: "accounts os opens \<Longrightarrow> opens (snd (snd (try_recv os s k))) = opens k"
  using keeps_try_recv_with_metadata [of os opens s k]
  by (cases "try_recv_with_metadata os s k") (simp add: try_recv_eq)

lemma try_recv_any_frame:
  assumes "accounts os opens"
  shows "try_recv_any os c k = Some (r, c', k') \<Longrightarrow> ctx_frame c c' \<and> opens k' = opens k"
    and "try_recv_any_with_metadata os c k = Some (q, c', k') \<Longrightarrow> ctx_frame c c' \<and> opens k' = opens k"
proof -
  show "ctx_frame c c' \<and> opens k' = opens k" if "try_recv_any os c k = Some (r, c', k')"
    by (rule try_recv_from_joined_frame [where P = "\<lambda>k'. opens k' = opens k",
          OF _ _ refl that [unfolded try_recv_any_def]])
       (simp_all add: frame_try_recv keeps_try_recv [OF assms])
  show "ctx_frame c c' \<and> opens k' = opens k" if "try_recv_any_with_metadata os c k = Some (q, c', k')"
    by (rule try_recv_from_joined_frame [where P = "\<lambda>k'. opens k' = opens k",
          OF _ _ refl that [unfolded try_recv_any_with_metadata_def]])
       (simp_all add: frame_try_recv keeps_try_recv_with_metadata [OF assms])
qed

lemma batch_frame:
  assumes "accounts os opens"
  shows "batch_loop (try_recv_any os) n out m c k = Some (r, out', c', k') \<Longrightarrow>
      ctx_frame c c' \<and> opens k' = opens k"
    and "batch_loop (try_recv_any_with_metadata os) n qout m c k = Some (r, qout', c', k') \<Longrightarrow>
      ctx_frame c c' \<and> opens k' = opens k"
proof -
  show "ctx_frame c c' \<and> opens k' = opens k"
    if "batch_loop (try_recv_any os) n out m c k = Some (r, out', c', k')"
    by (rule batch_loop_frame [where P = "\<lambda>k'. opens k' = opens k", OF _ refl that])
       (use try_recv_any_frame(1) [OF assms] in metis)
  show "ctx_frame c c' \<and> opens k' = opens k"
    if "batch_loop (try_recv_any_with_metadata os) n qout m c k = Some (r, qout', c', k')"
    by (rule batch_loop_frame [where P = "\<lambda>k'. opens k' = opens k", OF _ refl that])
       (use try_recv_any_frame(2) [OF assms] in metis)
qed

text \<open>Joining, leaving and every receive keep the frame and the open sockets.\<close>

lemma framed_step:
  assumes acc: "accounts os opens" and "ctx_step os op c k c' k'"
    and "\<forall>cfg s i. op \<noteq> OpAdd cfg \<and> op \<noteq> OpAddWithSocket cfg s \<and> op \<noteq> OpRemove i \<and> op \<noteq> OpTake i"
  shows "ctx_frame c c' \<and> opens k' = opens k"
  using assms(2)
proof cases
  case (step_join i r)
  then show ?thesis
    using keeps_run [OF keeps_join_multicast_group [OF acc]]
    by (auto simp: join_subscription_def frame_def same_identity_def dest!: mark_preserves(1)
        split: option.splits if_splits prod.splits sum.splits
        intro!: ctx_frame_trans [OF frame_update ctx_frame_records(6)])
next
  case (step_leave i r)
  then show ?thesis
    using keeps_run [OF keeps_leave_multicast_group [OF acc]]
    by (auto simp: leave_subscription_def frame_def same_identity_def dest!: mark_preserves(2)
        split: option.splits if_splits prod.splits sum.splits
        intro!: ctx_frame_trans [OF frame_update ctx_frame_records(7)])
next
  case (step_mark_joined i s s')
  then show ?thesis using mark_preserves(1) [of s s'] frame_update
    by (auto simp: frame_def same_identity_def)
next
  case (step_mark_bound i s s')
  then show ?thesis using mark_preserves(2) [of s s'] frame_update
    by (auto simp: frame_def same_identity_def)
next
  case (step_try_recv i s r s')
  then show ?thesis
    using keeps_try_recv [OF acc, of s k] frame_try_recv(1) [of os s k] frame_update by simp
qed (use assms(3) try_recv_any_frame [OF acc] batch_frame [OF acc]
       ctx_frame_trans [OF ctx_frame_records(4)] in
      \<open>fastforce simp: try_recv_batch_into_def try_recv_batch_into_impl_def
        try_recv_batch_with_metadata_into_def try_recv_batch_with_metadata_into_impl_def
        try_recv_all_into_def try_recv_all_with_metadata_into_def\<close>)+

section \<open>Adding and removing keep the invariant\<close>

lemma ctx_inv_insert:
  assumes "ctx_inv c" and "unat (ctx_next_subscription_id c) < 2 ^ 64 - 1"
    and "insert_subscription c (cfg, rs) = (i, c')"
    and "ensure_subscription_config_is_unique c cfg = Inr ()"
    and "rs_socket rs \<notin> owned c" and "good_subscription (with_socket i cfg rs)"
  shows "ctx_inv c' \<and> owned c' = insert (rs_socket rs) (owned c)"
proof -
  have c': "ctx_subscriptions c' = ctx_subscriptions c @ [with_socket i cfg rs]"
    "cm_subscriptions_added (ctx_metrics c') = cm_subscriptions_added (ctx_metrics c) + 1"
    "cm_subscriptions_removed (ctx_metrics c') = cm_subscriptions_removed (ctx_metrics c)"
    using assms(3) by (auto simp: insert_subscription_def Let_def from_receive_socket_def)
  have ok: "table_ok sub_id (ctx_subscriptions c') (ctx_next_subscription_id c') (ctx_next_recv_index c')"
    using ctx_table.ok_push [OF _ assms(3) assms(2)] assms(1) by (simp add: ctx_table.ok_def ctx_inv_def)
  have sock: "into_socket (with_socket i cfg rs) = rs_socket rs"
    by (simp add: into_socket_def with_socket_def)
  have cfg: "sub_config (with_socket i cfg rs) = cfg" by (simp add: with_socket_def)
  have "cfg \<notin> sub_config ` set (ctx_subscriptions c)"
    using assms(4) by (auto simp: ensure_subscription_config_is_unique_def split: if_splits)
  then show ?thesis
    using assms(1,5,6) ok c' sock cfg by (auto simp: ctx_inv_def owned_def)
qed

lemma ctx_inv_take:
  assumes "ctx_inv c" and "take_subscription c i = (r, c')"
  shows "ctx_inv c' \<and> r = get_subscription c i \<and>
     (case r of None \<Rightarrow> c' = c
      | Some s \<Rightarrow> into_socket s \<in> owned c \<and> owned c' = owned c - {into_socket s})"
proof -
  have ok: "ctx_table.ok c" using assms(1) by (simp add: ctx_table.ok_def ctx_inv_def)
  have look: "ctx_table.lookup c i = get_subscription c i"
    by (simp add: ctx_table.lookup_def get_subscription_def)
  show ?thesis using assms(2)
  proof (cases rule: ctx_table.take_out_cases)
    case absent
    then show ?thesis using assms(1) look by simp
  next
    case (present n)
    have d: "distinct (map into_socket (ctx_subscriptions c))"
      "distinct (map sub_config (ctx_subscriptions c))" "distinct (map sub_id (ctx_subscriptions c))"
      using assms(1) by (auto simp: ctx_inv_def table_ok_def)
    have sub: "set (ctx_subscriptions c') \<subseteq> set (ctx_subscriptions c)"
      using set_swap_remove [OF d(3) present(1)] present(5) by auto
    have len: "length (ctx_subscriptions c) = Suc (length (ctx_subscriptions c'))"
      using present(1,5) by simp
    have m: "cm_subscriptions_added (ctx_metrics c') = cm_subscriptions_added (ctx_metrics c)"
      "cm_subscriptions_removed (ctx_metrics c') = cm_subscriptions_removed (ctx_metrics c) + 1"
      using assms(2) present(3)
      by (auto simp: take_subscription_def finish_subscription_removal_def Let_def
          split: option.splits)
    have own: "owned c' = owned c - {into_socket (ctx_subscriptions c ! n)}"
      using set_swap_remove [OF d(1) present(1)] present(5) by (auto simp: owned_def)
    have count: "cm_subscriptions_added (ctx_metrics c') =
        cm_subscriptions_removed (ctx_metrics c') + of_nat (length (ctx_subscriptions c'))"
      using assms(1) m unfolding ctx_inv_def len by simp
    have dist: "distinct (map into_socket (ctx_subscriptions c'))"
      "distinct (map sub_config (ctx_subscriptions c'))"
      using distinct_swap_remove [OF d(1) present(1)] distinct_swap_remove [OF d(2) present(1)] present(5)
      by simp_all
    have "\<forall>s \<in> set (ctx_subscriptions c'). good_subscription s"
      using assms(1) sub unfolding ctx_inv_def by blast
    then have "ctx_inv c'"
      using ctx_table.ok_take_out [OF ok assms(2)] count dist
      unfolding ctx_inv_def ctx_table.ok_def by blast
    then show ?thesis using present own look by (auto simp: owned_def)
  qed
qed

text \<open>Who owns which open socket after a step, and that the invariant is kept.\<close>

definition hands_over :: "ctx_op \<Rightarrow> mcrx_context \<Rightarrow> socket set \<Rightarrow> socket set" where
  "hands_over op c outside =
     (case op of
        OpAddWithSocket _ s \<Rightarrow> outside - {s}
      | OpTake i \<Rightarrow>
          (case get_subscription c i of Some s \<Rightarrow> insert (into_socket s) outside | None \<Rightarrow> outside)
      | _ \<Rightarrow> outside)"

definition step_ok :: "('k \<Rightarrow> socket set) \<Rightarrow> ctx_op \<Rightarrow> mcrx_context \<Rightarrow> 'k \<Rightarrow> mcrx_context \<Rightarrow> 'k \<Rightarrow> bool" where
  "step_ok opens op c k c' k' \<longleftrightarrow>
     ctx_inv c' \<and> owned c' \<subseteq> opens k' \<and>
     opens k' - owned c' = hands_over op c (opens k - owned c)"

lemma step_ok_add:
  assumes acc: "accounts os opens" and inv: "ctx_inv c" "owned c \<subseteq> opens k"
    and n: "unat (ctx_next_subscription_id c) < 2 ^ 64 - 1"
    and step: "add_subscription os c cfg k = (r, c', k')"
  shows "step_ok opens (OpAdd cfg) c k c' k'"
proof (cases r)
  case (Inl e)
  then have "c' = c \<and> opens k' = opens k"
    using step open_bound_socket_ownership(1) [OF acc]
    by (auto simp: add_subscription_def io_eqs split: prod.splits sum.splits)
  then show ?thesis using inv by (simp add: step_ok_def hands_over_def)
next
  case (Inr i)
  then obtain rs where v: "validate cfg = Inr ()" "ensure_subscription_config_is_unique c cfg = Inr ()"
    and o: "open_bound_socket os cfg k = (Inr rs, k')" and ins: "insert_subscription c (cfg, rs) = (i, c')"
    using step by (auto simp: add_subscription_def io_eqs split: prod.splits sum.splits)
  from o obtain s k1 where p: "prepare_existing_socket os s cfg k1 = (Inr rs, k')"
    unfolding open_bound_socket_def by (auto simp: io_eqs)
  have fresh: "rs_socket rs \<notin> opens k \<and> opens k' = insert (rs_socket rs) (opens k)"
    using open_bound_socket_ownership(2) [OF acc o] .
  have "good_subscription (with_socket i cfg rs)"
    using prepare_existing_socket_Inr [OF p]
    by (auto simp: good_subscription_def with_socket_def ensure_ready_def)
  then have "ctx_inv c' \<and> owned c' = insert (rs_socket rs) (owned c)"
    using fresh inv v n by (intro ctx_inv_insert [OF inv(1) n ins]) auto
  then show ?thesis using fresh inv by (auto simp: step_ok_def hands_over_def)
qed

lemma step_ok_add_with_socket:
  assumes acc: "accounts os opens" and inv: "ctx_inv c" "owned c \<subseteq> opens k"
    and n: "unat (ctx_next_subscription_id c) < 2 ^ 64 - 1"
    and s: "s \<in> opens k" "s \<notin> owned c"
    and step: "add_subscription_with_socket os c cfg s k = (r, c', k')"
  shows "step_ok opens (OpAddWithSocket cfg s) c k c' k'"
proof -
  let ?checks = "owning os s (io_bind (io_lift (validate cfg)) (\<lambda>_.
               io_lift (ensure_subscription_config_is_unique c cfg)))"
  have t: "takes opens s (io_bind ?checks (\<lambda>_. prepare_existing_socket os s cfg))"
    by (intro takes_bind takes_owning takes_prepare_existing_socket keeps_intros acc)
  show ?thesis
  proof (cases r)
    case (Inl e)
    then have "c' = c \<and> io_bind ?checks (\<lambda>_. prepare_existing_socket os s cfg) k = (Inl e, k')"
      using step by (auto simp: add_subscription_with_socket_def split: prod.splits sum.splits)
    then have "c' = c \<and> opens k' = opens k - {s}" using t unfolding takes_def by blast
    then show ?thesis using inv s by (auto simp: step_ok_def hands_over_def)
  next
    case (Inr i)
    then obtain rs where m: "io_bind ?checks (\<lambda>_. prepare_existing_socket os s cfg) k = (Inr rs, k')"
      and ins: "insert_subscription c (cfg, rs) = (i, c')"
      using step by (auto simp: add_subscription_with_socket_def split: prod.splits sum.splits)
    then obtain k1 where v: "ensure_subscription_config_is_unique c cfg = Inr ()"
      and p: "prepare_existing_socket os s cfg k1 = (Inr rs, k')"
      by (auto simp: io_eqs owning_eq_Inr)
    have o: "opens k' = opens k" using t m unfolding takes_def by blast
    have good: "good_subscription (with_socket i cfg rs)" "rs_socket rs = s"
      using prepare_existing_socket_Inr [OF p]
      by (auto simp: good_subscription_def with_socket_def ensure_ready_def)
    then have "ctx_inv c' \<and> owned c' = insert s (owned c)"
      using ctx_inv_insert [OF inv(1) n ins v] s by simp
    then show ?thesis using o inv s by (auto simp: step_ok_def hands_over_def)
  qed
qed

lemma step_ok_any:
  assumes acc: "accounts os opens" and inv: "ctx_inv c" "owned c \<subseteq> opens k"
    and n: "unat (ctx_next_subscription_id c) < 2 ^ 64 - 1"
    and step: "ctx_step os op c k c' k'"
    and s: "case op of OpAddWithSocket _ s \<Rightarrow> s \<in> opens k \<and> s \<notin> owned c | _ \<Rightarrow> True"
  shows "step_ok opens op c k c' k'"
  using step
proof cases
  case (step_add cfg r)
  then show ?thesis using step_ok_add [OF acc inv n] by simp
next
  case (step_add_with_socket cfg s' r)
  then show ?thesis using step_ok_add_with_socket [OF acc inv n] s by simp
next
  case (step_remove i b)
  obtain r c1 where t: "take_subscription c i = (r, c1)" by fastforce
  with step_remove have c1: "c1 = c'" "k' = (case r of Some x \<Rightarrow> os_close os (into_socket x) k | None \<Rightarrow> k)"
    by (auto simp: remove_subscription_def split: option.splits)
  show ?thesis
    using ctx_inv_take [OF inv(1) t] inv(2) c1 step_remove(1)
    by (auto simp: step_ok_def hands_over_def accounts_close [OF acc] split: option.splits)
next
  case (step_take i r)
  show ?thesis
    using ctx_inv_take [OF inv(1) step_take(3)] inv(2) step_take(1,2)
    by (auto simp: step_ok_def hands_over_def split: option.splits)
qed (use framed_step [OF acc step] ctx_frame_inv [OF inv(1)] ctx_frame_owned inv in
      \<open>auto simp: step_ok_def hands_over_def\<close>)

lemma step_next_id:
  assumes acc: "accounts os opens" and "ctx_inv c" and "ctx_step os op c k c' k'"
  shows "ctx_next_subscription_id c' \<in> {ctx_next_subscription_id c, ctx_next_subscription_id c + 1}"
  using assms(3)
proof cases
  case (step_add cfg r)
  then show ?thesis
    by (auto simp: add_subscription_def insert_subscription_def Let_def
        split: prod.splits sum.splits)
next
  case (step_add_with_socket cfg s' r)
  then show ?thesis
    by (auto simp: add_subscription_with_socket_def insert_subscription_def Let_def
        split: prod.splits sum.splits)
qed (use framed_step [OF acc assms(3)] in
      \<open>auto simp: ctx_frame_def remove_subscription_def take_subscription_def
        finish_subscription_removal_def Let_def split: option.splits\<close>)

lemma ctx_reach_inv:
  assumes acc: "accounts os opens" and "ctx_reach os opens n c k" and "n < 2 ^ 64 - 1"
  shows "ctx_inv c \<and> owned c \<subseteq> opens k \<and> unat (ctx_next_subscription_id c) \<le> Suc n"
  using assms(2,3)
proof induction
  case (reach_new k)
  then show ?case
    by (simp add: ctx_inv_def owned_def context_new_def context_metrics_default_def table_ok_def)
next
  case (reach_world n c k k')
  then show ?case by simp
next
  case (reach_step n c k op c' k')
  then have ih: "ctx_inv c" "owned c \<subseteq> opens k" and b: "unat (ctx_next_subscription_id c) \<le> Suc n"
    by auto
  have lt: "unat (ctx_next_subscription_id c) < 2 ^ 64 - 1"
    using b reach_step.prems by linarith
  have "step_ok opens op c k c' k'"
    using step_ok_any [OF acc ih lt reach_step.hyps(2,3)] .
  moreover have "unat (ctx_next_subscription_id c') \<le> Suc (Suc n)"
    using step_next_id [OF acc ih(1) reach_step.hyps(2)] unat_Suc_u64 [OF lt] b by auto
  ultimately show ?case by (simp add: step_ok_def)
qed

section \<open>Batches\<close>

lemma batch_loop_total:
  assumes "\<And>c k. P c \<Longrightarrow> \<exists>r c' k'. recv_any c k = Some (r, c', k') \<and> P c'" and "P c"
  shows "\<exists>r out' c' k'. batch_loop recv_any n out received c k = Some (r, out', c', k')"
  using assms(2)
proof (induction n arbitrary: out received c k)
  case (Suc n)
  obtain r c' k' where r: "recv_any c k = Some (r, c', k')" "P c'" using assms(1) [OF Suc.prems] by blast
  consider (err) e where "r = Inl e" | (none) "r = Inr None" | (some) p where "r = Inr (Some p)"
    by (metis not_None_eq sum.exhaust)
  then show ?case using r Suc.IH [OF r(2)] by cases auto
qed simp

text \<open>
  What a batch adds to \<open>out\<close>, with the packets the context counted in total and as batch packets.
\<close>

lemma batch_loop_spec:
  assumes total: "\<And>c k r c' k'. recv_any c k = Some (r, c', k') \<Longrightarrow>
      cm_total_packets_received (ctx_metrics c') =
        cm_total_packets_received (ctx_metrics c) + of_nat (length (delivered r)) \<and>
      cm_batch_packets_received (ctx_metrics c') = cm_batch_packets_received (ctx_metrics c)"
    and "batch_loop recv_any n out m c k = Some (r, out', c', k')"
  shows "\<exists>ps. out' = out @ ps \<and> length ps \<le> n \<and>
     cm_total_packets_received (ctx_metrics c') =
       cm_total_packets_received (ctx_metrics c) + of_nat (length ps) \<and>
     (case r of
        Inr received \<Rightarrow> received = m + length ps \<and>
          cm_batch_packets_received (ctx_metrics c') =
            cm_batch_packets_received (ctx_metrics c) + of_nat received
      | Inl e \<Rightarrow> cm_batch_packets_received (ctx_metrics c') = cm_batch_packets_received (ctx_metrics c))"
  using assms(2)
proof (induction n arbitrary: out m c k)
  case 0
  then show ?case by (auto simp: ctx_record_batch_packets_received_def)
next
  case (Suc n)
  obtain x c1 k1 where x: "recv_any c k = Some (x, c1, k1)"
    using Suc.prems by (cases "recv_any c k") auto
  note t = total [OF x]
  consider (err) e where "x = Inl e" | (none) "x = Inr None" | (some) p where "x = Inr (Some p)"
    by (metis not_None_eq sum.exhaust)
  then show ?case
  proof cases
    case err
    then show ?thesis using Suc.prems x t by (auto simp: delivered_def)
  next
    case none
    then show ?thesis using Suc.prems x t
      by (auto simp: delivered_def ctx_record_batch_packets_received_def)
  next
    case some
    then have "batch_loop recv_any n (out @ [p]) (m + 1) c1 k1 = Some (r, out', c', k')"
      using Suc.prems x by simp
    from Suc.IH [OF this] obtain ps where "out' = (out @ [p]) @ ps" "length ps \<le> n" and
      "cm_total_packets_received (ctx_metrics c') =
         cm_total_packets_received (ctx_metrics c1) + of_nat (length ps)" and
      "case r of
        Inr received \<Rightarrow> received = m + 1 + length ps \<and>
          cm_batch_packets_received (ctx_metrics c') =
            cm_batch_packets_received (ctx_metrics c1) + of_nat received
      | Inl e \<Rightarrow> cm_batch_packets_received (ctx_metrics c') = cm_batch_packets_received (ctx_metrics c1)"
      by blast
    then show ?thesis using t some
      by (intro exI [of _ "p # ps"]) (auto simp: delivered_def split: sum.splits)
  qed
qed

lemma scan_joined_counts:
  assumes "scan_joined recv packet_len count n index c k = Some (r, c', k')"
  shows "cm_total_packets_received (ctx_metrics c') =
        cm_total_packets_received (ctx_metrics c) + of_nat (length (delivered r)) \<and>
      cm_batch_packets_received (ctx_metrics c') = cm_batch_packets_received (ctx_metrics c)"
  using assms
proof (induction n arbitrary: index c k)
  case (Suc n)
  have lt: "index < length (ctx_subscriptions c)" using Suc.prems by (auto split: if_splits)
  show ?case
  proof (cases "is_joined (ctx_subscriptions c ! index)")
    case False
    then show ?thesis using Suc.IH Suc.prems lt by (simp add: Let_def)
  next
    case True
    obtain x s' k1 where x: "recv (ctx_subscriptions c ! index) k = (x, s', k1)" by (metis prod_cases3)
    consider (err) e where "x = Inl e" | (none) "x = Inr None" | (some) p where "x = Inr (Some p)"
      by (metis not_None_eq sum.exhaust)
    then show ?thesis
    proof cases
      case err
      then show ?thesis using Suc.prems lt True x
        by (auto simp: delivered_def ctx_record_receive_error_def)
    next
      case none
      then have "scan_joined recv packet_len count n (if index + 1 = count then 0 else index + 1)
          (ctx_record_would_block (c\<lparr>ctx_subscriptions := (ctx_subscriptions c)[index := s']\<rparr>)) k1 =
          Some (r, c', k')"
        using Suc.prems lt True x by (simp add: Let_def)
      from Suc.IH [OF this] show ?thesis by (simp add: ctx_record_would_block_def)
    next
      case some
      then show ?thesis using Suc.prems lt True x
        by (auto simp: delivered_def ctx_record_received_packet_def)
    qed
  qed
qed (auto simp: delivered_def)

lemma try_recv_from_joined_counts:
  "try_recv_from_joined recv packet_len c k = Some (r, c', k') \<Longrightarrow>
      cm_total_packets_received (ctx_metrics c') =
        cm_total_packets_received (ctx_metrics c) + of_nat (length (delivered r)) \<and>
      cm_batch_packets_received (ctx_metrics c') = cm_batch_packets_received (ctx_metrics c)"
  using scan_joined_counts
  by (fastforce simp: try_recv_from_joined_def Let_def delivered_def split: if_splits)

lemma get_subscription_id: "get_subscription c i = Some s \<Longrightarrow> sub_id s = i"
  by (auto simp: get_subscription_def find_Some_iff)

lemma set_subscription_lookup:
  assumes "get_subscription c i = Some s" and "sub_id s' = i"
  shows "get_subscription (set_subscription i s' c) i = Some s' \<and>
     (\<forall>j. j = i \<or> get_subscription (set_subscription i s' c) j = get_subscription c j)"
proof -
  have "find (\<lambda>x. sub_id x = i) (update_first (\<lambda>x. sub_id x = i) (\<lambda>_. s') xs) = Some s' \<and>
     (\<forall>j. j = i \<or> find (\<lambda>x. sub_id x = j) (update_first (\<lambda>x. sub_id x = i) (\<lambda>_. s') xs) =
        find (\<lambda>x. sub_id x = j) xs)" if "find (\<lambda>x. sub_id x = i) xs = Some s" for xs
    using that assms(2) by (induction xs) (auto split: if_splits)
  then show ?thesis using assms(1) by (simp add: get_subscription_def set_subscription_def)
qed

lemma mark_total:
  "\<not> is_joined s \<Longrightarrow> \<exists>s'. mark_joined s = Inr s' \<and> same_identity s s' \<and> is_joined s'"
  "is_joined s \<Longrightarrow> \<exists>s'. mark_bound s = Inr s' \<and> same_identity s s' \<and> \<not> is_joined s'"
  by (cases "sub_state s"; simp add: mark_joined_def mark_bound_def is_joined_def same_identity_def)+

section \<open>Properties\<close>

text \<open>
  C7. In every state a context can reach in fewer than \<open>2 ^ 64 - 1\<close> operations, the
  subscriptions have distinct identifiers (all below the next one), distinct configurations and
  distinct sockets; each socket is open and ready; each configuration is valid; and the receive
  cursor is an index of the table.
\<close>

theorem context_invariant:
  assumes "accounts os opens" and "ctx_reach os opens n c k" and "n < 2 ^ 64 - 1"
  shows "distinct (map sub_id (ctx_subscriptions c)) \<and>
     distinct (map sub_config (ctx_subscriptions c)) \<and>
     distinct (map into_socket (ctx_subscriptions c)) \<and>
     (\<forall>s \<in> set (ctx_subscriptions c).
        unat (sid (sub_id s)) < unat (ctx_next_subscription_id c) \<and>
        validate (sub_config s) = Inr () \<and> ensure_ready (sub_socket s) = Inr () \<and>
        into_socket s \<in> opens k) \<and>
     (if ctx_subscriptions c = [] then ctx_next_recv_index c = 0
      else ctx_next_recv_index c < subscription_count c)"
  using ctx_reach_inv [OF assms]
  by (auto simp: ctx_inv_def table_ok_def good_subscription_def owned_def subscription_count_def)

definition demo_added :: "(mcrx_error + subscription_id) \<times> mcrx_context \<times> sim" where
  "demo_added = add_subscription (sim_os Linux) context_new demo_config sim_init"

definition demo_context :: mcrx_context where
  "demo_context = fst (snd demo_added)"

definition demo_kernel :: sim where
  "demo_kernel = snd (snd demo_added)"

lemma demo_reach: "ctx_reach (sim_os Linux) sim_sockets 1 demo_context demo_kernel"
proof -
  have "ctx_step (sim_os Linux) (OpAdd demo_config) context_new sim_init demo_context demo_kernel"
    by (rule step_add [where r = "fst demo_added"])
       (simp add: demo_context_def demo_kernel_def flip: demo_added_def)
  from reach_step [OF reach_new this] show ?thesis by simp
qed

lemma demo_added_eq:
  "demo_added = (Inr (SubscriptionId 1),
     context_new\<lparr>ctx_next_subscription_id := 2,
       ctx_subscriptions := [with_socket (SubscriptionId 1) demo_config demo_receive_socket],
       ctx_metrics := context_metrics_default\<lparr>cm_subscriptions_added := 1\<rparr>\<rparr>,
     snd (open_bound_socket (sim_os Linux) demo_config sim_init))"
proof -
  have "validate demo_config = Inr ()" by code_simp
  then show ?thesis
    using demo_open
    by (cases "open_bound_socket (sim_os Linux) demo_config sim_init")
       (simp add: demo_added_def add_subscription_def res_simps context_new_def
        ensure_subscription_config_is_unique_def insert_subscription_def from_receive_socket_def
        context_metrics_default_def Let_def)
qed

lemma demo_context_ids: "map sub_id (ctx_subscriptions demo_context) = [SubscriptionId 1]"
  by (simp add: demo_context_def demo_added_eq with_socket_def)

theorem context_invariant_witness:
  "ctx_reach (sim_os Linux) sim_sockets 1 demo_context demo_kernel \<and>
   map sub_id (ctx_subscriptions demo_context) = [SubscriptionId 1] \<and>
   ctx_next_recv_index demo_context < subscription_count demo_context"
proof -
  have "ctx_subscriptions demo_context \<noteq> []" using demo_context_ids by auto
  then show ?thesis
    using context_invariant [OF sim_accounts demo_reach] demo_reach demo_context_ids by simp
qed

text \<open>
  C4. The context owns what it opens and nothing else: across every operation, the open sockets
  outside the context stay the same, except that adding with a caller's socket takes exactly that
  socket (and closes it when the call fails) and taking a subscription out gives its socket back.
  In particular a failed or successful add, a removal, a join, a leave and every receive neither
  leak a socket nor close a foreign one.
\<close>

theorem context_never_leaks:
  assumes "accounts os opens" and "ctx_reach os opens n c k" and "Suc n < 2 ^ 64 - 1"
    and "ctx_step os op c k c' k'"
    and "case op of OpAddWithSocket _ s \<Rightarrow> s \<in> opens k \<and> s \<notin> owned c | _ \<Rightarrow> True"
  shows "owned c' \<subseteq> opens k' \<and> opens k' - owned c' = hands_over op c (opens k - owned c)"
proof -
  have inv: "ctx_inv c" "owned c \<subseteq> opens k" and "unat (ctx_next_subscription_id c) \<le> Suc n"
    using ctx_reach_inv [OF assms(1,2)] assms(3) by auto
  then have "unat (ctx_next_subscription_id c) < 2 ^ 64 - 1" using assms(3) by linarith
  from step_ok_any [OF assms(1) inv this assms(4,5)] show ?thesis by (simp add: step_ok_def)
qed

theorem context_never_leaks_witness:
  "\<exists>c k. ctx_step (sim_os Linux) (OpRemove (SubscriptionId 1)) demo_context demo_kernel c k \<and>
     sim_sockets k - owned c = sim_sockets demo_kernel - owned demo_context"
proof -
  obtain b c k where "remove_subscription (sim_os Linux) demo_context (SubscriptionId 1) demo_kernel = (b, c, k)"
    by (metis prod_cases3)
  then have step: "ctx_step (sim_os Linux) (OpRemove (SubscriptionId 1)) demo_context demo_kernel c k"
    by (rule step_remove)
  from context_never_leaks [OF sim_accounts demo_reach _ this] step show ?thesis
    by (auto simp: hands_over_def)
qed

text \<open>
  No receive operation of a reachable context panics on an index or runs forever: every
  single receive, batch and drain returns a result.
\<close>

theorem context_receives_return:
  assumes "accounts os opens" and "ctx_reach os opens n c k" and "n < 2 ^ 64 - 1"
  shows "try_recv_any os c k' \<noteq> None \<and> try_recv_any_with_metadata os c k' \<noteq> None \<and>
     try_recv_batch_into os out m c k' \<noteq> None \<and>
     try_recv_batch_with_metadata_into os qout m c k' \<noteq> None \<and>
     try_recv_all_into os out c k' \<noteq> None \<and> try_recv_all_with_metadata_into os qout c k' \<noteq> None"
proof -
  have ok: "ctx_any.cursor_ok c" "ctx_any.cursor_ok (ctx_record_batch_call c)"
    using ctx_reach_inv [OF assms] by (auto simp: ctx_inv_def table_ok_def ctx_any.cursor_ok_def)
  have "\<exists>r c' k'. try_recv_any os c k = Some (r, c', k') \<and> ctx_any.cursor_ok c'"
    if "ctx_any.cursor_ok c" for c k using ctx_any.try_any_total [OF that, of os k] by blast
  moreover have "\<exists>r c' k'. try_recv_any_with_metadata os c k = Some (r, c', k') \<and> ctx_any.cursor_ok c'"
    if "ctx_any.cursor_ok c" for c k using ctx_any_metadata.try_any_total [OF that, of os k] by blast
  ultimately show ?thesis
    using ok batch_loop_total [where P = ctx_any.cursor_ok and recv_any = "try_recv_any os"]
      batch_loop_total [where P = ctx_any.cursor_ok and recv_any = "try_recv_any_with_metadata os"]
    unfolding try_recv_batch_into_def try_recv_batch_with_metadata_into_def try_recv_all_into_def
      try_recv_all_with_metadata_into_def try_recv_batch_into_impl_def
      try_recv_batch_with_metadata_into_impl_def
    by (metis option.discI)
qed

theorem context_receives_return_witness:
  "ctx_reach (sim_os Linux) sim_sockets 1 demo_context demo_kernel \<and>
   try_recv_all_into (sim_os Linux) [] demo_context demo_kernel \<noteq> None"
  using context_receives_return [OF sim_accounts demo_reach] demo_reach by simp

text \<open>
  The receive of a context implements the round-robin specification: it visits the positions
  in cyclic order from the cursor, skips those not joined, and the first visit that yields a
  packet or an error decides; only a delivery moves the cursor, to the position behind it.
\<close>

theorem try_recv_any_is_round_robin:
  assumes "ctx_next_recv_index c < length (ctx_subscriptions c)"
    and "rr_scan is_joined (try_recv os) (ctx_next_recv_index c) (ctx_subscriptions c) k = (r, ss, k')"
  shows "\<exists>c'. try_recv_any os c k = Some (map_sum id (map_option snd) r, c', k') \<and>
     ctx_subscriptions c' = ss \<and>
     ctx_next_recv_index c' =
       (case r of Inr (Some (i, _)) \<Rightarrow> (i + 1) mod length (ctx_subscriptions c)
        | _ \<Rightarrow> ctx_next_recv_index c)"
  using ctx_any.scans [OF assms] .

theorem try_recv_any_is_round_robin_witness:
  "ctx_next_recv_index demo_context < length (ctx_subscriptions demo_context) \<and>
   (\<exists>r c' k'. try_recv_any (sim_os Linux) demo_context demo_kernel = Some (r, c', k'))"
proof -
  have ne: "ctx_subscriptions demo_context \<noteq> []" using demo_context_ids by auto
  then have "ctx_next_recv_index demo_context < length (ctx_subscriptions demo_context)"
    using ctx_reach_inv [OF sim_accounts demo_reach] by (simp add: ctx_inv_def table_ok_def)
  moreover obtain r ss k' where "rr_scan is_joined (try_recv (sim_os Linux))
      (ctx_next_recv_index demo_context) (ctx_subscriptions demo_context) demo_kernel = (r, ss, k')"
    by (metis prod_cases3)
  ultimately show ?thesis using try_recv_any_is_round_robin [of demo_context "sim_os Linux"] by blast
qed

text \<open>
  C10. The receive is fair. Suppose that, while the kernel stays in some set \<open>Q\<close> of states, no
  joined subscription of the context fails to receive and the joined subscription \<open>s\<close> always has
  a packet. Then \<open>s\<close> delivers within as many calls as there are subscriptions, wherever the cursor
  stands.
\<close>

theorem context_receive_is_fair:
  assumes "\<And>x k e. Q k \<Longrightarrow> frame x \<in> frame ` set (ctx_subscriptions c) \<Longrightarrow> is_joined x \<Longrightarrow>
      fst (try_recv os x k) \<noteq> Inl e"
    and "\<And>x k. Q k \<Longrightarrow> frame x = frame s \<Longrightarrow> is_joined x \<Longrightarrow> fst (try_recv os x k) \<noteq> Inr None"
    and "\<And>x k. Q k \<Longrightarrow> Q (snd (snd (try_recv os x k)))"
    and "ctx_next_recv_index c < length (ctx_subscriptions c)"
    and "s \<in> set (ctx_subscriptions c)" and "is_joined s" and "Q k"
  shows "served_within (try_recv_any os) pkt_subscription_id (length (ctx_subscriptions c)) (sub_id s) c k"
proof -
  have "ctx_any.cursor_ok c" using assms(4) by (auto simp: ctx_any.cursor_ok_def)
  then have "served_within (try_recv_any os) pkt_subscription_id (length (ctx_subscriptions c))
      (fst (frame s)) c k"
    by (intro ctx_any.fairness [where Q = Q and i = "frame s"]) (use assms in auto)
  then show ?thesis by (simp add: frame_def)
qed

text \<open>A kernel in which every read yields the same datagram for the demo group.\<close>

definition flood_os :: "sim os" where
  "flood_os = (sim_os Linux)\<lparr>os_recvmsg := (\<lambda>s n c k.
     (Inr (pktinfo_msg (SocketAddrV4 (Quad 10 0 0 1) 700) demo_group 2 [7, 8]), k))\<rparr>"

definition demo_pair :: mcrx_context where
  "demo_pair = context_new\<lparr>ctx_subscriptions :=
     [demo_joined, demo_joined\<lparr>sub_id := SubscriptionId 2\<rparr>]\<rparr>"

lemma flood_delivers:
  assumes "sub_config x = demo_config" and "sub_socket x = demo_receive_socket" and "is_joined x"
  shows "\<exists>p s' k'. try_recv flood_os x k = (Inr (Some p), s', k')"
  using assms
  by (simp add: try_recv_def recv_packet_def receive_unfold demo_defs filtered_loop.simps sim_simps
      pktinfo_msg_def flood_os_def into_packet_def split: prod.splits)

theorem context_receive_is_fair_witness:
  "served_within (try_recv_any flood_os) pkt_subscription_id 2 (SubscriptionId 2) demo_pair sim_init"
proof -
  let ?s = "demo_joined\<lparr>sub_id := SubscriptionId 2\<rparr>"
  have d: "sub_config demo_joined = demo_config" "sub_socket demo_joined = demo_receive_socket"
    "is_joined demo_joined"
    by (simp_all add: demo_joined_def with_socket_def is_joined_def)
  have "sub_config x = demo_config \<and> sub_socket x = demo_receive_socket"
    if "frame x \<in> frame ` set (ctx_subscriptions demo_pair) \<or> frame x = frame ?s" for x
    using that d by (auto simp: frame_def demo_pair_def)
  then have ready: "\<exists>p s' k'. try_recv flood_os x k = (Inr (Some p), s', k')"
    if "frame x \<in> frame ` set (ctx_subscriptions demo_pair) \<or> frame x = frame ?s" "is_joined x" for x k
    using flood_delivers that by blast
  have "served_within (try_recv_any flood_os) pkt_subscription_id
      (length (ctx_subscriptions demo_pair)) (sub_id ?s) demo_pair sim_init"
  proof (rule context_receive_is_fair [where Q = "\<lambda>_. True"])
    show "fst (try_recv flood_os x k) \<noteq> Inl e"
      if "frame x \<in> frame ` set (ctx_subscriptions demo_pair)" "is_joined x" for x k e
      using ready [of x k] that by auto
    show "fst (try_recv flood_os x k) \<noteq> Inr None" if "frame x = frame ?s" "is_joined x" for x k
      using ready [of x k] that by auto
  qed (use d in \<open>simp_all add: demo_pair_def context_new_def is_joined_def\<close>)
  then show ?thesis by (simp add: demo_pair_def numeral_2_eq_2 del: served_within.simps)
qed

text \<open>
  A failing subscription at the cursor blocks the others: while its receive fails, every call
  returns that error and leaves the cursor where it is, whatever the other subscriptions have to
  deliver.
\<close>

theorem failing_subscription_keeps_cursor:
  assumes "ctx_next_recv_index c < length (ctx_subscriptions c)"
    and "is_joined (ctx_subscriptions c ! ctx_next_recv_index c)"
    and "fst (try_recv os (ctx_subscriptions c ! ctx_next_recv_index c) k) = Inl e"
  shows "\<exists>c' k'. try_recv_any os c k = Some (Inl e, c', k') \<and>
     ctx_next_recv_index c' = ctx_next_recv_index c"
  using ctx_any.error_keeps_cursor [OF assms] .

text \<open>A joined subscription whose socket was not set up, in front of one that has a packet.\<close>

definition broken_socket :: receive_socket where
  "broken_socket = demo_receive_socket\<lparr>rs_setup_error := Some ''bad''\<rparr>"

definition demo_blocked :: mcrx_context where
  "demo_blocked = context_new\<lparr>ctx_subscriptions :=
     [demo_joined\<lparr>sub_socket := broken_socket\<rparr>, demo_joined\<lparr>sub_id := SubscriptionId 2\<rparr>]\<rparr>"

theorem failing_subscription_keeps_cursor_witness:
  "\<exists>c' k'. try_recv_any flood_os demo_blocked sim_init =
       Some (Inl (ReceiveSocketSetupFailed ''bad''), c', k') \<and>
     ctx_next_recv_index c' = ctx_next_recv_index demo_blocked"
  by (rule failing_subscription_keeps_cursor)
     (simp_all add: demo_blocked_def context_new_def demo_joined_def with_socket_def is_joined_def
       try_recv_def recv_packet_def recv_packet_with_metadata_def ensure_ready_def broken_socket_def
       res_simps)

text \<open>
  Adding and removing are a map update: a successful add stores the new subscription, bound,
  with the given configuration, under a fresh identifier, and a removal deletes exactly the
  identifier it is given; the lookup of every other identifier is unchanged.
\<close>

theorem add_remove_lookup:
  assumes "ctx_inv c"
  shows "(case add_subscription os c cfg k of
       (Inr i, c', k') \<Rightarrow>
         get_subscription c i = None \<and>
         (\<exists>s. get_subscription c' i = Some s \<and> sub_config s = cfg \<and> sub_state s = Bound) \<and>
         (\<forall>j. j = i \<or> get_subscription c' j = get_subscription c j)
     | (Inl e, c', k') \<Rightarrow> c' = c) \<and>
   (case remove_subscription os c i k of
       (b, c', k') \<Rightarrow>
         b = contains_subscription c i \<and> get_subscription c' i = None \<and>
         (\<forall>j. j = i \<or> get_subscription c' j = get_subscription c j))"
proof
  have ok: "ctx_table.ok c" using assms by (simp add: ctx_table.ok_def ctx_inv_def)
  have look: "get_subscription c = ctx_table.lookup c" for c
    by (simp add: ctx_table.lookup_def get_subscription_def fun_eq_iff)
  obtain r c1 k1 where add: "add_subscription os c cfg k = (r, c1, k1)" by (metis prod_cases3)
  show "case add_subscription os c cfg k of
       (Inr i, c', k') \<Rightarrow>
         get_subscription c i = None \<and>
         (\<exists>s. get_subscription c' i = Some s \<and> sub_config s = cfg \<and> sub_state s = Bound) \<and>
         (\<forall>j. j = i \<or> get_subscription c' j = get_subscription c j)
     | (Inl e, c', k') \<Rightarrow> c' = c"
  proof (cases r)
    case (Inl e)
    then show ?thesis using add by (auto simp: add_subscription_def split: prod.splits sum.splits)
  next
    case (Inr i)
    then obtain rs where ins: "insert_subscription c (cfg, rs) = (i, c1)"
      using add by (auto simp: add_subscription_def split: prod.splits sum.splits)
    from ctx_table.lookup_push [OF ok ins] show ?thesis
      using add Inr by (auto simp: look from_receive_socket_def with_socket_def)
  qed
  obtain r c2 where t: "take_subscription c i = (r, c2)" by fastforce
  have "contains_subscription c i \<longleftrightarrow> get_subscription c i \<noteq> None"
    by (auto simp: contains_subscription_def get_subscription_def find_None_iff)
  then show "case remove_subscription os c i k of
       (b, c', k') \<Rightarrow>
         b = contains_subscription c i \<and> get_subscription c' i = None \<and>
         (\<forall>j. j = i \<or> get_subscription c' j = get_subscription c j)"
    using ctx_table.lookup_take_out [OF ok t] t
    by (auto simp: remove_subscription_def look split: option.splits)
qed

lemma demo_context_inv: "ctx_inv demo_context"
  using ctx_reach_inv [OF sim_accounts demo_reach] by simp

theorem add_remove_lookup_witness:
  "ctx_inv demo_context \<and>
   (case remove_subscription (sim_os Linux) demo_context (SubscriptionId 1) demo_kernel of
      (b, c', k') \<Rightarrow> b = contains_subscription demo_context (SubscriptionId 1))"
  using add_remove_lookup [OF demo_context_inv, where i = "SubscriptionId 1" and os = "sim_os Linux"
      and k = demo_kernel] demo_context_inv by (auto split: prod.splits)

text \<open>The lifecycle update after a successful system call: total, and only of this subscription.\<close>

lemma lifecycle_records:
  "get_subscription (ctx_record_join c) = get_subscription c"
  "get_subscription (ctx_record_leave c) = get_subscription c"
  by (simp_all add: get_subscription_def fun_eq_iff)

lemma lifecycle_update:
  assumes "get_subscription c i = Some s" and "same_identity s s'"
  shows "ctx_frame c (set_subscription i s' c) \<and>
    ctx_frame c (ctx_record_join (set_subscription i s' c)) \<and>
    ctx_frame c (ctx_record_leave (set_subscription i s' c)) \<and>
    get_subscription (set_subscription i s' c) i = Some s' \<and>
    (\<forall>j. j = i \<or> get_subscription (set_subscription i s' c) j = get_subscription c j)"
proof -
  have f: "ctx_frame c (set_subscription i s' c)" and "sub_id s' = i"
    using frame_update [OF assms(1)] get_subscription_id [OF assms(1)] assms(2)
    by (simp_all add: frame_def same_identity_def)
  then show ?thesis
    using set_subscription_lookup [OF assms(1)] ctx_frame_trans [OF f ctx_frame_records(6)]
      ctx_frame_trans [OF f ctx_frame_records(7)] by blast
qed

lemma join_subscription_branches:
  assumes s: "get_subscription c i = Some s" "\<not> is_joined s"
  shows "case join_subscription os c i k of (r, c', k') \<Rightarrow>
    (r, k') = join_multicast_group os (into_socket s) (sub_config s) k \<and>
    (case r of
       Inl e \<Rightarrow> c' = c
     | Inr _ \<Rightarrow> ctx_frame c c' \<and> (\<exists>s'. get_subscription c' i = Some s' \<and> is_joined s') \<and>
         (\<forall>j. j = i \<or> get_subscription c' j = get_subscription c j))"
proof -
  obtain s' where s': "mark_joined s = Inr s'" "same_identity s s'" "is_joined s'"
    using mark_total(1) [OF s(2)] by blast
  then show ?thesis
    using s lifecycle_update [OF s(1) s'(2)]
    by (simp add: join_subscription_def into_socket_def lifecycle_records split: prod.splits sum.splits)
qed

lemma leave_subscription_branches:
  assumes s: "get_subscription c i = Some s" "is_joined s"
  shows "case leave_subscription os c i k of (r, c', k') \<Rightarrow>
    (r, k') = leave_multicast_group os (into_socket s) (sub_config s) k \<and>
    (case r of
       Inl e \<Rightarrow> c' = c
     | Inr _ \<Rightarrow> ctx_frame c c' \<and> (\<exists>s'. get_subscription c' i = Some s' \<and> \<not> is_joined s') \<and>
         (\<forall>j. j = i \<or> get_subscription c' j = get_subscription c j))"
proof -
  obtain s' where s': "mark_bound s = Inr s'" "same_identity s s'" "\<not> is_joined s'"
    using mark_total(2) [OF s(2)] by blast
  then show ?thesis
    using s lifecycle_update [OF s(1) s'(2)]
    by (simp add: leave_subscription_def into_socket_def lifecycle_records split: prod.splits sum.splits)
qed

text \<open>
  C21. Joining and leaving, on every branch: an unknown identifier, a subscription that is already
  joined (or not joined) and a failing system call are reported and leave the context unchanged;
  otherwise exactly the state of that subscription changes, and the lifecycle update after a
  successful system call cannot fail.
\<close>

theorem join_leave_lifecycle:
  "(case join_subscription os c i k of (r, c', k') \<Rightarrow>
      (case get_subscription c i of
         None \<Rightarrow> r = Inl SubscriptionNotFound \<and> c' = c \<and> k' = k
       | Some s \<Rightarrow>
           if is_joined s then r = Inl SubscriptionAlreadyJoined \<and> c' = c \<and> k' = k
           else (r, k') = join_multicast_group os (into_socket s) (sub_config s) k \<and>
             (case r of
                Inl e \<Rightarrow> c' = c
              | Inr _ \<Rightarrow> ctx_frame c c' \<and>
                  (\<exists>s'. get_subscription c' i = Some s' \<and> is_joined s') \<and>
                  (\<forall>j. j = i \<or> get_subscription c' j = get_subscription c j)))) \<and>
   (case leave_subscription os c i k of (r, c', k') \<Rightarrow>
      (case get_subscription c i of
         None \<Rightarrow> r = Inl SubscriptionNotFound \<and> c' = c \<and> k' = k
       | Some s \<Rightarrow>
           if \<not> is_joined s then r = Inl SubscriptionNotJoined \<and> c' = c \<and> k' = k
           else (r, k') = leave_multicast_group os (into_socket s) (sub_config s) k \<and>
             (case r of
                Inl e \<Rightarrow> c' = c
              | Inr _ \<Rightarrow> ctx_frame c c' \<and>
                  (\<exists>s'. get_subscription c' i = Some s' \<and> \<not> is_joined s') \<and>
                  (\<forall>j. j = i \<or> get_subscription c' j = get_subscription c j))))"
proof (cases "get_subscription c i")
  case None
  then show ?thesis by (simp add: join_subscription_def leave_subscription_def)
next
  case (Some s)
  then show ?thesis
    using join_subscription_branches [OF Some] leave_subscription_branches [OF Some]
    by (cases "is_joined s")
       (simp_all add: join_subscription_def [where c = c] leave_subscription_def [where c = c])
qed

text \<open>
  C23. A batch appends to \<open>out\<close> at most the number of packets asked for and keeps what was there.
  When it succeeds it returns that number and counts it as batch packets. When a receive fails on
  the way, the packets delivered before stay in \<open>out\<close> and in \<open>total_packets_received\<close>, but
  \<open>batch_packets_received\<close> does not count them.
\<close>

theorem batch_accounting:
  assumes "try_recv_batch_into os out n c k = Some (r, out', c', k')"
  shows "\<exists>ps. out' = out @ ps \<and> length ps \<le> n \<and>
     cm_total_packets_received (ctx_metrics c') =
       cm_total_packets_received (ctx_metrics c) + of_nat (length ps) \<and>
     (case r of
        Inr received \<Rightarrow> received = length ps \<and>
          cm_batch_packets_received (ctx_metrics c') =
            cm_batch_packets_received (ctx_metrics c) + of_nat received
      | Inl e \<Rightarrow> cm_batch_packets_received (ctx_metrics c') = cm_batch_packets_received (ctx_metrics c))"
proof -
  have "cm_total_packets_received (ctx_metrics (ctx_record_batch_call c)) =
      cm_total_packets_received (ctx_metrics c)"
    "cm_batch_packets_received (ctx_metrics (ctx_record_batch_call c)) =
      cm_batch_packets_received (ctx_metrics c)"
    by (simp_all add: ctx_record_batch_call_def)
  moreover have "cm_total_packets_received (ctx_metrics c') =
        cm_total_packets_received (ctx_metrics c) + of_nat (length (delivered r)) \<and>
      cm_batch_packets_received (ctx_metrics c') = cm_batch_packets_received (ctx_metrics c)"
    if "try_recv_any os c k = Some (r, c', k')" for c k r c' k'
    using that unfolding try_recv_any_def by (rule try_recv_from_joined_counts)
  from batch_loop_spec [of "try_recv_any os", OF this
      assms [unfolded try_recv_batch_into_def try_recv_batch_into_impl_def]]
  have "\<exists>ps. out' = out @ ps \<and> length ps \<le> n \<and>
     cm_total_packets_received (ctx_metrics c') =
       cm_total_packets_received (ctx_metrics (ctx_record_batch_call c)) + of_nat (length ps) \<and>
     (case r of
        Inr received \<Rightarrow> received = 0 + length ps \<and>
          cm_batch_packets_received (ctx_metrics c') =
            cm_batch_packets_received (ctx_metrics (ctx_record_batch_call c)) + of_nat received
      | Inl e \<Rightarrow> cm_batch_packets_received (ctx_metrics c') =
          cm_batch_packets_received (ctx_metrics (ctx_record_batch_call c)))" .
  ultimately show ?thesis by (simp cong: sum.case_cong)
qed

theorem batch_accounting_witness:
  "\<exists>r out' c' k'. try_recv_batch_into (sim_os Linux) [] 5 demo_context demo_kernel = Some (r, out', c', k') \<and>
     length out' \<le> 5"
proof -
  have "ctx_any.cursor_ok (ctx_record_batch_call demo_context)"
    using demo_context_inv by (auto simp: ctx_inv_def table_ok_def ctx_any.cursor_ok_def)
  then obtain r out' c' k' where
    b: "try_recv_batch_into (sim_os Linux) [] 5 demo_context demo_kernel = Some (r, out', c', k')"
    using batch_loop_total [where P = ctx_any.cursor_ok and recv_any = "try_recv_any (sim_os Linux)"]
      ctx_any.try_any_total [where os = "sim_os Linux"]
    unfolding try_recv_batch_into_def try_recv_batch_into_impl_def by metis
  from batch_accounting [OF this] b show ?thesis by auto
qed

end
