(* ===== verification/Datagram.thy ===== *)
theory Datagram
  imports Packet
begin

unbundle bit_operations_syntax

text \<open>
  The pure part of \<open>src/platform/raw.rs\<close>: parsing IP datagrams, stripping link-layer headers and
  VLAN tags, matching a datagram against a raw configuration, and walking the records of a BPF
  read buffer. Offsets and layouts of C structures are a parameter (\<open>bpf_abi\<close>).
\<close>

section \<open>Parsing IP datagrams\<close>

record parsed_ip_datagram =
  pi_source_ip :: ip_addr
  pi_destination_ip :: ip_addr
  pi_protocol :: u8
  pi_datagram_len :: usize

definition quad_at :: "bytes \<Rightarrow> nat \<Rightarrow> quad" where
  "quad_at bs i = Quad (bs ! i) (bs ! (i + 1)) (bs ! (i + 2)) (bs ! (i + 3))"

definition ipv6_at :: "bytes \<Rightarrow> nat \<Rightarrow> ipv6_addr" where
  "ipv6_at bs i = Ipv6Addr (quad_at bs i) (quad_at bs (i + 4)) (quad_at bs (i + 8)) (quad_at bs (i + 12))"

definition parse_ipv4_datagram :: "bytes \<Rightarrow> parsed_ip_datagram option" where
  "parse_ipv4_datagram datagram =
     (if length datagram < 20 then None
      else
        let ihl = unat (datagram ! 0 AND 0x0f) * 4 in
        if ihl < 20 \<or> length datagram < ihl then None
        else
          let datagram_len = unat (u16_from_be_bytes (datagram ! 2) (datagram ! 3)) in
          if datagram_len < ihl \<or> length datagram < datagram_len then None
          else Some
            \<lparr>pi_source_ip = V4 (quad_at datagram 12),
             pi_destination_ip = V4 (quad_at datagram 16),
             pi_protocol = datagram ! 9,
             pi_datagram_len = datagram_len\<rparr>)"

definition parse_ipv6_datagram :: "bytes \<Rightarrow> parsed_ip_datagram option" where
  "parse_ipv6_datagram datagram =
     (if length datagram < 40 then None
      else
        let payload_len = unat (u16_from_be_bytes (datagram ! 4) (datagram ! 5)) in
        if payload_len = 0 \<and> datagram ! 6 = 0 then None
        else
          let datagram_len = 40 + payload_len in
          if length datagram < datagram_len then None
          else Some
            \<lparr>pi_source_ip = V6 (ipv6_at datagram 8),
             pi_destination_ip = V6 (ipv6_at datagram 24),
             pi_protocol = datagram ! 6,
             pi_datagram_len = datagram_len\<rparr>)"

definition parse_ip_datagram :: "bytes \<Rightarrow> parsed_ip_datagram option" where
  "parse_ip_datagram datagram =
     (case datagram of
        [] \<Rightarrow> None
      | first # _ \<Rightarrow>
          (let version = drop_bit 4 first in
           if version = 4 then parse_ipv4_datagram datagram
           else if version = 6 then parse_ipv6_datagram datagram
           else None))"

section \<open>Matching a raw configuration\<close>

definition packet_matches_config :: "parsed_ip_datagram \<Rightarrow> raw_subscription_config \<Rightarrow> bool" where
  "packet_matches_config parsed cfg =
     (if \<not> (case (raw_family cfg, pi_destination_ip parsed) of
               (Ipv4, V4 _) \<Rightarrow> True | (Ipv6, V6 _) \<Rightarrow> True | _ \<Rightarrow> False) then False
      else if pi_destination_ip parsed \<noteq> rcfg_group cfg then False
      else (case rcfg_source cfg of
              Any \<Rightarrow> True
            | Source source \<Rightarrow> pi_source_ip parsed = source))"

definition raw_packet_from_parts ::
  "subscription_id \<Rightarrow> bytes \<Rightarrow> parsed_ip_datagram \<Rightarrow> receive_metadata \<Rightarrow> raw_packet" where
  "raw_packet_from_parts i datagram parsed md =
     \<lparr>rp_subscription_id = i, rp_datagram = take (pi_datagram_len parsed) datagram,
      rp_source_ip = Some (pi_source_ip parsed), rp_group = Some (pi_destination_ip parsed),
      rp_ip_protocol = Some (pi_protocol parsed), rp_metadata = md\<rparr>"

section \<open>Link layer\<close>

definition get_from :: "bytes \<Rightarrow> nat \<Rightarrow> bytes option" where
  "get_from bs i = (if i \<le> length bs then Some (drop i bs) else None)"

text \<open>The \<open>while\<close> loop over VLAN tags: the final ethertype and payload offset.\<close>

function vlan_walk :: "bytes \<Rightarrow> u16 \<Rightarrow> nat \<Rightarrow> (u16 \<times> nat) option" where
  "vlan_walk frame ethertype payload_offset =
     (if ethertype = 0x8100 \<or> ethertype = 0x88a8 \<or> ethertype = 0x9100
      then
        if length frame < payload_offset + 4 then None
        else vlan_walk frame
               (u16_from_be_bytes (frame ! (payload_offset + 2)) (frame ! (payload_offset + 3)))
               (payload_offset + 4)
      else Some (ethertype, payload_offset))"
  by pat_completeness auto
termination
  by (relation "measure (\<lambda>(frame, e, offset). length frame - offset)") auto

declare vlan_walk.simps [simp del]

definition strip_ethernet_link_layer :: "bytes \<Rightarrow> bytes option" where
  "strip_ethernet_link_layer frame =
     (if length frame < 14 then None
      else
        (case vlan_walk frame (u16_from_be_bytes (frame ! 12) (frame ! 13)) 14 of
           None \<Rightarrow> None
         | Some (ethertype, payload_offset) \<Rightarrow>
             if ethertype = 0x0800 \<or> ethertype = 0x86dd then get_from frame payload_offset
             else None))"

text \<open>
  What the code takes from macOS' \<open>libc\<close>: the offsets of two fields of \<open>bpf_hdr\<close>, the alignment of
  records, the byte order, the numbers of the link types, and three constants of the calls that
  open a BPF device.
\<close>

record bpf_abi =
  ba_caplen_offset :: nat
  ba_hdrlen_offset :: nat
  ba_alignment :: nat
  ba_u32_ne :: "quad \<Rightarrow> u32"
  ba_u16_ne :: "u8 \<Rightarrow> u8 \<Rightarrow> u16"
  DLT_RAW :: u32
  DLT_NULL :: u32
  DLT_LOOP :: u32
  DLT_EN10MB :: u32
  ba_O_NONBLOCK :: u32
  ba_EBUSY :: int
  ba_IFNAMSIZ :: nat

definition unsupported_datalink :: "u32 \<Rightarrow> mcrx_error" where
  "unsupported_datalink other =
     RawPacketReceiveUnsupported
       (''macOS BPF datalink type '' @ dec_digits (unat other) @ '' is not supported yet'')"

definition strip_apple_link_layer :: "bpf_abi \<Rightarrow> bytes \<Rightarrow> u32 \<Rightarrow> mcrx_error + bytes option" where
  "strip_apple_link_layer ba frame datalink =
     (if datalink = DLT_RAW ba then Inr (Some frame)
      else if datalink = DLT_NULL ba \<or> datalink = DLT_LOOP ba then Inr (get_from frame 4)
      else if datalink = DLT_EN10MB ba then Inr (strip_ethernet_link_layer frame)
      else Inl (unsupported_datalink datalink))"

section \<open>Records of a BPF read buffer\<close>

definition usize_checked_add :: "usize \<Rightarrow> usize \<Rightarrow> usize option" where
  "usize_checked_add a b = (if a + b \<le> usize_MAX then Some (a + b) else None)"

definition get_range :: "bytes \<Rightarrow> nat \<Rightarrow> nat \<Rightarrow> bytes option" where
  "get_range bs from until = (if from \<le> until \<and> until \<le> length bs then Some (take (until - from) (drop from bs)) else None)"

definition APPLE_BPF_HEADER_FIELDS_LEN :: "bpf_abi \<Rightarrow> usize" where
  "APPLE_BPF_HEADER_FIELDS_LEN ba = ba_hdrlen_offset ba + 2"

definition read_apple_bpf_record_header :: "bpf_abi \<Rightarrow> bytes \<Rightarrow> usize \<Rightarrow> (usize \<times> usize) option" where
  "read_apple_bpf_record_header ba bs offset =
     Option.bind (usize_checked_add offset (APPLE_BPF_HEADER_FIELDS_LEN ba)) (\<lambda>until.
     Option.bind (get_range bs offset until) (\<lambda>header.
     Option.bind (get_range header (ba_caplen_offset ba) (ba_caplen_offset ba + 4)) (\<lambda>caplen.
     Option.bind (get_range header (ba_hdrlen_offset ba) (ba_hdrlen_offset ba + 2)) (\<lambda>hdrlen.
     Some (unat (ba_u16_ne ba (hdrlen ! 0) (hdrlen ! 1)), unat (ba_u32_ne ba (quad_at caplen 0)))))))"

definition bpf_word_align :: "bpf_abi \<Rightarrow> usize \<Rightarrow> usize" where
  "bpf_word_align ba v =
     (let alignment = ba_alignment ba in
      unat ((of_nat (v + alignment - 1) :: u64) AND NOT (of_nat (alignment - 1))))"

text \<open>
  The walk over the records. The fuel bounds the number of turns; the length of the buffer is
  enough, because every turn moves to a higher offset (\<open>bpf_walk_returns\<close>). \<open>None\<close> is a walk
  that ran out of fuel.
\<close>

fun bpf_walk ::
  "nat \<Rightarrow> bpf_abi \<Rightarrow> bytes \<Rightarrow> usize \<Rightarrow> u32 \<Rightarrow> u32 option \<Rightarrow> subscription_id \<Rightarrow> raw_subscription_config \<Rightarrow>
   (mcrx_error + (raw_packet option \<times> usize)) option" where
  "bpf_walk fuel ba block offset datalink interface_index i cfg =
     (if \<not> offset + APPLE_BPF_HEADER_FIELDS_LEN ba \<le> length block then Some (Inr (None, offset))
      else
        (case fuel of
           0 \<Rightarrow> None
         | Suc fuel' \<Rightarrow>
        (case read_apple_bpf_record_header ba block offset of
           None \<Rightarrow> Some (Inr (None, length block))
         | Some (header_len, captured_len) \<Rightarrow>
        (case usize_checked_add header_len captured_len of
           None \<Rightarrow> Some (Inr (None, length block))
         | Some record_len \<Rightarrow>
             (let next_offset =
                    unwrap_or (usize_checked_add offset (bpf_word_align ba record_len)) (length block)
              in
              if header_len < APPLE_BPF_HEADER_FIELDS_LEN ba then Some (Inr (None, length block))
              else
                (case Option.bind (usize_checked_add offset header_len) (\<lambda>data_start.
                        map_option (\<lambda>data_end. (data_start, data_end))
                          (usize_checked_add data_start captured_len)) of
                   None \<Rightarrow> Some (Inr (None, length block))
                 | Some (data_start, data_end) \<Rightarrow>
                     if length block < data_end then Some (Inr (None, length block))
                     else
                       (let frame = take (data_end - data_start) (drop data_start block) in
                        case strip_apple_link_layer ba frame datalink of
                          Inl e \<Rightarrow> Some (Inl e)
                        | Inr None \<Rightarrow> bpf_walk fuel' ba block next_offset datalink interface_index i cfg
                        | Inr (Some datagram) \<Rightarrow>
                            (case parse_ip_datagram datagram of
                               None \<Rightarrow> bpf_walk fuel' ba block next_offset datalink interface_index i cfg
                             | Some parsed \<Rightarrow>
                                 if packet_matches_config parsed cfg
                                 then Some (Inr (Some (raw_packet_from_parts i datagram parsed
                                        \<lparr>md_socket_local_addr = None,
                                         md_configured_interface = rcfg_interface cfg,
                                         md_configured_interface_index = rcfg_interface_index cfg,
                                         md_destination_local_ip = Some (pi_destination_ip parsed),
                                         md_ingress_interface_index = interface_index\<rparr>),
                                      next_offset))
                                 else bpf_walk fuel' ba block next_offset datalink
                                        interface_index i cfg))))))))"

declare bpf_walk.simps [simp del]

definition next_matching_apple_bpf_packet ::
  "bpf_abi \<Rightarrow> bytes \<Rightarrow> usize \<Rightarrow> u32 \<Rightarrow> u32 option \<Rightarrow> subscription_id \<Rightarrow> raw_subscription_config \<Rightarrow>
   (mcrx_error + (raw_packet option \<times> usize)) option" where
  "next_matching_apple_bpf_packet ba block start_offset datalink interface_index i cfg =
     bpf_walk (length block) ba block start_offset datalink interface_index i cfg"

section \<open>Lemmas on parsing\<close>

lemma parse_ip_datagram_Some:
  assumes "parse_ip_datagram d = Some p"
  shows "0 < pi_datagram_len p \<and> pi_datagram_len p \<le> length d"
  using assms
  by (auto simp: parse_ip_datagram_def parse_ipv4_datagram_def parse_ipv6_datagram_def Let_def
      split: list.splits if_splits)

text \<open>Parsing only depends on the datagram itself, not on what follows it in the buffer.\<close>

lemma quad_at_append: "i + 3 < length xs \<Longrightarrow> quad_at (xs @ ys) i = quad_at xs i"
  by (simp add: quad_at_def nth_append)

lemma quad_at_take: "i + 3 < n \<Longrightarrow> quad_at (take n xs) i = quad_at xs i"
  by (simp add: quad_at_def)

lemma parse_ip_datagram_take:
  assumes "parse_ip_datagram d = Some p"
  shows "parse_ip_datagram (take (pi_datagram_len p) d) = Some p"
proof (cases d)
  case (Cons b bs)
  consider (v4) "drop_bit 4 b = 4" "parse_ipv4_datagram d = Some p"
    | (v6) "drop_bit 4 b = 6" "drop_bit 4 b \<noteq> 4" "parse_ipv6_datagram d = Some p"
    using assms Cons by (auto simp: parse_ip_datagram_def Let_def split: if_splits)
  then show ?thesis
  proof cases
    case v4
    let ?t = "take (pi_datagram_len p) d"
    have n: "20 \<le> pi_datagram_len p" "pi_datagram_len p \<le> length d"
      using v4(2) by (auto simp: parse_ipv4_datagram_def Let_def split: if_splits)
    then obtain b' bs' where t: "?t = b # bs'" using Cons by (cases "pi_datagram_len p") auto
    have "parse_ipv4_datagram ?t = Some p"
      using v4(2) n by (auto simp: parse_ipv4_datagram_def Let_def quad_at_take split: if_splits)
    then show ?thesis using v4(1) t by (simp add: parse_ip_datagram_def)
  next
    case v6
    let ?t = "take (pi_datagram_len p) d"
    have n: "40 \<le> pi_datagram_len p" "pi_datagram_len p \<le> length d"
      using v6(3) by (auto simp: parse_ipv6_datagram_def Let_def split: if_splits)
    then obtain b' bs' where t: "?t = b # bs'" using Cons by (cases "pi_datagram_len p") auto
    have "parse_ipv6_datagram ?t = Some p"
      using v6(3) n by (auto simp: parse_ipv6_datagram_def Let_def quad_at_take ipv6_at_def split: if_splits)
    then show ?thesis using v6(1,2) t by (simp add: parse_ip_datagram_def)
  qed
qed (use assms in \<open>simp add: parse_ip_datagram_def\<close>)

section \<open>What a delivered raw packet is\<close>

text \<open>
  A raw packet delivered for a subscription holds exactly one IP datagram, whose header says what
  the packet's fields say and matches the configuration.
\<close>

definition raw_delivered :: "subscription_id \<Rightarrow> raw_subscription_config \<Rightarrow> raw_packet \<Rightarrow> bool" where
  "raw_delivered i cfg p \<longleftrightarrow>
     rp_subscription_id p = i \<and>
     (\<exists>parsed. parse_ip_datagram (rp_datagram p) = Some parsed \<and>
        pi_datagram_len parsed = datagram_len p \<and> packet_matches_config parsed cfg \<and>
        rp_source_ip p = Some (pi_source_ip parsed) \<and>
        rp_group p = Some (pi_destination_ip parsed) \<and>
        rp_ip_protocol p = Some (pi_protocol parsed)) \<and>
     md_destination_local_ip (rp_metadata p) = rp_group p \<and>
     md_configured_interface (rp_metadata p) = rcfg_interface cfg \<and>
     md_configured_interface_index (rp_metadata p) = rcfg_interface_index cfg"

lemma raw_packet_from_parts_delivered:
  assumes "parse_ip_datagram d = Some parsed" and "packet_matches_config parsed cfg"
    and "md_destination_local_ip md = Some (pi_destination_ip parsed)"
    and "md_configured_interface md = rcfg_interface cfg"
    and "md_configured_interface_index md = rcfg_interface_index cfg"
  shows "raw_delivered i cfg (raw_packet_from_parts i d parsed md)"
proof -
  have "length (take (pi_datagram_len parsed) d) = pi_datagram_len parsed"
    using parse_ip_datagram_Some [OF assms(1)] by simp
  then show ?thesis
    using assms parse_ip_datagram_take [OF assms(1)]
    by (simp add: raw_delivered_def raw_packet_from_parts_def datagram_len_def)
qed

lemma packet_matches_config_iff:
  "packet_matches_config parsed cfg \<longleftrightarrow>
     pi_destination_ip parsed = rcfg_group cfg \<and>
     (rcfg_source cfg = Any \<or> rcfg_source cfg = Source (pi_source_ip parsed))"
  by (cases "rcfg_source cfg"; cases "rcfg_group cfg"; cases "pi_destination_ip parsed")
     (auto simp: packet_matches_config_def raw_family_def)

section \<open>The record walk\<close>

text \<open>The layout of \<open>bpf_hdr\<close> on 64-bit macOS.\<close>

definition bpf_layout :: "bpf_abi \<Rightarrow> bool" where
  "bpf_layout ba \<longleftrightarrow> ba_caplen_offset ba = 8 \<and> ba_hdrlen_offset ba = 16 \<and> ba_alignment ba = 4"

lemma bpf_word_align_ge:
  assumes "bpf_layout ba" and "v < 2 ^ 63"
  shows "v \<le> bpf_word_align ba v"
proof -
  have "bpf_word_align ba v = unat ((of_nat (v + 3) :: u64) AND NOT (mask 2))"
    using assms(1) by (simp add: bpf_word_align_def bpf_layout_def mask_eq_exp_minus_1 add.commute)
  also have "\<dots> = (v + 3) div 4 * 4"
    unfolding unat_and_not_mask using assms(2) unat_of_nat_u64 [of "v + 3"] by simp
  finally show ?thesis by simp
qed

text \<open>A turn of the walk that goes on does so at a higher offset.\<close>

lemma record_advances:
  assumes "bpf_layout ba" and "length block < 2 ^ 62"
    and "usize_checked_add header_len captured_len = Some record_len"
    and "APPLE_BPF_HEADER_FIELDS_LEN ba \<le> header_len"
    and "usize_checked_add offset header_len = Some data_start"
    and "usize_checked_add data_start captured_len = Some data_end"
    and "data_end \<le> length block"
  shows "offset < unwrap_or (usize_checked_add offset (bpf_word_align ba record_len)) (length block)"
proof -
  have "record_len < 2 ^ 63" "18 \<le> record_len" "offset + 18 \<le> length block"
    using assms(2-7)
    by (auto simp: usize_checked_add_def APPLE_BPF_HEADER_FIELDS_LEN_def assms(1) [unfolded bpf_layout_def]
        split: if_splits)
  moreover have "record_len \<le> bpf_word_align ba record_len"
    using bpf_word_align_ge [OF assms(1)] calculation(1) by simp
  ultimately show ?thesis by (simp add: usize_checked_add_def unwrap_or_def)
qed

lemma bpf_walk_returns:
  assumes "bpf_layout ba" and "length block < 2 ^ 62" and "length block \<le> offset + fuel"
  shows "bpf_walk fuel ba block offset datalink ix i cfg \<noteq> None"
  using assms(3)
proof (induction fuel arbitrary: offset)
  case 0
  then show ?case by (subst bpf_walk.simps) (simp add: APPLE_BPF_HEADER_FIELDS_LEN_def)
next
  case (Suc fuel)
  have IH: "bpf_walk fuel ba block next_offset datalink ix i cfg \<noteq> None" if "offset < next_offset" for next_offset
    using Suc.IH [of next_offset] Suc.prems that by simp
  note adv = record_advances [OF assms(1,2), where offset = offset]
  show ?case
    by (subst bpf_walk.simps)
       (auto simp: Let_def bind_eq_Some_conv dest: adv IH
         split: option.splits sum.splits prod.splits if_splits)
qed

lemma bpf_walk_delivers:
  assumes "bpf_walk fuel ba block offset datalink ix i cfg = Some (Inr (Some p, n))"
  shows "raw_delivered i cfg p \<and> md_ingress_interface_index (rp_metadata p) = ix"
  using assms
proof (induction fuel arbitrary: offset)
  case 0
  then show ?case by (subst (asm) bpf_walk.simps) (auto split: if_splits)
next
  case (Suc fuel)
  have "raw_delivered i cfg (raw_packet_from_parts i d parsed md)"
    if "parse_ip_datagram d = Some parsed" "packet_matches_config parsed cfg"
      "md = \<lparr>md_socket_local_addr = None, md_configured_interface = rcfg_interface cfg,
        md_configured_interface_index = rcfg_interface_index cfg,
        md_destination_local_ip = Some (pi_destination_ip parsed),
        md_ingress_interface_index = ix\<rparr>" for d parsed md
    using that by (intro raw_packet_from_parts_delivered) simp_all
  then show ?case
    using Suc.prems Suc.IH
    by (subst (asm) bpf_walk.simps)
       (auto simp: Let_def raw_packet_from_parts_def
         split: option.splits sum.splits prod.splits if_splits)
qed

section \<open>Encoders\<close>

text \<open>
  The specification side: the bytes of an IPv4 datagram (RFC 791), of an IPv6 datagram (RFC 8200)
  and of an Ethernet frame with any stack of VLAN tags.
\<close>

definition be16 :: "u16 \<Rightarrow> bytes" where
  "be16 w = [ucast (drop_bit 8 w), ucast w]"

definition ipv4_datagram ::
  "nat \<Rightarrow> u8 \<Rightarrow> quad \<Rightarrow> u8 \<Rightarrow> u8 \<Rightarrow> u16 \<Rightarrow> quad \<Rightarrow> quad \<Rightarrow> bytes \<Rightarrow> bytes \<Rightarrow> bytes" where
  "ipv4_datagram ihl tos frag ttl protocol checksum source destination options payload =
     [of_nat (64 + ihl), tos] @ be16 (of_nat (20 + length options + length payload)) @
     quad_octets frag @ [ttl, protocol] @ be16 checksum @ quad_octets source @
     quad_octets destination @ options @ payload"

definition ipv6_datagram ::
  "nat \<Rightarrow> u8 \<Rightarrow> u8 \<Rightarrow> u8 \<Rightarrow> u8 \<Rightarrow> u8 \<Rightarrow> ipv6_addr \<Rightarrow> ipv6_addr \<Rightarrow> bytes \<Rightarrow> bytes" where
  "ipv6_datagram tc f1 f2 f3 next_header hops source destination payload =
     [of_nat (96 + tc), f1, f2, f3] @ be16 (of_nat (length payload)) @ [next_header, hops] @
     ipv6_octets source @ ipv6_octets destination @ payload"

fun vlan_tags :: "(u16 \<times> u16) list \<Rightarrow> u16 \<Rightarrow> bytes" where
  "vlan_tags [] ethertype = be16 ethertype"
| "vlan_tags ((tpid, tci) # tags) ethertype = be16 tpid @ be16 tci @ vlan_tags tags ethertype"

definition ethernet_frame :: "bytes \<Rightarrow> (u16 \<times> u16) list \<Rightarrow> u16 \<Rightarrow> bytes \<Rightarrow> bytes" where
  "ethernet_frame macs tags ethertype payload = macs @ vlan_tags tags ethertype @ payload"

definition is_tpid :: "u16 \<Rightarrow> bool" where
  "is_tpid w \<longleftrightarrow> w = 0x8100 \<or> w = 0x88a8 \<or> w = 0x9100"

lemma length_be16 [simp]: "length (be16 w) = 2"
  by (simp add: be16_def)

lemma u16_be16 [simp]: "u16_from_be_bytes (ucast (drop_bit 8 w)) (ucast w) = w"
  unfolding u16_from_be_bytes_def
  by (rule bit_word_eqI) (auto simp: bit_simps not_less)

lemma be16_nth [simp]: "u16_from_be_bytes (be16 w ! 0) (be16 w ! Suc 0) = w"
  by (simp add: be16_def)

lemma unat_u16: "n < 65536 \<Longrightarrow> unat (of_nat n :: u16) = n"
  by (simp add: unsigned_of_nat take_bit_nat_eq_self)

lemma nibble_4: "5 \<le> ihl \<Longrightarrow> ihl < 16 \<Longrightarrow>
    drop_bit 4 (of_nat (64 + ihl) :: u8) = 4 \<and> unat ((of_nat (64 + ihl) :: u8) AND 0x0f) = ihl"
proof -
  assume "5 \<le> ihl" "ihl < 16"
  then have "ihl \<in> {5, 6, 7, 8, 9, 10, 11, 12, 13, 14, 15}"
    unfolding insert_iff empty_iff by presburger
  then show ?thesis by (elim insertE) simp_all
qed

lemma nibble_6: "tc < 16 \<Longrightarrow> drop_bit 4 (of_nat (96 + tc) :: u8) = 6"
proof -
  assume "tc < 16"
  then have "tc \<in> {0, 1, 2, 3, 4, 5, 6, 7, 8, 9, 10, 11, 12, 13, 14, 15}"
    unfolding insert_iff empty_iff by presburger
  then show ?thesis by (elim insertE) simp_all
qed

lemma parse_ipv4_roundtrip:
  assumes "5 \<le> ihl" "ihl < 16" "20 + length options = 4 * ihl"
    and "20 + length options + length payload < 65536"
  shows "parse_ip_datagram (ipv4_datagram ihl tos frag ttl protocol checksum source destination
       options payload @ trailing) =
     Some \<lparr>pi_source_ip = V4 source, pi_destination_ip = V4 destination, pi_protocol = protocol,
           pi_datagram_len = 20 + length options + length payload\<rparr>"
proof -
  obtain a b c d where source: "source = Quad a b c d" by (cases source)
  obtain e f g h where dest: "destination = Quad e f g h" by (cases destination)
  obtain q r s t where frag: "frag = Quad q r s t" by (cases frag)
  show ?thesis
    using assms nibble_4 [OF assms(1,2)] unat_u16 [OF assms(4)]
    by (simp add: parse_ip_datagram_def parse_ipv4_datagram_def ipv4_datagram_def be16_def
        source dest frag quad_at_def Let_def)
qed

lemma parse_ipv6_roundtrip:
  assumes "tc < 16" "length payload < 65536" "payload \<noteq> [] \<or> next_header \<noteq> 0"
  shows "parse_ip_datagram (ipv6_datagram tc f1 f2 f3 next_header hops source destination payload
       @ trailing) =
     Some \<lparr>pi_source_ip = V6 source, pi_destination_ip = V6 destination, pi_protocol = next_header,
           pi_datagram_len = 40 + length payload\<rparr>"
proof -
  obtain s1 s2 s3 s4 where source: "source = Ipv6Addr s1 s2 s3 s4" by (cases source)
  obtain d1 d2 d3 d4 where dest: "destination = Ipv6Addr d1 d2 d3 d4" by (cases destination)
  show ?thesis
    using assms nibble_6 [OF assms(1)] unat_u16 [OF assms(2)]
    by (cases s1; cases s2; cases s3; cases s4; cases d1; cases d2; cases d3; cases d4)
       (auto simp: parse_ip_datagram_def parse_ipv6_datagram_def ipv6_datagram_def be16_def
        source dest ipv6_octets_def ipv6_at_def quad_at_def Let_def)
qed

lemma vlan_walk_tags:
  assumes "\<forall>t \<in> set tags. is_tpid (fst t)" and "\<not> is_tpid ethertype"
  shows "vlan_walk (pre @ vlan_tags tags ethertype @ payload)
       (u16_from_be_bytes ((vlan_tags tags ethertype) ! 0) ((vlan_tags tags ethertype) ! 1))
       (length pre + 2) = Some (ethertype, length pre + 4 * length tags + 2)"
  using assms(1)
proof (induction tags arbitrary: pre)
  case Nil
  then show ?case using assms(2) by (simp add: vlan_walk.simps is_tpid_def be16_def)
next
  case (Cons t tags)
  obtain tpid tci where t: "t = (tpid, tci)" by (cases t)
  have tp: "tpid = 0x8100 \<or> tpid = 0x88a8 \<or> tpid = 0x9100" using Cons.prems t by (auto simp: is_tpid_def)
  let ?rest = "vlan_tags tags ethertype"
  let ?frame = "pre @ vlan_tags (t # tags) ethertype @ payload"
  have len: "2 \<le> length ?rest" by (cases tags) auto
  then have ne: "?rest \<noteq> []" by auto
  have frame: "?frame = (pre @ be16 tpid @ be16 tci) @ ?rest @ payload" by (simp add: t)
  have n: "?frame ! (length pre + 4) = ?rest ! 0" "?frame ! (length pre + 5) = ?rest ! 1"
    unfolding frame using len ne by (simp_all add: nth_append)
  define F where "F = ?frame"
  have "length pre + 6 \<le> length F" unfolding F_def frame using len by simp
  then have step: "vlan_walk F tpid (length pre + 2) =
      vlan_walk F (u16_from_be_bytes (F ! (length pre + 2 + 2)) (F ! (length pre + 2 + 3))) (length pre + 2 + 4)"
    using tp by (subst vlan_walk.simps) simp
  have idx: "length pre + 2 + 2 = length pre + 4" "length pre + 2 + 3 = length pre + 5"
    "length pre + 2 + 4 = length (pre @ be16 tpid @ be16 tci) + 2" by simp_all
  have "vlan_walk ?frame tpid (length pre + 2) =
      vlan_walk ?frame (u16_from_be_bytes (?rest ! 0) (?rest ! 1)) (length (pre @ be16 tpid @ be16 tci) + 2)"
    using step unfolding idx unfolding F_def n .
  also have "\<dots> = Some (ethertype, length (pre @ be16 tpid @ be16 tci) + 4 * length tags + 2)"
    unfolding frame using Cons.IH [of "pre @ be16 tpid @ be16 tci"] Cons.prems by simp
  finally show ?case by (simp add: t be16_def)
qed

lemma strip_ethernet_roundtrip:
  assumes "length macs = 12" "\<forall>t \<in> set tags. is_tpid (fst t)" "ethertype = 0x0800 \<or> ethertype = 0x86dd"
  shows "strip_ethernet_link_layer (ethernet_frame macs tags ethertype payload) = Some payload"
proof -
  have len: "length (vlan_tags tags ethertype) = 4 * length tags + 2" by (induction tags) auto
  have ne: "vlan_tags tags ethertype \<noteq> []" using len by auto
  have n: "ethernet_frame macs tags ethertype payload ! 12 = vlan_tags tags ethertype ! 0"
    "ethernet_frame macs tags ethertype payload ! 13 = vlan_tags tags ethertype ! 1"
    using assms(1) len ne by (simp_all add: ethernet_frame_def nth_append)
  have "\<not> is_tpid ethertype" using assms(3) by (auto simp: is_tpid_def)
  from vlan_walk_tags [OF assms(2) this, of macs payload] show ?thesis
    unfolding strip_ethernet_link_layer_def n
    using assms len by (auto simp: ethernet_frame_def get_from_def)
qed

section \<open>Properties\<close>

text \<open>
  C20. From an Ethernet frame with any stack of VLAN tags around an IPv4 datagram with any options,
  payload and trailing padding, the receiver recovers the datagram and its source, destination,
  protocol and exact length.
\<close>

theorem ethernet_ipv4_roundtrip:
  assumes "length macs = 12" and "\<forall>t \<in> set tags. is_tpid (fst t)"
    and "5 \<le> ihl" and "ihl < 16" and "20 + length options = 4 * ihl"
    and "20 + length options + length payload < 65536"
  shows "\<exists>d. strip_ethernet_link_layer (ethernet_frame macs tags 0x0800
         (ipv4_datagram ihl tos frag ttl protocol checksum source destination options payload @ padding)) =
       Some d \<and>
     parse_ip_datagram d =
       Some \<lparr>pi_source_ip = V4 source, pi_destination_ip = V4 destination, pi_protocol = protocol,
             pi_datagram_len = 20 + length options + length payload\<rparr>"
proof -
  have "strip_ethernet_link_layer (ethernet_frame macs tags 0x0800 X) = Some X" for X
    by (rule strip_ethernet_roundtrip [OF assms(1,2)]) simp
  with parse_ipv4_roundtrip [OF assms(3-6)] show ?thesis by simp
qed

theorem ethernet_ipv4_roundtrip_witness:
  "\<exists>d. strip_ethernet_link_layer (ethernet_frame (replicate 12 0) [(0x88a8, 5), (0x8100, 7)] 0x0800
         (ipv4_datagram 6 0 (Quad 0 0 0 0) 1 17 0 (Quad 10 0 0 1) (Quad 239 1 2 3) [1, 1, 1, 0] [9, 9] @
          [0, 0])) = Some d \<and>
     parse_ip_datagram d =
       Some \<lparr>pi_source_ip = V4 (Quad 10 0 0 1), pi_destination_ip = V4 (Quad 239 1 2 3),
             pi_protocol = 17, pi_datagram_len = 26\<rparr>"
  using ethernet_ipv4_roundtrip [of "replicate 12 0" "[(0x88a8, 5), (0x8100, 7)]" 6 "[1, 1, 1, 0]" "[9, 9]"
      0 "Quad 0 0 0 0" 1 17 0 "Quad 10 0 0 1" "Quad 239 1 2 3" "[0, 0]"]
  by (simp add: is_tpid_def)

text \<open>
  An IPv6 datagram is recovered with its source, destination, next header and exact length,
  whatever follows it in the buffer; only a zero payload length with a hop-by-hop header (a
  possible jumbogram) is refused.
\<close>

theorem ipv6_roundtrip:
  assumes "tc < 16" and "length payload < 65536"
  shows "parse_ip_datagram (ipv6_datagram tc f1 f2 f3 next_header hops source destination payload @ trailing) =
     (if payload = [] \<and> next_header = 0 then None
      else Some \<lparr>pi_source_ip = V6 source, pi_destination_ip = V6 destination,
                 pi_protocol = next_header, pi_datagram_len = 40 + length payload\<rparr>)"
proof (cases "payload = [] \<and> next_header = 0")
  case True
  obtain s1 s2 s3 s4 where source: "source = Ipv6Addr s1 s2 s3 s4" by (cases source)
  obtain d1 d2 d3 d4 where dest: "destination = Ipv6Addr d1 d2 d3 d4" by (cases destination)
  have "parse_ip_datagram (ipv6_datagram tc f1 f2 f3 next_header hops source destination payload @ trailing) = None"
    using True nibble_6 [OF assms(1)]
    by (cases s1; cases s2; cases s3; cases s4; cases d1; cases d2; cases d3; cases d4)
       (simp add: parse_ip_datagram_def parse_ipv6_datagram_def ipv6_datagram_def be16_def
        source dest ipv6_octets_def u16_from_be_bytes_def)
  then show ?thesis using True by simp
next
  case False
  then show ?thesis using parse_ipv6_roundtrip [OF assms] by auto
qed

theorem ipv6_roundtrip_witness:
  "parse_ip_datagram (ipv6_datagram 0 0 0 0 17 1 ipv6_UNSPECIFIED ipv6_UNSPECIFIED [7] @ [1, 2]) =
     Some \<lparr>pi_source_ip = V6 ipv6_UNSPECIFIED, pi_destination_ip = V6 ipv6_UNSPECIFIED,
           pi_protocol = 17, pi_datagram_len = 41\<rparr>"
  using ipv6_roundtrip [of 0 "[7]" 0 0 0 17 1 ipv6_UNSPECIFIED ipv6_UNSPECIFIED "[1, 2]"] by simp

text \<open>
  A parsed datagram lies inside the buffer, so cutting it out cannot panic, and the cut-out
  bytes parse to the same result: nothing behind the datagram influences it.
\<close>

theorem parsed_datagram_in_bounds:
  assumes "parse_ip_datagram d = Some p"
  shows "0 < pi_datagram_len p \<and> pi_datagram_len p \<le> length d \<and>
     parse_ip_datagram (take (pi_datagram_len p) d) = Some p"
  using parse_ip_datagram_Some [OF assms] parse_ip_datagram_take [OF assms] by simp

theorem parsed_datagram_in_bounds_witness:
  "parse_ip_datagram (ipv6_datagram 0 0 0 0 17 1 ipv6_UNSPECIFIED ipv6_UNSPECIFIED [7] @ [1, 2]) \<noteq> None \<and>
   41 \<le> length (ipv6_datagram 0 0 0 0 17 1 ipv6_UNSPECIFIED ipv6_UNSPECIFIED [7] @ [1, 2])"
  using parsed_datagram_in_bounds [OF parse_ipv6_roundtrip [of 0 "[7]" 17 0 0 0 1 ipv6_UNSPECIFIED
        ipv6_UNSPECIFIED "[1, 2]"]] parse_ipv6_roundtrip [of 0 "[7]" 17 0 0 0 1 ipv6_UNSPECIFIED
        ipv6_UNSPECIFIED "[1, 2]"]
  by simp

text \<open>
  The walk over the records of a BPF read buffer ends for every content of the buffer, with as
  many turns as the buffer has bytes as a bound, and a packet it returns is one IP datagram that
  matches the configuration.
\<close>

theorem bpf_records_walk:
  assumes "bpf_layout ba" and "length block < 2 ^ 62"
  shows "case next_matching_apple_bpf_packet ba block start_offset datalink ix i cfg of
       None \<Rightarrow> False
     | Some (Inr (Some p, next_offset)) \<Rightarrow>
         raw_delivered i cfg p \<and> md_ingress_interface_index (rp_metadata p) = ix
     | _ \<Rightarrow> True"
proof -
  let ?r = "bpf_walk (length block) ba block start_offset datalink ix i cfg"
  have "?r \<noteq> None" using bpf_walk_returns [OF assms] by simp
  then show ?thesis
    using bpf_walk_delivers [of "length block" ba block start_offset datalink ix i cfg]
    by (auto simp: next_matching_apple_bpf_packet_def split: sum.splits option.splits prod.splits)
qed

definition mac_abi :: bpf_abi where
  "mac_abi =
     \<lparr>ba_caplen_offset = 8, ba_hdrlen_offset = 16, ba_alignment = 4,
      ba_u32_ne = (\<lambda>q. case q of Quad a b c d \<Rightarrow> u32_from_be_bytes (Quad d c b a)),
      ba_u16_ne = (\<lambda>a b. u16_from_be_bytes b a),
      DLT_RAW = 12, DLT_NULL = 0, DLT_LOOP = 108, DLT_EN10MB = 1,
      ba_O_NONBLOCK = 4, ba_EBUSY = 16, ba_IFNAMSIZ = 16\<rparr>"

theorem bpf_records_walk_witness:
  "bpf_layout mac_abi \<and>
   next_matching_apple_bpf_packet mac_abi [1, 2, 3] 0 12 None (SubscriptionId 1)
     (raw_asm (Quad 239 1 2 3)) \<noteq> None"
proof -
  have "bpf_layout mac_abi" by (simp add: bpf_layout_def mac_abi_def)
  with bpf_records_walk [OF this, where block = "[1, 2, 3]" and start_offset = 0 and datalink = 12 and
      ix = None and i = "SubscriptionId 1" and cfg = "raw_asm (Quad 239 1 2 3)"]
  show ?thesis by (auto split: option.splits)
qed

end
