(* ===== verification/Bpf.thy ===== *)
theory Bpf
  imports Os Datagram
begin

unbundle bit_operations_syntax

text \<open>
  The classic BPF programs of \<open>src/platform/raw.rs\<close> and what they accept. The machine that runs a
  program lives in the kernel, so it is a parameter \<open>run\<close>; \<open>classic_bpf run\<close> states the
  documented meaning of the seven instructions the programs use, and \<open>bpf_interp\<close> is a machine
  that has it. The programs are built in the source's order, instruction by instruction, with the
  jumps to the rejecting instruction patched in at the end.
\<close>

section \<open>Instructions\<close>

definition BPF_LD :: u16 where "BPF_LD = 0x00"
definition BPF_W :: u16 where "BPF_W = 0x00"
definition BPF_H :: u16 where "BPF_H = 0x08"
definition BPF_B :: u16 where "BPF_B = 0x10"
definition BPF_ABS :: u16 where "BPF_ABS = 0x20"
definition BPF_ALU :: u16 where "BPF_ALU = 0x04"
definition BPF_AND :: u16 where "BPF_AND = 0x50"
definition BPF_JMP :: u16 where "BPF_JMP = 0x05"
definition BPF_JEQ :: u16 where "BPF_JEQ = 0x10"
definition BPF_K :: u16 where "BPF_K = 0x00"
definition BPF_RET :: u16 where "BPF_RET = 0x06"

lemmas bpf_codes =
  BPF_LD_def BPF_W_def BPF_H_def BPF_B_def BPF_ABS_def BPF_ALU_def BPF_AND_def BPF_JMP_def
  BPF_JEQ_def BPF_K_def BPF_RET_def

definition bpf_statement :: "u16 \<Rightarrow> u32 \<Rightarrow> classic_bpf_instruction" where
  "bpf_statement code v = \<lparr>bpf_code = code, bpf_jt = 0, bpf_jf = 0, bpf_k = v\<rparr>"

section \<open>Building the programs\<close>

type_synonym bpf_program = "classic_bpf_instruction list"

text \<open>\<open>add_comparison\<close> on the pair of \<open>instructions\<close> and \<open>rejects\<close>.\<close>

definition add_comparison ::
  "u32 \<Rightarrow> u32 \<Rightarrow> bpf_program \<times> usize list \<Rightarrow> bpf_program \<times> usize list" where
  "add_comparison offset expected st =
     (case st of (instructions, rejects) \<Rightarrow>
        (let instructions = instructions @ [bpf_statement (BPF_LD OR BPF_W OR BPF_ABS) offset];
             rejects = rejects @ [length instructions]
         in (instructions @ [bpf_statement (BPF_JMP OR BPF_JEQ OR BPF_K) expected], rejects)))"

text \<open>The two loops \<open>for (word, bytes) in address.chunks_exact(4).enumerate()\<close>.\<close>

fun add_comparisons ::
  "u32 \<Rightarrow> nat \<Rightarrow> quad list \<Rightarrow> bpf_program \<times> usize list \<Rightarrow> bpf_program \<times> usize list" where
  "add_comparisons base i [] st = st"
| "add_comparisons base i (q # qs) st =
     add_comparisons base (i + 1) qs
       (add_comparison (base + of_nat i * 4) (u32_from_be_bytes q) st)"

text \<open>The last loop: \<open>jf\<close> of every comparison is set to the distance to the rejecting instruction.\<close>

fun patch_rejects :: "usize \<Rightarrow> usize list \<Rightarrow> bpf_program \<Rightarrow> bpf_program" where
  "patch_rejects reject_index [] instructions = instructions"
| "patch_rejects reject_index (comparison_index # rest) instructions =
     patch_rejects reject_index rest
       (instructions[comparison_index :=
          (instructions ! comparison_index)
            \<lparr>bpf_jf := of_nat (reject_index - comparison_index - 1)\<rparr>])"

text \<open>The common end of both builders: accept, reject, patch.\<close>

definition finish_filter :: "bpf_program \<times> usize list \<Rightarrow> bpf_program" where
  "finish_filter st =
     (case st of (instructions, rejects) \<Rightarrow>
        (let instructions = instructions @ [bpf_statement (BPF_RET OR BPF_K) (- 1)];
             reject_index = length instructions
         in patch_rejects reject_index rejects
              (instructions @ [bpf_statement (BPF_RET OR BPF_K) 0])))"

definition bpf_ip_filter :: "raw_subscription_config \<Rightarrow> u32 \<Rightarrow> bpf_program" where
  "bpf_ip_filter cfg ip_offset =
     (let instructions =
            [bpf_statement (BPF_LD OR BPF_B OR BPF_ABS) ip_offset,
             bpf_statement (BPF_ALU OR BPF_AND OR BPF_K) 0xf0];
          rejects = [length instructions];
          instructions = instructions @
            [bpf_statement (BPF_JMP OR BPF_JEQ OR BPF_K) (if raw_is_ipv4 cfg then 0x40 else 0x60)];
          (source_offset, destination_offset) =
            (if raw_is_ipv4 cfg then (ip_offset + 12, ip_offset + 16)
             else (ip_offset + 8, ip_offset + 24));
          st = add_comparisons destination_offset 0 (ip_quads (rcfg_group cfg)) (instructions, rejects);
          st = (case rcfg_source cfg of
                  Source source \<Rightarrow> add_comparisons source_offset 0 (ip_quads source) st
                | Any \<Rightarrow> st)
      in finish_filter st)"

definition bpf_ip_multicast_family_filter :: "subscription_address_family \<Rightarrow> u32 \<Rightarrow> bpf_program" where
  "bpf_ip_multicast_family_filter fam ip_offset =
     (let (version, destination_offset, destination_mask, destination_value) =
            (case fam of
               Ipv4 \<Rightarrow> (0x40, ip_offset + 16, Some 0xf0, 0xe0)
             | Ipv6 \<Rightarrow> (0x60, ip_offset + 24, None, 0xff));
          instructions =
            [bpf_statement (BPF_LD OR BPF_B OR BPF_ABS) ip_offset,
             bpf_statement (BPF_ALU OR BPF_AND OR BPF_K) 0xf0];
          rejects = [length instructions];
          instructions = instructions @ [bpf_statement (BPF_JMP OR BPF_JEQ OR BPF_K) version];
          instructions = instructions @ [bpf_statement (BPF_LD OR BPF_B OR BPF_ABS) destination_offset];
          instructions = instructions @
            (case destination_mask of
               Some msk \<Rightarrow> [bpf_statement (BPF_ALU OR BPF_AND OR BPF_K) msk]
             | None \<Rightarrow> []);
          rejects = rejects @ [length instructions];
          instructions = instructions @ [bpf_statement (BPF_JMP OR BPF_JEQ OR BPF_K) destination_value]
      in finish_filter (instructions, rejects))"

definition apple_subscription_filter ::
  "bpf_abi \<Rightarrow> u32 \<Rightarrow> raw_subscription_config \<Rightarrow> mcrx_error + bpf_program" where
  "apple_subscription_filter ba datalink cfg =
     (if datalink = DLT_RAW ba then Inr (bpf_ip_filter cfg 0)
      else if datalink = DLT_NULL ba \<or> datalink = DLT_LOOP ba then Inr (bpf_ip_filter cfg 4)
      else if datalink = DLT_EN10MB ba then
        (let expected_ethertype = (if raw_is_ipv4 cfg then 0x0800 else 0x86dd);
             instructions =
               [bpf_statement (BPF_LD OR BPF_H OR BPF_ABS) 12,
                \<lparr>bpf_code = BPF_JMP OR BPF_JEQ OR BPF_K, bpf_jt = 7, bpf_jf = 0, bpf_k = expected_ethertype\<rparr>,
                \<lparr>bpf_code = BPF_JMP OR BPF_JEQ OR BPF_K, bpf_jt = 0, bpf_jf = 1, bpf_k = 0x8100\<rparr>,
                bpf_statement (BPF_RET OR BPF_K) (- 1),
                \<lparr>bpf_code = BPF_JMP OR BPF_JEQ OR BPF_K, bpf_jt = 0, bpf_jf = 1, bpf_k = 0x88a8\<rparr>,
                bpf_statement (BPF_RET OR BPF_K) (- 1),
                \<lparr>bpf_code = BPF_JMP OR BPF_JEQ OR BPF_K, bpf_jt = 0, bpf_jf = 1, bpf_k = 0x9100\<rparr>,
                bpf_statement (BPF_RET OR BPF_K) (- 1),
                bpf_statement (BPF_RET OR BPF_K) 0]
         in Inr (instructions @ bpf_ip_filter cfg 14))
      else Inl (unsupported_datalink datalink))"

section \<open>The machine\<close>

text \<open>
  Absolute loads in network byte order; a load outside the packet ends the program with 0.
\<close>

definition load8 :: "bytes \<Rightarrow> u32 \<Rightarrow> u32 option" where
  "load8 pkt k = (if unat k < length pkt then Some (ucast (pkt ! unat k)) else None)"

definition load16 :: "bytes \<Rightarrow> u32 \<Rightarrow> u32 option" where
  "load16 pkt k =
     (if unat k + 1 < length pkt
      then Some (ucast (u16_from_be_bytes (pkt ! unat k) (pkt ! (unat k + 1)))) else None)"

definition load32 :: "bytes \<Rightarrow> u32 \<Rightarrow> u32 option" where
  "load32 pkt k =
     (if unat k + 3 < length pkt then Some (u32_from_be_bytes (quad_at pkt (unat k))) else None)"

text \<open>
  \<open>run prog pc a pkt\<close> is the value the program returns for the packet, started at \<open>pc\<close> with
  accumulator \<open>a\<close>.
\<close>

definition bpf_load_then ::
  "(nat \<Rightarrow> u32 \<Rightarrow> u32) \<Rightarrow> nat \<Rightarrow> u32 option \<Rightarrow> u32" where
  "bpf_load_then continue pc v = (case v of None \<Rightarrow> 0 | Some a \<Rightarrow> continue (pc + 1) a)"

definition classic_bpf :: "(bpf_program \<Rightarrow> nat \<Rightarrow> u32 \<Rightarrow> bytes \<Rightarrow> u32) \<Rightarrow> bool" where
  "classic_bpf run \<longleftrightarrow>
     (\<forall>prog pc a pkt i. pc < length prog \<longrightarrow> prog ! pc = i \<longrightarrow>
        (bpf_code i = 0x20 \<longrightarrow> run prog pc a pkt =
           bpf_load_then (\<lambda>pc a. run prog pc a pkt) pc (load32 pkt (bpf_k i))) \<and>
        (bpf_code i = 0x28 \<longrightarrow> run prog pc a pkt =
           bpf_load_then (\<lambda>pc a. run prog pc a pkt) pc (load16 pkt (bpf_k i))) \<and>
        (bpf_code i = 0x30 \<longrightarrow> run prog pc a pkt =
           bpf_load_then (\<lambda>pc a. run prog pc a pkt) pc (load8 pkt (bpf_k i))) \<and>
        (bpf_code i = 0x54 \<longrightarrow> run prog pc a pkt = run prog (pc + 1) (a AND bpf_k i) pkt) \<and>
        (bpf_code i = 0x15 \<longrightarrow> run prog pc a pkt =
           run prog (pc + 1 + unat (if a = bpf_k i then bpf_jt i else bpf_jf i)) a pkt) \<and>
        (bpf_code i = 0x06 \<longrightarrow> run prog pc a pkt = bpf_k i))"

function bpf_interp :: "bpf_program \<Rightarrow> nat \<Rightarrow> u32 \<Rightarrow> bytes \<Rightarrow> u32" where
  "bpf_interp prog pc a pkt =
     (if length prog \<le> pc then 0
      else
        (let i = prog ! pc in
         if bpf_code i = 0x20 then
           (case load32 pkt (bpf_k i) of None \<Rightarrow> 0 | Some a' \<Rightarrow> bpf_interp prog (pc + 1) a' pkt)
         else if bpf_code i = 0x28 then
           (case load16 pkt (bpf_k i) of None \<Rightarrow> 0 | Some a' \<Rightarrow> bpf_interp prog (pc + 1) a' pkt)
         else if bpf_code i = 0x30 then
           (case load8 pkt (bpf_k i) of None \<Rightarrow> 0 | Some a' \<Rightarrow> bpf_interp prog (pc + 1) a' pkt)
         else if bpf_code i = 0x54 then bpf_interp prog (pc + 1) (a AND bpf_k i) pkt
         else if bpf_code i = 0x15 then
           bpf_interp prog (pc + 1 + unat (if a = bpf_k i then bpf_jt i else bpf_jf i)) a pkt
         else if bpf_code i = 0x06 then bpf_k i
         else 0))"
  by pat_completeness auto
termination
  by (relation "measure (\<lambda>(prog, pc, a, pkt). length prog - pc)") auto

declare bpf_interp.simps [simp del]

lemma classic_bpf_interp: "classic_bpf bpf_interp"
  unfolding classic_bpf_def
  by (intro allI impI conjI; subst bpf_interp.simps) (simp_all add: bpf_load_then_def split: option.split)

section \<open>The programs in closed form\<close>

definition ld8 :: "u32 \<Rightarrow> classic_bpf_instruction" where
  "ld8 k = \<lparr>bpf_code = 0x30, bpf_jt = 0, bpf_jf = 0, bpf_k = k\<rparr>"

definition ld32 :: "u32 \<Rightarrow> classic_bpf_instruction" where
  "ld32 k = \<lparr>bpf_code = 0x20, bpf_jt = 0, bpf_jf = 0, bpf_k = k\<rparr>"

definition and_k :: "u32 \<Rightarrow> classic_bpf_instruction" where
  "and_k k = \<lparr>bpf_code = 0x54, bpf_jt = 0, bpf_jf = 0, bpf_k = k\<rparr>"

definition jeq :: "u32 \<Rightarrow> nat \<Rightarrow> classic_bpf_instruction" where
  "jeq k jf = \<lparr>bpf_code = 0x15, bpf_jt = 0, bpf_jf = of_nat jf, bpf_k = k\<rparr>"

definition ret :: "u32 \<Rightarrow> classic_bpf_instruction" where
  "ret k = \<lparr>bpf_code = 0x06, bpf_jt = 0, bpf_jf = 0, bpf_k = k\<rparr>"

lemmas bpf_instrs = ld8_def ld32_def and_k_def jeq_def ret_def

text \<open>Comparisons of words with expected values, followed by accept and reject.\<close>

fun comparisons :: "(u32 \<times> u32) list \<Rightarrow> bpf_program" where
  "comparisons [] = [ret (- 1), ret 0]"
| "comparisons ((k, v) # cs) = ld32 k # jeq v (2 * length cs + 1) # comparisons cs"

fun words_from :: "u32 \<Rightarrow> quad list \<Rightarrow> (u32 \<times> u32) list" where
  "words_from base [] = []"
| "words_from base (q # qs) = (base, u32_from_be_bytes q) # words_from (base + 4) qs"

definition filter_words :: "raw_subscription_config \<Rightarrow> u32 \<Rightarrow> (u32 \<times> u32) list" where
  "filter_words cfg ip_offset =
     words_from (ip_offset + (if raw_is_ipv4 cfg then 16 else 24)) (ip_quads (rcfg_group cfg)) @
     (case rcfg_source cfg of
        Any \<Rightarrow> []
      | Source s \<Rightarrow> words_from (ip_offset + (if raw_is_ipv4 cfg then 12 else 8)) (ip_quads s))"

lemma bpf_ip_filter_closed:
  "bpf_ip_filter cfg ip_offset =
     ld8 ip_offset # and_k 0xf0 #
     jeq (if raw_is_ipv4 cfg then 0x40 else 0x60) (2 * length (filter_words cfg ip_offset) + 1) #
     comparisons (filter_words cfg ip_offset)"
proof -
  have quads: "(\<exists>p. ip_quads a = [p]) \<or> (\<exists>p q r s. ip_quads a = [p, q, r, s])" for a
    by (cases a rule: ip_quads.cases) (metis ip_quads.simps ipv6_quads.cases ipv6_quads.simps)+
  note defs = bpf_ip_filter_def filter_words_def Let_def finish_filter_def add_comparison_def
    bpf_statement_def bpf_codes bpf_instrs
  show ?thesis
  proof (cases "rcfg_source cfg")
    case Any
    then show ?thesis
      using quads [of "rcfg_group cfg"] by (auto simp: defs)
  next
    case (Source s)
    then show ?thesis
      using quads [of "rcfg_group cfg"] quads [of s] by (auto simp: defs)
  qed
qed

lemma bpf_ip_multicast_family_filter_closed:
  "bpf_ip_multicast_family_filter fam ip_offset =
     (case fam of
        Ipv4 \<Rightarrow> [ld8 ip_offset, and_k 0xf0, jeq 0x40 4, ld8 (ip_offset + 16), and_k 0xf0, jeq 0xe0 1,
                 ret (- 1), ret 0]
      | Ipv6 \<Rightarrow> [ld8 ip_offset, and_k 0xf0, jeq 0x60 3, ld8 (ip_offset + 24), jeq 0xff 1,
                 ret (- 1), ret 0])"
  by (cases fam)
     (simp_all add: bpf_ip_multicast_family_filter_def Let_def finish_filter_def bpf_statement_def
       bpf_codes bpf_instrs)

section \<open>Running the programs\<close>

lemma drop_add: "drop pc prog = xs \<Longrightarrow> drop (pc + n) prog = drop n xs"
  by (simp add: add.commute flip: drop_drop)

text \<open>One step of the machine at the head of a remaining program.\<close>

lemma drop_Cons_nth: "drop pc prog = i # rest \<Longrightarrow> pc < length prog \<and> prog ! pc = i \<and> drop (pc + 1) prog = rest"
  by (metis Cons_nth_drop_Suc Suc_eq_plus1 drop_eq_Nil list.discI list.inject not_le_imp_less)

lemma run_steps:
  assumes "classic_bpf run"
  shows "drop pc prog = ld8 k # rest \<Longrightarrow>
      run prog pc a pkt = bpf_load_then (\<lambda>pc a. run prog pc a pkt) pc (load8 pkt k)"
    and "drop pc prog = ld32 k # rest \<Longrightarrow>
      run prog pc a pkt = bpf_load_then (\<lambda>pc a. run prog pc a pkt) pc (load32 pkt k)"
    and "drop pc prog = and_k k # rest \<Longrightarrow> run prog pc a pkt = run prog (pc + 1) (a AND k) pkt"
    and "drop pc prog = ret k # rest \<Longrightarrow> run prog pc a pkt = k"
    and "drop pc prog = jeq k n # rest \<Longrightarrow> n < 256 \<Longrightarrow>
      run prog pc a pkt = run prog (if a = k then pc + 1 else pc + 1 + n) a pkt"
  using assms unfolding classic_bpf_def bpf_instrs
  by (auto dest!: drop_Cons_nth simp: unsigned_of_nat take_bit_nat_eq_self)

lemma run_jeq:
  assumes "classic_bpf run" and "pc < length prog"
    and "prog ! pc = \<lparr>bpf_code = 0x15, bpf_jt = jt, bpf_jf = jf, bpf_k = k\<rparr>"
  shows "run prog pc a pkt = run prog (pc + 1 + unat (if a = k then jt else jf)) a pkt"
  using assms unfolding classic_bpf_def by simp

definition words_loaded :: "bytes \<Rightarrow> (u32 \<times> u32) list \<Rightarrow> bool" where
  "words_loaded pkt cs \<longleftrightarrow> (\<forall>(k, v) \<in> set cs. load32 pkt k = Some v)"

lemma words_loaded_append [simp]:
  "words_loaded pkt (cs @ cs') \<longleftrightarrow> words_loaded pkt cs \<and> words_loaded pkt cs'"
  by (auto simp: words_loaded_def)

lemma words_loaded_list [simp]:
  "words_loaded pkt []"
  "words_loaded pkt ((k, v) # cs) \<longleftrightarrow> load32 pkt k = Some v \<and> words_loaded pkt cs"
  by (auto simp: words_loaded_def)

lemma drop_comparisons_reject:
  "drop (2 * length cs + 1) (comparisons cs) = [ret 0]"
  by (induction cs) auto

lemma run_comparisons:
  assumes "classic_bpf run" and "drop pc prog = comparisons cs" and "length cs < 100"
  shows "run prog pc a pkt = (if words_loaded pkt cs then - 1 else 0)"
  using assms(2,3)
proof (induction cs arbitrary: pc a)
  case Nil
  then show ?case using run_steps(4) [OF assms(1)] by simp
next
  case (Cons c cs)
  obtain k v where c: "c = (k, v)" by fastforce
  have 1: "drop (pc + 1) prog = jeq v (2 * length cs + 1) # comparisons cs"
    using drop_add [OF Cons.prems(1), of 1] c by simp
  have 2: "drop (pc + 2) prog = comparisons cs"
    using drop_add [OF Cons.prems(1), of 2] c by simp
  have "drop (pc + 2 + (2 * length cs + 1)) prog = [ret 0]"
    using drop_add [OF 2, of "2 * length cs + 1"] drop_comparisons_reject [of cs] by (rule trans)
  then have reject: "run prog (pc + 2 + (2 * length cs + 1)) a pkt = 0" for a
    using run_steps(4) [OF assms(1)] by blast
  have "run prog pc a pkt = bpf_load_then (\<lambda>pc a. run prog pc a pkt) pc (load32 pkt k)"
    using run_steps(2) [OF assms(1)] Cons.prems(1) c by auto
  moreover have "run prog (pc + 1) w pkt =
      (if w = v then run prog (pc + 2) w pkt else 0)" for w
    using run_steps(5) [OF assms(1) 1] Cons.prems(2) reject by (simp add: add.assoc)
  ultimately show ?case
    using Cons.IH [OF 2] Cons.prems(2) c by (auto simp: bpf_load_then_def split: option.split)
qed

text \<open>The test of the version nibble that both programs start with.\<close>

lemma run_version_check:
  assumes "classic_bpf run" and "drop pc prog = ld8 k # and_k 0xf0 # jeq v n # rest" and "n < 256"
    and "drop n rest = [ret 0]"
  shows "run prog pc a pkt =
     (case load8 pkt k of
        None \<Rightarrow> 0
      | Some b \<Rightarrow> if b AND 0xf0 = v then run prog (pc + 3) (b AND 0xf0) pkt else 0)"
proof -
  have 1: "drop (pc + 1) prog = and_k 0xf0 # jeq v n # rest" using drop_add [OF assms(2), of 1] by simp
  have 2: "drop (pc + 2) prog = jeq v n # rest" using drop_add [OF assms(2), of 2] by simp
  have 3: "drop (pc + 3) prog = rest" using drop_add [OF assms(2), of 3] by simp
  have "drop (pc + 3 + n) prog = [ret 0]" using drop_add [OF 3] assms(4) by simp
  then have "run prog (pc + 3 + n) b pkt = 0" for b using run_steps(4) [OF assms(1)] by blast
  moreover have "run prog (pc + 2) b pkt = run prog (if b = v then pc + 3 else pc + 3 + n) b pkt" for b
    using run_steps(5) [OF assms(1) 2 assms(3)] by (simp add: numeral_eq_Suc)
  moreover have "run prog (pc + 1) b pkt = run prog (pc + 2) (b AND 0xf0) pkt" for b
    using run_steps(3) [OF assms(1) 1] by simp
  ultimately show ?thesis
    using run_steps(1) [OF assms(1,2)] by (auto simp: bpf_load_then_def split: option.split)
qed

lemma length_words_from [simp]: "length (words_from base qs) = length qs"
  by (induction base qs rule: words_from.induct) auto

lemma length_ip_quads: "length (ip_quads a) \<le> 4"
proof (cases a)
  case (V6 b)
  then show ?thesis by (cases b) simp
qed simp

lemma length_filter_words: "length (filter_words cfg off) < 100"
proof (cases "rcfg_source cfg")
  case (Source s)
  then show ?thesis
    using length_ip_quads [of "rcfg_group cfg"] length_ip_quads [of s] by (simp add: filter_words_def)
qed (use length_ip_quads [of "rcfg_group cfg"] in \<open>simp add: filter_words_def\<close>)

lemma run_bpf_ip_filter:
  assumes "classic_bpf run" and "drop pc prog = bpf_ip_filter cfg off"
  shows "run prog pc a pkt =
     (if (\<exists>b. load8 pkt off = Some b \<and> b AND 0xf0 = (if raw_is_ipv4 cfg then 0x40 else 0x60)) \<and>
         words_loaded pkt (filter_words cfg off) then - 1 else 0)"
proof -
  let ?cs = "filter_words cfg off"
  have closed: "drop pc prog = ld8 off # and_k 0xf0 #
     jeq (if raw_is_ipv4 cfg then 0x40 else 0x60) (2 * length ?cs + 1) # comparisons ?cs"
    using assms(2) bpf_ip_filter_closed by simp
  have "drop (pc + 3) prog = drop 3 (drop pc prog)" by (simp add: add.commute)
  then have rest: "drop (pc + 3) prog = comparisons ?cs" unfolding closed by simp
  show ?thesis
    using run_version_check [OF assms(1) closed _ drop_comparisons_reject]
      run_comparisons [OF assms(1) rest] length_filter_words [of cfg off]
    by (auto split: option.split)
qed

section \<open>What the programs accept\<close>

lemma unat_of_nat_u32: "n < 2 ^ 32 \<Longrightarrow> unat (of_nat n :: u32) = n"
  by (simp add: unsigned_of_nat take_bit_nat_eq_self)

lemma high_nibble_u32: "unat (ucast (b :: u8) AND (0xf0 :: u32)) = unat b div 16 * 16"
proof -
  have m: "(ucast b :: u32) = ucast b AND mask 8"
    by (rule bit_word_eqI) (auto simp: bit_simps dest: bit_imp_le_length)
  have "mask 8 AND (0xf0 :: u32) = mask 8 AND NOT (mask 4)"
    by (simp add: mask_eq_exp_minus_1)
  then have "(ucast b AND mask 8) AND (0xf0 :: u32) = (ucast b AND mask 8) AND NOT (mask 4)"
    by (simp only: and.assoc)
  then have "ucast b AND (0xf0 :: u32) = ucast b AND NOT (mask 4)"
    by (simp only: flip: m)
  moreover have "unat (ucast b :: u32) = unat b"
    using unat_u8 [of b] by (simp add: unsigned_ucast_eq take_bit_nat_eq_self)
  ultimately show ?thesis by (simp add: unat_and_not_mask)
qed

lemma version_nibble:
  assumes "n < 16"
  shows "ucast (b :: u8) AND (0xf0 :: u32) = of_nat (16 * n) \<longleftrightarrow> drop_bit 4 b = of_nat n"
proof -
  have "unat (of_nat (16 * n) :: u32) = 16 * n" by (rule unat_of_nat_u32) (use assms in simp)
  then have "ucast b AND (0xf0 :: u32) = of_nat (16 * n) \<longleftrightarrow> unat b div 16 * 16 = 16 * n"
    by (simp only: word_unat_eq_iff high_nibble_u32)
  also have "\<dots> \<longleftrightarrow> unat b div 16 = n" by auto
  also have "\<dots> \<longleftrightarrow> drop_bit 4 b = of_nat n"
    using assms by (simp add: word_unat_eq_iff unsigned_of_nat take_bit_nat_eq_self drop_bit_eq_div unat_div)
  finally show ?thesis .
qed

lemma parse_ip_datagram_version:
  assumes "parse_ip_datagram d = Some p"
  shows "0 < length d \<and>
     (case pi_destination_ip p of
        V4 a \<Rightarrow> drop_bit 4 (d ! 0) = 4 \<and> 20 \<le> length d \<and> a = quad_at d 16 \<and>
          pi_source_ip p = V4 (quad_at d 12)
      | V6 a \<Rightarrow> drop_bit 4 (d ! 0) = 6 \<and> 40 \<le> length d \<and> a = ipv6_at d 24 \<and>
          pi_source_ip p = V6 (ipv6_at d 8))"
  using assms
  by (auto simp: parse_ip_datagram_def parse_ipv4_datagram_def parse_ipv6_datagram_def Let_def
      split: list.splits if_splits)

lemma u32_offset: "a + m < 2 ^ 32 \<Longrightarrow> unat (of_nat a + of_nat m :: u32) = a + m"
  using unat_of_nat_u32 [of "a + m"] by simp

lemma load_behind:
  assumes "length l + m < 2 ^ 31"
  shows "load8 (l @ d) (of_nat (length l) + of_nat m) =
      (if m < length d then Some (ucast (d ! m)) else None)"
    and "load32 (l @ d) (of_nat (length l) + of_nat m) =
      (if m + 3 < length d then Some (u32_from_be_bytes (quad_at d m)) else None)"
  using assms u32_offset [of "length l" m]
  by (simp_all add: load8_def load32_def quad_at_def nth_append add.assoc)

lemma words_accept:
  assumes "length l < 2 ^ 30" and "base = of_nat (length l) + of_nat m" and "m < 100"
  shows "words_loaded (l @ d) (words_from base (ip_quads (V4 a))) \<longleftrightarrow>
      m + 3 < length d \<and> quad_at d m = a"
    and "words_loaded (l @ d) (words_from base (ip_quads (V6 b))) \<longleftrightarrow>
      m + 15 < length d \<and> ipv6_at d m = b"
proof -
  have load: "load32 (l @ d) (base + of_nat n) =
      (if m + n + 3 < length d then Some (u32_from_be_bytes (quad_at d (m + n))) else None)"
    if "n < 16" for n
  proof -
    have "length l + (m + n) < 2 ^ 31" using assms(1,3) that by simp
    from load_behind(2) [OF this, of d] show ?thesis using assms(2) by (simp add: add.assoc)
  qed
  note loads = load [of 0] load [of 4] load [of 8] load [of 12]
  show "words_loaded (l @ d) (words_from base (ip_quads (V4 a))) \<longleftrightarrow>
      m + 3 < length d \<and> quad_at d m = a"
    using loads by (auto simp: u32_from_be_bytes_inject)
  obtain p q r s where b: "b = Ipv6Addr p q r s" by (cases b)
  show "words_loaded (l @ d) (words_from base (ip_quads (V6 b))) \<longleftrightarrow>
      m + 15 < length d \<and> ipv6_at d m = b"
    using loads by (auto simp: b ipv6_at_def u32_from_be_bytes_inject add.assoc split: if_splits)
qed

lemma version_byte:
  assumes "length l < 2 ^ 30" and "0 < length d"
  shows "(\<exists>b. load8 (l @ d) (of_nat (length l)) = Some b \<and> b AND 0xf0 = (if v4 then 0x40 else 0x60)) \<longleftrightarrow>
     drop_bit 4 (d ! 0) = (if v4 then 4 else 6)"
  using load_behind(1) [of l 0 d] assms version_nibble [of 4 "d ! 0"] version_nibble [of 6 "d ! 0"] by simp

text \<open>
  The filter of a valid configuration, behind any link-layer header, accepts a datagram that
  parses exactly if it matches the configuration.
\<close>

lemma filter_agrees:
  assumes run: "classic_bpf run" and parse: "parse_ip_datagram d = Some p"
    and valid: "raw_validate cfg = Inr ()" and l: "length l < 2 ^ 30"
    and prog: "drop pc prog = bpf_ip_filter cfg (of_nat (length l))"
  shows "run prog pc a (l @ d) = (if packet_matches_config p cfg then - 1 else 0)"
proof -
  note parsed = parse_ip_datagram_version [OF parse]
  have usable: "usable_selection (rcfg_group cfg) (rcfg_source cfg) (rcfg_interface cfg) (rcfg_interface_index cfg)"
    using valid by (simp add: raw_validate_def validate_selection_iff)
  note run_eq = run_bpf_ip_filter [OF run prog, of a "l @ d"]
    version_byte [OF l, of d "raw_is_ipv4 cfg"]
  note words = words_accept [OF l refl, where d = d]
  show ?thesis
  proof (cases "rcfg_group cfg")
    case (V4 g)
    then have v4: "raw_is_ipv4 cfg" "raw_family cfg = Ipv4" by (simp_all add: raw_is_ipv4_def raw_family_def)
    have src: "\<exists>b. s = V4 b" if "rcfg_source cfg = Source s" for s
      using usable that V4 by (cases s) (auto simp: usable_selection_def)
    show ?thesis
      using run_eq parsed v4 V4 src words(1) [where m = 16 and a = g] words(1) [where m = 12]
      by (auto simp: filter_words_def packet_matches_config_def simp del: ip_quads.simps
          split: source_filter.split ip_addr.splits)
  next
    case (V6 g)
    then have v6: "\<not> raw_is_ipv4 cfg" "raw_family cfg = Ipv6" by (simp_all add: raw_is_ipv4_def raw_family_def)
    have src: "\<exists>b. s = V6 b" if "rcfg_source cfg = Source s" for s
      using usable that V6 by (cases s) (auto simp: usable_selection_def)
    show ?thesis
      using run_eq parsed v6 V6 src words(2) [where m = 24 and b = g] words(2) [where m = 8]
      by (auto simp: filter_words_def packet_matches_config_def simp del: ip_quads.simps
          split: source_filter.split ip_addr.splits)
  qed
qed

text \<open>The shared filter accepts exactly the multicast datagrams of its family.\<close>

lemma family_filter_agrees:
  assumes run: "classic_bpf run" and parse: "parse_ip_datagram d = Some p"
  shows "run (bpf_ip_multicast_family_filter fam 0) 0 a d =
     (if (case pi_destination_ip p of V4 _ \<Rightarrow> fam = Ipv4 | V6 _ \<Rightarrow> fam = Ipv6) \<and>
         ip_is_multicast (pi_destination_ip p) then - 1 else 0)"
proof -
  note parsed = parse_ip_datagram_version [OF parse]
  note version = version_byte [of "[]" d "fam = Ipv4", simplified]
  show ?thesis
  proof (cases fam)
    case Ipv4
    let ?prog = "bpf_ip_multicast_family_filter Ipv4 0"
    have prog: "?prog = [ld8 0, and_k 0xf0, jeq 0x40 4, ld8 16, and_k 0xf0, jeq 0xe0 1, ret (- 1), ret 0]"
      by (simp add: bpf_ip_multicast_family_filter_closed)
    have tail: "run ?prog 3 b d =
        (case load8 d 16 of None \<Rightarrow> 0 | Some b \<Rightarrow> if b AND 0xf0 = 0xe0 then - 1 else 0)" for b
      using run_steps(1) [OF run, of 3 ?prog] run_steps(3) [OF run, of 4 ?prog]
        run_steps(5) [OF run, of 5 ?prog] run_steps(4) [OF run, of 6 ?prog] run_steps(4) [OF run, of 7 ?prog]
      by (simp add: prog bpf_load_then_def split: option.split)
    have "(ucast (d ! 16) AND 0xf0 = (0xe0 :: u32)) \<longleftrightarrow> drop_bit 4 (d ! 16) = 14"
      using version_nibble [of 14 "d ! 16"] by simp
    also have "\<dots> \<longleftrightarrow> 224 \<le> d ! 16 \<and> d ! 16 \<le> 239"
      by (auto simp: word_unat_eq_iff drop_bit_eq_div unat_div word_le_nat_alt)
    finally have multicast: "(ucast (d ! 16) AND 0xf0 = (0xe0 :: u32)) \<longleftrightarrow> 224 \<le> d ! 16 \<and> d ! 16 \<le> 239" .
    show ?thesis
      using run_version_check [OF run, of 0 ?prog 0 "0x40" 4] tail version parsed Ipv4 multicast
        load_behind(1) [of "[]" 16 d]
      by (auto simp: prog quad_at_def split: option.splits ip_addr.splits)
  next
    case Ipv6
    let ?prog = "bpf_ip_multicast_family_filter Ipv6 0"
    have prog: "?prog = [ld8 0, and_k 0xf0, jeq 0x60 3, ld8 24, jeq 0xff 1, ret (- 1), ret 0]"
      by (simp add: bpf_ip_multicast_family_filter_closed)
    have tail: "run ?prog 3 b d =
        (case load8 d 24 of None \<Rightarrow> 0 | Some b \<Rightarrow> if b = 0xff then - 1 else 0)" for b
      using run_steps(1) [OF run, of 3 ?prog] run_steps(5) [OF run, of 4 ?prog]
        run_steps(4) [OF run, of 5 ?prog] run_steps(4) [OF run, of 6 ?prog]
      by (simp add: prog bpf_load_then_def split: option.split)
    have multicast: "(ucast (d ! 24) = (0xff :: u32)) \<longleftrightarrow> d ! 24 = 255"
      using unat_u8 [of "d ! 24"] by (simp add: word_unat_eq_iff unsigned_ucast_eq take_bit_nat_eq_self)
    show ?thesis
      using run_version_check [OF run, of 0 ?prog 0 "0x60" 3] tail version parsed Ipv6 multicast
        load_behind(1) [of "[]" 24 d]
      by (auto simp: prog quad_at_def ipv6_at_def split: option.splits ip_addr.splits)
  qed
qed

text \<open>The ethertype test in front of the filter on Ethernet links.\<close>

lemma run_ethernet_filter:
  assumes run: "classic_bpf run" and prog: "apple_subscription_filter ba (DLT_EN10MB ba) cfg = Inr prog"
    and links: "distinct [DLT_RAW ba, DLT_NULL ba, DLT_LOOP ba, DLT_EN10MB ba]" and "14 \<le> length frame"
  shows "run prog 0 0 frame =
     (let ethertype = u16_from_be_bytes (frame ! 12) (frame ! 13) in
      if ethertype = (if raw_is_ipv4 cfg then 0x0800 else 0x86dd) then run prog 9 (ucast ethertype) frame
      else if ethertype \<in> {0x8100, 0x88a8, 0x9100} then - 1 else 0)"
proof -
  define e where "e = u16_from_be_bytes (frame ! 12) (frame ! 13)"
  let ?e = "ucast e :: u32"
  have load: "load16 frame 12 = Some ?e" using assms(4) by (simp add: load16_def e_def)
  have "unat e < 65536" using unsigned_less [of e] by simp
  then have u: "(ucast e = (of_nat n :: u32)) \<longleftrightarrow> e = of_nat n" if "n < 65536" for n
    using that by (simp add: word_unat_eq_iff unsigned_ucast_eq take_bit_nat_eq_self unsigned_of_nat)
  note us = u [of "0x0800"] u [of "0x86dd"] u [of "0x8100"] u [of "0x88a8"] u [of "0x9100"]
  have neq: "DLT_EN10MB ba \<noteq> DLT_RAW ba" "DLT_EN10MB ba \<noteq> DLT_NULL ba" "DLT_EN10MB ba \<noteq> DLT_LOOP ba"
    using links by auto
  have p: "prog =
     [\<lparr>bpf_code = 0x28, bpf_jt = 0, bpf_jf = 0, bpf_k = 12\<rparr>,
      \<lparr>bpf_code = 0x15, bpf_jt = 7, bpf_jf = 0, bpf_k = if raw_is_ipv4 cfg then 0x0800 else 0x86dd\<rparr>,
      jeq 0x8100 1, ret (- 1), jeq 0x88a8 1, ret (- 1), jeq 0x9100 1, ret (- 1), ret 0] @
     bpf_ip_filter cfg 14"
    using prog neq
    by (auto simp: apple_subscription_filter_def Let_def bpf_statement_def bpf_codes jeq_def ret_def)
  have 0: "run prog 0 0 frame = run prog 1 ?e frame"
    using run load unfolding classic_bpf_def by (simp add: p bpf_load_then_def)
  have nth: "prog ! 1 = \<lparr>bpf_code = 0x15, bpf_jt = 7, bpf_jf = 0,
      bpf_k = if raw_is_ipv4 cfg then 0x0800 else 0x86dd\<rparr>" "1 < length prog"
    by (simp_all add: p)
  have two: "Suc (Suc 0) = 2" by simp
  have 1: "run prog 1 ?e frame =
      run prog (if ?e = (if raw_is_ipv4 cfg then 0x0800 else 0x86dd) then 9 else 2) ?e frame"
    using run_jeq [OF run nth(2,1)] by (simp add: two)
  have tail: "run prog 2 w frame =
      (if w = 0x8100 then - 1 else if w = 0x88a8 then - 1 else if w = 0x9100 then - 1 else 0)" for w
    using run_steps(5) [OF run, of 2 prog] run_steps(4) [OF run, of 3 prog]
      run_steps(5) [OF run, of 4 prog] run_steps(4) [OF run, of 5 prog]
      run_steps(5) [OF run, of 6 prog] run_steps(4) [OF run, of 7 prog] run_steps(4) [OF run, of 8 prog]
    by (simp add: p)
  show ?thesis unfolding 0 1 Let_def using us by (simp add: tail flip: e_def)
qed

lemma apple_filter_passes:
  assumes run: "classic_bpf run" and prog: "apple_subscription_filter ba datalink cfg = Inr prog"
    and links: "distinct [DLT_RAW ba, DLT_NULL ba, DLT_LOOP ba, DLT_EN10MB ba]"
    and valid: "raw_validate cfg = Inr ()"
    and strip: "strip_apple_link_layer ba frame datalink = Inr (Some d)"
    and parse: "parse_ip_datagram d = Some p" and matches: "packet_matches_config p cfg"
    and ethertype: "datalink = DLT_EN10MB ba \<Longrightarrow> u16_from_be_bytes (frame ! 12) (frame ! 13) \<in>
      {if raw_is_ipv4 cfg then 0x0800 else 0x86dd, 0x8100, 0x88a8, 0x9100}"
  shows "run prog 0 0 frame = - 1"
proof -
  have exact: "run prog pc a frame = - 1"
    if "drop pc prog = bpf_ip_filter cfg (of_nat n)" "d = drop n frame" "n \<le> length frame" "n < 2 ^ 30" for pc n a
    using filter_agrees [OF run parse valid, of "take n frame" pc prog a] that matches by (simp add: min_absorb2)
  consider (raw) "datalink = DLT_RAW ba" | (loop) "datalink = DLT_NULL ba \<or> datalink = DLT_LOOP ba" "datalink \<noteq> DLT_RAW ba"
    | (eth) "datalink = DLT_EN10MB ba" "datalink \<noteq> DLT_RAW ba" "datalink \<noteq> DLT_NULL ba" "datalink \<noteq> DLT_LOOP ba"
    using prog by (auto simp: apple_subscription_filter_def split: if_splits)
  then show ?thesis
  proof cases
    case raw
    then show ?thesis
      using exact [of 0 0] prog strip by (simp add: apple_subscription_filter_def strip_apple_link_layer_def)
  next
    case loop
    then show ?thesis
      using exact [of 0 4] prog strip
      by (auto simp: apple_subscription_filter_def strip_apple_link_layer_def get_from_def split: if_splits)
  next
    case eth
    then have strip': "strip_ethernet_link_layer frame = Some d"
      using strip by (simp add: strip_apple_link_layer_def)
    then have len: "14 \<le> length frame" by (auto simp: strip_ethernet_link_layer_def split: if_splits)
    let ?e = "u16_from_be_bytes (frame ! 12) (frame ! 13)"
    note step = run_ethernet_filter [OF run _ links len, where cfg = cfg and prog = prog]
    show ?thesis
    proof (cases "?e = (if raw_is_ipv4 cfg then 0x0800 else 0x86dd)")
      case True
      then have "vlan_walk frame ?e 14 = Some (?e, 14)" by (subst vlan_walk.simps) simp
      then have "d = drop 14 frame"
        using strip' True by (simp add: strip_ethernet_link_layer_def get_from_def split: if_splits)
      moreover have "drop 9 prog = bpf_ip_filter cfg 14"
        using prog eth links by (auto simp: apple_subscription_filter_def Let_def)
      ultimately have "run prog 9 a frame = - 1" for a using exact [of 9 14] len by simp
      then show ?thesis using step prog eth True by (simp add: Let_def)
    next
      case False
      then show ?thesis using step prog eth ethertype by (auto simp: Let_def split: if_splits)
    qed
  qed
qed

section \<open>Properties\<close>

text \<open>
  C1. The kernel filter that the Linux and macOS captures install never changes what a
  subscription receives: on every packet that holds a well-formed IP datagram behind a link-layer
  header of fixed length, the filter of a valid configuration accepts exactly if the library's own
  check \<open>packet_matches_config\<close> accepts the parsed datagram.
\<close>

theorem kernel_filter_exact:
  assumes "classic_bpf run" and "raw_validate cfg = Inr ()" and "parse_ip_datagram d = Some p"
    and "length link_header < 2 ^ 30"
  shows "run (bpf_ip_filter cfg (of_nat (length link_header))) 0 0 (link_header @ d) =
     (if packet_matches_config p cfg then - 1 else 0)"
  by (rule filter_agrees [OF assms(1,3,2,4)]) simp

definition sample_datagram :: bytes where
  "sample_datagram =
     ipv4_datagram 5 0 (Quad 0 0 0 0) 1 17 0 (Quad 10 0 0 1) (Quad 232 1 2 3) [] [7, 8]"

definition sample_parsed :: parsed_ip_datagram where
  "sample_parsed =
     \<lparr>pi_source_ip = V4 (Quad 10 0 0 1), pi_destination_ip = V4 (Quad 232 1 2 3),
      pi_protocol = 17, pi_datagram_len = 22\<rparr>"

lemma sample_parse: "parse_ip_datagram sample_datagram = Some sample_parsed"
  using parse_ipv4_roundtrip [of 5 "[]" "[7, 8]" 0 "Quad 0 0 0 0" 1 17 0 "Quad 10 0 0 1" "Quad 232 1 2 3" "[]"]
  by (simp add: sample_datagram_def sample_parsed_def)

lemma sample_valid: "raw_validate (raw_ssm (Quad 232 1 2 3) (Quad 10 0 0 n)) = Inr ()"
  by (simp add: raw_ssm_def raw_ssm_ip_def raw_validate_def validate_selection_iff usable_selection_def
      group_is_ssm_def ipv4_is_unspecified_def ipv4_is_broadcast_def ipv4_UNSPECIFIED_def)

theorem kernel_filter_exact_witness:
  "bpf_interp (bpf_ip_filter (raw_ssm (Quad 232 1 2 3) (Quad 10 0 0 1)) 4) 0 0
       ([2, 0, 0, 0] @ sample_datagram) = - 1 \<and>
   bpf_interp (bpf_ip_filter (raw_ssm (Quad 232 1 2 3) (Quad 10 0 0 2)) 4) 0 0
       ([2, 0, 0, 0] @ sample_datagram) = 0"
  using kernel_filter_exact [OF classic_bpf_interp sample_valid sample_parse, of "[2, 0, 0, 0]" 1]
    kernel_filter_exact [OF classic_bpf_interp sample_valid sample_parse, of "[2, 0, 0, 0]" 2]
  by (simp add: packet_matches_config_def sample_parsed_def raw_ssm_def raw_ssm_ip_def raw_family_def)

text \<open>
  The kernel filter of a shared capture accepts every datagram that some valid subscription
  of its family could match: of the well-formed datagrams it accepts exactly the multicast ones of
  the family.
\<close>

theorem shared_filter_exact:
  assumes "classic_bpf run" and "parse_ip_datagram d = Some p"
  shows "run (bpf_ip_multicast_family_filter fam 0) 0 0 d =
     (if (case pi_destination_ip p of V4 _ \<Rightarrow> fam = Ipv4 | V6 _ \<Rightarrow> fam = Ipv6) \<and>
         ip_is_multicast (pi_destination_ip p) then - 1 else 0)"
  by (rule family_filter_agrees [OF assms])

theorem shared_filter_exact_witness:
  "bpf_interp (bpf_ip_multicast_family_filter Ipv4 0) 0 0 sample_datagram = - 1 \<and>
   bpf_interp (bpf_ip_multicast_family_filter Ipv6 0) 0 0 sample_datagram = 0"
  using shared_filter_exact [OF classic_bpf_interp sample_parse, of Ipv4]
    shared_filter_exact [OF classic_bpf_interp sample_parse, of Ipv6]
  by (simp add: sample_parsed_def word_le_nat_alt)



end
