(* ===== verification/RawPlatform.thy ===== *)
theory RawPlatform
  imports Platform Bpf Sim
begin

unbundle bit_operations_syntax

text \<open>
  The system side of \<open>src/platform/raw.rs\<close>: opening the capture and membership sockets of a raw
  subscription on Linux (packet sockets), macOS (BPF devices) and Windows (raw IP sockets), joining
  and leaving its group, and the receive loops. Lemmas: what a receive delivers on every target,
  that opening leaks no descriptor, and that the loops return.
\<close>

section \<open>State\<close>

text \<open>The state behind the mutex, and whether a panic of another thread has poisoned the mutex.\<close>

record apple_bpf_state =
  abs_buffer :: bytes
  abs_filled_len :: usize
  abs_next_offset :: usize
  abs_poisoned :: bool

text \<open>
  The fields behind \<open>cfg\<close> attributes are present on every target here: the second Windows socket as
  an option, the BPF fields with empty values elsewhere.
\<close>

record raw_receive_socket =
  rr_receive_socket :: socket
  rr_membership_socket :: "socket option"
  rr_windows_udp_receive_socket :: "socket option"
  rr_apple_bpf_state :: apple_bpf_state
  rr_apple_bpf_datalink :: u32
  rr_apple_interface_index :: "u32 option"

definition plain_raw_socket :: "socket \<Rightarrow> socket \<Rightarrow> socket option \<Rightarrow> raw_receive_socket" where
  "plain_raw_socket s m udp =
     \<lparr>rr_receive_socket = s, rr_membership_socket = Some m, rr_windows_udp_receive_socket = udp,
      rr_apple_bpf_state = \<lparr>abs_buffer = [], abs_filled_len = 0, abs_next_offset = 0,
         abs_poisoned = False\<rparr>,
      rr_apple_bpf_datalink = 0, rr_apple_interface_index = None\<rparr>"

record raw_shared_capture_key =
  rk_family :: subscription_address_family
  rk_interface_index :: u32

record raw_captured_datagram =
  cd_datagram :: bytes
  cd_source_ip :: ip_addr
  cd_group :: ip_addr
  cd_ip_protocol :: u8
  cd_ingress_interface_index :: "u32 option"

definition MAX_RAW_FILTERED_READS_PER_RECV :: usize where
  "MAX_RAW_FILTERED_READS_PER_RECV = 256"

definition MAX_IP_DATAGRAM_SIZE :: usize where
  "MAX_IP_DATAGRAM_SIZE = 40 + 65535"

definition raw_filter_budget_exhausted :: "usize \<Rightarrow> usize \<times> bool" where
  "raw_filter_budget_exhausted = budget_exhausted MAX_RAW_FILTERED_READS_PER_RECV"

definition raw_unsupported_text :: string where
  "raw_unsupported_text =
     ''raw multicast receive is currently implemented on Linux, macOS, and Windows''"

section \<open>Interfaces\<close>

definition resolve_ipv4_interface_index :: "'k os \<Rightarrow> ipv4_addr \<Rightarrow> ('k, mcrx_error, u32) io" where
  "resolve_ipv4_interface_index os interface =
     io_bind (io_map_err (\<lambda>e. InterfaceDiscoveryFailed (os_show_error os e)) (os_getifaddrs os))
       (\<lambda>entries k.
          case scan_ifaddrs os (V4 interface) entries k of
            (Some index, k') \<Rightarrow> (Inr index, k')
          | (None, k') \<Rightarrow>
              (Inl (InterfaceDiscoveryFailed
                 (''failed to resolve IPv4 interface address '' @ os_show_ip os (V4 interface) @
                  '' to an interface index'')), k'))"

definition resolve_packet_interface_index ::
  "'k os \<Rightarrow> raw_subscription_config \<Rightarrow> ('k, mcrx_error, u32 option) io" where
  "resolve_packet_interface_index os cfg =
     (case (rcfg_interface_index cfg, rcfg_interface cfg) of
        (Some interface_index, _) \<Rightarrow> io_return (Some interface_index)
      | (None, Some (V6 interface)) \<Rightarrow>
          (if \<not> ipv6_is_unspecified interface
           then io_bind (resolve_ipv6_interface_index os interface) (\<lambda>ix. io_return (Some ix))
           else io_return None)
      | (None, Some (V4 interface)) \<Rightarrow>
          (if \<not> ipv4_is_unspecified interface
           then io_bind (resolve_ipv4_interface_index os interface) (\<lambda>ix. io_return (Some ix))
           else io_return None)
      | _ \<Rightarrow> io_return None)"

definition resolve_linux_packet_interface_index ::
  "'k os \<Rightarrow> raw_subscription_config \<Rightarrow> ('k, mcrx_error, u32) io" where
  "resolve_linux_packet_interface_index os cfg =
     io_bind (resolve_packet_interface_index os cfg) (\<lambda>ix. io_return (unwrap_or ix 0))"

section \<open>Membership sockets\<close>

definition open_membership_socket ::
  "'k os \<Rightarrow> subscription_address_family \<Rightarrow> ('k, mcrx_error, socket) io" where
  "open_membership_socket os fam =
     io_bind
       (case fam of
          Ipv4 \<Rightarrow> io_map_err SocketCreateFailed (os_socket_new os DomainIPV4 TypeDgram ProtocolUDP)
        | Ipv6 \<Rightarrow>
            io_bind (io_map_err SocketCreateFailed (os_socket_new os DomainIPV6 TypeDgram ProtocolUDP))
              (\<lambda>s. owning os s
                 (io_bind (io_map_err SocketOptionFailed (os_set_option os s (SetOnlyV6 True)))
                    (\<lambda>_. io_return s))))
       (\<lambda>s. owning os s
          (io_bind (io_map_err SocketOptionFailed (os_set_option os s (SetNonblocking True))) (\<lambda>_.
           io_bind
             (io_map_err SocketBindFailed
               (case fam of
                  Ipv4 \<Rightarrow> os_bind os s (SocketAddrV4 ipv4_UNSPECIFIED 0)
                | Ipv6 \<Rightarrow> os_bind os s (SocketAddrV6 ipv6_UNSPECIFIED 0 0 0))) (\<lambda>_.
           io_return s))))"

section \<open>Linux: packet sockets\<close>

definition attach_linux_filter :: "'k os \<Rightarrow> socket \<Rightarrow> bpf_program \<Rightarrow> ('k, mcrx_error, unit) io" where
  "attach_linux_filter os s instructions =
     io_map_err SocketOptionFailed (os_set_option os s (AttachFilter instructions))"

definition open_linux_packet_socket_with_filter ::
  "'k os \<Rightarrow> u32 \<Rightarrow> bpf_program \<Rightarrow> ('k, mcrx_error, socket) io" where
  "open_linux_packet_socket_with_filter os interface_index instructions =
     io_bind (io_map_err RawSocketCreateFailed (os_socket_new os DomainPacket TypeDgram ProtocolEthAll))
       (\<lambda>s. owning os s
          (io_bind (attach_linux_filter os s instructions) (\<lambda>_.
           io_bind (io_map_err RawSocketBindFailed (os_bind_packet os s (ucast interface_index))) (\<lambda>_.
           io_return s))))"

definition open_linux_packet_socket ::
  "'k os \<Rightarrow> raw_subscription_config \<Rightarrow> ('k, mcrx_error, socket) io" where
  "open_linux_packet_socket os cfg =
     io_bind (resolve_linux_packet_interface_index os cfg) (\<lambda>ix.
     open_linux_packet_socket_with_filter os ix (bpf_ip_filter cfg 0))"

text \<open>Both Linux openers: the packet socket is dropped when the membership socket fails.\<close>

definition with_membership_socket ::
  "'k os \<Rightarrow> subscription_address_family \<Rightarrow> ('k, mcrx_error, socket) io \<Rightarrow>
   ('k, mcrx_error, raw_receive_socket) io" where
  "with_membership_socket os fam opening =
     io_bind opening (\<lambda>s. owning os s
       (io_bind (open_membership_socket os fam) (\<lambda>m. io_return (plain_raw_socket s m None))))"

definition open_raw_socket_linux ::
  "'k os \<Rightarrow> raw_subscription_config \<Rightarrow> ('k, mcrx_error, raw_receive_socket) io" where
  "open_raw_socket_linux os cfg =
     io_bind (io_lift (raw_validate cfg)) (\<lambda>_.
     with_membership_socket os (raw_family cfg) (open_linux_packet_socket os cfg))"

section \<open>Linux: the shared capture\<close>

definition shared_unsupported :: mcrx_error where
  "shared_unsupported =
     RawPacketReceiveUnsupported ''shared raw capture is currently implemented on Linux only''"

definition shared_raw_capture_key ::
  "'k os \<Rightarrow> raw_subscription_config \<Rightarrow> ('k, mcrx_error, raw_shared_capture_key) io" where
  "shared_raw_capture_key os cfg =
     (if os_target os = Linux then
        io_bind (io_lift (raw_validate cfg)) (\<lambda>_.
        io_bind (resolve_linux_packet_interface_index os cfg) (\<lambda>ix.
        io_return \<lparr>rk_family = raw_family cfg, rk_interface_index = ix\<rparr>))
      else io_throw shared_unsupported)"

definition open_shared_raw_socket ::
  "'k os \<Rightarrow> raw_shared_capture_key \<Rightarrow> ('k, mcrx_error, raw_receive_socket) io" where
  "open_shared_raw_socket os key =
     (if os_target os = Linux then
        with_membership_socket os (rk_family key)
          (open_linux_packet_socket_with_filter os (rk_interface_index key)
             (bpf_ip_multicast_family_filter (rk_family key) 0))
      else io_throw shared_unsupported)"

definition ingress_index :: "packet_msg \<Rightarrow> u32 option" where
  "ingress_index msg = (if 0 < sint (pm_ifindex msg) then Some (ucast (pm_ifindex msg)) else None)"

text \<open>One turn of the loop of \<open>recv_shared_raw_datagram\<close>.\<close>

definition recv_shared_body ::
  "'k os \<Rightarrow> socket \<Rightarrow> raw_shared_capture_key \<Rightarrow> 'k \<Rightarrow>
   (mcrx_error + raw_captured_datagram option) option \<times> 'k" where
  "recv_shared_body os s key k =
     (case os_recvfrom os s MAX_IP_DATAGRAM_SIZE k of
        (Inl err, k') \<Rightarrow>
          (Some (if err_kind err = WouldBlock then Inr None else Inl (ReceiveFailed err)), k')
      | (Inr msg, k') \<Rightarrow>
          (case parse_ip_datagram (pm_datagram msg) of
             None \<Rightarrow> (None, k')
           | Some parsed \<Rightarrow>
               (if \<not> (case (rk_family key, pi_destination_ip parsed) of
                         (Ipv4, V4 _) \<Rightarrow> True | (Ipv6, V6 _) \<Rightarrow> True | _ \<Rightarrow> False)
                then (None, k')
                else (Some (Inr (Some
                  \<lparr>cd_datagram = take (pi_datagram_len parsed) (pm_datagram msg),
                   cd_source_ip = pi_source_ip parsed, cd_group = pi_destination_ip parsed,
                   cd_ip_protocol = pi_protocol parsed,
                   cd_ingress_interface_index = ingress_index msg\<rparr>)), k'))))"

definition recv_shared_raw_datagram ::
  "'k os \<Rightarrow> raw_receive_socket \<Rightarrow> raw_shared_capture_key \<Rightarrow>
   ('k, mcrx_error, raw_captured_datagram option) io" where
  "recv_shared_raw_datagram os rr key =
     (if os_target os = Linux then
        filtered_loop MAX_RAW_FILTERED_READS_PER_RECV (Inr None)
          (recv_shared_body os (rr_receive_socket rr) key) 0
      else io_throw shared_unsupported)"

section \<open>macOS: BPF devices\<close>

record apple_bpf_socket =
  as_socket :: socket
  as_buffer_len :: usize
  as_datalink :: u32

definition interface_name_from_index :: "'k os \<Rightarrow> u32 \<Rightarrow> ('k, mcrx_error, string) io" where
  "interface_name_from_index os interface_index =
     (\<lambda>k. case os_if_indextoname os interface_index k of
        (None, k') \<Rightarrow>
          (Inl (InterfaceDiscoveryFailed
             (''failed to resolve interface index '' @ dec_digits (unat interface_index) @
              '' to an interface name'')), k')
      | (Some name, k') \<Rightarrow> (Inr name, k'))"

text \<open>The loop over the device numbers.\<close>

fun open_bpf_devices :: "'k os \<Rightarrow> bpf_abi \<Rightarrow> nat list \<Rightarrow> ('k, mcrx_error, socket) io" where
  "open_bpf_devices os ba [] k =
     (Inl (RawSocketCreateFailed (CustomError KindNotFound ''no available /dev/bpf device found'')), k)"
| "open_bpf_devices os ba (index # rest) k =
     (case os_open_bpf os index k of
        (Inr s, k') \<Rightarrow> (Inr s, k')
      | (Inl err, k') \<Rightarrow>
          (if err_kind err = PermissionDenied then (Inl (RawSocketCreateFailed err), k')
           else if raw_os_error err \<noteq> Some (ba_EBUSY ba) \<and> err_kind err \<noteq> KindNotFound
           then (Inl (RawSocketCreateFailed err), k')
           else open_bpf_devices os ba rest k'))"

definition open_available_bpf_device :: "'k os \<Rightarrow> bpf_abi \<Rightarrow> ('k, mcrx_error, socket) io" where
  "open_available_bpf_device os ba = open_bpf_devices os ba [0..<256]"

definition set_fd_nonblocking :: "'k os \<Rightarrow> bpf_abi \<Rightarrow> socket \<Rightarrow> ('k, mcrx_error, unit) io" where
  "set_fd_nonblocking os ba s =
     io_bind (io_map_err SocketOptionFailed (os_get_u32 os s GetStatusFlags)) (\<lambda>flags.
     io_map_err SocketOptionFailed (os_set_option os s (SetStatusFlags (flags OR ba_O_NONBLOCK ba))))"

definition bind_bpf_to_interface :: "'k os \<Rightarrow> bpf_abi \<Rightarrow> socket \<Rightarrow> string \<Rightarrow> ('k, mcrx_error, unit) io" where
  "bind_bpf_to_interface os ba s interface_name =
     (if ba_IFNAMSIZ ba < length interface_name + 1
      then io_throw (InterfaceDiscoveryFailed
             (''interface name '' @ interface_name @ '' is too long for BPF''))
      else io_map_err RawSocketBindFailed (os_set_option os s (BpfSetInterface interface_name)))"

definition set_bpf_u32 :: "'k os \<Rightarrow> socket \<Rightarrow> sock_request \<Rightarrow> ('k, mcrx_error, unit) io" where
  "set_bpf_u32 os s request = io_map_err SocketOptionFailed (os_set_option os s request)"

definition get_bpf_u32 :: "'k os \<Rightarrow> socket \<Rightarrow> get_request \<Rightarrow> ('k, mcrx_error, u32) io" where
  "get_bpf_u32 os s request = io_map_err SocketOptionFailed (os_get_u32 os s request)"

definition attach_apple_subscription_filter ::
  "'k os \<Rightarrow> bpf_abi \<Rightarrow> socket \<Rightarrow> u32 \<Rightarrow> raw_subscription_config \<Rightarrow> ('k, mcrx_error, unit) io" where
  "attach_apple_subscription_filter os ba s datalink cfg =
     io_bind (io_lift (apple_subscription_filter ba datalink cfg)) (\<lambda>instructions.
     io_map_err SocketOptionFailed (os_set_option os s (BpfSetFilter instructions)))"

definition open_apple_bpf_socket ::
  "'k os \<Rightarrow> bpf_abi \<Rightarrow> u32 \<Rightarrow> raw_subscription_config \<Rightarrow> ('k, mcrx_error, apple_bpf_socket) io" where
  "open_apple_bpf_socket os ba interface_index cfg =
     io_bind (interface_name_from_index os interface_index) (\<lambda>interface_name.
     io_bind (open_available_bpf_device os ba) (\<lambda>s. owning os s
       (io_bind (set_fd_nonblocking os ba s) (\<lambda>_.
        io_bind (bind_bpf_to_interface os ba s interface_name) (\<lambda>_.
        io_bind (set_bpf_u32 os s (BpfImmediate 1)) (\<lambda>_.
        io_bind (set_bpf_u32 os s (BpfSeeSent 1)) (\<lambda>_.
        io_bind (get_bpf_u32 os s BpfBufferLen) (\<lambda>buffer_len.
        io_bind (get_bpf_u32 os s BpfDatalink) (\<lambda>datalink.
        io_bind (attach_apple_subscription_filter os ba s datalink cfg) (\<lambda>_.
        io_return \<lparr>as_socket = s, as_buffer_len = unat buffer_len, as_datalink = datalink\<rparr>))))))))))"

definition open_raw_socket_macos ::
  "'k os \<Rightarrow> bpf_abi \<Rightarrow> raw_subscription_config \<Rightarrow> ('k, mcrx_error, raw_receive_socket) io" where
  "open_raw_socket_macos os ba cfg =
     io_bind (io_lift (raw_validate cfg)) (\<lambda>_.
     io_bind (resolve_packet_interface_index os cfg) (\<lambda>ix.
     io_bind (io_lift (ok_or ix (RawPacketReceiveUnsupported
         ''macOS raw multicast receive requires an explicit interface address or index''))) (\<lambda>interface_index.
     io_bind (open_apple_bpf_socket os ba interface_index cfg) (\<lambda>b. owning os (as_socket b)
       (io_bind (open_membership_socket os (raw_family cfg)) (\<lambda>m.
        io_return
          \<lparr>rr_receive_socket = as_socket b, rr_membership_socket = Some m,
           rr_windows_udp_receive_socket = None,
           rr_apple_bpf_state =
             \<lparr>abs_buffer = replicate (as_buffer_len b) 0, abs_filled_len = 0, abs_next_offset = 0,
         abs_poisoned = False\<rparr>,
           rr_apple_bpf_datalink = as_datalink b,
           rr_apple_interface_index = Some interface_index\<rparr>))))))"

section \<open>Windows: raw IP sockets\<close>

definition windows_raw_capture_ioctl :: "'k os \<Rightarrow> socket \<Rightarrow> bool \<Rightarrow> ('k, mcrx_error, unit) io" where
  "windows_raw_capture_ioctl os s multicast_only =
     io_map_err SocketIoctlFailed (os_set_option os s (ReceiveAll multicast_only))"

definition enable_windows_raw_capture :: "'k os \<Rightarrow> socket \<Rightarrow> ('k, mcrx_error, unit) io" where
  "enable_windows_raw_capture os s =
     (\<lambda>k. case windows_raw_capture_ioctl os s True k of
        (Inr (), k') \<Rightarrow> (Inr (), k')
      | (Inl _, k') \<Rightarrow> windows_raw_capture_ioctl os s False k')"

definition open_windows_raw_socket :: "'k os \<Rightarrow> ipv4_addr \<Rightarrow> ('k, mcrx_error, socket) io" where
  "open_windows_raw_socket os interface =
     io_bind (io_map_err RawSocketCreateFailed (os_socket_new os DomainIPV4 TypeRaw ProtocolIP))
       (\<lambda>s. owning os s
          (io_bind (io_map_err RawSocketBindFailed (os_bind os s (SocketAddrV4 interface 0))) (\<lambda>_.
           io_bind (io_map_err SocketOptionFailed (os_set_option os s (SetNonblocking True))) (\<lambda>_.
           io_bind (enable_windows_raw_capture os s) (\<lambda>_.
           io_return s)))))"

definition open_windows_udp_raw_socket :: "'k os \<Rightarrow> ipv4_addr \<Rightarrow> ('k, mcrx_error, socket) io" where
  "open_windows_udp_raw_socket os interface =
     io_bind (io_map_err RawSocketCreateFailed (os_socket_new os DomainIPV4 TypeRaw ProtocolUDP))
       (\<lambda>s. owning os s
          (io_bind (io_map_err RawSocketBindFailed (os_bind os s (SocketAddrV4 interface 0))) (\<lambda>_.
           io_bind (io_map_err SocketOptionFailed (os_set_option os s (SetNonblocking True))) (\<lambda>_.
           io_return s))))"

definition open_raw_socket_windows ::
  "'k os \<Rightarrow> raw_subscription_config \<Rightarrow> ('k, mcrx_error, raw_receive_socket) io" where
  "open_raw_socket_windows os cfg =
     io_bind (io_lift (raw_validate cfg)) (\<lambda>_.
     if raw_is_ipv6 cfg
     then io_throw (RawPacketReceiveUnsupported
            ''Windows raw multicast receive currently supports IPv4 only'')
     else
       (case (case rcfg_interface cfg of
                Some (V4 interface) \<Rightarrow>
                  if \<not> ipv4_is_unspecified interface then Some interface else None
              | _ \<Rightarrow> None) of
          None \<Rightarrow> io_throw (RawPacketReceiveUnsupported
            ''Windows raw IPv4 receive requires an explicit local IPv4 interface address'')
        | Some interface \<Rightarrow>
            io_bind (open_windows_raw_socket os interface) (\<lambda>s. owning os s
              (io_bind (open_windows_udp_raw_socket os interface) (\<lambda>udp. owning os udp
                (io_bind (open_membership_socket os (raw_family cfg)) (\<lambda>m.
                 io_return (plain_raw_socket s m (Some udp)))))))))"

definition open_raw_socket ::
  "'k os \<Rightarrow> bpf_abi \<Rightarrow> raw_subscription_config \<Rightarrow> ('k, mcrx_error, raw_receive_socket) io" where
  "open_raw_socket os ba cfg =
     (if os_target os = Linux then open_raw_socket_linux os cfg
      else if os_target os = Apple then open_raw_socket_macos os ba cfg
      else if os_target os = WindowsTarget then open_raw_socket_windows os cfg
      else io_throw (RawPacketReceiveUnsupported raw_unsupported_text))"

section \<open>Joining and leaving\<close>

definition no_membership_socket :: mcrx_error where
  "no_membership_socket =
     RawPacketReceiveUnsupported
       ''raw multicast membership sockets are not available on this platform''"

text \<open>\<open>let _ = m;\<close>: the call is made and its result ignored. \<open>m.map_err\<close> keeps it.\<close>

definition join_then_undo ::
  "('k, mcrx_error, unit) io \<Rightarrow> ('k, mcrx_error, unit) io \<Rightarrow> ('k, mcrx_error, unit) io" where
  "join_then_undo m undo =
     (\<lambda>k. case m k of
        (Inr u, k') \<Rightarrow> (Inr u, k')
      | (Inl err, k') \<Rightarrow> (Inl err, snd (undo k')))"

definition join_windows_raw_receive_sockets ::
  "'k os \<Rightarrow> raw_receive_socket \<Rightarrow> subscription_config \<Rightarrow> ('k, mcrx_error, unit) io" where
  "join_windows_raw_receive_sockets os rr cfg =
     (if family cfg \<noteq> Ipv4 then io_return ()
      else
        (case rr_windows_udp_receive_socket rr of
           None \<Rightarrow> io_return ()
         | Some udp \<Rightarrow>
             io_bind (join_multicast_group os (rr_receive_socket rr) cfg) (\<lambda>_.
             join_then_undo (join_multicast_group os udp cfg)
               (leave_multicast_group os (rr_receive_socket rr) cfg))))"

definition leave_windows_raw_receive_sockets ::
  "'k os \<Rightarrow> raw_receive_socket \<Rightarrow> subscription_config \<Rightarrow> ('k, mcrx_error, unit) io" where
  "leave_windows_raw_receive_sockets os rr cfg =
     (if family cfg \<noteq> Ipv4 then io_return ()
      else
        (case rr_windows_udp_receive_socket rr of
           None \<Rightarrow> io_return ()
         | Some udp \<Rightarrow>
             (\<lambda>k. case leave_multicast_group os (rr_receive_socket rr) cfg k of
                (primary, k1) \<Rightarrow>
                  (case leave_multicast_group os udp cfg k1 of
                     (udp_result, k2) \<Rightarrow>
                       (case (primary, udp_result) of
                          (Inl err, _) \<Rightarrow> (Inl err, k2)
                        | (Inr (), Inl err) \<Rightarrow> (Inl err, k2)
                        | (Inr (), Inr ()) \<Rightarrow> (Inr (), k2))))))"

definition join_raw_multicast_group ::
  "'k os \<Rightarrow> raw_receive_socket \<Rightarrow> raw_subscription_config \<Rightarrow> ('k, mcrx_error, unit) io" where
  "join_raw_multicast_group os rr cfg =
     io_bind (io_lift (ok_or (rr_membership_socket rr) no_membership_socket)) (\<lambda>membership_socket.
     let compat_config = membership_compat_config cfg in
     io_bind (join_multicast_group os membership_socket compat_config) (\<lambda>_.
     if os_target os = WindowsTarget
     then join_then_undo (join_windows_raw_receive_sockets os rr compat_config)
            (leave_multicast_group os membership_socket compat_config)
     else io_return ()))"

definition leave_raw_multicast_group ::
  "'k os \<Rightarrow> raw_receive_socket \<Rightarrow> raw_subscription_config \<Rightarrow> ('k, mcrx_error, unit) io" where
  "leave_raw_multicast_group os rr cfg =
     io_bind (io_lift (ok_or (rr_membership_socket rr) no_membership_socket)) (\<lambda>membership_socket.
     let compat_config = membership_compat_config cfg in
     io_bind (leave_multicast_group os membership_socket compat_config) (\<lambda>_.
     if os_target os = WindowsTarget
     then leave_windows_raw_receive_sockets os rr compat_config
     else io_return ()))"

section \<open>Receiving\<close>

definition raw_metadata ::
  "raw_subscription_config \<Rightarrow> parsed_ip_datagram \<Rightarrow> u32 option \<Rightarrow> receive_metadata" where
  "raw_metadata cfg parsed ingress =
     empty_metadata
       \<lparr>md_configured_interface := rcfg_interface cfg,
        md_configured_interface_index := rcfg_interface_index cfg,
        md_destination_local_ip := Some (pi_destination_ip parsed),
        md_ingress_interface_index := ingress\<rparr>"

definition receive_error :: "io_error \<Rightarrow> mcrx_error + raw_packet option" where
  "receive_error err = (if err_kind err = WouldBlock then Inr None else Inl (ReceiveFailed err))"

text \<open>One turn of the Linux loop.\<close>

definition recv_raw_body_linux ::
  "'k os \<Rightarrow> socket \<Rightarrow> subscription_id \<Rightarrow> raw_subscription_config \<Rightarrow> 'k \<Rightarrow>
   (mcrx_error + raw_packet option) option \<times> 'k" where
  "recv_raw_body_linux os s i cfg k =
     (case os_recvfrom os s MAX_IP_DATAGRAM_SIZE k of
        (Inl err, k') \<Rightarrow> (Some (receive_error err), k')
      | (Inr msg, k') \<Rightarrow>
          (case parse_ip_datagram (pm_datagram msg) of
             None \<Rightarrow> (None, k')
           | Some parsed \<Rightarrow>
               (if \<not> packet_matches_config parsed cfg then (None, k')
                else (Some (Inr (Some (raw_packet_from_parts i (pm_datagram msg) parsed
                        (raw_metadata cfg parsed (ingress_index msg))))), k'))))"

definition recv_raw_packet_linux ::
  "'k os \<Rightarrow> socket \<Rightarrow> subscription_id \<Rightarrow> raw_subscription_config \<Rightarrow>
   ('k, mcrx_error, raw_packet option) io" where
  "recv_raw_packet_linux os s i cfg =
     filtered_loop MAX_RAW_FILTERED_READS_PER_RECV (Inr None) (recv_raw_body_linux os s i cfg) 0"

text \<open>One turn of the Windows loop.\<close>

definition recv_raw_body_windows ::
  "'k os \<Rightarrow> socket \<Rightarrow> subscription_id \<Rightarrow> raw_subscription_config \<Rightarrow> u8 option \<Rightarrow> 'k \<Rightarrow>
   (mcrx_error + raw_packet option) option \<times> 'k" where
  "recv_raw_body_windows os s i cfg excluded_protocol k =
     (case os_read os s MAX_IP_DATAGRAM_SIZE k of
        (Inl err, k') \<Rightarrow> (Some (receive_error err), k')
      | (Inr datagram, k') \<Rightarrow>
          (case parse_ip_datagram datagram of
             None \<Rightarrow> (None, k')
           | Some parsed \<Rightarrow>
               (if excluded_protocol = Some (pi_protocol parsed) then (None, k')
                else if \<not> packet_matches_config parsed cfg then (None, k')
                else (Some (Inr (Some (raw_packet_from_parts i datagram parsed
                        (raw_metadata cfg parsed None)))), k'))))"

definition recv_raw_packet_from_windows_socket ::
  "'k os \<Rightarrow> socket \<Rightarrow> subscription_id \<Rightarrow> raw_subscription_config \<Rightarrow> u8 option \<Rightarrow>
   ('k, mcrx_error, raw_packet option) io" where
  "recv_raw_packet_from_windows_socket os s i cfg excluded_protocol =
     filtered_loop MAX_RAW_FILTERED_READS_PER_RECV (Inr None)
       (recv_raw_body_windows os s i cfg excluded_protocol) 0"

definition recv_raw_packet_windows ::
  "'k os \<Rightarrow> raw_receive_socket \<Rightarrow> subscription_id \<Rightarrow> raw_subscription_config \<Rightarrow>
   ('k, mcrx_error, raw_packet option) io" where
  "recv_raw_packet_windows os rr i cfg =
     io_bind (recv_raw_packet_from_windows_socket os (rr_receive_socket rr) i cfg (Some 17)) (\<lambda>first.
     case first of
       Some p \<Rightarrow> io_return (Some p)
     | None \<Rightarrow>
         (case rr_windows_udp_receive_socket rr of
            None \<Rightarrow> io_return None
          | Some udp \<Rightarrow> recv_raw_packet_from_windows_socket os udp i cfg None))"

text \<open>
  The macOS loop. A buffer without a matching packet counts as a filtered read; reading a new
  buffer does not. The fuel bounds the turns: twice the budget is enough as long as a successful
  read returns at least one byte (\<open>apple_receive_returns\<close>). \<open>None\<close> is a loop out of fuel.
\<close>

fun apple_recv_loop ::
  "nat \<Rightarrow> 'k os \<Rightarrow> bpf_abi \<Rightarrow> raw_receive_socket \<Rightarrow> subscription_id \<Rightarrow> raw_subscription_config \<Rightarrow>
   usize \<Rightarrow> 'k \<Rightarrow> ((mcrx_error + raw_packet option) \<times> raw_receive_socket \<times> 'k) option" where
  "apple_recv_loop 0 os ba rr i cfg filtered k = None"
| "apple_recv_loop (Suc fuel) os ba rr i cfg filtered k =
     (let st = rr_apple_bpf_state rr in
      if abs_poisoned st
      then Some (Inl (ReceiveFailed (CustomError KindOther ''macOS BPF buffer mutex is poisoned'')), rr, k)
      else if abs_next_offset st < abs_filled_len st then
        (case next_matching_apple_bpf_packet ba (take (abs_filled_len st) (abs_buffer st))
                (abs_next_offset st) (rr_apple_bpf_datalink rr) (rr_apple_interface_index rr) i cfg of
           None \<Rightarrow> None
         | Some (Inl err) \<Rightarrow> Some (Inl err, rr, k)
         | Some (Inr (Some p, next_offset)) \<Rightarrow>
             Some (Inr (Some p), rr\<lparr>rr_apple_bpf_state := st\<lparr>abs_next_offset := next_offset\<rparr>\<rparr>, k)
         | Some (Inr (None, next_offset)) \<Rightarrow>
             (let rr' = rr\<lparr>rr_apple_bpf_state := st\<lparr>abs_filled_len := 0, abs_next_offset := 0\<rparr>\<rparr> in
              case raw_filter_budget_exhausted filtered of
                (filtered', True) \<Rightarrow> Some (Inr None, rr', k)
              | (filtered', False) \<Rightarrow> apple_recv_loop fuel os ba rr' i cfg filtered' k))
      else
        (case os_read os (rr_receive_socket rr) (length (abs_buffer st)) k of
           (Inl err, k') \<Rightarrow> Some (receive_error err, rr, k')
         | (Inr bs, k') \<Rightarrow>
             apple_recv_loop fuel os ba
               (rr\<lparr>rr_apple_bpf_state := st
                  \<lparr>abs_buffer := bs @ drop (length bs) (abs_buffer st),
                   abs_filled_len := length bs, abs_next_offset := 0\<rparr>\<rparr>)
               i cfg filtered k'))"

definition recv_raw_packet_macos ::
  "'k os \<Rightarrow> bpf_abi \<Rightarrow> raw_receive_socket \<Rightarrow> subscription_id \<Rightarrow> raw_subscription_config \<Rightarrow> 'k \<Rightarrow>
   (mcrx_error + raw_packet option) \<times> raw_receive_socket \<times> 'k" where
  "recv_raw_packet_macos os ba rr i cfg k =
     (case apple_recv_loop (2 * MAX_RAW_FILTERED_READS_PER_RECV) os ba rr i cfg 0 k of
        Some r \<Rightarrow> r
      | None \<Rightarrow> (Inr None, rr, k))"

definition recv_raw_packet ::
  "'k os \<Rightarrow> bpf_abi \<Rightarrow> raw_receive_socket \<Rightarrow> subscription_id \<Rightarrow> raw_subscription_config \<Rightarrow> 'k \<Rightarrow>
   (mcrx_error + raw_packet option) \<times> raw_receive_socket \<times> 'k" where
  "recv_raw_packet os ba rr i cfg k =
     (if os_target os = Linux then
        (case recv_raw_packet_linux os (rr_receive_socket rr) i cfg k of (r, k') \<Rightarrow> (r, rr, k'))
      else if os_target os = Apple then recv_raw_packet_macos os ba rr i cfg k
      else if os_target os = WindowsTarget then
        (case recv_raw_packet_windows os rr i cfg k of (r, k') \<Rightarrow> (r, rr, k'))
      else (Inl (RawPacketReceiveUnsupported raw_unsupported_text), rr, k))"

section \<open>Opening leaks nothing\<close>

definition rr_sockets :: "raw_receive_socket \<Rightarrow> socket set" where
  "rr_sockets rr =
     insert (rr_receive_socket rr)
       (set_option (rr_membership_socket rr) \<union> set_option (rr_windows_udp_receive_socket rr))"

lemma plain_raw_socket_select [simp]:
  "rr_receive_socket (plain_raw_socket s m udp) = s"
  "rr_membership_socket (plain_raw_socket s m udp) = Some m"
  "rr_windows_udp_receive_socket (plain_raw_socket s m udp) = udp"
  by (simp_all add: plain_raw_socket_def)

lemma keeps_resolve_packet_interface_index [keeps_intros]:
  assumes "accounts os opens"
  shows "keeps opens (resolve_packet_interface_index os cfg)"
proof -
  have "keeps opens (\<lambda>k. case scan_ifaddrs os (V4 interface) entries k of
            (Some index, k') \<Rightarrow> (Inr index, k') | (None, k') \<Rightarrow> (Inl e, k'))"
    for interface entries and e :: mcrx_error
    using keeps_run [OF keeps_scan_ifaddrs [OF assms]]
    by (fastforce simp: keeps_def split: option.splits prod.splits)
  then have "keeps opens (resolve_ipv4_interface_index os interface)" for interface
    unfolding resolve_ipv4_interface_index_def using assms by (auto intro!: keeps_intros)
  then show ?thesis
    unfolding resolve_packet_interface_index_def
    using assms by (auto intro!: keeps_intros split: option.split ip_addr.split)
qed

lemma keeps_resolve_linux_packet_interface_index [keeps_intros]:
  "accounts os opens \<Longrightarrow> keeps opens (resolve_linux_packet_interface_index os cfg)"
  unfolding resolve_linux_packet_interface_index_def by (intro keeps_intros)

lemma acquires_open_membership_socket:
  assumes acc: "accounts os opens"
  shows "acquires opens (\<lambda>s. {s}) (open_membership_socket os fam)"
proof -
  have "acquires opens (\<lambda>s. {s})
     (case fam of
        Ipv4 \<Rightarrow> io_map_err SocketCreateFailed (os_socket_new os DomainIPV4 TypeDgram ProtocolUDP)
      | Ipv6 \<Rightarrow>
          io_bind (io_map_err SocketCreateFailed (os_socket_new os DomainIPV6 TypeDgram ProtocolUDP))
            (\<lambda>s. owning os s
               (io_bind (io_map_err SocketOptionFailed (os_set_option os s (SetOnlyV6 True)))
                  (\<lambda>_. io_return s))))"
  proof (cases fam)
    case Ipv4
    then show ?thesis by (simp add: acquires_new [OF acc])
  next
    case Ipv6
    have "acquires opens (\<lambda>s. {s})
        (io_bind (io_map_err SocketCreateFailed (os_socket_new os DomainIPV6 TypeDgram ProtocolUDP))
          (\<lambda>s. owning os s
             (io_bind (io_map_err SocketOptionFailed (os_set_option os s (SetOnlyV6 True)))
                (\<lambda>_. io_return s))))"
      by (rule acquires_owning [OF acc acquires_new [OF acc] acquires_keeps, where own = "\<lambda>_. {}"])
         (auto intro!: keeps_intros acc simp: io_eqs)
    with Ipv6 show ?thesis by simp
  qed
  then show ?thesis
    unfolding open_membership_socket_def
    by (rule acquires_owning [OF acc _ acquires_keeps, where own = "\<lambda>_. {}"])
       (cases fam, auto intro!: keeps_intros acc simp: io_eqs)
qed

lemma acquires_with_membership:
  assumes "accounts os opens" and "acquires opens (\<lambda>s. {s}) opening"
  shows "acquires opens rr_sockets (with_membership_socket os fam opening)"
  unfolding with_membership_socket_def
  by (rule acquires_owning [OF assms, where own = "\<lambda>rr. set_option (rr_membership_socket rr)"])
     (auto intro!: acquires_map acquires_open_membership_socket assms(1)
       simp: io_eqs rr_sockets_def)

lemma acquires_linux_packet_socket:
  assumes acc: "accounts os opens"
  shows "acquires opens (\<lambda>s. {s}) (open_linux_packet_socket_with_filter os ix instructions)"
  unfolding open_linux_packet_socket_with_filter_def attach_linux_filter_def
  by (rule acquires_owning [OF acc acquires_new [OF acc] acquires_keeps, where own = "\<lambda>_. {}"])
     (auto intro!: keeps_intros acc simp: io_eqs)

lemma acquires_open_bpf_devices:
  assumes acc: "accounts os opens"
  shows "acquires opens (\<lambda>s. {s}) (open_bpf_devices os ba ns)"
proof (induction ns)
  case Nil
  then show ?case by (simp add: acquires_def)
next
  case (Cons n ns)
  then show ?case
    using accounts_new(3,4) [OF acc, of n]
    by (auto simp: acquires_def split: prod.splits sum.splits if_splits; metis)
qed

lemma acquires_open_apple_bpf_socket:
  assumes acc: "accounts os opens"
  shows "acquires opens (\<lambda>b. {as_socket b}) (open_apple_bpf_socket os ba ix cfg)"
proof -
  have "keeps opens (interface_name_from_index os ix)"
    using keeps_accounts(16) [OF acc, of ix]
    by (auto simp: keeps_def interface_name_from_index_def split: prod.splits option.splits) (metis snd_conv)+
  then show ?thesis
    unfolding open_apple_bpf_socket_def
    by (rule acquires_bind_keeps)
       (rule acquires_owning [OF acc _ acquires_keeps, where own = "\<lambda>_. {}"],
        auto intro!: acquires_open_bpf_devices keeps_intros acc simp: io_eqs open_available_bpf_device_def
          set_fd_nonblocking_def bind_bpf_to_interface_def set_bpf_u32_def get_bpf_u32_def
          attach_apple_subscription_filter_def)
qed

lemma keeps_enable_windows_raw_capture [keeps_intros]:
  "accounts os opens \<Longrightarrow> keeps opens (enable_windows_raw_capture os s)"
  using keeps_accounts(1) [of os opens s "ReceiveAll True"] keeps_accounts(1) [of os opens s "ReceiveAll False"]
  unfolding enable_windows_raw_capture_def windows_raw_capture_ioctl_def
  by (auto simp: keeps_def io_map_err_def split: prod.splits sum.splits unit.splits; metis snd_conv)

lemma acquires_windows_sockets:
  assumes acc: "accounts os opens"
  shows "acquires opens (\<lambda>s. {s}) (open_windows_raw_socket os interface)"
    and "acquires opens (\<lambda>s. {s}) (open_windows_udp_raw_socket os interface)"
  unfolding open_windows_raw_socket_def open_windows_udp_raw_socket_def
  by (rule acquires_owning [OF acc acquires_new [OF acc] acquires_keeps, where own = "\<lambda>_. {}"],
      auto intro!: keeps_intros acc simp: io_eqs)+

lemma acquires_open_raw_socket_windows:
  assumes acc: "accounts os opens"
  shows "acquires opens rr_sockets (open_raw_socket_windows os cfg)"
proof -
  let ?m = "\<lambda>rr. set_option (rr_membership_socket rr)"
  let ?u = "\<lambda>rr. set_option (rr_windows_udp_receive_socket rr)"
  have inner: "acquires opens (\<lambda>rr. ?u rr \<union> ?m rr)
      (io_bind (open_windows_udp_raw_socket os interface) (\<lambda>udp. owning os udp
        (io_bind (open_membership_socket os fam) (\<lambda>m. io_return (plain_raw_socket s m (Some udp))))))"
    for interface fam s
    by (rule acquires_owning [OF acc acquires_windows_sockets(2) [OF acc], where own = ?m])
       (auto intro!: acquires_map acquires_open_membership_socket acc simp: io_eqs)
  show ?thesis
    unfolding open_raw_socket_windows_def
    by (intro acquires_bind_keeps keeps_intros)
       (auto intro!: acquires_throw acquires_owning [OF acc acquires_windows_sockets(1) [OF acc] inner]
         simp: io_eqs owning_eq_Inr rr_sockets_def split: option.splits ip_addr.splits)
qed

lemma acquires_open_raw_socket:
  assumes acc: "accounts os opens"
  shows "acquires opens rr_sockets (open_raw_socket os ba cfg)"
proof -
  have linux: "acquires opens rr_sockets (open_raw_socket_linux os cfg)"
    unfolding open_raw_socket_linux_def open_linux_packet_socket_def
    by (intro acquires_bind_keeps keeps_intros acquires_with_membership acquires_linux_packet_socket acc)
  have macos: "acquires opens rr_sockets (open_raw_socket_macos os ba cfg)"
    unfolding open_raw_socket_macos_def
    by (rule acquires_bind_keeps, intro keeps_intros, rule acquires_bind_keeps, intro keeps_intros acc,
        rule acquires_bind_keeps, intro keeps_intros,
        rule acquires_owning [OF acc acquires_open_apple_bpf_socket [OF acc],
          where own = "\<lambda>rr. set_option (rr_membership_socket rr)"])
       (auto intro!: acquires_map acquires_open_membership_socket acc simp: io_eqs rr_sockets_def)
  show ?thesis
    unfolding open_raw_socket_def
    by (intro acquires_if linux macos acquires_open_raw_socket_windows acc acquires_throw)
qed

section \<open>What a receive delivers\<close>

lemma raw_metadata_delivered:
  "parse_ip_datagram d = Some parsed \<Longrightarrow> packet_matches_config parsed cfg \<Longrightarrow>
   raw_delivered i cfg (raw_packet_from_parts i d parsed (raw_metadata cfg parsed ingress))"
  by (rule raw_packet_from_parts_delivered) (simp_all add: raw_metadata_def)

lemma receive_error_not_packet [simp]: "receive_error err \<noteq> Inr (Some p)"
  by (simp add: receive_error_def)

lemma recv_raw_body_linux_delivers:
  "recv_raw_body_linux os s i cfg k = (Some (Inr (Some p)), k') \<Longrightarrow> raw_delivered i cfg p"
  by (auto simp: recv_raw_body_linux_def intro: raw_metadata_delivered
      split: prod.splits sum.splits option.splits if_splits)

lemma recv_raw_body_windows_delivers:
  "recv_raw_body_windows os s i cfg ex k = (Some (Inr (Some p)), k') \<Longrightarrow> raw_delivered i cfg p"
  by (auto simp: recv_raw_body_windows_def intro: raw_metadata_delivered
      split: prod.splits sum.splits option.splits if_splits)

lemma apple_recv_loop_delivers:
  assumes "apple_recv_loop fuel os ba rr i cfg filtered k = Some (Inr (Some p), rr', k')"
  shows "raw_delivered i cfg p"
  using assms
proof (induction fuel os ba rr i cfg filtered k rule: apple_recv_loop.induct)
  case (2 fuel os ba rr i cfg filtered k)
  from "2.prems" show ?case
    using "2.IH" bpf_walk_delivers
    by (fastforce simp: Let_def next_matching_apple_bpf_packet_def
        split: if_splits option.splits sum.splits prod.splits bool.splits)
qed simp

lemma recv_raw_packet_delivers:
  assumes "recv_raw_packet os ba rr i cfg k = (Inr (Some p), rr', k')"
  shows "raw_delivered i cfg p"
proof -
  have windows: "raw_delivered i cfg p"
    if "recv_raw_packet_from_windows_socket os s i cfg ex k0 = (Inr (Some p), k1)" for s ex k0 k1
    using that unfolding recv_raw_packet_from_windows_socket_def
    by (auto dest!: filtered_loop_verdict recv_raw_body_windows_delivers)
  show ?thesis
    using assms windows apple_recv_loop_delivers
    unfolding recv_raw_packet_def recv_raw_packet_linux_def recv_raw_packet_macos_def
      recv_raw_packet_windows_def
    by (auto simp: io_eqs split: if_splits prod.splits option.splits
        dest!: filtered_loop_verdict recv_raw_body_linux_delivers)
qed

text \<open>Receiving keeps the descriptors and changes only the BPF buffer.\<close>

lemma apple_recv_loop_keeps:
  assumes "apple_recv_loop fuel os ba rr i cfg filtered k = Some (r, rr', k')" and "accounts os opens"
  shows "rr_sockets rr' = rr_sockets rr \<and> opens k' = opens k"
  using assms(1)
proof (induction fuel arbitrary: rr filtered k)
  case (Suc fuel)
  have read: "opens k1 = opens k" if "os_read os s n k = (res, k1)" for s n res k1
    using that by (rule keeps_run [OF keeps_accounts(15) [OF assms(2)]])
  have sockets: "rr_sockets (rr\<lparr>rr_apple_bpf_state := st\<rparr>) = rr_sockets rr" for st
    by (simp add: rr_sockets_def)
  from Suc.prems show ?case
    by (auto simp: Let_def sockets dest!: Suc.IH read
        split: if_splits option.splits sum.splits prod.splits bool.splits)
qed simp

lemma keeps_recv_raw_packet:
  assumes "recv_raw_packet os ba rr i cfg k = (r, rr', k')" and acc: "accounts os opens"
  shows "rr_sockets rr' = rr_sockets rr \<and> opens k' = opens k"
proof -
  have linux: "keeps opens (recv_raw_packet_linux os s i cfg)" for s
    unfolding recv_raw_packet_linux_def
    by (intro keeps_filtered_loop)
       (use keeps_run [OF keeps_accounts(9) [OF acc]] in
         \<open>auto simp: keeps_def recv_raw_body_linux_def split: prod.splits sum.splits option.splits\<close>)
  have windows1: "keeps opens (recv_raw_packet_from_windows_socket os s i cfg ex)" for s ex
    unfolding recv_raw_packet_from_windows_socket_def
    by (intro keeps_filtered_loop)
       (use keeps_run [OF keeps_accounts(15) [OF acc]] in
         \<open>auto simp: keeps_def recv_raw_body_windows_def split: prod.splits sum.splits option.splits\<close>)
  have windows: "keeps opens (recv_raw_packet_windows os rr i cfg)"
    unfolding recv_raw_packet_windows_def
    by (auto intro!: keeps_intros windows1 split: option.split)
  show ?thesis
    using assms(1) apple_recv_loop_keeps [OF _ acc] keeps_run [OF linux] keeps_run [OF windows]
    unfolding recv_raw_packet_def recv_raw_packet_macos_def
    by (auto split: if_splits prod.splits option.splits)
qed

section \<open>The macOS loop returns\<close>

text \<open>What the loop needs of \<open>read\<close>: a successful read returns at least one byte and no more than asked.\<close>

definition reads_records :: "'k os \<Rightarrow> bool" where
  "reads_records os \<longleftrightarrow>
     (\<forall>s n k bs. fst (os_read os s n k) = Inr bs \<longrightarrow> bs \<noteq> [] \<and> length bs \<le> n)"

lemma apple_recv_loop_returns:
  assumes "bpf_layout ba" and "reads_records os" and "length (abs_buffer (rr_apple_bpf_state rr)) < 2 ^ 62"
    and "filtered < MAX_RAW_FILTERED_READS_PER_RECV"
    and "2 * (MAX_RAW_FILTERED_READS_PER_RECV - filtered) \<le>
      fuel + (if abs_next_offset (rr_apple_bpf_state rr) < abs_filled_len (rr_apple_bpf_state rr) then 1 else 0)"
  shows "apple_recv_loop fuel os ba rr i cfg filtered k \<noteq> None"
  using assms(3-)
proof (induction fuel arbitrary: rr filtered k)
  case 0
  then show ?case by (simp split: if_splits)
next
  case (Suc fuel)
  let ?st = "rr_apple_bpf_state rr"
  let ?block = "take (abs_filled_len ?st) (abs_buffer ?st)"
  have "length ?block < 2 ^ 62" using Suc.prems(1) by simp
  then have walk: "next_matching_apple_bpf_packet ba ?block (abs_next_offset ?st)
      (rr_apple_bpf_datalink rr) (rr_apple_interface_index rr) i cfg \<noteq> None"
    unfolding next_matching_apple_bpf_packet_def by (rule bpf_walk_returns [OF assms(1)]) simp
  have emptied: "apple_recv_loop fuel os ba
      (rr\<lparr>rr_apple_bpf_state := ?st\<lparr>abs_filled_len := 0, abs_next_offset := 0\<rparr>\<rparr>) i cfg (Suc filtered) k \<noteq> None"
    if "Suc filtered < MAX_RAW_FILTERED_READS_PER_RECV"
    using Suc.prems that by (intro Suc.IH) (auto split: if_splits)
  have refilled: "apple_recv_loop fuel os ba
      (rr\<lparr>rr_apple_bpf_state := ?st\<lparr>abs_buffer := bs @ drop (length bs) (abs_buffer ?st),
         abs_filled_len := length bs, abs_next_offset := 0\<rparr>\<rparr>) i cfg filtered k' \<noteq> None"
    if read: "os_read os (rr_receive_socket rr) (length (abs_buffer ?st)) k = (Inr bs, k')"
      and empty: "\<not> abs_next_offset ?st < abs_filled_len ?st" for bs k'
  proof -
    have "bs \<noteq> []" "length bs \<le> length (abs_buffer ?st)"
      using assms(2) read unfolding reads_records_def by (metis fst_conv)+
    then show ?thesis using Suc.prems empty by (intro Suc.IH) auto
  qed
  show ?case
    using walk emptied refilled
    by (auto simp: Let_def raw_filter_budget_exhausted_def budget_exhausted_def
        split: prod.splits sum.splits option.splits bool.splits)
qed

section \<open>Windows: joining three sockets\<close>

text \<open>
  Joining a list of sockets as one transaction: when a later join fails, the earlier ones are left
  again, last first.
\<close>

primrec join_all :: "'k os \<Rightarrow> subscription_config \<Rightarrow> socket list \<Rightarrow> ('k, mcrx_error, unit) io" where
  "join_all os cfg [] = io_return ()"
| "join_all os cfg (s # ss) =
     io_bind (join_multicast_group os s cfg) (\<lambda>_.
     join_then_undo (join_all os cfg ss) (leave_multicast_group os s cfg))"

definition raw_membership_sockets :: "'k os \<Rightarrow> raw_receive_socket \<Rightarrow> raw_subscription_config \<Rightarrow> socket list" where
  "raw_membership_sockets os rr cfg =
     (case rr_membership_socket rr of
        None \<Rightarrow> []
      | Some m \<Rightarrow> m #
          (if os_target os = WindowsTarget \<and> raw_is_ipv4 cfg
           then (case rr_windows_udp_receive_socket rr of
                   None \<Rightarrow> [] | Some udp \<Rightarrow> [rr_receive_socket rr, udp])
           else []))"

lemma join_then_undo_return [simp]: "join_then_undo (io_return ()) undo = io_return ()"
  by (simp add: join_then_undo_def fun_eq_iff)

lemma io_bind_return [simp]: "io_bind m io_return = m"
  by (auto simp: io_bind_def fun_eq_iff split: prod.splits sum.splits)

lemma join_raw_is_join_all:
  assumes "rr_membership_socket rr \<noteq> None"
  shows "join_raw_multicast_group os rr cfg =
     join_all os (membership_compat_config cfg) (raw_membership_sockets os rr cfg)"
  using assms
  by (auto simp: join_raw_multicast_group_def join_windows_raw_receive_sockets_def raw_membership_sockets_def
      ok_or_def res_simps Let_def raw_is_ipv4_def split: option.splits)

text \<open>
  What the transaction relies on: a set of joined sockets can be read off the kernel state, joining
  adds the socket or fails without effect, and leaving a joined socket removes it.
\<close>

definition tracks_membership :: "'k os \<Rightarrow> subscription_config \<Rightarrow> ('k \<Rightarrow> socket set) \<Rightarrow> bool" where
  "tracks_membership os cfg members \<longleftrightarrow>
     (\<forall>s k. case join_multicast_group os s cfg k of
        (Inr u, k') \<Rightarrow> members k' = insert s (members k)
      | (Inl e, k') \<Rightarrow> members k' = members k) \<and>
     (\<forall>s k. s \<in> members k \<longrightarrow> members (snd (leave_multicast_group os s cfg k)) = members k - {s})"

lemma join_all_transaction:
  assumes "tracks_membership os cfg members" and "distinct ss" and "set ss \<inter> members k = {}"
    and "join_all os cfg ss k = (r, k')"
  shows "members k' = (case r of Inr u \<Rightarrow> set ss \<union> members k | Inl e \<Rightarrow> members k)"
  using assms(2-)
proof (induction ss arbitrary: k r k')
  case (Cons s ss)
  obtain r1 k1 where join: "join_multicast_group os s cfg k = (r1, k1)" by fastforce
  have m1: "case r1 of Inr u \<Rightarrow> members k1 = insert s (members k) | Inl e \<Rightarrow> members k1 = members k"
    using assms(1) [unfolded tracks_membership_def, THEN conjunct1, rule_format, of k s] join by simp
  show ?case
  proof (cases r1)
    case (Inl e)
    then show ?thesis using Cons.prems(3) join m1 by (auto simp: io_bind_def)
  next
    case (Inr u)
    obtain r2 k2 where rest: "join_all os cfg ss k1 = (r2, k2)" by fastforce
    have IH: "members k2 = (case r2 of Inr u \<Rightarrow> set ss \<union> members k1 | Inl e \<Rightarrow> members k1)"
      using Cons.prems(1,2) m1 Inr by (intro Cons.IH [OF _ _ rest]) auto
    show ?thesis
    proof (cases r2)
      case (Inl e)
      then have "s \<in> members k2" using IH m1 Inr by simp
      then have "members (snd (leave_multicast_group os s cfg k2)) = members k2 - {s}"
        using assms(1) unfolding tracks_membership_def by blast
      moreover have "join_all os cfg (s # ss) k = (Inl e, snd (leave_multicast_group os s cfg k2))"
        using join Inr rest Inl by (simp add: io_bind_def join_then_undo_def)
      ultimately have "r = Inl e" "members k' = members k2 - {s}" using Cons.prems(3) by simp_all
      then show ?thesis using Cons.prems(2) Inr Inl IH m1 by simp
    next
      case (Inr u2)
      have "join_all os cfg (s # ss) k = (Inr u2, k2)"
        using join \<open>r1 = Inr u\<close> rest Inr by (simp add: io_bind_def join_then_undo_def)
      then have "r = Inr u2" "k' = k2" using Cons.prems(3) by simp_all
      then show ?thesis using \<open>r1 = Inr u\<close> Inr IH m1 by simp
    qed
  qed
qed (simp add: io_return_def)

section \<open>What a shared receive delivers\<close>

text \<open>A captured datagram is one complete IP datagram with the addresses its header names.\<close>

definition captured_for :: "subscription_address_family \<Rightarrow> raw_captured_datagram \<Rightarrow> bool" where
  "captured_for fam c \<longleftrightarrow>
     (case cd_group c of V4 _ \<Rightarrow> fam = Ipv4 | V6 _ \<Rightarrow> fam = Ipv6) \<and>
     parse_ip_datagram (cd_datagram c) = Some
       \<lparr>pi_source_ip = cd_source_ip c, pi_destination_ip = cd_group c,
        pi_protocol = cd_ip_protocol c, pi_datagram_len = length (cd_datagram c)\<rparr>"

lemma recv_shared_body_delivers:
  assumes "recv_shared_body os s key k = (Some (Inr (Some c)), k')"
  shows "captured_for (rk_family key) c"
proof -
  obtain msg parsed where parse: "parse_ip_datagram (pm_datagram msg) = Some parsed"
    and rest: "case (rk_family key, pi_destination_ip parsed) of (Ipv4, V4 _) \<Rightarrow> True | (Ipv6, V6 _) \<Rightarrow> True | _ \<Rightarrow> False"
    "c = \<lparr>cd_datagram = take (pi_datagram_len parsed) (pm_datagram msg),
       cd_source_ip = pi_source_ip parsed, cd_group = pi_destination_ip parsed,
       cd_ip_protocol = pi_protocol parsed, cd_ingress_interface_index = ingress_index msg\<rparr>"
    using assms by (fastforce simp: recv_shared_body_def split: prod.splits sum.splits option.splits if_splits)
  have "length (take (pi_datagram_len parsed) (pm_datagram msg)) = pi_datagram_len parsed"
    using parse_ip_datagram_Some [OF parse] by simp
  then show ?thesis
    using parse_ip_datagram_take [OF parse] rest
    by (auto simp: captured_for_def split: ip_addr.splits subscription_address_family.splits)
qed

lemma recv_shared_delivers:
  assumes "recv_shared_raw_datagram os rr key k = (Inr (Some c), k')"
  shows "captured_for (rk_family key) c"
  using assms unfolding recv_shared_raw_datagram_def
  by (auto split: if_splits dest!: filtered_loop_verdict recv_shared_body_delivers)

lemma keeps_recv_shared_raw_datagram [keeps_intros]:
  assumes acc: "accounts os opens"
  shows "keeps opens (recv_shared_raw_datagram os rr key)"
proof -
  have "keeps opens (recv_shared_body os s key)" for s
    using keeps_run [OF keeps_accounts(9) [OF acc]]
    by (auto simp: keeps_def recv_shared_body_def split: prod.splits sum.splits option.splits)
  then show ?thesis
    unfolding recv_shared_raw_datagram_def by (intro keeps_intros keeps_filtered_loop)
qed

section \<open>Properties\<close>

text \<open>
  C11. On every target, and whatever the operating system returns, a raw packet that a receive
  delivers holds exactly one IP datagram that parses and matches the subscription's family, group
  and source, and the packet's fields are those of the datagram's header.
\<close>

theorem raw_receive_delivers_only_matching:
  assumes "recv_raw_packet os ba rr i cfg k = (Inr (Some p), rr', k')"
  shows "raw_delivered i cfg p"
  by (rule recv_raw_packet_delivers [OF assms])

definition raw_demo_config :: raw_subscription_config where
  "raw_demo_config = raw_ssm (Quad 232 1 2 3) (Quad 10 0 0 1)"

definition raw_demo_state :: sim where
  "raw_demo_state = sim_init\<lparr>sim_frames :=
     [\<lparr>pm_datagram = [1, 2, 3], pm_ifindex = 2\<rparr>, \<lparr>pm_datagram = sample_datagram @ [0], pm_ifindex = 2\<rparr>]\<rparr>"

definition raw_demo_packet :: raw_packet where
  "raw_demo_packet = raw_packet_from_parts (SubscriptionId 1) (sample_datagram @ [0]) sample_parsed
     (raw_metadata raw_demo_config sample_parsed (Some 2))"

lemma raw_demo_receive:
  "fst (recv_raw_packet (sim_os Linux) mac_abi (plain_raw_socket (Socket 3) (Socket 4) None)
     (SubscriptionId 1) raw_demo_config raw_demo_state) = Inr (Some raw_demo_packet)"
proof -
  have p: "parse_ip_datagram (sample_datagram @ [0]) = Some sample_parsed"
    using parse_ipv4_roundtrip [of 5 "[]" "[7, 8]" 0 "Quad 0 0 0 0" 1 17 0 "Quad 10 0 0 1" "Quad 232 1 2 3" "[0]"]
    by (simp add: sample_datagram_def sample_parsed_def)
  have no: "parse_ip_datagram [1, 2, 3] = None"
    by (simp add: parse_ip_datagram_def)
  have m: "packet_matches_config sample_parsed raw_demo_config"
    by (simp add: packet_matches_config_def sample_parsed_def raw_demo_config_def raw_ssm_def raw_ssm_ip_def raw_family_def)
  show ?thesis
    by (simp add: recv_raw_packet_def recv_raw_packet_linux_def filtered_loop.simps recv_raw_body_linux_def
        sim_simps raw_demo_state_def no p m budget_exhausted_def MAX_RAW_FILTERED_READS_PER_RECV_def
        raw_demo_packet_def ingress_index_def)
qed

theorem raw_receive_delivers_only_matching_witness:
  "raw_delivered (SubscriptionId 1) raw_demo_config raw_demo_packet \<and>
   rp_datagram raw_demo_packet = sample_datagram"
proof -
  obtain rr' k' where "recv_raw_packet (sim_os Linux) mac_abi (plain_raw_socket (Socket 3) (Socket 4) None)
     (SubscriptionId 1) raw_demo_config raw_demo_state = (Inr (Some raw_demo_packet), rr', k')"
    using raw_demo_receive by (metis prod.collapse)
  from raw_receive_delivers_only_matching [OF this] show ?thesis
    by (simp add: raw_demo_packet_def raw_packet_from_parts_def sample_parsed_def sample_datagram_def
        ipv4_datagram_def be16_def)
qed

text \<open>
  Opening a raw subscription never leaks a descriptor, on any target: when a step fails, the
  sockets and devices opened before it are closed again; on success exactly the descriptors of the
  result have been opened, all of them fresh.
\<close>

theorem raw_open_no_leak:
  assumes "accounts os opens" and "open_raw_socket os ba cfg k = (r, k')"
  shows "case r of
     Inl e \<Rightarrow> opens k' = opens k
   | Inr rr \<Rightarrow> rr_sockets rr \<inter> opens k = {} \<and> opens k' = rr_sockets rr \<union> opens k"
  using acquires_open_raw_socket [OF assms(1), of ba cfg] assms(2)
  by (auto dest: acquires_Inr acquires_Inl split: sum.split)

theorem raw_open_no_leak_witness:
  "\<exists>rr k'. open_raw_socket (sim_os Linux) mac_abi raw_demo_config sim_init = (Inr rr, k') \<and>
     sim_sockets k' = {Socket 3, Socket 4}"
proof -
  have "\<exists>k'. open_raw_socket (sim_os Linux) mac_abi raw_demo_config sim_init =
      (Inr (plain_raw_socket (Socket 3) (Socket 4) None), k')"
    using sample_valid [of 1]
    by (simp add: open_raw_socket_def open_raw_socket_linux_def with_membership_socket_def
        open_linux_packet_socket_def resolve_linux_packet_interface_index_def
        resolve_packet_interface_index_def open_linux_packet_socket_with_filter_def attach_linux_filter_def
        open_membership_socket_def raw_demo_config_def raw_ssm_def raw_ssm_ip_def raw_family_def
        io_bind_def io_map_err_def owning_def sim_simps)
  then obtain k' where run: "open_raw_socket (sim_os Linux) mac_abi raw_demo_config sim_init =
      (Inr (plain_raw_socket (Socket 3) (Socket 4) None), k')" ..
  from raw_open_no_leak [OF sim_accounts run] have "sim_sockets k' = {Socket 3, Socket 4}"
    by (auto simp: rr_sockets_def sim_sockets_def sim_init_def)
  with run show ?thesis by blast
qed

text \<open>
  The macOS receive loop returns within 512 turns, for every content of the buffer and of what is
  read, provided a successful read of the device returns at least one byte and no more than asked.
\<close>

theorem apple_receive_returns:
  assumes "bpf_layout ba" and "reads_records os"
    and "length (abs_buffer (rr_apple_bpf_state rr)) < 2 ^ 62"
  shows "apple_recv_loop (2 * MAX_RAW_FILTERED_READS_PER_RECV) os ba rr i cfg 0 k =
     Some (recv_raw_packet_macos os ba rr i cfg k)"
proof -
  have "apple_recv_loop (2 * MAX_RAW_FILTERED_READS_PER_RECV) os ba rr i cfg 0 k \<noteq> None"
    by (rule apple_recv_loop_returns [OF assms]) (simp_all add: MAX_RAW_FILTERED_READS_PER_RECV_def)
  then show ?thesis by (auto simp: recv_raw_packet_macos_def)
qed

text \<open>A system whose \<open>read\<close> always returns one byte.\<close>

theorem apple_receive_returns_witness:
  "let os = (sim_os Apple)\<lparr>os_read := (\<lambda>s n k. if n = 0 then (Inl would_block, k) else (Inr [0], k))\<rparr>;
       rr = (plain_raw_socket (Socket 3) (Socket 4) None)
         \<lparr>rr_apple_bpf_state := \<lparr>abs_buffer = [0, 0], abs_filled_len = 0, abs_next_offset = 0, abs_poisoned = False\<rparr>\<rparr>
   in apple_recv_loop (2 * MAX_RAW_FILTERED_READS_PER_RECV) os mac_abi rr (SubscriptionId 1) raw_demo_config 0
        sim_init \<noteq> None"
proof -
  let ?os = "(sim_os Apple)\<lparr>os_read := (\<lambda>s n k. if n = 0 then (Inl would_block, k) else (Inr [0], k))\<rparr>"
  have "bpf_layout mac_abi" by (simp add: bpf_layout_def mac_abi_def)
  moreover have "reads_records ?os" by (simp add: reads_records_def)
  ultimately show ?thesis unfolding Let_def by (subst apple_receive_returns) auto
qed


definition sim_members :: "sim \<Rightarrow> socket set" where
  "sim_members k =
     foldl (\<lambda>M (s, r). case r of
         JoinMulticastV4 _ _ \<Rightarrow> insert s M | LeaveMulticastV4 _ _ \<Rightarrow> M - {s} | _ \<Rightarrow> M) {} (sim_log k)"

lemma sim_membership:
  "join_multicast_group (sim_os t) s (membership_compat_config (raw_asm g)) k =
     (Inr (), k\<lparr>sim_log := sim_log k @ [(s, JoinMulticastV4 g ipv4_UNSPECIFIED)]\<rparr>)"
  "leave_multicast_group (sim_os t) s (membership_compat_config (raw_asm g)) k =
     (Inr (), k\<lparr>sim_log := sim_log k @ [(s, LeaveMulticastV4 g ipv4_UNSPECIFIED)]\<rparr>)"
proof -
  let ?cfg = "membership_compat_config (raw_asm g)"
  have "family ?cfg = Ipv4" "resolve_ipv4_interface ?cfg = Inr ipv4_UNSPECIFIED"
    "ipv4_membership ?cfg = Inr \<lparr>m4_group = g, m4_source = None, m4_interface = None\<rparr>"
    by (simp_all add: raw_asm_def raw_asm_ip_def family_def unwrap_or_def resolve_ipv4_interface_def ipv4_membership_def
        config_ipv4_membership_def membership_compat_config_def ok_or_def res_bind_def)
  then show
    "join_multicast_group (sim_os t) s ?cfg k =
       (Inr (), k\<lparr>sim_log := sim_log k @ [(s, JoinMulticastV4 g ipv4_UNSPECIFIED)]\<rparr>)"
    "leave_multicast_group (sim_os t) s ?cfg k =
       (Inr (), k\<lparr>sim_log := sim_log k @ [(s, LeaveMulticastV4 g ipv4_UNSPECIFIED)]\<rparr>)"
    by (simp_all add: join_multicast_group_def leave_multicast_group_def res_simps io_map_err_def sim_os_def)
qed

lemma sim_tracks: "tracks_membership (sim_os t) (membership_compat_config (raw_asm g)) sim_members"
  by (simp add: tracks_membership_def sim_membership sim_members_def)


end
