(* ===== verification/RawContext.thy ===== *)
theory RawContext
  imports RawPlatform Table
begin

text \<open>
  \<open>src/raw/context.rs\<close> and \<open>src/raw/subscription.rs\<close>: raw subscriptions and the context that owns
  them. The context interprets the same two interfaces as the UDP context: the table of
  subscriptions and the round-robin receive. Lemmas: the invariant of reachable contexts, exact
  ownership of descriptors across every operation, and the round-robin scan.
\<close>

section \<open>Raw subscriptions\<close>

record raw_subscription =
  rsub_id :: subscription_id
  rsub_config :: raw_subscription_config
  rsub_socket :: raw_receive_socket
  rsub_state :: subscription_state

definition raw_sub_new ::
  "subscription_id \<Rightarrow> raw_subscription_config \<Rightarrow> raw_receive_socket \<Rightarrow> raw_subscription" where
  "raw_sub_new i cfg rr =
     \<lparr>rsub_id = i, rsub_config = cfg, rsub_socket = rr, rsub_state = Bound\<rparr>"

definition raw_sub_is_joined :: "raw_subscription \<Rightarrow> bool" where
  "raw_sub_is_joined s \<longleftrightarrow> rsub_state s = Joined"

definition raw_sub_try_recv ::
  "'k os \<Rightarrow> bpf_abi \<Rightarrow> raw_subscription \<Rightarrow> 'k \<Rightarrow>
   (mcrx_error + raw_packet option) \<times> raw_subscription \<times> 'k" where
  "raw_sub_try_recv os ba s k =
     (if \<not> raw_sub_is_joined s then (Inl SubscriptionNotJoined, s, k)
      else
        (case recv_raw_packet os ba (rsub_socket s) (rsub_id s) (rsub_config s) k of
           (r, rr', k') \<Rightarrow> (r, s\<lparr>rsub_socket := rr'\<rparr>, k')))"

definition raw_sub_join ::
  "'k os \<Rightarrow> raw_subscription \<Rightarrow> 'k \<Rightarrow> (mcrx_error + unit) \<times> raw_subscription \<times> 'k" where
  "raw_sub_join os s k =
     (if raw_sub_is_joined s then (Inl SubscriptionAlreadyJoined, s, k)
      else
        (case join_raw_multicast_group os (rsub_socket s) (rsub_config s) k of
           (Inl e, k') \<Rightarrow> (Inl e, s, k')
         | (Inr _, k') \<Rightarrow> (Inr (), s\<lparr>rsub_state := Joined\<rparr>, k')))"

definition raw_sub_leave ::
  "'k os \<Rightarrow> raw_subscription \<Rightarrow> 'k \<Rightarrow> (mcrx_error + unit) \<times> raw_subscription \<times> 'k" where
  "raw_sub_leave os s k =
     (if \<not> raw_sub_is_joined s then (Inl SubscriptionNotJoined, s, k)
      else
        (case leave_raw_multicast_group os (rsub_socket s) (rsub_config s) k of
           (Inl e, k') \<Rightarrow> (Inl e, s, k')
         | (Inr _, k') \<Rightarrow> (Inr (), s\<lparr>rsub_state := Bound\<rparr>, k')))"

section \<open>The raw context\<close>

record raw_context =
  rctx_subscriptions :: "raw_subscription list"
  rctx_next_subscription_id :: u64
  rctx_next_recv_index :: usize

definition raw_context_new :: raw_context where
  "raw_context_new =
     \<lparr>rctx_subscriptions = [], rctx_next_subscription_id = 1, rctx_next_recv_index = 0\<rparr>"

definition raw_subscription_count :: "raw_context \<Rightarrow> usize" where
  "raw_subscription_count c = length (rctx_subscriptions c)"

definition raw_contains_subscription :: "raw_context \<Rightarrow> subscription_id \<Rightarrow> bool" where
  "raw_contains_subscription c i \<longleftrightarrow> (\<exists>s \<in> set (rctx_subscriptions c). rsub_id s = i)"

definition raw_get_subscription :: "raw_context \<Rightarrow> subscription_id \<Rightarrow> raw_subscription option" where
  "raw_get_subscription c i = find (\<lambda>s. rsub_id s = i) (rctx_subscriptions c)"

text \<open>An update through the reference that \<open>get_subscription_mut\<close> returns.\<close>

definition raw_set_subscription :: "subscription_id \<Rightarrow> raw_subscription \<Rightarrow> raw_context \<Rightarrow> raw_context" where
  "raw_set_subscription i s c =
     c\<lparr>rctx_subscriptions := update_first (\<lambda>x. rsub_id x = i) (\<lambda>_. s) (rctx_subscriptions c)\<rparr>"

definition raw_ensure_unique :: "raw_context \<Rightarrow> raw_subscription_config \<Rightarrow> mcrx_error + unit" where
  "raw_ensure_unique c cfg =
     (if \<exists>s \<in> set (rctx_subscriptions c). rsub_config s = cfg then Inl DuplicateSubscription
      else Inr ())"

definition raw_insert ::
  "raw_context \<Rightarrow> raw_subscription_config \<times> raw_receive_socket \<Rightarrow> subscription_id \<times> raw_context" where
  "raw_insert c x =
     (let i = SubscriptionId (rctx_next_subscription_id c) in
      (i, c\<lparr>rctx_next_subscription_id := rctx_next_subscription_id c + 1,
            rctx_subscriptions := rctx_subscriptions c @ [raw_sub_new i (fst x) (snd x)]\<rparr>))"

definition raw_add_subscription ::
  "'k os \<Rightarrow> bpf_abi \<Rightarrow> raw_context \<Rightarrow> raw_subscription_config \<Rightarrow> 'k \<Rightarrow>
   (mcrx_error + subscription_id) \<times> raw_context \<times> 'k" where
  "raw_add_subscription os ba c cfg k =
     (case io_bind (io_lift (raw_validate cfg)) (\<lambda>_.
           io_bind (io_lift (raw_ensure_unique c cfg)) (\<lambda>_.
           open_raw_socket os ba cfg)) k of
        (Inl e, k') \<Rightarrow> (Inl e, c, k')
      | (Inr rr, k') \<Rightarrow> (case raw_insert c (cfg, rr) of (i, c') \<Rightarrow> (Inr i, c', k')))"

definition raw_take ::
  "raw_context \<Rightarrow> subscription_id \<Rightarrow> raw_subscription option \<times> raw_context" where
  "raw_take c i =
     (case position (\<lambda>s. rsub_id s = i) (rctx_subscriptions c) of
        None \<Rightarrow> (None, c)
      | Some index \<Rightarrow>
          (let rest = swap_remove (rctx_subscriptions c) index in
           (Some (rctx_subscriptions c ! index),
            c\<lparr>rctx_subscriptions := rest,
              rctx_next_recv_index :=
                (if rest = [] then 0 else rctx_next_recv_index c mod length rest)\<rparr>)))"

text \<open>Dropping the socket closes its descriptors in the order of the fields.\<close>

definition close_option :: "'k os \<Rightarrow> socket option \<Rightarrow> 'k \<Rightarrow> 'k" where
  "close_option os s k = (case s of None \<Rightarrow> k | Some s \<Rightarrow> os_close os s k)"

definition drop_raw_socket :: "'k os \<Rightarrow> raw_receive_socket \<Rightarrow> 'k \<Rightarrow> 'k" where
  "drop_raw_socket os rr k =
     close_option os (rr_windows_udp_receive_socket rr)
       (close_option os (rr_membership_socket rr) (os_close os (rr_receive_socket rr) k))"

definition raw_remove_subscription ::
  "'k os \<Rightarrow> raw_context \<Rightarrow> subscription_id \<Rightarrow> 'k \<Rightarrow> bool \<times> raw_context \<times> 'k" where
  "raw_remove_subscription os c i k =
     (case raw_take c i of
        (Some removed, c') \<Rightarrow> (True, c', drop_raw_socket os (rsub_socket removed) k)
      | (None, c') \<Rightarrow> (False, c', k))"

text \<open>An operation on the subscription behind \<open>get_subscription_mut\<close>.\<close>

definition raw_on_subscription ::
  "(raw_subscription \<Rightarrow> 'k \<Rightarrow> (mcrx_error + unit) \<times> raw_subscription \<times> 'k) \<Rightarrow>
   raw_context \<Rightarrow> subscription_id \<Rightarrow> 'k \<Rightarrow> (mcrx_error + unit) \<times> raw_context \<times> 'k" where
  "raw_on_subscription f c i k =
     (case raw_get_subscription c i of
        None \<Rightarrow> (Inl SubscriptionNotFound, c, k)
      | Some s \<Rightarrow> (case f s k of (r, s', k') \<Rightarrow> (r, raw_set_subscription i s' c, k')))"

definition raw_join_subscription ::
  "'k os \<Rightarrow> raw_context \<Rightarrow> subscription_id \<Rightarrow> 'k \<Rightarrow> (mcrx_error + unit) \<times> raw_context \<times> 'k" where
  "raw_join_subscription os = raw_on_subscription (raw_sub_join os)"

definition raw_leave_subscription ::
  "'k os \<Rightarrow> raw_context \<Rightarrow> subscription_id \<Rightarrow> 'k \<Rightarrow> (mcrx_error + unit) \<times> raw_context \<times> 'k" where
  "raw_leave_subscription os = raw_on_subscription (raw_sub_leave os)"

text \<open>The \<open>for\<close> loop of \<open>try_recv_any\<close>; \<open>None\<close> is an index out of range, which panics.\<close>

fun raw_scan ::
  "'k os \<Rightarrow> bpf_abi \<Rightarrow> usize \<Rightarrow> nat \<Rightarrow> usize \<Rightarrow> raw_context \<Rightarrow> 'k \<Rightarrow>
   ((mcrx_error + raw_packet option) \<times> raw_context \<times> 'k) option" where
  "raw_scan os ba count 0 index c k = Some (Inr None, c, k)"
| "raw_scan os ba count (Suc remaining) index c k =
     (if \<not> index < length (rctx_subscriptions c) then None
      else
        let s = rctx_subscriptions c ! index in
        if \<not> raw_sub_is_joined s
        then raw_scan os ba count remaining (if index + 1 = count then 0 else index + 1) c k
        else
          (case raw_sub_try_recv os ba s k of (r, s', k') \<Rightarrow>
             (let c' = c\<lparr>rctx_subscriptions := (rctx_subscriptions c)[index := s']\<rparr> in
              case r of
                Inr (Some p) \<Rightarrow>
                  Some (Inr (Some p), c'\<lparr>rctx_next_recv_index := (index + 1) mod count\<rparr>, k')
              | Inr None \<Rightarrow>
                  raw_scan os ba count remaining (if index + 1 = count then 0 else index + 1) c' k'
              | Inl e \<Rightarrow> Some (Inl e, c', k'))))"

definition raw_try_recv_any ::
  "'k os \<Rightarrow> bpf_abi \<Rightarrow> raw_context \<Rightarrow> 'k \<Rightarrow>
   ((mcrx_error + raw_packet option) \<times> raw_context \<times> 'k) option" where
  "raw_try_recv_any os ba c k =
     (let count = length (rctx_subscriptions c) in
      if count = 0 then Some (Inr None, c, k)
      else raw_scan os ba count count (rctx_next_recv_index c) c k)"

section \<open>The raw context is a table of subscriptions\<close>

interpretation raw_table: subscription_table
  rctx_subscriptions rctx_next_subscription_id rctx_next_recv_index rsub_id
  raw_insert "\<lambda>i x. raw_sub_new i (fst x) (snd x)" raw_take
proof unfold_locales
  show "position (\<lambda>s. rsub_id s = i) (rctx_subscriptions c) = Some n \<Longrightarrow>
      \<exists>c'. raw_take c i = (Some (rctx_subscriptions c ! n), c') \<and>
        rctx_subscriptions c' = swap_remove (rctx_subscriptions c) n \<and>
        rctx_next_subscription_id c' = rctx_next_subscription_id c \<and>
        rctx_next_recv_index c' =
          cursor_after_removal (swap_remove (rctx_subscriptions c) n) (rctx_next_recv_index c)" for c i n
    by (simp add: raw_take_def cursor_after_removal_def Let_def)
qed (auto simp: raw_insert_def raw_sub_new_def raw_take_def Let_def simp del: position_None)

section \<open>The raw context scans round-robin\<close>

text \<open>The parts of a raw subscription that never change.\<close>

definition raw_frame :: "raw_subscription \<Rightarrow> subscription_id \<times> raw_subscription_config" where
  "raw_frame s = (rsub_id s, rsub_config s)"

lemma raw_sub_try_recv_keeps:
  "raw_frame (fst (snd (raw_sub_try_recv os ba s k))) = raw_frame s"
  "raw_sub_is_joined (fst (snd (raw_sub_try_recv os ba s k))) = raw_sub_is_joined s"
  by (auto simp: raw_sub_try_recv_def raw_frame_def raw_sub_is_joined_def split: prod.splits)

lemma raw_sub_try_recv_delivers:
  "raw_sub_try_recv os ba s k = (Inr (Some p), s', k') \<Longrightarrow> raw_delivered (rsub_id s) (rsub_config s) p"
  by (auto simp: raw_sub_try_recv_def dest: recv_raw_packet_delivers split: if_splits prod.splits)

lemma raw_scan_refines:
  assumes "index < count" and "length (rctx_subscriptions c) = count"
    and "rr_visit raw_sub_is_joined (raw_sub_try_recv os ba) (order count index n) (rctx_subscriptions c) k =
      (r, ss, k')"
  shows "\<exists>c'. raw_scan os ba count n index c k = Some (map_sum id (map_option snd) r, c', k') \<and>
     rctx_subscriptions c' = ss \<and> rctx_next_subscription_id c' = rctx_next_subscription_id c \<and>
     rctx_next_recv_index c' =
       (case r of Inr (Some (i, _)) \<Rightarrow> (i + 1) mod count | _ \<Rightarrow> rctx_next_recv_index c)"
  using assms
proof (induction n arbitrary: index c k)
  case (Suc n)
  have nxt: "(if index + 1 = count then 0 else index + 1) = next_index count index"
    by (simp add: next_index_def)
  show ?case
  proof (cases "raw_sub_is_joined (rctx_subscriptions c ! index)")
    case False
    then show ?thesis
      using Suc.IH [of "next_index count index" c k] Suc.prems next_index_less [OF Suc.prems(1)]
      by (simp add: nxt Let_def del: One_nat_def)
  next
    case True
    obtain x s' k1 where x: "raw_sub_try_recv os ba (rctx_subscriptions c ! index) k = (x, s', k1)"
      by (metis prod_cases3)
    consider (err) e where "x = Inl e" | (none) "x = Inr None" | (some) p where "x = Inr (Some p)"
      by (metis not_None_eq sum.exhaust)
    then show ?thesis
    proof cases
      case err
      then show ?thesis using Suc.prems True x by auto
    next
      case none
      define c1 where "c1 = c\<lparr>rctx_subscriptions := (rctx_subscriptions c)[index := s']\<rparr>"
      have c1: "rctx_subscriptions c1 = (rctx_subscriptions c)[index := s']"
        "rctx_next_subscription_id c1 = rctx_next_subscription_id c"
        "rctx_next_recv_index c1 = rctx_next_recv_index c"
        by (simp_all add: c1_def)
      from none show ?thesis
        using Suc.IH [of "next_index count index" c1 k1, unfolded c1] Suc.prems
          next_index_less [OF Suc.prems(1)] True x
        by (simp add: nxt Let_def c1_def del: One_nat_def)
    next
      case some
      then show ?thesis using Suc.prems True x by (auto simp: Let_def)
    qed
  qed
qed auto

interpretation raw_any: round_robin
  rctx_subscriptions rctx_next_recv_index raw_sub_is_joined raw_frame "raw_sub_try_recv os ba" fst
  rp_subscription_id "raw_try_recv_any os ba"
proof unfold_locales
  show "\<exists>c'. raw_try_recv_any os ba c k = Some (map_sum id (map_option snd) r, c', k') \<and>
      rctx_subscriptions c' = ss \<and>
      rctx_next_recv_index c' =
        (case r of Inr (Some (i, _)) \<Rightarrow> (i + 1) mod length (rctx_subscriptions c)
         | _ \<Rightarrow> rctx_next_recv_index c)"
    if "rctx_next_recv_index c < length (rctx_subscriptions c)"
      and "rr_scan raw_sub_is_joined (raw_sub_try_recv os ba) (rctx_next_recv_index c) (rctx_subscriptions c) k =
        (r, ss, k')" for c k r ss k'
    using raw_scan_refines [OF that(1) refl that(2) [unfolded rr_scan_def]] that(1)
    by (auto simp: raw_try_recv_any_def Let_def)
  show "fst (raw_sub_try_recv os ba s k) = Inr (Some p) \<Longrightarrow> rp_subscription_id p = fst (raw_frame s)" for s k p
    using raw_sub_try_recv_delivers [of os ba s k p]
    by (cases "raw_sub_try_recv os ba s k") (auto simp: raw_delivered_def raw_frame_def)
qed (simp_all add: raw_try_recv_any_def raw_sub_try_recv_keeps)

section \<open>Operations as steps\<close>

datatype raw_op =
    RawAdd raw_subscription_config
  | RawRemove subscription_id
  | RawJoin subscription_id
  | RawLeave subscription_id
  | RawRecv subscription_id
  | RawRecvAny

inductive raw_step ::
  "'k os \<Rightarrow> bpf_abi \<Rightarrow> raw_op \<Rightarrow> raw_context \<Rightarrow> 'k \<Rightarrow> raw_context \<Rightarrow> 'k \<Rightarrow> bool" for os ba where
  raw_step_add: "raw_add_subscription os ba c cfg k = (r, c', k') \<Longrightarrow> raw_step os ba (RawAdd cfg) c k c' k'"
| raw_step_remove: "raw_remove_subscription os c i k = (b, c', k') \<Longrightarrow> raw_step os ba (RawRemove i) c k c' k'"
| raw_step_join: "raw_join_subscription os c i k = (r, c', k') \<Longrightarrow> raw_step os ba (RawJoin i) c k c' k'"
| raw_step_leave: "raw_leave_subscription os c i k = (r, c', k') \<Longrightarrow> raw_step os ba (RawLeave i) c k c' k'"
| raw_step_recv: "raw_get_subscription c i = Some s \<Longrightarrow> raw_sub_try_recv os ba s k = (q, s', k') \<Longrightarrow>
    raw_step os ba (RawRecv i) c k (raw_set_subscription i s' c) k'"
| raw_step_recv_any: "raw_try_recv_any os ba c k = Some (q, c', k') \<Longrightarrow> raw_step os ba RawRecvAny c k c' k'"

inductive_simps raw_step_simps:
  "raw_step os ba (RawAdd cfg) c k c' k'" "raw_step os ba (RawRemove i) c k c' k'"
  "raw_step os ba (RawJoin i) c k c' k'" "raw_step os ba (RawLeave i) c k c' k'"
  "raw_step os ba (RawRecv i) c k c' k'" "raw_step os ba RawRecvAny c k c' k'"

definition raw_held :: "raw_subscription \<Rightarrow> socket set" where
  "raw_held s = rr_sockets (rsub_socket s)"

definition raw_owned :: "raw_context \<Rightarrow> socket set" where
  "raw_owned c = \<Union> (raw_held ` set (rctx_subscriptions c))"

text \<open>
  Reachable states after \<open>n\<close> operations; between two operations the world may change the kernel in
  any way that does not close a descriptor of the context.
\<close>

inductive raw_reach :: "'k os \<Rightarrow> bpf_abi \<Rightarrow> ('k \<Rightarrow> socket set) \<Rightarrow> nat \<Rightarrow> raw_context \<Rightarrow> 'k \<Rightarrow> bool"
  for os ba opens where
  raw_reach_new: "raw_reach os ba opens 0 raw_context_new k"
| raw_reach_world: "raw_reach os ba opens n c k \<Longrightarrow> raw_owned c \<subseteq> opens k' \<Longrightarrow> raw_reach os ba opens n c k'"
| raw_reach_step: "raw_reach os ba opens n c k \<Longrightarrow> raw_step os ba op c k c' k' \<Longrightarrow>
    raw_reach os ba opens (Suc n) c' k'"

section \<open>The invariant\<close>

definition raw_inv :: "raw_context \<Rightarrow> bool" where
  "raw_inv c \<longleftrightarrow>
     table_ok rsub_id (rctx_subscriptions c) (rctx_next_subscription_id c) (rctx_next_recv_index c) \<and>
     distinct (map rsub_config (rctx_subscriptions c)) \<and>
     (\<forall>s \<in> set (rctx_subscriptions c). raw_validate (rsub_config s) = Inr ()) \<and>
     (\<forall>s \<in> set (rctx_subscriptions c). \<forall>t \<in> set (rctx_subscriptions c).
        rsub_id s \<noteq> rsub_id t \<longrightarrow> raw_held s \<inter> raw_held t = {})"

text \<open>What receives, joins and leaves keep.\<close>

definition raw_kept :: "raw_subscription \<Rightarrow> (subscription_id \<times> raw_subscription_config) \<times> socket set" where
  "raw_kept s = (raw_frame s, raw_held s)"

definition raw_ctx_frame :: "raw_context \<Rightarrow> raw_context \<Rightarrow> bool" where
  "raw_ctx_frame c c' \<longleftrightarrow>
     map raw_kept (rctx_subscriptions c') = map raw_kept (rctx_subscriptions c) \<and>
     rctx_next_subscription_id c' = rctx_next_subscription_id c \<and>
     (rctx_next_recv_index c' = rctx_next_recv_index c \<or>
      rctx_next_recv_index c' < length (rctx_subscriptions c))"

lemma raw_ctx_frame_refl [simp]: "raw_ctx_frame c c"
  by (simp add: raw_ctx_frame_def)

lemma raw_kept_maps:
  assumes "map raw_kept xs = map raw_kept ys"
  shows "map rsub_id xs = map rsub_id ys" "map rsub_config xs = map rsub_config ys"
    "raw_held ` set xs = raw_held ` set ys" "length xs = length ys"
    and "x \<in> set xs \<Longrightarrow> \<exists>y \<in> set ys. raw_kept y = raw_kept x"
proof -
  have m: "map (g \<circ> raw_kept) xs = map (g \<circ> raw_kept) ys" for g :: "_ \<Rightarrow> 'a"
    using assms by (metis map_map)
  show "map rsub_id xs = map rsub_id ys"
    using m [of "fst \<circ> fst"] by (simp add: raw_kept_def raw_frame_def comp_def)
  have "map ((snd \<circ> fst) \<circ> raw_kept) xs = map ((snd \<circ> fst) \<circ> raw_kept) ys"
    using assms by (metis map_map)
  then show "map rsub_config xs = map rsub_config ys" by (simp add: raw_kept_def raw_frame_def comp_def)
  have "map (snd \<circ> raw_kept) xs = map (snd \<circ> raw_kept) ys" using assms by (metis map_map)
  then have "map raw_held xs = map raw_held ys" by (simp add: raw_kept_def comp_def)
  then show "raw_held ` set xs = raw_held ` set ys" by (metis set_map)
  show "length xs = length ys" using assms by (metis length_map)
  show "\<exists>y \<in> set ys. raw_kept y = raw_kept x" if "x \<in> set xs"
    using assms that by (metis (no_types, lifting) image_iff set_map)
qed

lemma raw_ctx_frame_inv:
  assumes "raw_inv c" and "raw_ctx_frame c c'"
  shows "raw_inv c' \<and> raw_owned c' = raw_owned c"
proof -
  let ?S = "rctx_subscriptions c" and ?S' = "rctx_subscriptions c'"
  have f: "map raw_kept ?S' = map raw_kept ?S" using assms(2) by (simp add: raw_ctx_frame_def)
  note maps = raw_kept_maps [OF f]
  have "table_ok rsub_id ?S' (rctx_next_subscription_id c') (rctx_next_recv_index c')"
    using assms maps(1) table_ok_same [of rsub_id ?S] by (auto simp: raw_inv_def raw_ctx_frame_def)
  moreover have "raw_validate (rsub_config s) = Inr ()" if "s \<in> set ?S'" for s
    using assms(1) maps(5) [OF that] by (auto simp: raw_inv_def raw_kept_def raw_frame_def)
  moreover have "raw_held s \<inter> raw_held t = {}"
    if "s \<in> set ?S'" "t \<in> set ?S'" "rsub_id s \<noteq> rsub_id t" for s t
    using assms(1) maps(5) [OF that(1)] maps(5) [OF that(2)] that(3)
    unfolding raw_inv_def raw_kept_def raw_frame_def by (metis prod.inject)
  ultimately show ?thesis
    using assms(1) maps(2,3) by (auto simp: raw_inv_def raw_owned_def)
qed

lemma raw_frame_update:
  assumes "raw_get_subscription c i = Some s" and "raw_kept s' = raw_kept s"
  shows "raw_ctx_frame c (raw_set_subscription i s' c)"
proof -
  have "map raw_kept (update_first (\<lambda>x. rsub_id x = i) (\<lambda>_. s') xs) = map raw_kept xs"
    if "find (\<lambda>x. rsub_id x = i) xs = Some s" for xs
    using that assms(2) by (induction xs) (auto split: if_splits)
  then show ?thesis
    using assms(1) by (simp add: raw_ctx_frame_def raw_set_subscription_def raw_get_subscription_def)
qed

lemma raw_sub_try_recv_kept:
  assumes "accounts os opens" and "raw_sub_try_recv os ba s k = (r, s', k')"
  shows "raw_kept s' = raw_kept s \<and> opens k' = opens k"
  using assms(2) keeps_recv_raw_packet [OF _ assms(1)]
  by (auto simp: raw_sub_try_recv_def raw_kept_def raw_frame_def raw_held_def split: if_splits prod.splits)

lemma keeps_join_then_undo [keeps_intros]:
  "keeps opens m \<Longrightarrow> keeps opens undo \<Longrightarrow> keeps opens (join_then_undo m undo)"
  by (auto simp: keeps_def join_then_undo_def split: prod.splits sum.splits) (metis snd_conv)+

lemma keeps_raw_membership [keeps_intros]:
  assumes acc: "accounts os opens"
  shows "keeps opens (join_raw_multicast_group os rr cfg)"
    and "keeps opens (leave_raw_multicast_group os rr cfg)"
proof -
  show "keeps opens (join_raw_multicast_group os rr cfg)"
    unfolding join_raw_multicast_group_def join_windows_raw_receive_sockets_def Let_def
    by (auto intro!: keeps_intros acc split: option.split)
  have "keeps opens (leave_windows_raw_receive_sockets os rr cfg')" for cfg'
    using keeps_run [OF keeps_leave_multicast_group [OF acc]]
    by (auto simp: leave_windows_raw_receive_sockets_def keeps_def
        split: option.splits prod.splits sum.splits unit.splits)
  then show "keeps opens (leave_raw_multicast_group os rr cfg)"
    unfolding leave_raw_multicast_group_def Let_def
    by (auto intro!: keeps_intros acc)
qed

lemma raw_sub_membership_kept:
  assumes acc: "accounts os opens"
  shows "raw_sub_join os s k = (r, s', k') \<Longrightarrow> raw_kept s' = raw_kept s \<and> opens k' = opens k"
    and "raw_sub_leave os s k = (r, s', k') \<Longrightarrow> raw_kept s' = raw_kept s \<and> opens k' = opens k"
  using keeps_run [OF keeps_raw_membership(1) [OF acc]] keeps_run [OF keeps_raw_membership(2) [OF acc]]
  by (auto simp: raw_sub_join_def raw_sub_leave_def raw_kept_def raw_frame_def raw_held_def
      split: if_splits prod.splits sum.splits)

lemma raw_on_subscription_framed:
  assumes "\<And>s k r s' k'. f s k = (r, s', k') \<Longrightarrow> raw_kept s' = raw_kept s \<and> opens k' = opens k"
    and "raw_on_subscription f c i k = (r, c', k')"
  shows "raw_ctx_frame c c' \<and> opens k' = opens k"
  using assms(2) assms(1) raw_frame_update
  by (auto simp: raw_on_subscription_def split: option.splits prod.splits)

lemma raw_scan_framed:
  assumes acc: "accounts os opens" and "count = length (rctx_subscriptions c)"
    and "raw_scan os ba count n index c k = Some (r, c', k')"
  shows "raw_ctx_frame c c' \<and> opens k' = opens k"
  using assms(2,3)
proof (induction n arbitrary: index c k)
  case (Suc n)
  have lt: "index < length (rctx_subscriptions c)" using Suc.prems(2) by (auto split: if_splits)
  then have "0 < count" using Suc.prems(1) by auto
  show ?case
  proof (cases "raw_sub_is_joined (rctx_subscriptions c ! index)")
    case False
    then show ?thesis using Suc.IH Suc.prems lt by (simp add: Let_def)
  next
    case True
    obtain x s' k1 where x: "raw_sub_try_recv os ba (rctx_subscriptions c ! index) k = (x, s', k1)"
      by (metis prod_cases3)
    define c1 where "c1 = c\<lparr>rctx_subscriptions := (rctx_subscriptions c)[index := s']\<rparr>"
    have kept: "raw_kept s' = raw_kept (rctx_subscriptions c ! index)" "opens k1 = opens k"
      using raw_sub_try_recv_kept [OF acc x] by auto
    then have f: "map raw_kept (rctx_subscriptions c1) = map raw_kept (rctx_subscriptions c)"
      using lt by (simp add: c1_def map_update list_update_same_conv)
    consider (err) e where "x = Inl e" | (none) "x = Inr None" | (some) p where "x = Inr (Some p)"
      by (metis not_None_eq sum.exhaust)
    then show ?thesis
    proof cases
      case err
      then have "c' = c1" "k' = k1" using Suc.prems(2) lt True x by (auto simp: c1_def)
      then show ?thesis using f kept by (simp add: raw_ctx_frame_def) (simp add: c1_def)
    next
      case none
      then have "raw_ctx_frame c1 c' \<and> opens k' = opens k1"
        using Suc.prems lt True x
        by (intro Suc.IH [where index = "if index + 1 = count then 0 else index + 1"])
           (simp_all add: c1_def Let_def)
      then show ?thesis using f kept by (auto simp: raw_ctx_frame_def c1_def)
    next
      case some
      then have "c' = c1\<lparr>rctx_next_recv_index := (index + 1) mod count\<rparr>" "k' = k1"
        using Suc.prems(2) lt True x by (auto simp: c1_def)
      then show ?thesis using f kept Suc.prems(1) \<open>0 < count\<close> by (simp add: raw_ctx_frame_def) (simp add: c1_def)
    qed
  qed
qed simp

lemma raw_framed_step:
  assumes acc: "accounts os opens" and "raw_step os ba op c k c' k'"
    and "\<forall>cfg i. op \<noteq> RawAdd cfg \<and> op \<noteq> RawRemove i"
  shows "raw_ctx_frame c c' \<and> opens k' = opens k"
  using assms(2)
proof cases
  case (raw_step_join i r)
  then show ?thesis
    using raw_on_subscription_framed [OF raw_sub_membership_kept(1) [OF acc]]
    by (simp add: raw_join_subscription_def)
next
  case (raw_step_leave i r)
  then show ?thesis
    using raw_on_subscription_framed [OF raw_sub_membership_kept(2) [OF acc]]
    by (simp add: raw_leave_subscription_def)
next
  case (raw_step_recv i s q s')
  then show ?thesis using raw_sub_try_recv_kept [OF acc] raw_frame_update by metis
next
  case (raw_step_recv_any q)
  then show ?thesis
    using raw_scan_framed [OF acc refl] by (auto simp: raw_try_recv_any_def Let_def split: if_splits)
qed (use assms(3) in auto)

section \<open>Adding and removing\<close>

definition raw_step_ok :: "('k \<Rightarrow> socket set) \<Rightarrow> raw_context \<Rightarrow> 'k \<Rightarrow> raw_context \<Rightarrow> 'k \<Rightarrow> bool" where
  "raw_step_ok opens c k c' k' \<longleftrightarrow>
     raw_inv c' \<and> raw_owned c' \<subseteq> opens k' \<and> opens k' - raw_owned c' = opens k - raw_owned c"

lemma raw_step_ok_add:
  assumes acc: "accounts os opens" and inv: "raw_inv c" "raw_owned c \<subseteq> opens k"
    and n: "unat (rctx_next_subscription_id c) < 2 ^ 64 - 1"
    and step: "raw_add_subscription os ba c cfg k = (r, c', k')"
  shows "raw_step_ok opens c k c' k'"
proof (cases r)
  case (Inl e)
  then have "c' = c \<and> opens k' = opens k"
    using step acquires_Inl [OF acquires_open_raw_socket [OF acc]]
    by (auto simp: raw_add_subscription_def io_eqs split: prod.splits sum.splits)
  then show ?thesis using inv by (simp add: raw_step_ok_def)
next
  case (Inr i)
  then obtain rr where v: "raw_validate cfg = Inr ()" "raw_ensure_unique c cfg = Inr ()"
    and o: "open_raw_socket os ba cfg k = (Inr rr, k')" and ins: "raw_insert c (cfg, rr) = (i, c')"
    using step by (auto simp: raw_add_subscription_def io_eqs split: prod.splits sum.splits)
  have fresh: "rr_sockets rr \<inter> opens k = {} \<and> opens k' = rr_sockets rr \<union> opens k"
    using acquires_Inr [OF acquires_open_raw_socket [OF acc] o] .
  have c': "rctx_subscriptions c' = rctx_subscriptions c @ [raw_sub_new i cfg rr]"
    using ins by (auto simp: raw_insert_def Let_def)
  have ok: "table_ok rsub_id (rctx_subscriptions c') (rctx_next_subscription_id c') (rctx_next_recv_index c')"
    using raw_table.ok_push [OF _ ins n] inv(1) by (simp add: raw_table.ok_def raw_inv_def)
  have held: "raw_held (raw_sub_new i cfg rr) = rr_sockets rr" by (simp add: raw_held_def raw_sub_new_def)
  have disjoint: "raw_held s \<inter> rr_sockets rr = {}" if "s \<in> set (rctx_subscriptions c)" for s
    using that inv(2) fresh by (auto simp: raw_owned_def)
  have unique: "cfg \<notin> rsub_config ` set (rctx_subscriptions c)"
    using v(2) by (auto simp: raw_ensure_unique_def split: if_splits)
  have "raw_inv c'"
    using inv(1) ok c' held disjoint unique v(1) unfolding raw_inv_def
    by (auto simp: raw_sub_new_def Int_commute)
  moreover have "raw_owned c' = rr_sockets rr \<union> raw_owned c"
    using c' held by (auto simp: raw_owned_def)
  ultimately show ?thesis using fresh inv(2) by (auto simp: raw_step_ok_def)
qed

lemma opens_drop_raw_socket:
  assumes "accounts os opens"
  shows "opens (drop_raw_socket os rr k) = opens k - rr_sockets rr"
proof -
  have "opens (close_option os s k) = opens k - set_option s" for s k
    by (cases s) (auto simp: close_option_def accounts_close [OF assms])
  then show ?thesis
    by (auto simp: drop_raw_socket_def rr_sockets_def accounts_close [OF assms])
qed

lemma raw_step_ok_remove:
  assumes acc: "accounts os opens" and inv: "raw_inv c" "raw_owned c \<subseteq> opens k"
    and step: "raw_remove_subscription os c i k = (b, c', k')"
  shows "raw_step_ok opens c k c' k'"
proof -
  obtain r c1 where t: "raw_take c i = (r, c1)" by fastforce
  then have c1: "c1 = c'" "k' = (case r of Some x \<Rightarrow> drop_raw_socket os (rsub_socket x) k | None \<Rightarrow> k)"
    using step by (auto simp: raw_remove_subscription_def split: option.splits)
  show ?thesis using t
  proof (cases rule: raw_table.take_out_cases)
    case absent
    then show ?thesis using c1 inv by (simp add: raw_step_ok_def)
  next
    case (present n)
    let ?S = "rctx_subscriptions c"
    have d: "distinct (map rsub_id ?S)" "distinct (map rsub_config ?S)"
      using inv(1) by (auto simp: raw_inv_def table_ok_def)
    have rest: "set (rctx_subscriptions c') = {s \<in> set ?S. rsub_id s \<noteq> i}"
      using set_swap_remove [OF d(1) present(1)] present c1(1) by simp
    have "table_ok rsub_id (rctx_subscriptions c') (rctx_next_subscription_id c') (rctx_next_recv_index c')"
      using raw_table.ok_take_out [OF _ t] inv(1) c1(1) by (simp add: raw_table.ok_def raw_inv_def)
    moreover have "distinct (map rsub_config (rctx_subscriptions c'))"
      using distinct_swap_remove [OF d(2) present(1)] present(5) c1(1) by simp
    ultimately have inv': "raw_inv c'" using inv(1) rest by (simp add: raw_inv_def)
    have apart: "raw_held s \<inter> raw_held (?S ! n) = {}" if "s \<in> set ?S" "rsub_id s \<noteq> i" for s
      using inv(1) that present(1,2) unfolding raw_inv_def by auto
    have "raw_owned c = raw_held (?S ! n) \<union> raw_owned c'"
    proof -
      have "s = ?S ! n" if "s \<in> set ?S" "rsub_id s = i" for s
        using that present(1,2) d(1) by (metis distinct_map inj_on_eq_iff nth_mem)
      then show ?thesis using rest present(1) by (auto simp: raw_owned_def)
    qed
    moreover have "raw_owned c' \<inter> raw_held (?S ! n) = {}" using rest apart by (auto simp: raw_owned_def)
    moreover have "opens k' = opens k - raw_held (?S ! n)"
      using c1(2) present(3) opens_drop_raw_socket [OF acc] by (simp add: raw_held_def)
    ultimately show ?thesis using inv' inv(2) by (auto simp: raw_step_ok_def)
  qed
qed

lemma raw_step_ok_any:
  assumes acc: "accounts os opens" and inv: "raw_inv c" "raw_owned c \<subseteq> opens k"
    and n: "unat (rctx_next_subscription_id c) < 2 ^ 64 - 1"
    and step: "raw_step os ba op c k c' k'"
  shows "raw_step_ok opens c k c' k'"
proof (cases "\<forall>cfg i. op \<noteq> RawAdd cfg \<and> op \<noteq> RawRemove i")
  case True
  then have f: "raw_ctx_frame c c' \<and> opens k' = opens k" by (rule raw_framed_step [OF acc step])
  then show ?thesis using raw_ctx_frame_inv [OF inv(1) conjunct1 [OF f]] inv(2) by (simp add: raw_step_ok_def)
next
  case False
  then consider (add) cfg where "op = RawAdd cfg" | (remove) i where "op = RawRemove i" by blast
  then show ?thesis
  proof cases
    case add
    with step obtain r where "raw_add_subscription os ba c cfg k = (r, c', k')"
      by (auto simp: raw_step_simps)
    then show ?thesis by (rule raw_step_ok_add [OF acc inv n])
  next
    case remove
    with step obtain b where "raw_remove_subscription os c i k = (b, c', k')"
      by (auto simp: raw_step_simps)
    then show ?thesis by (rule raw_step_ok_remove [OF acc inv])
  qed
qed

lemma raw_step_next_id:
  assumes acc: "accounts os opens" and "raw_step os ba op c k c' k'"
  shows "rctx_next_subscription_id c' \<in> {rctx_next_subscription_id c, rctx_next_subscription_id c + 1}"
  using assms(2)
proof cases
  case (raw_step_add cfg r)
  then show ?thesis
    by (auto simp: raw_add_subscription_def raw_insert_def Let_def split: prod.splits sum.splits)
qed (use raw_framed_step [OF acc assms(2)] in
      \<open>auto simp: raw_ctx_frame_def raw_remove_subscription_def raw_take_def Let_def split: option.splits\<close>)

lemma raw_reach_inv:
  assumes acc: "accounts os opens" and "raw_reach os ba opens n c k" and "n < 2 ^ 64 - 1"
  shows "raw_inv c \<and> raw_owned c \<subseteq> opens k \<and> unat (rctx_next_subscription_id c) \<le> Suc n"
  using assms(2,3)
proof induction
  case (raw_reach_new k)
  then show ?case by (simp add: raw_inv_def raw_owned_def raw_context_new_def table_ok_def)
next
  case (raw_reach_world n c k k')
  then show ?case by simp
next
  case (raw_reach_step n c k op c' k')
  then have ih: "raw_inv c" "raw_owned c \<subseteq> opens k" and b: "unat (rctx_next_subscription_id c) \<le> Suc n"
    by auto
  have lt: "unat (rctx_next_subscription_id c) < 2 ^ 64 - 1"
    using b raw_reach_step.prems by linarith
  have "raw_step_ok opens c k c' k'"
    using raw_step_ok_any [OF acc ih lt raw_reach_step.hyps(2)] .
  moreover have "unat (rctx_next_subscription_id c') \<le> Suc (Suc n)"
    using raw_step_next_id [OF acc raw_reach_step.hyps(2)] unat_Suc_u64 [OF lt] b by auto
  ultimately show ?case by (simp add: raw_step_ok_def)
qed

section \<open>Properties\<close>

text \<open>
  The raw context owns exactly the descriptors of its subscriptions: in every reachable state
  they are open and belong to one subscription each, and no operation - not a failed add, nor a
  removal, a join, a leave or a receive - leaks a descriptor or closes a foreign one.
\<close>

theorem raw_context_never_leaks:
  assumes "accounts os opens" and "raw_reach os ba opens n c k" and "Suc n < 2 ^ 64 - 1"
    and "raw_step os ba op c k c' k'"
  shows "raw_owned c' \<subseteq> opens k' \<and> opens k' - raw_owned c' = opens k - raw_owned c \<and>
     (\<forall>s \<in> set (rctx_subscriptions c'). \<forall>t \<in> set (rctx_subscriptions c').
        rsub_id s \<noteq> rsub_id t \<longrightarrow> raw_held s \<inter> raw_held t = {})"
proof -
  have inv: "raw_inv c" "raw_owned c \<subseteq> opens k" and "unat (rctx_next_subscription_id c) \<le> Suc n"
    using raw_reach_inv [OF assms(1,2)] assms(3) by auto
  then have "unat (rctx_next_subscription_id c) < 2 ^ 64 - 1" using assms(3) by linarith
  from raw_step_ok_any [OF assms(1) inv this assms(4)] show ?thesis
    by (simp add: raw_step_ok_def raw_inv_def)
qed

definition raw_demo_added :: "(mcrx_error + subscription_id) \<times> raw_context \<times> sim" where
  "raw_demo_added = raw_add_subscription (sim_os Linux) mac_abi raw_context_new raw_demo_config sim_init"

lemma raw_demo_reach:
  "raw_reach (sim_os Linux) mac_abi sim_sockets 1 (fst (snd raw_demo_added)) (snd (snd raw_demo_added))"
proof -
  have "raw_step (sim_os Linux) mac_abi (RawAdd raw_demo_config) raw_context_new sim_init
      (fst (snd raw_demo_added)) (snd (snd raw_demo_added))"
    by (rule raw_step_add [where r = "fst raw_demo_added"]) (simp flip: raw_demo_added_def)
  from raw_reach_step [OF raw_reach_new this] show ?thesis by simp
qed

theorem raw_context_never_leaks_witness:
  "\<exists>c' k'. raw_step (sim_os Linux) mac_abi (RawRemove (SubscriptionId 1))
       (fst (snd raw_demo_added)) (snd (snd raw_demo_added)) c' k' \<and>
     sim_sockets k' - raw_owned c' =
       sim_sockets (snd (snd raw_demo_added)) - raw_owned (fst (snd raw_demo_added))"
proof -
  obtain b c' k' where "raw_remove_subscription (sim_os Linux) (fst (snd raw_demo_added)) (SubscriptionId 1)
      (snd (snd raw_demo_added)) = (b, c', k')"
    by (metis prod_cases3)
  then have step: "raw_step (sim_os Linux) mac_abi (RawRemove (SubscriptionId 1))
      (fst (snd raw_demo_added)) (snd (snd raw_demo_added)) c' k'"
    by (rule raw_step_remove)
  from raw_context_never_leaks [OF sim_accounts raw_demo_reach _ this] step show ?thesis by auto
qed

text \<open>
  In every reachable state of a raw context the receive returns without a panic, is the
  round-robin scan from the cursor, and a packet it delivers is a datagram that matches the
  configuration of the subscription it names.
\<close>

theorem raw_context_receives:
  assumes "accounts os opens" and "raw_reach os ba opens n c k" and "n < 2 ^ 64 - 1"
  shows "case raw_try_recv_any os ba c k' of
       None \<Rightarrow> False
     | Some (r, c', k'') \<Rightarrow>
         r = map_sum id (map_option snd)
           (fst (rr_scan raw_sub_is_joined (raw_sub_try_recv os ba) (rctx_next_recv_index c)
              (rctx_subscriptions c) k')) \<and>
         (\<forall>p. r = Inr (Some p) \<longrightarrow>
            (\<exists>s \<in> set (rctx_subscriptions c). raw_delivered (rsub_id s) (rsub_config s) p))"
proof (cases "rctx_subscriptions c = []")
  case True
  then show ?thesis by (simp add: raw_try_recv_any_def rr_scan_def)
next
  case False
  have "raw_inv c" using raw_reach_inv [OF assms] by simp
  then have lt: "rctx_next_recv_index c < length (rctx_subscriptions c)"
    using False by (simp add: raw_inv_def table_ok_def)
  obtain r ss k1 where scan: "rr_scan raw_sub_is_joined (raw_sub_try_recv os ba) (rctx_next_recv_index c)
      (rctx_subscriptions c) k' = (r, ss, k1)"
    by (metis prod_cases3)
  have "\<exists>s \<in> set (rctx_subscriptions c). raw_delivered (rsub_id s) (rsub_config s) p"
    if got: "r = Inr (Some (i, p))" for i p
  proof -
    obtain s0 k0 where src: "i < length (rctx_subscriptions c)"
      "raw_frame s0 = raw_frame (rctx_subscriptions c ! i)" "fst (raw_sub_try_recv os ba s0 k0) = Inr (Some p)"
      using rr_visit_source [of raw_frame "raw_sub_try_recv os ba", OF raw_sub_try_recv_keeps(1) _
          scan [unfolded rr_scan_def, unfolded got]] set_order [OF lt] by blast
    then have "raw_delivered (rsub_id s0) (rsub_config s0) p"
      using raw_sub_try_recv_delivers [of os ba s0 k0 p] by (cases "raw_sub_try_recv os ba s0 k0") auto
    then show ?thesis using src(1,2) by (auto simp: raw_frame_def intro!: bexI [OF _ nth_mem])
  qed
  then show ?thesis
    using raw_any.scans [OF lt scan] by (auto simp: scan map_sum_def split: sum.splits)
qed

theorem raw_context_receives_witness:
  "raw_try_recv_any (sim_os Linux) mac_abi (fst (snd raw_demo_added)) (snd (snd raw_demo_added)) \<noteq> None"
  using raw_context_receives [OF sim_accounts raw_demo_reach, of "snd (snd raw_demo_added)"]
  by (auto split: option.splits)

end
