(* ===== verification/Demux.thy ===== *)
theory Demux
  imports Packet "HOL-Library.AList"
begin

text \<open>
  The demultiplexer of \<open>src/raw/shared.rs\<close>: sorted vectors of subscription identifiers, the index
  from group and source to the identifiers registered there, and the identifiers that match a
  datagram. A \<open>HashMap\<close> is an association list with distinct keys; nothing depends on its order.
  Lemmas: the index implements the set of registrations (\<open>source_index\<close>), and a lookup yields
  exactly the matching identifiers, in ascending order and without duplicates.
\<close>

section \<open>Identifiers are ordered\<close>

instantiation subscription_id :: linorder
begin

definition less_eq_subscription_id :: "subscription_id \<Rightarrow> subscription_id \<Rightarrow> bool" where
  "i \<le> j \<longleftrightarrow> sid i \<le> sid j"

definition less_subscription_id :: "subscription_id \<Rightarrow> subscription_id \<Rightarrow> bool" where
  "i < j \<longleftrightarrow> sid i < sid j"

instance
  by standard
     (auto simp: less_eq_subscription_id_def less_subscription_id_def subscription_id.expand)

end

section \<open>Hash maps\<close>

type_synonym ('k, 'v) hash_map = "('k \<times> 'v) list"

definition hm_ok :: "('k, 'v) hash_map \<Rightarrow> bool" where
  "hm_ok m \<longleftrightarrow> distinct (map fst m)"

abbreviation hm_insert :: "'k \<Rightarrow> 'v \<Rightarrow> ('k, 'v) hash_map \<Rightarrow> ('k, 'v) hash_map" where
  "hm_insert \<equiv> AList.update"

abbreviation hm_remove :: "'k \<Rightarrow> ('k, 'v) hash_map \<Rightarrow> ('k, 'v) hash_map" where
  "hm_remove \<equiv> AList.delete"

named_theorems hm_simps

lemma hm_insert [hm_simps]: "map_of (hm_insert k v m) = (map_of m)(k \<mapsto> v)"
  by (rule update_conv')

lemma hm_remove [hm_simps]: "map_of (hm_remove k m) = (map_of m)(k := None)"
  by (rule delete_conv')

lemma hm_ok [hm_simps]: "hm_ok []" "hm_ok m \<Longrightarrow> hm_ok (hm_insert k v m)" "hm_ok m \<Longrightarrow> hm_ok (hm_remove k m)"
  by (simp_all add: hm_ok_def distinct_update distinct_delete)

lemma hm_empty: "m = [] \<longleftrightarrow> map_of m = Map.empty"
  by (cases m) (auto dest: fun_cong)

section \<open>Sorted vectors of identifiers\<close>

text \<open>
  \<open>binary_search_by_key\<close>: \<open>Inr\<close> is \<open>Ok\<close> with the index of the key, \<open>Inl\<close> is \<open>Err\<close> with the index
  where the key can be inserted.
\<close>

function bsearch :: "subscription_id list \<Rightarrow> subscription_id \<Rightarrow> nat \<Rightarrow> nat \<Rightarrow> nat + nat" where
  "bsearch ids i lo hi =
     (if hi \<le> lo then Inl lo
      else
        (let mid = (lo + hi) div 2 in
         if ids ! mid = i then Inr mid
         else if ids ! mid < i then bsearch ids i (mid + 1) hi
         else bsearch ids i lo mid))"
  by pat_completeness auto
termination
  by (relation "measure (\<lambda>(ids, i, lo, hi). hi - lo)") auto

declare bsearch.simps [simp del]

definition binary_search :: "subscription_id list \<Rightarrow> subscription_id \<Rightarrow> nat + nat" where
  "binary_search ids i = bsearch ids i 0 (length ids)"

definition insert_id :: "subscription_id list \<Rightarrow> subscription_id \<Rightarrow> subscription_id list" where
  "insert_id ids i =
     (case binary_search ids i of Inr _ \<Rightarrow> ids | Inl index \<Rightarrow> vec_insert ids index i)"

definition remove_id :: "subscription_id list \<Rightarrow> subscription_id \<Rightarrow> subscription_id list" where
  "remove_id ids i =
     (case binary_search ids i of Inr index \<Rightarrow> vec_remove ids index | Inl _ \<Rightarrow> ids)"

text \<open>
  The merge loop, over the positions in both slices; the first two clauses are the loop's end, where
  the rest of the slices is appended.
\<close>

function merge_loop ::
  "subscription_id list \<Rightarrow> subscription_id list \<Rightarrow> nat \<Rightarrow> nat \<Rightarrow> subscription_id list \<Rightarrow> subscription_id list" where
  "merge_loop first second first_index second_index matches =
     (if \<not> (first_index < length first \<and> second_index < length second)
      then matches @ drop first_index first @ drop second_index second
      else if first ! first_index < second ! second_index
      then merge_loop first second (first_index + 1) second_index (matches @ [first ! first_index])
      else if second ! second_index < first ! first_index
      then merge_loop first second first_index (second_index + 1) (matches @ [second ! second_index])
      else merge_loop first second (first_index + 1) (second_index + 1) (matches @ [first ! first_index]))"
  by pat_completeness auto
termination
  by (relation "measure (\<lambda>(first, second, i, j, m). (length first - i) + (length second - j))") auto

declare merge_loop.simps [simp del]

definition merge_ids :: "subscription_id list \<Rightarrow> subscription_id list \<Rightarrow> subscription_id list" where
  "merge_ids first second = merge_loop first second 0 0 []"

section \<open>Matching identifiers\<close>

datatype matching_subscription_ids = One subscription_id | Many "subscription_id list"

definition from_sorted_slices ::
  "subscription_id list \<Rightarrow> subscription_id list \<Rightarrow> matching_subscription_ids option" where
  "from_sorted_slices first second =
     (let total = length first + length second in
      if total = 0 then None
      else if total = 1 then Some (One (case first of i # _ \<Rightarrow> i | [] \<Rightarrow> second ! 0))
      else Some (Many (merge_ids first second)))"

fun as_slice :: "matching_subscription_ids \<Rightarrow> subscription_id list" where
  "as_slice (One i) = [i]"
| "as_slice (Many ids) = ids"

text \<open>\<open>first\<close> and \<open>remove_existing\<close> panic on an empty slice and on \<open>One\<close>: \<open>None\<close>.\<close>

definition first_id :: "matching_subscription_ids \<Rightarrow> subscription_id option" where
  "first_id m = (case as_slice m of [] \<Rightarrow> None | i # _ \<Rightarrow> Some i)"

fun remove_existing :: "matching_subscription_ids \<Rightarrow> nat \<Rightarrow> matching_subscription_ids option" where
  "remove_existing (One i) index = None"
| "remove_existing (Many ids) index =
     (if \<not> index < length ids then None
      else
        (let rest = vec_remove ids index in
         Some (if length rest = 1 then One (rest ! 0) else Many rest)))"

section \<open>The index of one group\<close>

record group_demultiplexer =
  gd_any_source :: "subscription_id list"
  gd_sources :: "(ip_addr, subscription_id list) hash_map"

definition group_default :: group_demultiplexer where
  "group_default = \<lparr>gd_any_source = [], gd_sources = []\<rparr>"

definition group_insert ::
  "subscription_id \<Rightarrow> ip_addr option \<Rightarrow> group_demultiplexer \<Rightarrow> group_demultiplexer" where
  "group_insert i source d =
     (case source of
        Some source \<Rightarrow>
          d\<lparr>gd_sources := hm_insert source
              (insert_id (unwrap_or (map_of (gd_sources d) source) []) i) (gd_sources d)\<rparr>
      | None \<Rightarrow> d\<lparr>gd_any_source := insert_id (gd_any_source d) i\<rparr>)"

definition group_remove ::
  "subscription_id \<Rightarrow> ip_addr option \<Rightarrow> group_demultiplexer \<Rightarrow> group_demultiplexer" where
  "group_remove i source d =
     (case source of
        Some source \<Rightarrow>
          (case map_of (gd_sources d) source of
             None \<Rightarrow> d
           | Some ids \<Rightarrow>
               (let ids = remove_id ids i in
                if ids = [] then d\<lparr>gd_sources := hm_remove source (gd_sources d)\<rparr>
                else d\<lparr>gd_sources := hm_insert source ids (gd_sources d)\<rparr>))
      | None \<Rightarrow> d\<lparr>gd_any_source := remove_id (gd_any_source d) i\<rparr>)"

definition group_is_empty :: "group_demultiplexer \<Rightarrow> bool" where
  "group_is_empty d \<longleftrightarrow> gd_any_source d = [] \<and> gd_sources d = []"

definition group_matches :: "group_demultiplexer \<Rightarrow> ip_addr \<Rightarrow> matching_subscription_ids option" where
  "group_matches d source =
     from_sorted_slices (gd_any_source d) (unwrap_or (map_of (gd_sources d) source) [])"

section \<open>The index of a capture\<close>

type_synonym capture_demultiplexer = "(ip_addr, group_demultiplexer) hash_map"

definition capture_insert ::
  "subscription_id \<Rightarrow> raw_subscription_config \<Rightarrow> capture_demultiplexer \<Rightarrow> capture_demultiplexer" where
  "capture_insert i cfg d =
     hm_insert (rcfg_group cfg)
       (group_insert i (raw_source_addr cfg) (unwrap_or (map_of d (rcfg_group cfg)) group_default)) d"

definition capture_remove ::
  "subscription_id \<Rightarrow> raw_subscription_config \<Rightarrow> capture_demultiplexer \<Rightarrow> capture_demultiplexer" where
  "capture_remove i cfg d =
     (case map_of d (rcfg_group cfg) of
        None \<Rightarrow> d
      | Some g \<Rightarrow>
          (let g' = group_remove i (raw_source_addr cfg) g in
           if group_is_empty g' then hm_remove (rcfg_group cfg) d
           else hm_insert (rcfg_group cfg) g' d))"

definition capture_matches ::
  "capture_demultiplexer \<Rightarrow> ip_addr \<Rightarrow> ip_addr \<Rightarrow> matching_subscription_ids option" where
  "capture_matches d grp source =
     Option.bind (map_of d grp) (\<lambda>g. group_matches g source)"

section \<open>Lemmas on sorted vectors\<close>

abbreviation sorted_ids :: "subscription_id list \<Rightarrow> bool" where
  "sorted_ids \<equiv> sorted_wrt (<)"

lemma sorted_ids_nth: "sorted_ids ids \<Longrightarrow> m < n \<Longrightarrow> n < length ids \<Longrightarrow> ids ! m < ids ! n"
  by (simp add: sorted_wrt_nth_less)

lemma bsearch_correct:
  assumes "sorted_ids ids" and "lo \<le> hi" and "hi \<le> length ids"
    and "\<forall>m < lo. ids ! m < i" and "\<forall>m. hi \<le> m \<longrightarrow> m < length ids \<longrightarrow> i < ids ! m"
  shows "case bsearch ids i lo hi of
     Inr n \<Rightarrow> n < length ids \<and> ids ! n = i
   | Inl n \<Rightarrow> n \<le> length ids \<and> (\<forall>m < n. ids ! m < i) \<and> (\<forall>m. n \<le> m \<longrightarrow> m < length ids \<longrightarrow> i < ids ! m)"
  using assms
proof (induction ids i lo hi rule: bsearch.induct)
  case (1 ids i lo hi)
  let ?mid = "(lo + hi) div 2"
  show ?case
  proof (cases "hi \<le> lo")
    case True
    then show ?thesis using "1.prems" by (subst bsearch.simps) auto
  next
    case False
    then have mid: "lo \<le> ?mid" "?mid < hi" by auto
    consider (eq) "ids ! ?mid = i" | (less) "ids ! ?mid < i" | (more) "i < ids ! ?mid" by fastforce
    then show ?thesis
    proof cases
      case eq
      then show ?thesis using False mid "1.prems"(3) by (subst bsearch.simps) (simp add: Let_def)
    next
      case less
      have "\<forall>m < ?mid + 1. ids ! m < i"
      proof (intro allI impI)
        fix m assume "m < ?mid + 1"
        then show "ids ! m < i"
          using less sorted_ids_nth [OF "1.prems"(1), of m ?mid] mid "1.prems"(3)
          by (cases "m = ?mid") auto
      qed
      then have "case bsearch ids i (?mid + 1) hi of
         Inr n \<Rightarrow> n < length ids \<and> ids ! n = i
       | Inl n \<Rightarrow> n \<le> length ids \<and> (\<forall>m < n. ids ! m < i) \<and> (\<forall>m. n \<le> m \<longrightarrow> m < length ids \<longrightarrow> i < ids ! m)"
        using False less mid "1.prems" by (intro "1.IH"(1)) auto
      moreover have "ids ! ?mid \<noteq> i" using less by auto
      ultimately show ?thesis using False less by (subst bsearch.simps) (simp add: Let_def)
    next
      case more
      have "\<forall>m. ?mid \<le> m \<longrightarrow> m < length ids \<longrightarrow> i < ids ! m"
      proof (intro allI impI)
        fix m assume "?mid \<le> m" "m < length ids"
        then show "i < ids ! m"
          using more sorted_ids_nth [OF "1.prems"(1), of ?mid m] by (cases "m = ?mid") auto
      qed
      then have "case bsearch ids i lo ?mid of
         Inr n \<Rightarrow> n < length ids \<and> ids ! n = i
       | Inl n \<Rightarrow> n \<le> length ids \<and> (\<forall>m < n. ids ! m < i) \<and> (\<forall>m. n \<le> m \<longrightarrow> m < length ids \<longrightarrow> i < ids ! m)"
        using False more mid "1.prems" by (intro "1.IH"(2)) auto
      moreover have "\<not> ids ! ?mid < i" "ids ! ?mid \<noteq> i" using more by auto
      ultimately show ?thesis using False by (subst bsearch.simps) (simp add: Let_def)
    qed
  qed
qed

lemma binary_search_Inr:
  "sorted_ids ids \<Longrightarrow> binary_search ids i = Inr n \<Longrightarrow> n < length ids \<and> ids ! n = i"
  using bsearch_correct [of ids 0 "length ids" i] by (simp add: binary_search_def)

lemma binary_search_Inl:
  assumes "sorted_ids ids" and "binary_search ids i = Inl n"
  shows "(\<forall>x \<in> set (take n ids). x < i) \<and> (\<forall>x \<in> set (drop n ids). i < x)"
proof -
  have "n \<le> length ids" "\<forall>m < n. ids ! m < i" "\<forall>m. n \<le> m \<longrightarrow> m < length ids \<longrightarrow> i < ids ! m"
    using bsearch_correct [of ids 0 "length ids" i] assms by (simp_all add: binary_search_def)
  then show ?thesis by (auto simp: in_set_conv_nth)
qed

lemma insert_id_ok:
  assumes "sorted_ids ids"
  shows "sorted_ids (insert_id ids i) \<and> set (insert_id ids i) = insert i (set ids)"
proof (cases "binary_search ids i")
  case (Inr n)
  then have "i \<in> set ids" using binary_search_Inr [OF assms Inr] by auto
  with Inr show ?thesis using assms by (auto simp: insert_id_def)
next
  case (Inl n)
  have split: "ids = take n ids @ drop n ids" by simp
  have "sorted_ids (take n ids @ i # drop n ids)"
    using assms binary_search_Inl [OF assms Inl]
    by (subst (asm) split) (auto simp: sorted_wrt_append simp del: append_take_drop_id)
  moreover have "set ids = set (take n ids) \<union> set (drop n ids)" by (metis split set_append)
  ultimately show ?thesis using Inl by (simp add: insert_id_def vec_insert_def)
qed

lemma remove_id_ok:
  assumes "sorted_ids ids"
  shows "sorted_ids (remove_id ids i) \<and> set (remove_id ids i) = set ids - {i}"
proof (cases "binary_search ids i")
  case (Inr n)
  then have n: "n < length ids" "ids ! n = i" using binary_search_Inr [OF assms Inr] by auto
  then have split: "ids = take n ids @ i # drop (Suc n) ids" using id_take_nth_drop by blast
  then have "sorted_ids (take n ids @ i # drop (Suc n) ids)" using assms by simp
  then have "sorted_ids (take n ids @ drop (Suc n) ids)"
    and "i \<notin> set (take n ids) \<union> set (drop (Suc n) ids)"
    by (auto simp: sorted_wrt_append)
  moreover have "set ids = insert i (set (take n ids) \<union> set (drop (Suc n) ids))"
    by (subst split) simp
  ultimately show ?thesis using Inr by (simp add: remove_id_def vec_remove_def)
next
  case (Inl n)
  have "set ids = set (take n ids) \<union> set (drop n ids)" by (metis append_take_drop_id set_append)
  then have "i \<notin> set ids" using binary_search_Inl [OF assms Inl] by auto
  with Inl show ?thesis using assms by (simp add: remove_id_def)
qed

lemma merge_loop_ok:
  assumes "sorted_ids first" and "sorted_ids second" and "sorted_ids m"
    and "\<forall>x \<in> set m. \<forall>y \<in> set (drop i first) \<union> set (drop j second). x < y"
  shows "sorted_ids (merge_loop first second i j m) \<and>
     set (merge_loop first second i j m) = set m \<union> set (drop i first) \<union> set (drop j second)"
  using assms
proof (induction first second i j m rule: merge_loop.induct)
  case (1 first second i j m)
  have sorted: "sorted_ids (drop i first)" "sorted_ids (drop j second)"
    using "1.prems"(1,2) by (simp_all add: sorted_wrt_drop)
  show ?case
  proof (cases "i < length first \<and> j < length second")
    case False
    then have "drop i first = [] \<or> drop j second = []" by auto
    with sorted "1.prems"(3,4) show ?thesis
      by (subst (1 2) merge_loop.simps) (use False in \<open>auto simp: sorted_wrt_append\<close>)
  next
    case True
    let ?x = "first ! i" and ?y = "second ! j"
    have heads: "drop i first = ?x # drop (i + 1) first" "drop j second = ?y # drop (j + 1) second"
      using True by (simp_all add: Cons_nth_drop_Suc)
    have above: "\<forall>z \<in> set (drop (i + 1) first). ?x < z" "\<forall>z \<in> set (drop (j + 1) second). ?y < z"
      using sorted unfolding heads by simp_all
    note prems = "1.prems"(3,4) [unfolded heads]
    consider (less) "?x < ?y" | (more) "?y < ?x" | (eq) "?x = ?y" by fastforce
    then show ?thesis
    proof cases
      case less
      then have "\<forall>x \<in> set (m @ [?x]). \<forall>y \<in> set (drop (i + 1) first) \<union> set (drop j second). x < y"
        using prems above unfolding heads by fastforce
      with 1(1) [OF _ less "1.prems"(1,2)] prems True less heads show ?thesis
        by (subst (1 2) merge_loop.simps) (auto simp: sorted_wrt_append)
    next
      case more
      then have "\<not> ?x < ?y" by simp
      have "\<forall>x \<in> set (m @ [?y]). \<forall>y \<in> set (drop i first) \<union> set (drop (j + 1) second). x < y"
        using prems above more unfolding heads by fastforce
      with 1(2) [OF _ \<open>\<not> ?x < ?y\<close> more "1.prems"(1,2)] prems True more heads show ?thesis
        by (subst (1 2) merge_loop.simps) (auto simp: sorted_wrt_append)
    next
      case eq
      then have ne: "\<not> ?x < ?y" "\<not> ?y < ?x" by simp_all
      have "\<forall>x \<in> set (m @ [?x]). \<forall>y \<in> set (drop (i + 1) first) \<union> set (drop (j + 1) second). x < y"
        using prems above eq by fastforce
      with 1(3) [OF _ ne "1.prems"(1,2)] prems True ne heads show ?thesis
        by (subst (1 2) merge_loop.simps) (auto simp: sorted_wrt_append eq)
    qed
  qed
qed

lemma merge_ids_ok:
  "sorted_ids first \<Longrightarrow> sorted_ids second \<Longrightarrow>
   sorted_ids (merge_ids first second) \<and> set (merge_ids first second) = set first \<union> set second"
  using merge_loop_ok [of first second "[]" 0 0] by (simp add: merge_ids_def)

text \<open>A nonempty ascending vector, stored as \<open>One\<close> exactly when it has one element.\<close>

definition matching_ok :: "matching_subscription_ids \<Rightarrow> bool" where
  "matching_ok m \<longleftrightarrow> as_slice m \<noteq> [] \<and> sorted_ids (as_slice m)"

lemma from_sorted_slices_ok:
  assumes "sorted_ids first" and "sorted_ids second"
  shows "case from_sorted_slices first second of
     None \<Rightarrow> set first \<union> set second = {}
   | Some m \<Rightarrow> matching_ok m \<and> set (as_slice m) = set first \<union> set second"
proof (cases "length first + length second \<le> 1")
  case True
  then consider "first = []" "second = []" | i where "first = [i]" "second = []"
    | i where "first = []" "second = [i]"
    by (cases first; cases second) auto
  then show ?thesis by cases (simp_all add: from_sorted_slices_def matching_ok_def)
next
  case False
  then have "first \<noteq> [] \<or> second \<noteq> []" by auto
  moreover have "merge_ids first second \<noteq> []"
    using merge_ids_ok [OF assms] calculation by auto
  ultimately show ?thesis
    using False merge_ids_ok [OF assms] by (simp add: from_sorted_slices_def matching_ok_def)
qed

section \<open>Lemmas on the index\<close>

text \<open>The identifiers registered for a group under a source, where \<open>None\<close> is any source.\<close>

definition group_ids :: "group_demultiplexer \<Rightarrow> ip_addr option \<Rightarrow> subscription_id set" where
  "group_ids d source =
     (case source of
        None \<Rightarrow> set (gd_any_source d)
      | Some s \<Rightarrow> set (unwrap_or (map_of (gd_sources d) s) []))"

definition capture_ids :: "capture_demultiplexer \<Rightarrow> ip_addr \<Rightarrow> ip_addr option \<Rightarrow> subscription_id set" where
  "capture_ids d grp source = group_ids (unwrap_or (map_of d grp) group_default) source"

text \<open>Vectors are ascending, and no empty vector and no empty group is kept.\<close>

definition group_ok :: "group_demultiplexer \<Rightarrow> bool" where
  "group_ok d \<longleftrightarrow> sorted_ids (gd_any_source d) \<and> hm_ok (gd_sources d) \<and>
     (\<forall>s ids. map_of (gd_sources d) s = Some ids \<longrightarrow> sorted_ids ids \<and> ids \<noteq> [])"

definition capture_ok :: "capture_demultiplexer \<Rightarrow> bool" where
  "capture_ok d \<longleftrightarrow> hm_ok d \<and>
     (\<forall>g gd. map_of d g = Some gd \<longrightarrow> group_ok gd \<and> \<not> group_is_empty gd)"

lemma unwrap_or_simps [simp]: "unwrap_or None d = d" "unwrap_or (Some a) d = a"
  by (simp_all add: unwrap_or_def)

lemma group_default_ok [simp]: "group_ok group_default" "group_ids group_default s = {}"
  by (auto simp: group_ok_def group_default_def group_ids_def hm_simps split: option.splits)

lemma capture_group_ok: "capture_ok d \<Longrightarrow> group_ok (unwrap_or (map_of d g) group_default)"
  by (cases "map_of d g") (auto simp: capture_ok_def)

lemma group_sources_sorted: "group_ok d \<Longrightarrow> sorted_ids (unwrap_or (map_of (gd_sources d) s) [])"
  by (cases "map_of (gd_sources d) s") (auto simp: group_ok_def)

lemma group_insert_ok:
  assumes "group_ok d"
  shows "group_ok (group_insert i source d)"
    and "group_ids (group_insert i source d) = (group_ids d)(source := insert i (group_ids d source))"
    and "\<not> group_is_empty (group_insert i source d)"
proof -
  let ?any = "gd_any_source d"
  have any: "sorted_ids (insert_id ?any i)" "set (insert_id ?any i) = insert i (set ?any)"
    using insert_id_ok [of ?any i] assms by (auto simp: group_ok_def)
  have src: "sorted_ids (insert_id (unwrap_or (map_of (gd_sources d) s) []) i)"
    "set (insert_id (unwrap_or (map_of (gd_sources d) s) []) i) =
       insert i (set (unwrap_or (map_of (gd_sources d) s) []))" for s
    using insert_id_ok [OF group_sources_sorted [OF assms]] by simp_all
  have ne: "insert_id ids j \<noteq> []" if "sorted_ids ids" for ids j
    using insert_id_ok [OF that, of j] by auto
  show "group_ok (group_insert i source d)"
  proof (cases source)
    case None
    then show ?thesis using assms any by (simp add: group_insert_def group_ok_def)
  next
    case (Some s)
    show ?thesis
      using assms src(1) [of s] ne [OF group_sources_sorted [OF assms], of s i]
      by (simp add: Some group_insert_def group_ok_def hm_simps)
  qed
  show "group_ids (group_insert i source d) = (group_ids d)(source := insert i (group_ids d source))"
  proof
    fix t
    show "group_ids (group_insert i source d) t = ((group_ids d)(source := insert i (group_ids d source))) t"
      using any(2) src(2) by (cases source; cases t) (simp_all add: group_insert_def group_ids_def hm_simps)
  qed
  show "\<not> group_is_empty (group_insert i source d)"
    using ne [of ?any i] assms
    by (cases source) (auto simp: group_is_empty_def group_insert_def group_ok_def)
qed

lemma group_remove_ok:
  assumes "group_ok d"
  shows "group_ok (group_remove i source d)"
    and "group_ids (group_remove i source d) = (group_ids d)(source := group_ids d source - {i})"
proof -
  let ?any = "gd_any_source d"
  have any: "sorted_ids (remove_id ?any i)" "set (remove_id ?any i) = set ?any - {i}"
    using remove_id_ok [of ?any i] assms by (auto simp: group_ok_def)
  have src: "sorted_ids (remove_id ids i)" "set (remove_id ids i) = set ids - {i}"
    if "map_of (gd_sources d) s = Some ids" for s ids
    using remove_id_ok [of ids i] assms that by (auto simp: group_ok_def)
  show "group_ok (group_remove i source d)"
    using assms any src
    by (auto simp: group_remove_def group_ok_def Let_def hm_simps split: option.splits)
  have gone: "set ids \<subseteq> {i}" if "map_of (gd_sources d) s = Some ids" "remove_id ids i = []" for s ids
    using src(2) [OF that(1)] that(2) by auto
  show "group_ids (group_remove i source d) = (group_ids d)(source := group_ids d source - {i})"
  proof
    fix t
    show "group_ids (group_remove i source d) t = ((group_ids d)(source := group_ids d source - {i})) t"
    proof (cases source)
      case None
      then show ?thesis using any(2) by (cases t) (simp_all add: group_remove_def group_ids_def)
    next
      case (Some s)
      then show ?thesis using src(2) [of s] gone [of s]
        by (cases t; cases "map_of (gd_sources d) s")
           (auto simp: group_remove_def group_ids_def Let_def hm_simps)
    qed
  qed
qed

lemma capture_insert_ok:
  assumes "capture_ok d"
  shows "capture_ok (capture_insert i cfg d)"
    and "capture_ids (capture_insert i cfg d) g s =
      (if g = rcfg_group cfg \<and> s = raw_source_addr cfg then insert i (capture_ids d g s) else capture_ids d g s)"
  using assms group_insert_ok [OF capture_group_ok [OF assms, of "rcfg_group cfg"], of i "raw_source_addr cfg"]
  by (auto simp: capture_ok_def capture_insert_def capture_ids_def hm_simps)

lemma capture_remove_ok:
  assumes "capture_ok d"
  shows "capture_ok (capture_remove i cfg d)"
    and "capture_ids (capture_remove i cfg d) g s =
      (if g = rcfg_group cfg \<and> s = raw_source_addr cfg then capture_ids d g s - {i} else capture_ids d g s)"
proof -
  have empty: "group_ids gd s = {}" if "group_is_empty gd" for gd s
    using that by (auto simp: group_is_empty_def group_ids_def split: option.split)
  have ok: "group_ok (group_remove i (raw_source_addr cfg) gd)"
    "group_ids (group_remove i (raw_source_addr cfg) gd) s =
       (if s = raw_source_addr cfg then group_ids gd s - {i} else group_ids gd s)"
    if "map_of d (rcfg_group cfg) = Some gd" for gd s
    using group_remove_ok [of gd i "raw_source_addr cfg"] assms that by (auto simp: capture_ok_def)
  show "capture_ok (capture_remove i cfg d)"
    using assms ok by (auto simp: capture_ok_def capture_remove_def Let_def hm_simps split: option.split)
  show "capture_ids (capture_remove i cfg d) g s =
      (if g = rcfg_group cfg \<and> s = raw_source_addr cfg then capture_ids d g s - {i} else capture_ids d g s)"
    using ok(2) [where s = s] empty [where s = s]
    by (auto simp: capture_ids_def capture_remove_def Let_def hm_simps split: option.split)
qed

lemma capture_matches_ok:
  assumes "capture_ok d"
  shows "case capture_matches d g s of
     None \<Rightarrow> capture_ids d g None \<union> capture_ids d g (Some s) = {}
   | Some m \<Rightarrow> matching_ok m \<and> set (as_slice m) = capture_ids d g None \<union> capture_ids d g (Some s)"
proof (cases "map_of d g")
  case (Some gd)
  then have "group_ok gd" using assms by (simp add: capture_ok_def)
  then have "sorted_ids (gd_any_source gd)" by (simp add: group_ok_def)
  from from_sorted_slices_ok [OF this group_sources_sorted [OF \<open>group_ok gd\<close>, of s]] Some show ?thesis
    by (simp add: capture_matches_def group_matches_def capture_ids_def group_ids_def split: option.splits)
qed (simp add: capture_matches_def capture_ids_def)

lemma capture_empty:
  assumes "capture_ok d" and "\<forall>g s. capture_ids d g s = {}"
  shows "d = []"
proof -
  have "map_of d g = None" for g
  proof (rule ccontr)
    assume "map_of d g \<noteq> None"
    then obtain gd where gd: "map_of d g = Some gd" by blast
    have none: "group_ids gd s = {}" for s using assms(2) [rule_format, of g s] gd by (simp add: capture_ids_def)
    have ok: "group_ok gd" "\<not> group_is_empty gd" using assms(1) gd by (auto simp: capture_ok_def)
    have "map_of (gd_sources gd) s = None" for s
      using none [of "Some s"] ok(1) by (cases "map_of (gd_sources gd) s") (auto simp: group_ids_def group_ok_def)
    then have "gd_sources gd = []" unfolding hm_empty by blast
    moreover have "gd_any_source gd = []" using none [of None] by (simp add: group_ids_def)
    ultimately show False using ok(2) by (simp add: group_is_empty_def)
  qed
  then show ?thesis unfolding hm_empty by blast
qed

section \<open>The index as a set of registrations\<close>

text \<open>A configuration accepts a datagram for its group from any source, or from its own source.\<close>

definition accepts_source :: "raw_subscription_config \<Rightarrow> ip_addr \<Rightarrow> ip_addr \<Rightarrow> bool" where
  "accepts_source cfg grp source \<longleftrightarrow>
     rcfg_group cfg = grp \<and> (case rcfg_source cfg of Any \<Rightarrow> True | Source s \<Rightarrow> s = source)"

lemma accepts_source_iff:
  "accepts_source cfg g s \<longleftrightarrow>
     rcfg_group cfg = g \<and> (raw_source_addr cfg = None \<or> raw_source_addr cfg = Some s)"
  by (cases "rcfg_source cfg") (auto simp: accepts_source_def raw_source_addr_def)

text \<open>The index holds exactly the registrations of \<open>J\<close>.\<close>

definition index_tracks ::
  "('d \<Rightarrow> ip_addr \<Rightarrow> ip_addr option \<Rightarrow> subscription_id set) \<Rightarrow> 'd \<Rightarrow>
   (subscription_id \<rightharpoonup> raw_subscription_config) \<Rightarrow> bool" where
  "index_tracks ids d J \<longleftrightarrow>
     (\<forall>g s i. i \<in> ids d g s \<longleftrightarrow>
        (\<exists>cfg. J i = Some cfg \<and> rcfg_group cfg = g \<and> raw_source_addr cfg = s))"

text \<open>
  What the shared context relies on: an index of identifiers by group and source that is empty at
  first, gains and loses one registration at a time, yields the identifiers of a group that were
  registered for any source or for the given one, and keeps nothing for unregistered identifiers.
\<close>

locale source_index =
  fixes empty :: 'd
    and insert_reg :: "subscription_id \<Rightarrow> raw_subscription_config \<Rightarrow> 'd \<Rightarrow> 'd"
    and remove_reg :: "subscription_id \<Rightarrow> raw_subscription_config \<Rightarrow> 'd \<Rightarrow> 'd"
    and matches :: "'d \<Rightarrow> ip_addr \<Rightarrow> ip_addr \<Rightarrow> matching_subscription_ids option"
    and ids :: "'d \<Rightarrow> ip_addr \<Rightarrow> ip_addr option \<Rightarrow> subscription_id set"
    and ok :: "'d \<Rightarrow> bool"
  assumes ok_empty: "ok empty" "ids empty g s = {}"
    and ok_insert: "ok d \<Longrightarrow> ok (insert_reg i cfg d)"
    and ids_insert: "ok d \<Longrightarrow> ids (insert_reg i cfg d) g s =
      (if g = rcfg_group cfg \<and> s = raw_source_addr cfg then insert i (ids d g s) else ids d g s)"
    and ok_remove: "ok d \<Longrightarrow> ok (remove_reg i cfg d)"
    and ids_remove: "ok d \<Longrightarrow> ids (remove_reg i cfg d) g s =
      (if g = rcfg_group cfg \<and> s = raw_source_addr cfg then ids d g s - {i} else ids d g s)"
    and matches: "ok d \<Longrightarrow> case matches d g' s' of
        None \<Rightarrow> ids d g' None \<union> ids d g' (Some s') = {}
      | Some m \<Rightarrow> matching_ok m \<and> set (as_slice m) = ids d g' None \<union> ids d g' (Some s')"
    and nothing_kept: "ok d \<Longrightarrow> \<forall>g s. ids d g s = {} \<Longrightarrow> d = empty"
begin

lemma tracks_empty: "index_tracks ids empty Map.empty"
  by (simp add: index_tracks_def ok_empty)

lemma tracks_insert:
  "ok d \<Longrightarrow> index_tracks ids d J \<Longrightarrow> J i = None \<Longrightarrow>
   index_tracks ids (insert_reg i cfg d) (J(i \<mapsto> cfg))"
  by (auto simp: index_tracks_def ids_insert)

lemma tracks_remove:
  "ok d \<Longrightarrow> index_tracks ids d J \<Longrightarrow> J i = Some cfg \<Longrightarrow>
   index_tracks ids (remove_reg i cfg d) (J(i := None))"
  by (auto simp: index_tracks_def ids_remove)

lemma tracks_nothing: "ok d \<Longrightarrow> index_tracks ids d Map.empty \<Longrightarrow> d = empty"
  by (rule nothing_kept) (auto simp: index_tracks_def)

lemma tracks_matches:
  assumes "ok d" and "index_tracks ids d J"
  shows "case matches d g s of
     None \<Rightarrow> {i. \<exists>cfg. J i = Some cfg \<and> accepts_source cfg g s} = {}
   | Some m \<Rightarrow> matching_ok m \<and> set (as_slice m) = {i. \<exists>cfg. J i = Some cfg \<and> accepts_source cfg g s}"
proof -
  have eq: "ids d g None \<union> ids d g (Some s) = {i. \<exists>cfg. J i = Some cfg \<and> accepts_source cfg g s}"
    using assms(2) unfolding index_tracks_def accepts_source_iff by blast
  from matches [OF assms(1), of g s, unfolded eq] show ?thesis .
qed

end

interpretation demux: source_index "[]" capture_insert capture_remove capture_matches capture_ids capture_ok
proof unfold_locales
  show "capture_ok []" "capture_ids [] g s = {}" for g s
    by (simp_all add: capture_ok_def capture_ids_def hm_simps)
qed (auto intro: capture_empty simp: capture_insert_ok capture_remove_ok capture_matches_ok)

text \<open>The indexes that registrations and removals can build, with what is registered.\<close>

inductive demux_reach :: "capture_demultiplexer \<Rightarrow> (subscription_id \<rightharpoonup> raw_subscription_config) \<Rightarrow> bool" where
  demux_reach_empty: "demux_reach [] Map.empty"
| demux_reach_insert: "demux_reach d J \<Longrightarrow> J i = None \<Longrightarrow> demux_reach (capture_insert i cfg d) (J(i \<mapsto> cfg))"
| demux_reach_remove: "demux_reach d J \<Longrightarrow> J i = Some cfg \<Longrightarrow> demux_reach (capture_remove i cfg d) (J(i := None))"

lemma demux_reach_tracks: "demux_reach d J \<Longrightarrow> capture_ok d \<and> index_tracks capture_ids d J"
  by (induction rule: demux_reach.induct)
     (simp_all add: demux.ok_empty demux.ok_insert demux.ok_remove
       demux.tracks_empty demux.tracks_insert demux.tracks_remove del: fun_upd_apply)

section \<open>Properties\<close>

text \<open>
  C16. After any sequence of registrations and removals the demultiplexer finds, for a datagram's
  group and source, exactly the registered subscriptions that accept it, in ascending order and each
  once; it finds nothing when there is none, and it is empty again when nothing is registered.
\<close>

theorem demultiplexer_exact:
  assumes "demux_reach d J"
  shows "(case capture_matches d g s of
       None \<Rightarrow> \<not> (\<exists>i cfg. J i = Some cfg \<and> accepts_source cfg g s)
     | Some m \<Rightarrow> as_slice m \<noteq> [] \<and> sorted_wrt (<) (as_slice m) \<and>
         set (as_slice m) = {i. \<exists>cfg. J i = Some cfg \<and> accepts_source cfg g s}) \<and>
     (J = Map.empty \<longrightarrow> d = [])"
proof -
  have d: "capture_ok d" "index_tracks capture_ids d J" using demux_reach_tracks [OF assms] by simp_all
  show ?thesis
    using demux.tracks_matches [OF d, of g s] demux.tracks_nothing [OF d(1)] d(2)
    by (auto simp: matching_ok_def split: option.splits)
qed

theorem demultiplexer_exact_witness:
  "set (case capture_matches
       (capture_insert (SubscriptionId 1) (raw_asm (Quad 232 1 2 3))
         (capture_insert (SubscriptionId 2) (raw_ssm (Quad 232 1 2 3) (Quad 10 0 0 1)) []))
       (V4 (Quad 232 1 2 3)) (V4 (Quad 10 0 0 1)) of Some m \<Rightarrow> as_slice m | None \<Rightarrow> []) =
   {SubscriptionId 1, SubscriptionId 2}"
proof -
  let ?a = "raw_asm (Quad 232 1 2 3)" and ?s = "raw_ssm (Quad 232 1 2 3) (Quad 10 0 0 1)"
  have "demux_reach (capture_insert (SubscriptionId 1) ?a (capture_insert (SubscriptionId 2) ?s []))
      ([SubscriptionId 2 \<mapsto> ?s, SubscriptionId 1 \<mapsto> ?a])"
    by (intro demux_reach_insert demux_reach_empty) simp_all
  from demultiplexer_exact [OF this, of "V4 (Quad 232 1 2 3)" "V4 (Quad 10 0 0 1)"] show ?thesis
    by (fastforce simp: accepts_source_def raw_asm_def raw_asm_ip_def raw_ssm_def raw_ssm_ip_def
        split: option.splits if_splits)
qed

end
