(* ===== verification/Shared.thy ===== *)
theory Shared
  imports RawContext Demux
begin

text \<open>
  \<open>src/raw/shared.rs\<close>: the shared raw context. Logical subscriptions share one capture socket per
  family and interface; identical memberships share one reference-counted kernel membership; a
  captured datagram is demultiplexed through the index of the theory \<open>Demux\<close> and queued once.
  An operation that the source can leave by a panic (\<open>expect\<close>, \<open>unreachable\<close>, an index, a
  \<open>checked_sub\<close> that is unwrapped, a debug assertion) yields an option whose \<open>None\<close> is that panic.
  Lemmas: the invariant of reachable contexts, from which no operation panics, reference counts are
  exact, descriptors do not leak and the pending queue is bounded.
\<close>

section \<open>Data\<close>

record shared_raw_context_limits =
  lim_max_subscriptions :: usize
  lim_max_pending_packets :: usize

definition limits_default :: shared_raw_context_limits where
  "limits_default = \<lparr>lim_max_subscriptions = 4096, lim_max_pending_packets = 1024\<rparr>"

record shared_raw_subscription =
  ssub_id :: subscription_id
  ssub_config :: raw_subscription_config
  ssub_capture_key :: raw_shared_capture_key
  ssub_state :: subscription_state

definition shared_sub_new ::
  "subscription_id \<Rightarrow> raw_subscription_config \<Rightarrow> raw_shared_capture_key \<Rightarrow> shared_raw_subscription" where
  "shared_sub_new i cfg key =
     \<lparr>ssub_id = i, ssub_config = cfg, ssub_capture_key = key, ssub_state = Bound\<rparr>"

definition shared_is_joined :: "shared_raw_subscription \<Rightarrow> bool" where
  "shared_is_joined s \<longleftrightarrow> ssub_state s = Joined"

record shared_raw_packet =
  srp_packet :: raw_packet
  srp_matching :: matching_subscription_ids

definition matching_ids :: "shared_raw_packet \<Rightarrow> subscription_id list" where
  "matching_ids p = as_slice (srp_matching p)"

record kernel_membership_key =
  kmk_group :: ip_addr
  kmk_source :: "ip_addr option"

definition kernel_membership_key_from :: "raw_subscription_config \<Rightarrow> kernel_membership_key" where
  "kernel_membership_key_from cfg = \<lparr>kmk_group = rcfg_group cfg, kmk_source = raw_source_addr cfg\<rparr>"

record kernel_membership =
  km_references :: usize
  km_joined_config :: raw_subscription_config

record capture_selector =
  cs_family :: subscription_address_family
  cs_interface :: "ip_addr option"
  cs_interface_index :: "u32 option"

definition capture_selector_from :: "raw_subscription_config \<Rightarrow> capture_selector" where
  "capture_selector_from cfg =
     \<lparr>cs_family = raw_family cfg, cs_interface = rcfg_interface cfg,
      cs_interface_index = rcfg_interface_index cfg\<rparr>"

record resolved_capture_key =
  rck_key :: raw_shared_capture_key
  rck_references :: usize

record shared_capture_socket =
  cap_socket :: raw_receive_socket
  cap_memberships :: usize
  cap_kernel_memberships :: "(kernel_membership_key, kernel_membership) hash_map"
  cap_demultiplexer :: capture_demultiplexer

definition shared_capture_new :: "raw_receive_socket \<Rightarrow> shared_capture_socket" where
  "shared_capture_new rr =
     \<lparr>cap_socket = rr, cap_memberships = 0, cap_kernel_memberships = [], cap_demultiplexer = []\<rparr>"

record shared_raw_capture_metrics =
  sm_received_packets_total :: u64
  sm_unmatched_packets_total :: u64
  sm_demultiplex_matches_total :: u64

record shared_raw_capture_metrics_snapshot =
  sms_capture_socket_count :: usize
  sms_active_memberships :: usize
  sms_received_packets_total :: u64
  sms_unmatched_packets_total :: u64
  sms_demultiplex_matches_total :: u64
  sms_pending_packets :: usize

record shared_raw_context =
  sctx_subscriptions :: "(subscription_id, shared_raw_subscription) hash_map"
  sctx_resolved_capture_keys :: "(capture_selector, resolved_capture_key) hash_map"
  sctx_captures :: "(raw_shared_capture_key, shared_capture_socket) hash_map"
  sctx_capture_order :: "raw_shared_capture_key list"
  sctx_pending_packets :: "shared_raw_packet list"
  sctx_limits :: shared_raw_context_limits
  sctx_next_subscription_id :: u64
  sctx_next_capture_index :: usize
  sctx_metrics :: shared_raw_capture_metrics

section \<open>Construction and counts\<close>

definition shared_with_limits :: "shared_raw_context_limits \<Rightarrow> mcrx_error + shared_raw_context" where
  "shared_with_limits limits =
     (if lim_max_subscriptions limits = 0 \<or> lim_max_pending_packets limits = 0
      then Inl InvalidSharedRawCaptureLimits
      else Inr
        \<lparr>sctx_subscriptions = [], sctx_resolved_capture_keys = [], sctx_captures = [],
         sctx_capture_order = [], sctx_pending_packets = [], sctx_limits = limits,
         sctx_next_subscription_id = 1, sctx_next_capture_index = 0,
         sctx_metrics = \<lparr>sm_received_packets_total = 0, sm_unmatched_packets_total = 0,
           sm_demultiplex_matches_total = 0\<rparr>\<rparr>)"

definition shared_new :: "shared_raw_context option" where
  "shared_new = res_ok (shared_with_limits limits_default)"

definition shared_subscription_count :: "shared_raw_context \<Rightarrow> usize" where
  "shared_subscription_count c = length (sctx_subscriptions c)"

definition capture_socket_count :: "shared_raw_context \<Rightarrow> usize" where
  "capture_socket_count c = length (sctx_captures c)"

definition active_membership_count :: "shared_raw_context \<Rightarrow> usize" where
  "active_membership_count c = sum_list (map (cap_memberships \<circ> snd) (sctx_captures c))"

definition pending_packet_count :: "shared_raw_context \<Rightarrow> usize" where
  "pending_packet_count c = length (sctx_pending_packets c)"

definition shared_contains_subscription :: "shared_raw_context \<Rightarrow> subscription_id \<Rightarrow> bool" where
  "shared_contains_subscription c i \<longleftrightarrow> map_of (sctx_subscriptions c) i \<noteq> None"

definition shared_get_subscription :: "shared_raw_context \<Rightarrow> subscription_id \<Rightarrow> shared_raw_subscription option" where
  "shared_get_subscription c i = map_of (sctx_subscriptions c) i"

definition shared_metrics_snapshot :: "shared_raw_context \<Rightarrow> shared_raw_capture_metrics_snapshot" where
  "shared_metrics_snapshot c =
     \<lparr>sms_capture_socket_count = capture_socket_count c,
      sms_active_memberships = active_membership_count c,
      sms_received_packets_total = sm_received_packets_total (sctx_metrics c),
      sms_unmatched_packets_total = sm_unmatched_packets_total (sctx_metrics c),
      sms_demultiplex_matches_total = sm_demultiplex_matches_total (sctx_metrics c),
      sms_pending_packets = pending_packet_count c\<rparr>"

definition record_shared_received :: "shared_raw_context \<Rightarrow> shared_raw_context" where
  "record_shared_received c =
     c\<lparr>sctx_metrics := (sctx_metrics c)\<lparr>sm_received_packets_total :=
         saturating_add (sm_received_packets_total (sctx_metrics c)) 1\<rparr>\<rparr>"

definition record_shared_unmatched :: "shared_raw_context \<Rightarrow> shared_raw_context" where
  "record_shared_unmatched c =
     c\<lparr>sctx_metrics := (sctx_metrics c)\<lparr>sm_unmatched_packets_total :=
         saturating_add (sm_unmatched_packets_total (sctx_metrics c)) 1\<rparr>\<rparr>"

definition record_demultiplex_matches :: "usize \<Rightarrow> shared_raw_context \<Rightarrow> shared_raw_context" where
  "record_demultiplex_matches n c =
     c\<lparr>sctx_metrics := (sctx_metrics c)\<lparr>sm_demultiplex_matches_total :=
         saturating_add (sm_demultiplex_matches_total (sctx_metrics c)) (of_nat n)\<rparr>\<rparr>"

section \<open>Capture keys\<close>

definition resolve_capture_key ::
  "'k os \<Rightarrow> raw_subscription_config \<Rightarrow> shared_raw_context \<Rightarrow> 'k \<Rightarrow>
   (mcrx_error + raw_shared_capture_key) \<times> shared_raw_context \<times> 'k" where
  "resolve_capture_key os cfg c k =
     (let selector = capture_selector_from cfg in
      case map_of (sctx_resolved_capture_keys c) selector of
        Some resolved \<Rightarrow>
          (Inr (rck_key resolved),
           c\<lparr>sctx_resolved_capture_keys := hm_insert selector
               (resolved\<lparr>rck_references := rck_references resolved + 1\<rparr>) (sctx_resolved_capture_keys c)\<rparr>, k)
      | None \<Rightarrow>
          (case shared_raw_capture_key os cfg k of
             (Inl e, k') \<Rightarrow> (Inl e, c, k')
           | (Inr key, k') \<Rightarrow>
               (Inr key,
                c\<lparr>sctx_resolved_capture_keys := hm_insert selector
                    \<lparr>rck_key = key, rck_references = 1\<rparr> (sctx_resolved_capture_keys c)\<rparr>, k')))"

definition release_capture_key ::
  "raw_subscription_config \<Rightarrow> shared_raw_context \<Rightarrow> shared_raw_context option" where
  "release_capture_key cfg c =
     (let selector = capture_selector_from cfg in
      case map_of (sctx_resolved_capture_keys c) selector of
        None \<Rightarrow> None
      | Some resolved \<Rightarrow>
          (if rck_references resolved = 0 then None
           else
             (let references = rck_references resolved - 1 in
              Some (c\<lparr>sctx_resolved_capture_keys :=
                (if references = 0 then hm_remove selector (sctx_resolved_capture_keys c)
                 else hm_insert selector (resolved\<lparr>rck_references := references\<rparr>)
                   (sctx_resolved_capture_keys c))\<rparr>))))"

definition shared_add_subscription ::
  "'k os \<Rightarrow> shared_raw_context \<Rightarrow> raw_subscription_config \<Rightarrow> 'k \<Rightarrow>
   (mcrx_error + subscription_id) \<times> shared_raw_context \<times> 'k" where
  "shared_add_subscription os c cfg k =
     (case raw_validate cfg of
        Inl e \<Rightarrow> (Inl e, c, k)
      | Inr _ \<Rightarrow>
          (if lim_max_subscriptions (sctx_limits c) \<le> length (sctx_subscriptions c)
           then (Inl (SharedRawCaptureSubscriptionLimitExceeded (lim_max_subscriptions (sctx_limits c))), c, k)
           else
             (case resolve_capture_key os cfg c k of
                (Inl e, c', k') \<Rightarrow> (Inl e, c', k')
              | (Inr key, c', k') \<Rightarrow>
                  (let i = SubscriptionId (sctx_next_subscription_id c') in
                   (Inr i,
                    c'\<lparr>sctx_next_subscription_id := sctx_next_subscription_id c' + 1,
                       sctx_subscriptions := hm_insert i (shared_sub_new i cfg key) (sctx_subscriptions c')\<rparr>,
                    k')))))"

section \<open>Joining and leaving\<close>

text \<open>The captures after \<open>remove_capture\<close>; dropping the capture closes its descriptors.\<close>

definition remove_capture ::
  "'k os \<Rightarrow> raw_shared_capture_key \<Rightarrow> shared_raw_context \<Rightarrow> 'k \<Rightarrow> (shared_raw_context \<times> 'k) option" where
  "remove_capture os key c k =
     (let k' = (case map_of (sctx_captures c) key of
                  Some cap \<Rightarrow> drop_raw_socket os (cap_socket cap) k | None \<Rightarrow> k) in
      case position (\<lambda>x. x = key) (sctx_capture_order c) of
        None \<Rightarrow> None
      | Some index \<Rightarrow>
          (let order = vec_remove (sctx_capture_order c) index in
           Some
             (c\<lparr>sctx_captures := hm_remove key (sctx_captures c), sctx_capture_order := order,
                sctx_next_capture_index :=
                  (if order = [] then 0 else sctx_next_capture_index c mod length order)\<rparr>, k')))"

text \<open>\<open>get_mut(&id).expect(...).state = ...\<close>\<close>

definition shared_set_state ::
  "subscription_id \<Rightarrow> subscription_state \<Rightarrow> shared_raw_context \<Rightarrow> shared_raw_context option" where
  "shared_set_state i st c =
     (case map_of (sctx_subscriptions c) i of
        None \<Rightarrow> None
      | Some s \<Rightarrow> Some (c\<lparr>sctx_subscriptions := hm_insert i (s\<lparr>ssub_state := st\<rparr>) (sctx_subscriptions c)\<rparr>))"

text \<open>The capture for a key, opened when it is missing; the flag is \<open>created_capture\<close>.\<close>

definition ensure_capture ::
  "'k os \<Rightarrow> raw_shared_capture_key \<Rightarrow> shared_raw_context \<Rightarrow> 'k \<Rightarrow>
   (mcrx_error + bool) \<times> shared_raw_context \<times> 'k" where
  "ensure_capture os key c k =
     (case map_of (sctx_captures c) key of
        Some _ \<Rightarrow> (Inr False, c, k)
      | None \<Rightarrow>
          (case open_shared_raw_socket os key k of
             (Inl e, k') \<Rightarrow> (Inl e, c, k')
           | (Inr rr, k') \<Rightarrow>
               (Inr True,
                c\<lparr>sctx_captures := hm_insert key (shared_capture_new rr) (sctx_captures c),
                  sctx_capture_order := sctx_capture_order c @ [key]\<rparr>, k')))"

definition capture_add_membership ::
  "subscription_id \<Rightarrow> raw_subscription_config \<Rightarrow> shared_capture_socket \<Rightarrow> shared_capture_socket" where
  "capture_add_membership i cfg cap =
     (let mk = kernel_membership_key_from cfg in
      cap\<lparr>cap_kernel_memberships := hm_insert mk
            (case map_of (cap_kernel_memberships cap) mk of
               Some m \<Rightarrow> m\<lparr>km_references := km_references m + 1\<rparr>
             | None \<Rightarrow> \<lparr>km_references = 1, km_joined_config = cfg\<rparr>) (cap_kernel_memberships cap),
          cap_demultiplexer := capture_insert i cfg (cap_demultiplexer cap),
          cap_memberships := cap_memberships cap + 1\<rparr>)"

definition join_kernel_membership ::
  "'k os \<Rightarrow> shared_capture_socket \<Rightarrow> raw_subscription_config \<Rightarrow> ('k, mcrx_error, unit) io" where
  "join_kernel_membership os cap cfg =
     (if map_of (cap_kernel_memberships cap) (kernel_membership_key_from cfg) = None
      then join_raw_multicast_group os (cap_socket cap) cfg
      else io_return ())"

definition shared_join_subscription ::
  "'k os \<Rightarrow> shared_raw_context \<Rightarrow> subscription_id \<Rightarrow> 'k \<Rightarrow>
   ((mcrx_error + unit) \<times> shared_raw_context \<times> 'k) option" where
  "shared_join_subscription os c i k =
     (case map_of (sctx_subscriptions c) i of
        None \<Rightarrow> Some (Inl SubscriptionNotFound, c, k)
      | Some s \<Rightarrow>
          (if shared_is_joined s then Some (Inl SubscriptionAlreadyJoined, c, k)
           else
             (case ensure_capture os (ssub_capture_key s) c k of
                (Inl e, c1, k1) \<Rightarrow> Some (Inl e, c1, k1)
              | (Inr created, c1, k1) \<Rightarrow>
                  (case map_of (sctx_captures c1) (ssub_capture_key s) of
                     None \<Rightarrow> None
                   | Some cap \<Rightarrow>
                       (case join_kernel_membership os cap (ssub_config s) k1 of
                          (Inl e, k2) \<Rightarrow>
                            (if created
                             then map_option (\<lambda>(c2, k3). (Inl e, c2, k3))
                               (remove_capture os (ssub_capture_key s) c1 k2)
                             else Some (Inl e, c1, k2))
                        | (Inr _, k2) \<Rightarrow>
                            map_option (\<lambda>c2. (Inr (), c2, k2))
                              (shared_set_state i Joined
                                (c1\<lparr>sctx_captures := hm_insert (ssub_capture_key s)
                                    (capture_add_membership i (ssub_config s) cap) (sctx_captures c1)\<rparr>)))))))"

text \<open>
  The body of \<open>leave_subscription\<close> on its capture. The last reference leaves the kernel membership;
  \<open>references -= 1\<close> panics below zero, and so do \<open>checked_sub(1).expect\<close> and the debug assertion.
\<close>

definition drop_kernel_membership ::
  "'k os \<Rightarrow> raw_subscription_config \<Rightarrow> shared_capture_socket \<Rightarrow> 'k \<Rightarrow>
   ((mcrx_error + (kernel_membership_key, kernel_membership) hash_map) \<times> 'k) option" where
  "drop_kernel_membership os cfg cap k =
     (let mk = kernel_membership_key_from cfg; kms = cap_kernel_memberships cap in
      case map_of kms mk of
        None \<Rightarrow> None
      | Some m \<Rightarrow>
          (if km_references m = 1
           then
             (case leave_raw_multicast_group os (cap_socket cap) (km_joined_config m) k of
                (Inl e, k') \<Rightarrow> Some (Inl e, k')
              | (Inr _, k') \<Rightarrow> Some (Inr (hm_remove mk kms), k'))
           else if km_references m = 0 then None
           else Some (Inr (hm_insert mk (m\<lparr>km_references := km_references m - 1\<rparr>) kms), k)))"

definition capture_drop_membership ::
  "'k os \<Rightarrow> subscription_id \<Rightarrow> raw_subscription_config \<Rightarrow> shared_capture_socket \<Rightarrow> 'k \<Rightarrow>
   ((mcrx_error + shared_capture_socket) \<times> 'k) option" where
  "capture_drop_membership os i cfg cap k =
     (case drop_kernel_membership os cfg cap k of
        None \<Rightarrow> None
      | Some (Inl e, k') \<Rightarrow> Some (Inl e, k')
      | Some (Inr kms, k') \<Rightarrow>
          (if cap_memberships cap = 0 then None
           else
             (let memberships = cap_memberships cap - 1 in
              if (memberships = 0) \<noteq> (kms = []) then None
              else Some
                (Inr (cap\<lparr>cap_kernel_memberships := kms,
                    cap_demultiplexer := capture_remove i cfg (cap_demultiplexer cap),
                    cap_memberships := memberships\<rparr>), k'))))"

text \<open>
  The closure of \<open>remove_pending_membership\<close> on one queued packet: \<open>Some None\<close> drops the packet.
\<close>

definition drop_pending_membership ::
  "(subscription_id, shared_raw_subscription) hash_map \<Rightarrow> subscription_id \<Rightarrow> shared_raw_packet \<Rightarrow>
   shared_raw_packet option option" where
  "drop_pending_membership subs i p =
     (case position (\<lambda>x. x = i) (as_slice (srp_matching p)) of
        None \<Rightarrow> Some (Some p)
      | Some index \<Rightarrow>
          (if length (as_slice (srp_matching p)) = 1 then Some None
           else
             Option.bind (remove_existing (srp_matching p) index) (\<lambda>m.
             Option.bind (first_id m) (\<lambda>primary.
             if rp_subscription_id (srp_packet p) \<noteq> primary
             then
               Option.bind (map_of subs primary) (\<lambda>s.
               Some (Some (p\<lparr>srp_matching := m,
                 srp_packet := (srp_packet p)\<lparr>rp_subscription_id := primary,
                   rp_metadata := (rp_metadata (srp_packet p))\<lparr>
                     md_configured_interface := rcfg_interface (ssub_config s),
                     md_configured_interface_index := rcfg_interface_index (ssub_config s)\<rparr>\<rparr>\<rparr>)))
             else Some (Some (p\<lparr>srp_matching := m\<rparr>))))))"

fun retain_pending ::
  "(shared_raw_packet \<Rightarrow> shared_raw_packet option option) \<Rightarrow> shared_raw_packet list \<Rightarrow>
   shared_raw_packet list option" where
  "retain_pending f [] = Some []"
| "retain_pending f (p # ps) =
     Option.bind (f p) (\<lambda>kept. Option.bind (retain_pending f ps) (\<lambda>rest.
     Some (case kept of None \<Rightarrow> rest | Some p' \<Rightarrow> p' # rest)))"

definition remove_pending_membership ::
  "subscription_id \<Rightarrow> shared_raw_context \<Rightarrow> shared_raw_context option" where
  "remove_pending_membership i c =
     map_option (\<lambda>ps. c\<lparr>sctx_pending_packets := ps\<rparr>)
       (retain_pending (drop_pending_membership (sctx_subscriptions c) i) (sctx_pending_packets c))"

definition shared_leave_subscription ::
  "'k os \<Rightarrow> shared_raw_context \<Rightarrow> subscription_id \<Rightarrow> 'k \<Rightarrow>
   ((mcrx_error + unit) \<times> shared_raw_context \<times> 'k) option" where
  "shared_leave_subscription os c i k =
     (case map_of (sctx_subscriptions c) i of
        None \<Rightarrow> Some (Inl SubscriptionNotFound, c, k)
      | Some s \<Rightarrow>
          (if \<not> shared_is_joined s then Some (Inl SubscriptionNotJoined, c, k)
           else
             (case map_of (sctx_captures c) (ssub_capture_key s) of
                None \<Rightarrow> None
              | Some cap \<Rightarrow>
                  (case capture_drop_membership os i (ssub_config s) cap k of
                     None \<Rightarrow> None
                   | Some (Inl e, k') \<Rightarrow> Some (Inl e, c, k')
                   | Some (Inr cap', k') \<Rightarrow>
                       Option.bind (shared_set_state i Bound
                         (c\<lparr>sctx_captures := hm_insert (ssub_capture_key s) cap' (sctx_captures c)\<rparr>)) (\<lambda>c1.
                       Option.bind (remove_pending_membership i c1) (\<lambda>c2.
                       if cap_memberships cap' = 0
                       then map_option (\<lambda>(c3, k''). (Inr (), c3, k''))
                         (remove_capture os (ssub_capture_key s) c2 k')
                       else Some (Inr (), c2, k')))))))"

definition shared_remove_subscription ::
  "'k os \<Rightarrow> shared_raw_context \<Rightarrow> subscription_id \<Rightarrow> 'k \<Rightarrow>
   ((mcrx_error + bool) \<times> shared_raw_context \<times> 'k) option" where
  "shared_remove_subscription os c i k =
     (case map_of (sctx_subscriptions c) i of
        None \<Rightarrow> Some (Inr False, c, k)
      | Some s \<Rightarrow>
          Option.bind
            (if shared_is_joined s then shared_leave_subscription os c i k else Some (Inr (), c, k))
            (\<lambda>(r, c1, k1).
              case r of
                Inl e \<Rightarrow> Some (Inl e, c1, k1)
              | Inr _ \<Rightarrow>
                  Option.bind (map_of (sctx_subscriptions c1) i) (\<lambda>removed.
                  map_option (\<lambda>c2. (Inr True, c2, k1))
                    (release_capture_key (ssub_config removed)
                      (c1\<lparr>sctx_subscriptions := hm_remove i (sctx_subscriptions c1)\<rparr>)))))"

section \<open>Receiving\<close>

definition raw_packet_from_captured ::
  "subscription_id \<Rightarrow> raw_subscription_config \<Rightarrow> raw_captured_datagram \<Rightarrow> raw_packet" where
  "raw_packet_from_captured i cfg captured =
     \<lparr>rp_subscription_id = i, rp_datagram = cd_datagram captured,
      rp_source_ip = Some (cd_source_ip captured), rp_group = Some (cd_group captured),
      rp_ip_protocol = Some (cd_ip_protocol captured),
      rp_metadata =
        \<lparr>md_socket_local_addr = None, md_configured_interface = rcfg_interface cfg,
         md_configured_interface_index = rcfg_interface_index cfg,
         md_destination_local_ip = Some (cd_group captured),
         md_ingress_interface_index = cd_ingress_interface_index captured\<rparr>\<rparr>"

definition push_pending :: "shared_raw_packet \<Rightarrow> shared_raw_context \<Rightarrow> shared_raw_context" where
  "push_pending p c = c\<lparr>sctx_pending_packets := sctx_pending_packets c @ [p]\<rparr>"

text \<open>
  One captured datagram: counted, demultiplexed, and queued when it matches. The flag says whether a
  packet was queued.
\<close>

definition queue_captured ::
  "shared_capture_socket \<Rightarrow> raw_captured_datagram \<Rightarrow> shared_raw_context \<Rightarrow> (bool \<times> shared_raw_context) option" where
  "queue_captured cap captured c =
     (let c1 = record_shared_received c in
      case capture_matches (cap_demultiplexer cap) (cd_group captured) (cd_source_ip captured) of
        None \<Rightarrow> Some (False, record_shared_unmatched c1)
      | Some m \<Rightarrow>
          (let c2 = record_demultiplex_matches (length (as_slice m)) c1 in
           Option.bind (first_id m) (\<lambda>primary.
           Option.bind (map_of (sctx_subscriptions c2) primary) (\<lambda>s.
           Some (True, push_pending
             \<lparr>srp_packet = raw_packet_from_captured primary (ssub_config s) captured, srp_matching = m\<rparr> c2)))))"

text \<open>
  The inner loop of \<open>fill_pending\<close>, at most \<open>target\<close> turns on one capture. The result is an error,
  or whether the outer loop is left as well (\<open>break 'captures\<close>), with both counters.
\<close>

fun fill_capture ::
  "'k os \<Rightarrow> usize \<Rightarrow> usize \<Rightarrow> raw_shared_capture_key \<Rightarrow> nat \<Rightarrow> usize \<Rightarrow> usize \<Rightarrow> shared_raw_context \<Rightarrow> 'k \<Rightarrow>
   ((mcrx_error + bool) \<times> usize \<times> usize \<times> shared_raw_context \<times> 'k) option" where
  "fill_capture os target budget key 0 queued captured c k = Some (Inr False, queued, captured, c, k)"
| "fill_capture os target budget key (Suc turns) queued captured c k =
     (if queued = target \<or> captured = budget then Some (Inr True, queued, captured, c, k)
      else
        (case map_of (sctx_captures c) key of
           None \<Rightarrow> None
         | Some cap \<Rightarrow>
             (case recv_shared_raw_datagram os (cap_socket cap) key k of
                (Inl e, k') \<Rightarrow> Some (Inl e, queued, captured, c, k')
              | (Inr None, k') \<Rightarrow> Some (Inr False, queued, captured, c, k')
              | (Inr (Some datagram), k') \<Rightarrow>
                  Option.bind (queue_captured cap datagram c) (\<lambda>(matched, c').
                  fill_capture os target budget key turns (if matched then queued + 1 else queued)
                    (captured + 1) c' k'))))"

fun fill_captures ::
  "'k os \<Rightarrow> usize \<Rightarrow> usize \<Rightarrow> usize \<Rightarrow> nat \<Rightarrow> usize \<Rightarrow> usize \<Rightarrow> shared_raw_context \<Rightarrow> 'k \<Rightarrow>
   ((mcrx_error + usize) \<times> shared_raw_context \<times> 'k) option" where
  "fill_captures os target budget count 0 queued captured c k = Some (Inr queued, c, k)"
| "fill_captures os target budget count (Suc turns) queued captured c k =
     (if \<not> sctx_next_capture_index c < length (sctx_capture_order c) then None
      else
        let key = sctx_capture_order c ! sctx_next_capture_index c;
            c1 = c\<lparr>sctx_next_capture_index := (sctx_next_capture_index c + 1) mod count\<rparr> in
        (case fill_capture os target budget key target queued captured c1 k of
           None \<Rightarrow> None
         | Some (Inl e, _, _, c', k') \<Rightarrow> Some (Inl e, c', k')
         | Some (Inr True, queued', _, c', k') \<Rightarrow> Some (Inr queued', c', k')
         | Some (Inr False, queued', captured', c', k') \<Rightarrow>
             fill_captures os target budget count turns queued' captured' c' k'))"

definition fill_pending ::
  "'k os \<Rightarrow> usize \<Rightarrow> shared_raw_context \<Rightarrow> 'k \<Rightarrow>
   ((mcrx_error + usize) \<times> shared_raw_context \<times> 'k) option" where
  "fill_pending os max_new_packets c k =
     (let target = min max_new_packets
        (lim_max_pending_packets (sctx_limits c) - length (sctx_pending_packets c)) in
      if sctx_capture_order c = [] \<or> target = 0 then Some (Inr 0, c, k)
      else
        let count = length (sctx_capture_order c) in
        fill_captures os target (min (target + count) usize_MAX) count count 0 0 c k)"

definition pop_pending :: "shared_raw_context \<Rightarrow> shared_raw_packet option \<times> shared_raw_context" where
  "pop_pending c =
     (case sctx_pending_packets c of
        [] \<Rightarrow> (None, c)
      | p # ps \<Rightarrow> (Some p, c\<lparr>sctx_pending_packets := ps\<rparr>))"

definition shared_try_recv_any ::
  "'k os \<Rightarrow> shared_raw_context \<Rightarrow> 'k \<Rightarrow>
   ((mcrx_error + shared_raw_packet option) \<times> shared_raw_context \<times> 'k) option" where
  "shared_try_recv_any os c k =
     (case pop_pending c of
        (Some p, c') \<Rightarrow> Some (Inr (Some p), c', k)
      | (None, _) \<Rightarrow>
          Option.bind (fill_pending os 1 c k) (\<lambda>(r, c1, k1).
          case r of
            Inl e \<Rightarrow> Some (Inl e, c1, k1)
          | Inr _ \<Rightarrow> (case pop_pending c1 of (p, c2) \<Rightarrow> Some (Inr p, c2, k1))))"

definition drain_pending_into ::
  "shared_raw_packet list \<Rightarrow> usize \<Rightarrow> shared_raw_context \<Rightarrow> usize \<times> shared_raw_packet list \<times> shared_raw_context" where
  "drain_pending_into packets max_packets c =
     (let drained = min max_packets (length (sctx_pending_packets c)) in
      (drained, packets @ take drained (sctx_pending_packets c),
       c\<lparr>sctx_pending_packets := drop drained (sctx_pending_packets c)\<rparr>))"

text \<open>
  The \<open>while\<close> loop of the batch. Every turn delivers at least one packet, so \<open>max_packets\<close> turns are
  enough (\<open>shared_batch_returns\<close>); out of fuel is \<open>None\<close>. The packets appended so far stay with the
  caller when a later read fails.
\<close>

fun shared_batch_loop ::
  "nat \<Rightarrow> 'k os \<Rightarrow> usize \<Rightarrow> usize \<Rightarrow> shared_raw_packet list \<Rightarrow> shared_raw_context \<Rightarrow> 'k \<Rightarrow>
   ((mcrx_error + usize) \<times> shared_raw_packet list \<times> shared_raw_context \<times> 'k) option" where
  "shared_batch_loop fuel os max_packets received packets c k =
     (if \<not> received < max_packets then Some (Inr received, packets, c, k)
      else
        (case fuel of
           0 \<Rightarrow> None
         | Suc fuel' \<Rightarrow>
             Option.bind (fill_pending os (max_packets - received) c k) (\<lambda>(r, c1, k1).
             case r of
               Inl e \<Rightarrow> Some (Inl e, packets, c1, k1)
             | Inr queued \<Rightarrow>
                 (if queued = 0 then Some (Inr received, packets, c1, k1)
                  else
                    (case drain_pending_into packets (max_packets - received) c1 of
                       (drained, packets', c2) \<Rightarrow>
                         shared_batch_loop fuel' os max_packets (received + drained) packets' c2 k1)))))"

declare shared_batch_loop.simps [simp del]

definition shared_try_recv_batch_into ::
  "'k os \<Rightarrow> shared_raw_packet list \<Rightarrow> usize \<Rightarrow> shared_raw_context \<Rightarrow> 'k \<Rightarrow>
   ((mcrx_error + usize) \<times> shared_raw_packet list \<times> shared_raw_context \<times> 'k) option" where
  "shared_try_recv_batch_into os packets max_packets c k =
     (if max_packets = 0 then Some (Inr 0, packets, c, k)
      else
        (case drain_pending_into packets max_packets c of
           (received, packets', c1) \<Rightarrow>
             shared_batch_loop max_packets os max_packets received packets' c1 k))"

end
