(* ===== verification/SharedInv.thy ===== *)
theory SharedInv
  imports Shared Sim
begin

text \<open>
  The invariant of the shared raw context (\<open>src/raw/shared.rs\<close>) and what follows from it: no
  operation of a reachable context panics, every reference count is exact, the index of each capture
  holds exactly its joined subscriptions, queued packets name joined subscriptions that accept them,
  the queue and the table stay within their limits, and descriptors are neither leaked nor shared.
\<close>

section \<open>One capture\<close>

text \<open>\<open>J\<close> maps the subscriptions joined on the capture to their configurations.\<close>

type_synonym registrations = "subscription_id \<rightharpoonup> raw_subscription_config"

definition registered :: "registrations \<Rightarrow> kernel_membership_key \<Rightarrow> subscription_id set" where
  "registered J mk = {i. \<exists>cfg. J i = Some cfg \<and> kernel_membership_key_from cfg = mk}"

fun entry_exact :: "kernel_membership_key \<Rightarrow> kernel_membership option \<Rightarrow> subscription_id set \<Rightarrow> bool" where
  "entry_exact mk None R \<longleftrightarrow> R = {}"
| "entry_exact mk (Some m) R \<longleftrightarrow>
     R \<noteq> {} \<and> km_references m = card R \<and> kernel_membership_key_from (km_joined_config m) = mk"

definition memberships_exact ::
  "registrations \<Rightarrow> (kernel_membership_key, kernel_membership) hash_map \<Rightarrow> bool" where
  "memberships_exact J kms \<longleftrightarrow> (\<forall>mk. entry_exact mk (map_of kms mk) (registered J mk))"

definition capture_inv :: "registrations \<Rightarrow> shared_capture_socket \<Rightarrow> bool" where
  "capture_inv J cap \<longleftrightarrow>
     capture_ok (cap_demultiplexer cap) \<and> index_tracks capture_ids (cap_demultiplexer cap) J \<and>
     hm_ok (cap_kernel_memberships cap) \<and> cap_memberships cap = card (dom J) \<and>
     memberships_exact J (cap_kernel_memberships cap)"

lemma registered_insert:
  "J i = None \<Longrightarrow> registered (J(i \<mapsto> cfg)) mk =
     (if kernel_membership_key_from cfg = mk then insert i (registered J mk) else registered J mk)"
  by (auto simp: registered_def)

lemma registered_remove:
  "J i = Some cfg \<Longrightarrow> registered (J(i := None)) mk = registered J mk - {i}"
  by (auto simp: registered_def)

lemma registered_iff: "i \<in> registered J mk \<longleftrightarrow> (\<exists>cfg. J i = Some cfg \<and> kernel_membership_key_from cfg = mk)"
  by (simp add: registered_def)

lemma finite_registered: "finite (dom J) \<Longrightarrow> finite (registered J mk)"
  by (rule finite_subset [of _ "dom J"]) (auto simp: registered_def)

lemma capture_inv_new: "capture_inv Map.empty (shared_capture_new rr)"
  by (simp add: capture_inv_def shared_capture_new_def demux.ok_empty demux.tracks_empty hm_simps
      memberships_exact_def registered_def)

lemma memberships_exactD:
  "memberships_exact J kms \<Longrightarrow> entry_exact mk (map_of kms mk) (registered J mk)"
  by (simp add: memberships_exact_def)

lemma memberships_exact_update:
  assumes "memberships_exact J kms"
    and "\<And>mk. mk \<noteq> changed \<Longrightarrow> map_of kms' mk = map_of kms mk \<and> registered J' mk = registered J mk"
    and "entry_exact changed (map_of kms' changed) (registered J' changed)"
  shows "memberships_exact J' kms'"
  using assms unfolding memberships_exact_def by metis

lemma capture_inv_add:
  assumes fin: "finite (dom J)" and inv: "capture_inv J cap" and new: "J i = None"
  shows "capture_inv (J(i \<mapsto> cfg)) (capture_add_membership i cfg cap)"
proof -
  let ?mk = "kernel_membership_key_from cfg" and ?kms = "cap_kernel_memberships cap"
  have exact: "memberships_exact J ?kms" using inv by (simp add: capture_inv_def)
  have fresh: "i \<notin> registered J ?mk" using new by (simp add: registered_iff)
  have card: "card (insert i (registered J ?mk)) = Suc (card (registered J ?mk))"
    using fresh finite_registered [OF fin] by simp
  have "memberships_exact (J(i \<mapsto> cfg)) (cap_kernel_memberships (capture_add_membership i cfg cap))"
    using memberships_exactD [OF exact, where mk = ?mk] card
    by (intro memberships_exact_update [OF exact, where changed = ?mk])
       (cases "map_of ?kms ?mk", auto simp: capture_add_membership_def Let_def hm_simps registered_insert new split: option.split)
  moreover have "card (dom (J(i \<mapsto> cfg))) = Suc (card (dom J))"
    using fin new by (simp add: card_insert_if domIff)
  ultimately show ?thesis
    using inv demux.tracks_insert [where J = J and i = i] new demux.ok_insert
    by (simp add: capture_inv_def capture_add_membership_def Let_def hm_simps del: fun_upd_apply dom_fun_upd)
qed

lemma memberships_none:
  assumes "memberships_exact J kms"
  shows "kms = [] \<longleftrightarrow> J = Map.empty"
proof
  assume "kms = []"
  then have "registered J mk = {}" for mk using memberships_exactD [OF assms, where mk = mk] by simp
  then show "J = Map.empty" by (auto simp: registered_def fun_eq_iff) (metis not_None_eq)
next
  assume "J = Map.empty"
  then have "map_of kms mk = None" for mk
    using memberships_exactD [OF assms, where mk = mk] by (cases "map_of kms mk") (auto simp: registered_def)
  then show "kms = []" unfolding hm_empty by blast
qed

lemma drop_kernel_membership_ok:
  assumes fin: "finite (dom J)" and inv: "capture_inv J cap" and joined: "J i = Some cfg"
  obtains e k' where "drop_kernel_membership os cfg cap k = Some (Inl e, k')"
  | kms k' where "drop_kernel_membership os cfg cap k = Some (Inr kms, k')" "hm_ok kms"
      "memberships_exact (J(i := None)) kms"
proof -
  let ?mk = "kernel_membership_key_from cfg" and ?kms = "cap_kernel_memberships cap"
  have exact: "memberships_exact J ?kms" and hm: "hm_ok ?kms" using inv by (simp_all add: capture_inv_def)
  have i: "i \<in> registered J ?mk" using joined by (simp add: registered_iff)
  then obtain m where m: "map_of ?kms ?mk = Some m"
    using memberships_exactD [OF exact, where mk = ?mk] by (cases "map_of ?kms ?mk") auto
  have refs: "km_references m = card (registered J ?mk)" "kernel_membership_key_from (km_joined_config m) = ?mk"
    using memberships_exactD [OF exact, where mk = ?mk] m by simp_all
  have others: "registered (J(i := None)) mk = registered J mk" if "mk \<noteq> ?mk" for mk
    using that joined by (auto simp: registered_def)
  have here: "registered (J(i := None)) ?mk = registered J ?mk - {i}" using joined by (rule registered_remove)
  have pos: "0 < km_references m" using i finite_registered [OF fin] by (auto simp: refs(1) card_gt_0_iff)
  have left: "card (registered J ?mk - {i}) = km_references m - 1"
    using i finite_registered [OF fin] by (simp add: refs(1))
  show thesis
  proof (cases "km_references m = 1")
    case True
    then have "registered J ?mk - {i} = {}" using left finite_registered [OF fin] by simp
    then have "memberships_exact (J(i := None)) (hm_remove ?mk ?kms)"
      using here others by (intro memberships_exact_update [OF exact, where changed = ?mk]) (auto simp: hm_simps)
    moreover obtain r k' where "leave_raw_multicast_group os (cap_socket cap) (km_joined_config m) k = (r, k')"
      by fastforce
    ultimately show thesis using that m True hm
      by (cases r) (auto simp: drop_kernel_membership_def Let_def hm_simps)
  next
    case False
    then have "registered J ?mk - {i} \<noteq> {}" using left pos by (metis card.empty Suc_diff_1 Suc_pred diff_is_0_eq le_antisym less_one linorder_not_le One_nat_def Suc_leI)
    then have "memberships_exact (J(i := None))
        (hm_insert ?mk (m\<lparr>km_references := km_references m - 1\<rparr>) ?kms)"
      using here others left refs(2)
      by (intro memberships_exact_update [OF exact, where changed = ?mk]) (auto simp: hm_simps)
    then show thesis using that(2) m False pos hm
      by (auto simp: drop_kernel_membership_def Let_def hm_simps)
  qed
qed

lemma capture_drop_membership_ok:
  assumes fin: "finite (dom J)" and inv: "capture_inv J cap" and joined: "J i = Some cfg"
  obtains e k' where "capture_drop_membership os i cfg cap k = Some (Inl e, k')"
  | cap' k' where "capture_drop_membership os i cfg cap k = Some (Inr cap', k')"
      "capture_inv (J(i := None)) cap'" "cap_socket cap' = cap_socket cap"
  using drop_kernel_membership_ok [OF assms, of os k]
proof cases
  case (1 e k')
  then show thesis using that(1) by (simp add: capture_drop_membership_def)
next
  case (2 kms k')
  have n: "cap_memberships cap = card (dom J)" using inv by (simp add: capture_inv_def)
  have i: "i \<in> dom J" using joined by auto
  then have card: "card (dom (J(i := None))) = cap_memberships cap - 1" "cap_memberships cap \<noteq> 0"
    using fin by (auto simp: n)
  have "finite (dom (J(i := None)))" using fin by simp
  then have "cap_memberships cap - 1 = 0 \<longleftrightarrow> J(i := None) = Map.empty"
    unfolding card(1) [symmetric] by (simp only: card_0_eq dom_eq_empty_conv)
  then have agree: "(cap_memberships cap - 1 = 0) = (kms = [])" using memberships_none [OF 2(3)] by simp
  let ?cap = "cap\<lparr>cap_kernel_memberships := kms,
    cap_demultiplexer := capture_remove i cfg (cap_demultiplexer cap), cap_memberships := cap_memberships cap - 1\<rparr>"
  have "capture_inv (J(i := None)) ?cap"
    using inv 2 card demux.ok_remove demux.tracks_remove [where J = J and i = i and cfg = cfg] joined
    by (simp add: capture_inv_def del: fun_upd_apply dom_fun_upd)
  moreover have "capture_drop_membership os i cfg cap k = Some (Inr ?cap, k')"
    using 2(1) card(2) agree by (simp add: capture_drop_membership_def Let_def)
  ultimately show thesis using that(2) [of ?cap k'] by simp
qed

section \<open>The invariant\<close>

type_synonym shared_table = "subscription_id \<rightharpoonup> shared_raw_subscription"

text \<open>The subscriptions of the table that are joined on the capture of \<open>key\<close>.\<close>

definition joined_at :: "shared_table \<Rightarrow> raw_shared_capture_key \<Rightarrow> registrations" where
  "joined_at S key i =
     (case S i of
        None \<Rightarrow> None
      | Some s \<Rightarrow> if shared_is_joined s \<and> ssub_capture_key s = key then Some (ssub_config s) else None)"

lemma joined_at_Some:
  "joined_at S key i = Some cfg \<longleftrightarrow>
     (\<exists>s. S i = Some s \<and> shared_is_joined s \<and> ssub_capture_key s = key \<and> ssub_config s = cfg)"
  by (auto simp: joined_at_def split: option.splits)

lemma joined_at_join:
  "S i = Some s \<Longrightarrow> \<not> shared_is_joined s \<Longrightarrow>
   joined_at (S(i \<mapsto> s\<lparr>ssub_state := Joined\<rparr>)) key =
     (if key = ssub_capture_key s then (joined_at S key)(i \<mapsto> ssub_config s) else joined_at S key)"
  by (auto simp: joined_at_def shared_is_joined_def fun_eq_iff)

lemma joined_at_leave:
  "S i = Some s \<Longrightarrow> shared_is_joined s \<Longrightarrow>
   joined_at (S(i \<mapsto> s\<lparr>ssub_state := Bound\<rparr>)) key =
     (if key = ssub_capture_key s then (joined_at S key)(i := None) else joined_at S key)"
  by (auto simp: joined_at_def shared_is_joined_def fun_eq_iff)

lemma joined_at_other:
  "S i = None \<Longrightarrow> \<not> shared_is_joined s \<Longrightarrow> joined_at (S(i \<mapsto> s)) = joined_at S"
  "S i = Some s \<Longrightarrow> \<not> shared_is_joined s \<Longrightarrow> joined_at (S(i := None)) = joined_at S"
  by (auto simp: joined_at_def fun_eq_iff)

lemma joined_at_empty [simp]: "joined_at Map.empty key = Map.empty"
  by (simp add: joined_at_def fun_eq_iff)

lemma finite_joined_at: "finite (dom S) \<Longrightarrow> finite (dom (joined_at S key))"
  by (rule finite_subset [of _ "dom S"]) (auto simp: joined_at_def split: option.splits)

definition subs_inv :: "shared_table \<Rightarrow> u64 \<Rightarrow> bool" where
  "subs_inv S next_id \<longleftrightarrow>
     (\<forall>i s. S i = Some s \<longrightarrow>
        ssub_id s = i \<and> unat (sid i) < unat next_id \<and> raw_validate (ssub_config s) = Inr ())"

text \<open>The subscriptions that hold a reference to a resolved capture key.\<close>

definition users :: "shared_table \<Rightarrow> capture_selector \<Rightarrow> subscription_id set" where
  "users S selector = {i. \<exists>s. S i = Some s \<and> capture_selector_from (ssub_config s) = selector}"

fun resolved_exact :: "shared_table \<Rightarrow> capture_selector \<Rightarrow> resolved_capture_key option \<Rightarrow> bool" where
  "resolved_exact S selector None \<longleftrightarrow> users S selector = {}"
| "resolved_exact S selector (Some r) \<longleftrightarrow>
     users S selector \<noteq> {} \<and> rck_references r = card (users S selector) \<and>
     (\<forall>i s. S i = Some s \<longrightarrow> capture_selector_from (ssub_config s) = selector \<longrightarrow>
        ssub_capture_key s = rck_key r)"

definition keys_inv :: "shared_table \<Rightarrow> (capture_selector, resolved_capture_key) hash_map \<Rightarrow> bool" where
  "keys_inv S keys \<longleftrightarrow> hm_ok keys \<and> (\<forall>selector. resolved_exact S selector (map_of keys selector))"

fun capture_entry :: "registrations \<Rightarrow> shared_capture_socket option \<Rightarrow> bool" where
  "capture_entry J None \<longleftrightarrow> J = Map.empty"
| "capture_entry J (Some cap) \<longleftrightarrow> capture_inv J cap"

definition captures_inv ::
  "shared_table \<Rightarrow> (raw_shared_capture_key, shared_capture_socket) hash_map \<Rightarrow> bool" where
  "captures_inv S caps \<longleftrightarrow> hm_ok caps \<and> (\<forall>key. capture_entry (joined_at S key) (map_of caps key))"

definition captures_needed ::
  "shared_table \<Rightarrow> (raw_shared_capture_key, shared_capture_socket) hash_map \<Rightarrow> bool" where
  "captures_needed S caps \<longleftrightarrow> (\<forall>key. map_of caps key \<noteq> None \<longrightarrow> joined_at S key \<noteq> Map.empty)"

definition order_inv ::
  "(raw_shared_capture_key, shared_capture_socket) hash_map \<Rightarrow> raw_shared_capture_key list \<Rightarrow> usize \<Rightarrow> bool" where
  "order_inv caps keys_order index \<longleftrightarrow>
     distinct keys_order \<and> set keys_order = dom (map_of caps) \<and>
     (if keys_order = [] then index = 0 else index < length keys_order)"

text \<open>
  A queued packet: a complete datagram with the addresses of its header, the joined subscriptions
  that accept it, in ascending order, the first of which is the packet's subscription.
\<close>

definition datagram_from :: "raw_packet \<Rightarrow> ip_addr \<Rightarrow> ip_addr \<Rightarrow> bool" where
  "datagram_from p grp source \<longleftrightarrow>
     (\<exists>protocol. parse_ip_datagram (rp_datagram p) = Some
        \<lparr>pi_source_ip = source, pi_destination_ip = grp, pi_protocol = protocol,
         pi_datagram_len = length (rp_datagram p)\<rparr> \<and> rp_ip_protocol p = Some protocol) \<and>
     rp_group p = Some grp \<and> rp_source_ip p = Some source"

definition accepted_by :: "shared_table \<Rightarrow> subscription_id list \<Rightarrow> ip_addr \<Rightarrow> ip_addr \<Rightarrow> bool" where
  "accepted_by S ids grp source \<longleftrightarrow>
     (\<forall>i \<in> set ids. \<exists>s. S i = Some s \<and> shared_is_joined s \<and> accepts_source (ssub_config s) grp source)"

definition labelled_by :: "shared_table \<Rightarrow> subscription_id \<Rightarrow> raw_packet \<Rightarrow> bool" where
  "labelled_by S i p \<longleftrightarrow> rp_subscription_id p = i \<and>
     (\<exists>s. S i = Some s \<and> md_configured_interface (rp_metadata p) = rcfg_interface (ssub_config s) \<and>
        md_configured_interface_index (rp_metadata p) = rcfg_interface_index (ssub_config s))"

definition pending_ok :: "shared_table \<Rightarrow> shared_raw_packet \<Rightarrow> bool" where
  "pending_ok S p \<longleftrightarrow>
     matching_ok (srp_matching p) \<and>
     (\<exists>grp source. datagram_from (srp_packet p) grp source \<and> accepted_by S (matching_ids p) grp source) \<and>
     labelled_by S (hd (matching_ids p)) (srp_packet p)"

definition limits_inv :: "shared_raw_context_limits \<Rightarrow> nat \<Rightarrow> nat \<Rightarrow> bool" where
  "limits_inv limits subs pending \<longleftrightarrow>
     0 < lim_max_subscriptions limits \<and> 0 < lim_max_pending_packets limits \<and>
     subs \<le> lim_max_subscriptions limits \<and> pending \<le> lim_max_pending_packets limits"

abbreviation shared_table_of :: "shared_raw_context \<Rightarrow> shared_table" where
  "shared_table_of c \<equiv> map_of (sctx_subscriptions c)"

definition shared_inv :: "shared_raw_context \<Rightarrow> bool" where
  "shared_inv c \<longleftrightarrow>
     hm_ok (sctx_subscriptions c) \<and> subs_inv (shared_table_of c) (sctx_next_subscription_id c) \<and>
     keys_inv (shared_table_of c) (sctx_resolved_capture_keys c) \<and>
     captures_inv (shared_table_of c) (sctx_captures c) \<and>
     captures_needed (shared_table_of c) (sctx_captures c) \<and>
     order_inv (sctx_captures c) (sctx_capture_order c) (sctx_next_capture_index c) \<and>
     (\<forall>p \<in> set (sctx_pending_packets c). pending_ok (shared_table_of c) p) \<and>
     limits_inv (sctx_limits c) (length (sctx_subscriptions c)) (length (sctx_pending_packets c))"

lemma shared_inv_new: "shared_with_limits limits = Inr c \<Longrightarrow> shared_inv c"
  by (auto simp: shared_with_limits_def shared_inv_def hm_simps subs_inv_def keys_inv_def users_def
      captures_inv_def captures_needed_def order_inv_def limits_inv_def split: if_splits)

section \<open>Adding and releasing\<close>

lemma keys_inv_update:
  assumes "keys_inv S keys" and "hm_ok keys'"
    and "\<And>sel. sel \<noteq> changed \<Longrightarrow> map_of keys' sel = map_of keys sel \<and>
      (\<forall>i s. capture_selector_from (ssub_config s) = sel \<longrightarrow> (S' i = Some s \<longleftrightarrow> S i = Some s))"
    and "resolved_exact S' changed (map_of keys' changed)"
  shows "keys_inv S' keys'"
  unfolding keys_inv_def
proof (intro conjI allI)
  fix sel
  show "resolved_exact S' sel (map_of keys' sel)"
  proof (cases "sel = changed")
    case False
    have same: "S' i = Some s \<longleftrightarrow> S i = Some s" if "capture_selector_from (ssub_config s) = sel" for i s
      using assms(3) [OF False] that by blast
    then have "users S' sel = users S sel" by (auto simp: users_def)
    moreover have "resolved_exact S sel (map_of keys sel)" using assms(1) by (simp add: keys_inv_def)
    ultimately show ?thesis using assms(3) [OF False] same by (cases "map_of keys sel") auto
  qed (use assms(4) in simp)
qed (use assms(2) in simp)

lemma finite_users: "finite (dom S) \<Longrightarrow> finite (users S sel)"
  by (rule finite_subset [of _ "dom S"]) (auto simp: users_def)

lemma resolve_capture_key_ok:
  assumes fin: "finite (dom S)" and inv: "keys_inv S (sctx_resolved_capture_keys c)" and new: "S i = None"
    and run: "resolve_capture_key os cfg c k = (Inr key, c', k')"
  shows "\<exists>keys. c' = c\<lparr>sctx_resolved_capture_keys := keys\<rparr> \<and>
     keys_inv (S(i \<mapsto> shared_sub_new i cfg key)) keys"
proof -
  let ?sel = "capture_selector_from cfg" and ?keys = "sctx_resolved_capture_keys c"
  let ?S = "S(i \<mapsto> shared_sub_new i cfg key)"
  have hm: "hm_ok ?keys" and old: "resolved_exact S ?sel (map_of ?keys ?sel)" using inv by (simp_all add: keys_inv_def)
  have fresh: "i \<notin> users S ?sel" using new by (simp add: users_def)
  have users: "users ?S ?sel = insert i (users S ?sel)"
    using new by (auto simp: users_def shared_sub_new_def)
  have card: "card (users ?S ?sel) = Suc (card (users S ?sel))"
    using fresh finite_users [OF fin] by (simp add: users)
  obtain r where r: "c' = c\<lparr>sctx_resolved_capture_keys := hm_insert ?sel r ?keys\<rparr>"
    "resolved_exact ?S ?sel (Some r)"
  proof (cases "map_of ?keys ?sel")
    case (Some r)
    then have "key = rck_key r" "c' = c\<lparr>sctx_resolved_capture_keys := hm_insert ?sel
        (r\<lparr>rck_references := rck_references r + 1\<rparr>) ?keys\<rparr>"
      using run by (auto simp: resolve_capture_key_def Let_def)
    then show thesis using that old Some users card by (auto simp: shared_sub_new_def)
  next
    case None
    then have none: "users S ?sel = {}" using old by simp
    have c': "c' = c\<lparr>sctx_resolved_capture_keys := hm_insert ?sel \<lparr>rck_key = key, rck_references = 1\<rparr> ?keys\<rparr>"
      using run None by (auto simp: resolve_capture_key_def Let_def split: prod.splits sum.splits)
    have unused: "capture_selector_from (ssub_config s) \<noteq> ?sel" if "S j = Some s" for j s
      using none that by (auto simp: users_def)
    have "resolved_exact ?S ?sel (Some \<lparr>rck_key = key, rck_references = 1\<rparr>)"
      using unused users none by (simp add: shared_sub_new_def)
    then show thesis using that c' by blast
  qed
  have "keys_inv ?S (hm_insert ?sel r ?keys)"
    by (rule keys_inv_update [OF inv, where changed = ?sel])
       (use r(2) hm new in \<open>auto simp: hm_simps shared_sub_new_def\<close>)
  with r(1) show ?thesis by blast
qed

lemma release_capture_key_ok:
  assumes fin: "finite (dom S)" and inv: "keys_inv S (sctx_resolved_capture_keys c)" and old: "S i = Some s"
  shows "\<exists>keys. release_capture_key (ssub_config s) c = Some (c\<lparr>sctx_resolved_capture_keys := keys\<rparr>) \<and>
     keys_inv (S(i := None)) keys"
proof -
  let ?sel = "capture_selector_from (ssub_config s)" and ?keys = "sctx_resolved_capture_keys c"
  let ?S = "S(i := None)"
  have hm: "hm_ok ?keys" and exact: "resolved_exact S ?sel (map_of ?keys ?sel)" using inv by (simp_all add: keys_inv_def)
  have i: "i \<in> users S ?sel" using old by (simp add: users_def)
  then obtain r where r: "map_of ?keys ?sel = Some r" using exact by (cases "map_of ?keys ?sel") auto
  have users: "users ?S ?sel = users S ?sel - {i}" by (auto simp: users_def)
  have card: "rck_references r = card (users S ?sel)" "card (users ?S ?sel) = rck_references r - 1"
    using exact r i finite_users [OF fin] by (simp_all add: users)
  have pos: "0 < rck_references r" using i finite_users [OF fin] by (auto simp: card(1) card_gt_0_iff)
  define keys where "keys = (if rck_references r - 1 = 0 then hm_remove ?sel ?keys
     else hm_insert ?sel (r\<lparr>rck_references := rck_references r - 1\<rparr>) ?keys)"
  have "finite (users ?S ?sel)" using finite_users [OF fin] users by simp
  then have empty: "rck_references r - 1 = 0 \<longleftrightarrow> users ?S ?sel = {}" unfolding card(2) [symmetric] by (rule card_0_eq)
  have "resolved_exact ?S ?sel (map_of keys ?sel)"
    using exact r card empty by (auto simp: keys_def hm_simps)
  then have "keys_inv ?S keys"
    by (rule keys_inv_update [OF inv, where changed = ?sel, rotated 2]) (auto simp: keys_def hm_simps hm old)
  moreover have "release_capture_key (ssub_config s) c = Some (c\<lparr>sctx_resolved_capture_keys := keys\<rparr>)"
    using r pos by (simp add: release_capture_key_def Let_def keys_def)
  ultimately show ?thesis by blast
qed

section \<open>Removing a capture\<close>

lemma mod_in_range: "keys_order \<noteq> [] \<Longrightarrow> n mod length keys_order < length keys_order" for keys_order :: "'a list"
  by simp

lemma remove_capture_ok:
  assumes inv: "order_inv (sctx_captures c) (sctx_capture_order c) (sctx_next_capture_index c)"
    and hm: "hm_ok (sctx_captures c)" and cap: "map_of (sctx_captures c) key = Some cap"
  shows "\<exists>index keys_order c'. remove_capture os key c k = Some (c', drop_raw_socket os (cap_socket cap) k) \<and>
     c' = c\<lparr>sctx_captures := hm_remove key (sctx_captures c), sctx_capture_order := keys_order,
        sctx_next_capture_index := index\<rparr> \<and>
     order_inv (sctx_captures c') keys_order index"
proof -
  let ?order = "sctx_capture_order c"
  have set: "set ?order = dom (map_of (sctx_captures c))" and d: "distinct ?order"
    using inv by (simp_all add: order_inv_def)
  have "key \<in> set ?order" using set cap by auto
  then obtain n where n: "position (\<lambda>x. x = key) ?order = Some n"
    by (cases "position (\<lambda>x. x = key) ?order") auto
  then have nth: "n < length ?order" "?order ! n = key" using position_Some by blast+
  let ?rest = "vec_remove ?order n"
  have split: "?order = take n ?order @ key # drop (Suc n) ?order"
    using nth id_take_nth_drop by metis
  have "distinct (take n ?order @ key # drop (Suc n) ?order)" using d split by metis
  then have rest: "distinct ?rest" "key \<notin> set ?rest" by (auto simp: vec_remove_def)
  have "set ?order = insert key (set ?rest)" by (subst split) (simp add: vec_remove_def)
  then have dom: "set ?rest = dom (map_of (hm_remove key (sctx_captures c)))"
    using set rest(2) by (auto simp: hm_simps)
  define index where "index = (if ?rest = [] then 0 else sctx_next_capture_index c mod length ?rest)"
  have "order_inv (hm_remove key (sctx_captures c)) ?rest index"
    using rest(1) dom by (simp add: order_inv_def index_def)
  moreover have "remove_capture os key c k =
      Some (c\<lparr>sctx_captures := hm_remove key (sctx_captures c), sctx_capture_order := ?rest,
        sctx_next_capture_index := index\<rparr>, drop_raw_socket os (cap_socket cap) k)"
    using n by (simp add: remove_capture_def Let_def cap index_def)
  ultimately show ?thesis by auto
qed

lemma ensure_capture_ok:
  assumes inv: "order_inv (sctx_captures c) (sctx_capture_order c) (sctx_next_capture_index c)"
    and caps: "captures_inv S (sctx_captures c)"
    and run: "ensure_capture os key c k = (Inr created, c', k')"
  obtains (existing) cap where "\<not> created" "c' = c" "k' = k" "map_of (sctx_captures c) key = Some cap"
    "capture_inv (joined_at S key) cap"
  | (opened) rr keys_order where "created" "map_of (sctx_captures c) key = None"
    "open_shared_raw_socket os key k = (Inr rr, k')"
    "c' = c\<lparr>sctx_captures := hm_insert key (shared_capture_new rr) (sctx_captures c),
       sctx_capture_order := keys_order\<rparr>"
    "order_inv (sctx_captures c') keys_order (sctx_next_capture_index c)"
    "joined_at S key = Map.empty" "capture_inv (joined_at S key) (shared_capture_new rr)"
proof (cases "map_of (sctx_captures c) key")
  case (Some cap)
  then have "capture_inv (joined_at S key) cap"
    using caps unfolding captures_inv_def by (metis capture_entry.simps(2))
  then show thesis using existing Some run by (auto simp: ensure_capture_def)
next
  case None
  then have "joined_at S key = Map.empty"
    using caps unfolding captures_inv_def by (metis capture_entry.simps(1))
  moreover obtain rr where "created" "open_shared_raw_socket os key k = (Inr rr, k')"
    "c' = c\<lparr>sctx_captures := hm_insert key (shared_capture_new rr) (sctx_captures c),
       sctx_capture_order := sctx_capture_order c @ [key]\<rparr>"
    using run None by (auto simp: ensure_capture_def split: prod.splits sum.splits)
  moreover have "key \<notin> set (sctx_capture_order c)" using inv None by (auto simp: order_inv_def)
  ultimately show thesis using opened None inv capture_inv_new
    by (auto simp: order_inv_def hm_simps less_SucI split: if_splits)
qed

section \<open>Pending packets\<close>

lemma accepted_by_mono:
  "accepted_by S ids grp source \<Longrightarrow> set ids' \<subseteq> set ids \<Longrightarrow>
   (\<And>i s. i \<in> set ids' \<Longrightarrow> S i = Some s \<Longrightarrow> shared_is_joined s \<Longrightarrow> S' i = Some s) \<Longrightarrow>
   accepted_by S' ids' grp source"
  unfolding accepted_by_def by (meson subsetD)

text \<open>A queued packet survives every change that keeps the subscriptions it names.\<close>

lemma pending_ok_keep:
  assumes ok: "pending_ok S p"
    and same: "\<And>i s. i \<in> set (matching_ids p) \<Longrightarrow> S i = Some s \<Longrightarrow> shared_is_joined s \<Longrightarrow> S' i = Some s"
  shows "pending_ok S' p"
proof -
  obtain grp source where a: "datagram_from (srp_packet p) grp source" "accepted_by S (matching_ids p) grp source"
    using ok by (auto simp: pending_ok_def)
  have h: "hd (matching_ids p) \<in> set (matching_ids p)"
    using ok by (simp add: pending_ok_def matching_ok_def matching_ids_def)
  then obtain s where "S (hd (matching_ids p)) = Some s" "shared_is_joined s"
    using a(2) by (auto simp: accepted_by_def)
  then have "S' (hd (matching_ids p)) = S (hd (matching_ids p))" using same [OF h] by simp
  then have "labelled_by S' (hd (matching_ids p)) (srp_packet p)"
    using ok by (simp add: pending_ok_def labelled_by_def)
  moreover have "accepted_by S' (matching_ids p) grp source"
    by (rule accepted_by_mono [OF a(2) subset_refl]) (rule same)
  ultimately show ?thesis using ok a(1) unfolding pending_ok_def by blast
qed

lemma pending_joined: "pending_ok S p \<Longrightarrow> i \<in> set (matching_ids p) \<Longrightarrow> \<exists>s. S i = Some s \<and> shared_is_joined s"
  by (auto simp: pending_ok_def accepted_by_def)

text \<open>Removing a subscription that is not the only one from the identifiers of a packet.\<close>

lemma remove_existing_ok:
  assumes ok: "matching_ok m" and pos: "position (\<lambda>x. x = i) (as_slice m) = Some n"
    and several: "length (as_slice m) \<noteq> 1"
  shows "\<exists>m'. remove_existing m n = Some m' \<and> matching_ok m' \<and> set (as_slice m') = set (as_slice m) - {i}"
proof (cases m)
  case (Many ids)
  then have n: "n < length ids" "ids ! n = i" and sorted: "sorted_ids ids"
    using position_Some [OF pos] ok by (auto simp: matching_ok_def)
  have split: "ids = take n ids @ i # drop (Suc n) ids" using n id_take_nth_drop by metis
  then have s2: "sorted_ids (take n ids @ i # drop (Suc n) ids)" using sorted by metis
  have "sorted_ids (vec_remove ids n)" "i \<notin> set (vec_remove ids n)"
    using s2 by (auto simp: sorted_wrt_append vec_remove_def)
  moreover have "set ids = insert i (set (vec_remove ids n))" by (subst split) (simp add: vec_remove_def)
  moreover have "length (vec_remove ids n) = length ids - 1" using n(1) by (simp add: vec_remove_def)
  ultimately have r: "sorted_ids (vec_remove ids n)" "set (vec_remove ids n) = set ids - {i}"
    "vec_remove ids n \<noteq> []"
    using several n(1) Many by auto
  show ?thesis
  proof (cases "length (vec_remove ids n) = 1")
    case True
    then have "vec_remove ids n = [vec_remove ids n ! 0]" by (cases "vec_remove ids n") auto
    then have "set (vec_remove ids n) = {vec_remove ids n ! 0}" by (metis list.set(1) list.set(2))
    then show ?thesis using Many n(1) True r(2) by (simp add: Let_def matching_ok_def)
  next
    case False
    then show ?thesis using Many n(1) r by (simp add: Let_def matching_ok_def)
  qed
qed (use several in simp)

lemma drop_pending_membership_ok:
  assumes ok: "pending_ok S p" and S': "S' = map_of subs" "\<And>j. j \<noteq> i \<Longrightarrow> S' j = S j"
  shows "\<exists>kept. drop_pending_membership subs i p = Some kept \<and>
     (\<forall>p'. kept = Some p' \<longrightarrow> pending_ok S' p')"
proof (cases "position (\<lambda>x. x = i) (as_slice (srp_matching p))")
  case None
  then have "i \<notin> set (matching_ids p)" by (auto simp: matching_ids_def)
  then have "S' j = S j" if "j \<in> set (matching_ids p)" for j using that S'(2) by metis
  then have "pending_ok S' p" by (intro pending_ok_keep [OF ok]) simp
  then show ?thesis using None by (simp add: drop_pending_membership_def del: position_None)
next
  case (Some n)
  show ?thesis
  proof (cases "length (as_slice (srp_matching p)) = 1")
    case True
    then show ?thesis using Some by (simp add: drop_pending_membership_def)
  next
    case False
    obtain grp source where a: "datagram_from (srp_packet p) grp source" "accepted_by S (matching_ids p) grp source"
      and m: "matching_ok (srp_matching p)" and l: "labelled_by S (hd (matching_ids p)) (srp_packet p)"
      using ok by (auto simp: pending_ok_def)
    obtain m' where m': "remove_existing (srp_matching p) n = Some m'" "matching_ok m'"
      "set (as_slice m') = set (as_slice (srp_matching p)) - {i}"
      using remove_existing_ok [OF m Some False] by blast
    define primary where "primary = hd (as_slice m')"
    have first: "first_id m' = Some primary" "primary \<in> set (as_slice m')"
      using m'(2) by (cases "as_slice m'"; simp add: matching_ok_def first_id_def primary_def)+
    then have "primary \<in> set (matching_ids p)" "primary \<noteq> i" using m'(3) by (auto simp: matching_ids_def)
    then obtain s where s: "S' primary = Some s" using a(2) S'(2) by (fastforce simp: accepted_by_def)
    have acc: "accepted_by S' (as_slice m') grp source"
      by (rule accepted_by_mono [OF a(2)]) (use m'(3) S'(2) in \<open>auto simp: matching_ids_def\<close>)
    show ?thesis
    proof (cases "rp_subscription_id (srp_packet p) = primary")
      case True
      then have "hd (matching_ids p) = primary" using l by (simp add: labelled_by_def)
      then have "labelled_by S' primary (srp_packet p)"
        using l S'(2) \<open>primary \<noteq> i\<close> by (simp add: labelled_by_def)
      then have "pending_ok S' (p\<lparr>srp_matching := m'\<rparr>)"
        using m'(2) a(1) acc by (auto simp: pending_ok_def matching_ids_def primary_def)
      then show ?thesis using Some False m'(1) first(1) True by (simp add: drop_pending_membership_def)
    next
      case other: False
      let ?p = "p\<lparr>srp_matching := m', srp_packet := (srp_packet p)\<lparr>rp_subscription_id := primary,
        rp_metadata := (rp_metadata (srp_packet p))\<lparr>md_configured_interface := rcfg_interface (ssub_config s),
          md_configured_interface_index := rcfg_interface_index (ssub_config s)\<rparr>\<rparr>\<rparr>"
      have "datagram_from (srp_packet ?p) grp source" using a(1) by (simp add: datagram_from_def)
      moreover have "labelled_by S' primary (srp_packet ?p)" using s by (simp add: labelled_by_def)
      ultimately have "pending_ok S' ?p"
        using m'(2) acc by (auto simp: pending_ok_def matching_ids_def primary_def)
      moreover have "drop_pending_membership subs i p = Some (Some ?p)"
        using Some False m'(1) first(1) other s S'(1) by (simp add: drop_pending_membership_def)
      ultimately show ?thesis by blast
    qed
  qed
qed

lemma retain_pending_ok:
  assumes "\<And>p. p \<in> set ps \<Longrightarrow> \<exists>kept. f p = Some kept \<and> (\<forall>p'. kept = Some p' \<longrightarrow> P p')"
  shows "\<exists>ps'. retain_pending f ps = Some ps' \<and> (\<forall>p \<in> set ps'. P p) \<and> length ps' \<le> length ps"
  using assms
proof (induction ps)
  case (Cons p ps)
  obtain ps' where "retain_pending f ps = Some ps'" "\<forall>p \<in> set ps'. P p" "length ps' \<le> length ps"
    using Cons.IH Cons.prems by auto
  moreover obtain kept where "f p = Some kept" "\<forall>p'. kept = Some p' \<longrightarrow> P p'"
    using Cons.prems [of p] by auto
  ultimately show ?case by (auto split: option.split)
qed simp

section \<open>Receiving\<close>

text \<open>Receiving only appends to the queue, counts, and moves the cursor within its range.\<close>

definition cursor_ok :: "'a list \<Rightarrow> nat \<Rightarrow> bool" where
  "cursor_ok xs index \<longleftrightarrow> (if xs = [] then index = 0 else index < length xs)"

definition recv_ext :: "shared_raw_context \<Rightarrow> shared_raw_context \<Rightarrow> nat \<Rightarrow> bool" where
  "recv_ext c c' n \<longleftrightarrow>
     (\<exists>new metrics index.
        c' = c\<lparr>sctx_pending_packets := sctx_pending_packets c @ new, sctx_metrics := metrics,
               sctx_next_capture_index := index\<rparr> \<and>
        length new = n \<and> (\<forall>p \<in> set new. pending_ok (shared_table_of c) p) \<and>
        (cursor_ok (sctx_capture_order c) (sctx_next_capture_index c) \<longrightarrow> cursor_ok (sctx_capture_order c) index))"

lemma recv_ext_refl: "recv_ext c c 0"
  unfolding recv_ext_def
  by (rule exI [of _ "[]"], rule exI [of _ "sctx_metrics c"], rule exI [of _ "sctx_next_capture_index c"]) simp

lemma recv_ext_same:
  "recv_ext c c' n \<Longrightarrow>
     sctx_subscriptions c' = sctx_subscriptions c \<and> sctx_captures c' = sctx_captures c \<and>
     sctx_capture_order c' = sctx_capture_order c \<and> sctx_limits c' = sctx_limits c \<and>
     sctx_resolved_capture_keys c' = sctx_resolved_capture_keys c \<and>
     sctx_next_subscription_id c' = sctx_next_subscription_id c \<and>
     length (sctx_pending_packets c') = length (sctx_pending_packets c) + n \<and>
     (cursor_ok (sctx_capture_order c) (sctx_next_capture_index c) \<longrightarrow>
        cursor_ok (sctx_capture_order c) (sctx_next_capture_index c'))"
  by (auto simp: recv_ext_def)

lemma recv_ext_trans:
  assumes "recv_ext c c1 n" and "recv_ext c1 c2 m"
  shows "recv_ext c c2 (n + m)"
proof -
  obtain new1 metrics1 index1 where 1: "c1 = c\<lparr>sctx_pending_packets := sctx_pending_packets c @ new1,
      sctx_metrics := metrics1, sctx_next_capture_index := index1\<rparr>" "length new1 = n"
    "\<forall>p \<in> set new1. pending_ok (shared_table_of c) p"
    "cursor_ok (sctx_capture_order c) (sctx_next_capture_index c) \<longrightarrow> cursor_ok (sctx_capture_order c) index1"
    using assms(1) unfolding recv_ext_def by blast
  obtain new2 metrics2 index2 where 2: "c2 = c1\<lparr>sctx_pending_packets := sctx_pending_packets c1 @ new2,
      sctx_metrics := metrics2, sctx_next_capture_index := index2\<rparr>" "length new2 = m"
    "\<forall>p \<in> set new2. pending_ok (shared_table_of c1) p"
    "cursor_ok (sctx_capture_order c1) (sctx_next_capture_index c1) \<longrightarrow> cursor_ok (sctx_capture_order c1) index2"
    using assms(2) unfolding recv_ext_def by blast
  show ?thesis
    unfolding recv_ext_def
    by (rule exI [of _ "new1 @ new2"], rule exI [of _ metrics2], rule exI [of _ index2]) (use 1 2 in auto)
qed

text \<open>
  A captured datagram is queued exactly when a subscription joined on the capture accepts it, and
  the queued packet names exactly those subscriptions.
\<close>

lemma queue_captured_ok:
  assumes cap: "capture_inv (joined_at (shared_table_of c) key) cap" and dg: "captured_for fam captured"
  shows "\<exists>matched c'. queue_captured cap captured c = Some (matched, c') \<and>
     recv_ext c c' (if matched then 1 else 0) \<and>
     {i. \<exists>s. shared_table_of c i = Some s \<and> shared_is_joined s \<and> ssub_capture_key s = key \<and>
        accepts_source (ssub_config s) (cd_group captured) (cd_source_ip captured)} =
       (if matched then set (matching_ids (last (sctx_pending_packets c'))) else {})"
proof -
  let ?S = "shared_table_of c" and ?g = "cd_group captured" and ?s = "cd_source_ip captured"
  let ?acc = "{i. \<exists>s. ?S i = Some s \<and> shared_is_joined s \<and> ssub_capture_key s = key \<and> accepts_source (ssub_config s) ?g ?s}"
  have acc: "{i. \<exists>cfg. joined_at ?S key i = Some cfg \<and> accepts_source cfg ?g ?s} = ?acc"
    by (auto simp: joined_at_Some)
  have "capture_ok (cap_demultiplexer cap)" "index_tracks capture_ids (cap_demultiplexer cap) (joined_at ?S key)"
    using cap by (simp_all add: capture_inv_def)
  note found = demux.tracks_matches [OF this, of ?g ?s, unfolded acc]
  show ?thesis
  proof (cases "capture_matches (cap_demultiplexer cap) ?g ?s")
    case None
    define c' where "c' = record_shared_unmatched (record_shared_received c)"
    have "recv_ext c c' 0"
      unfolding recv_ext_def c'_def record_shared_unmatched_def record_shared_received_def
      by (intro exI [of _ "[]"] exI conjI) (auto intro: shared_raw_context.equality)
    moreover have "queue_captured cap captured c = Some (False, c')"
      using None by (simp add: queue_captured_def Let_def c'_def)
    ultimately show ?thesis using found None by auto
  next
    case (Some m)
    then have m: "matching_ok m" "set (as_slice m) = ?acc" using found by simp_all
    define primary where "primary = hd (as_slice m)"
    have first: "first_id m = Some primary" "primary \<in> set (as_slice m)"
      using m(1) by (cases "as_slice m"; simp add: matching_ok_def first_id_def primary_def)+
    then obtain s where s: "?S primary = Some s" using m(2) by auto
    define p where "p = \<lparr>srp_packet = raw_packet_from_captured primary (ssub_config s) captured, srp_matching = m\<rparr>"
    define c' where "c' = push_pending p (record_demultiplex_matches (length (as_slice m)) (record_shared_received c))"
    have "datagram_from (srp_packet p) ?g ?s"
      using dg by (simp add: datagram_from_def p_def raw_packet_from_captured_def captured_for_def)
    moreover have "accepted_by ?S (matching_ids p) ?g ?s"
      using m(2) by (auto simp: accepted_by_def matching_ids_def p_def)
    moreover have "labelled_by ?S primary (srp_packet p)"
      using s by (simp add: labelled_by_def p_def raw_packet_from_captured_def)
    ultimately have ok: "pending_ok ?S p" using m(1) by (auto simp: pending_ok_def matching_ids_def p_def primary_def)
    have "recv_ext c c' 1"
      unfolding recv_ext_def c'_def push_pending_def record_demultiplex_matches_def record_shared_received_def
      by (intro exI [of _ "[p]"] exI conjI) (auto intro: shared_raw_context.equality simp: ok)
    moreover have "queue_captured cap captured c = Some (True, c')"
      using Some first(1) s
      by (simp add: queue_captured_def Let_def c'_def p_def record_demultiplex_matches_def record_shared_received_def)
    moreover have "matching_ids (last (sctx_pending_packets c')) = as_slice m"
      by (simp add: c'_def push_pending_def matching_ids_def p_def)
    ultimately show ?thesis using m(2) by auto
  qed
qed

lemma capture_of_key:
  "captures_inv S caps \<Longrightarrow> map_of caps key = Some cap \<Longrightarrow> capture_inv (joined_at S key) cap"
  unfolding captures_inv_def by (metis capture_entry.simps(2))

lemma fill_capture_ok:
  assumes acc: "accounts os opens" and "captures_inv (shared_table_of c) (sctx_captures c)"
    and "map_of (sctx_captures c) key = Some cap" and "q \<le> target" and "d \<le> budget"
  shows "\<exists>r q' d' c' k'. fill_capture os target budget key turns q d c k = Some (r, q', d', c', k') \<and>
     q \<le> q' \<and> q' \<le> target \<and> d' \<le> budget \<and> recv_ext c c' (q' - q) \<and>
     sctx_next_capture_index c' = sctx_next_capture_index c \<and> opens k' = opens k"
  using assms(2-)
proof (induction turns arbitrary: q d c k)
  case 0
  then show ?case by (simp add: recv_ext_refl)
next
  case (Suc turns)
  show ?case
  proof (cases "q = target \<or> d = budget")
    case True
    then show ?thesis using Suc.prems by (auto simp: recv_ext_refl)
  next
    case False
    obtain r k1 where recv: "recv_shared_raw_datagram os (cap_socket cap) key k = (r, k1)" by fastforce
    have kept: "opens k1 = opens k" by (rule keeps_run [OF keeps_recv_shared_raw_datagram [OF acc] recv])
    consider e where "r = Inl e" | "r = Inr None" | dg where "r = Inr (Some dg)"
      by (metis not_None_eq sum.exhaust)
    then show ?thesis
    proof cases
      case (3 dg)
      then have "captured_for (rk_family key) dg" using recv_shared_delivers recv by metis
      from queue_captured_ok [OF capture_of_key [OF Suc.prems(1,2)] this]
      obtain matched c1 where q: "queue_captured cap dg c = Some (matched, c1)"
        and ext: "recv_ext c c1 (if matched then 1 else 0)" by blast
      note same = recv_ext_same [OF ext]
      let ?q = "if matched then q + 1 else q"
      have index: "sctx_next_capture_index c1 = sctx_next_capture_index c"
        using q by (auto simp: queue_captured_def Let_def push_pending_def record_demultiplex_matches_def
            record_shared_received_def record_shared_unmatched_def split: option.splits bind_splits)
      have "?q \<le> target" "d + 1 \<le> budget" using False Suc.prems(3,4) by auto
      then obtain r' q' d' c' k' where rest:
        "fill_capture os target budget key turns ?q (d + 1) c1 k1 = Some (r', q', d', c', k')"
        "?q \<le> q'" "q' \<le> target" "d' \<le> budget" "recv_ext c1 c' (q' - ?q)"
        "sctx_next_capture_index c' = sctx_next_capture_index c1" "opens k' = opens k1"
        using Suc.IH [of c1 ?q "d + 1" k1] Suc.prems(1,2) same by (auto simp del: One_nat_def)
      have "(if matched then 1 else 0) + (q' - ?q) = q' - q" using rest(2) by auto
      then have "recv_ext c c' (q' - q)" using recv_ext_trans [OF ext rest(5)] by simp
      then show ?thesis using False Suc.prems(2) recv 3 q rest kept index by (auto split: if_splits)
    qed (use False Suc.prems recv kept in \<open>auto simp: recv_ext_refl\<close>)
  qed
qed

lemma fill_captures_ok:
  assumes acc: "accounts os opens" and "captures_inv (shared_table_of c) (sctx_captures c)"
    and "order_inv (sctx_captures c) (sctx_capture_order c) (sctx_next_capture_index c)"
    and "sctx_capture_order c \<noteq> []" and "count = length (sctx_capture_order c)"
    and "q \<le> target" and "d \<le> budget"
  shows "\<exists>r c' k' q'. fill_captures os target budget count turns q d c k = Some (r, c', k') \<and>
     q \<le> q' \<and> q' \<le> target \<and> recv_ext c c' (q' - q) \<and> (\<forall>n. r = Inr n \<longrightarrow> n = q') \<and> opens k' = opens k"
  using assms(2-)
proof (induction turns arbitrary: q d c k)
  case 0
  then show ?case by (auto simp: recv_ext_refl)
next
  case (Suc turns)
  let ?order = "sctx_capture_order c"
  let ?key = "?order ! sctx_next_capture_index c"
  have lt: "sctx_next_capture_index c < length ?order" using Suc.prems(2,3) by (simp add: order_inv_def)
  then have "?key \<in> dom (map_of (sctx_captures c))" using Suc.prems(2) by (auto simp: order_inv_def)
  then obtain cap where cap: "map_of (sctx_captures c) ?key = Some cap" by blast
  define c1 where "c1 = c\<lparr>sctx_next_capture_index := (sctx_next_capture_index c + 1) mod count\<rparr>"
  have c1: "sctx_subscriptions c1 = sctx_subscriptions c" "sctx_captures c1 = sctx_captures c"
    "sctx_capture_order c1 = ?order" "sctx_next_capture_index c1 < length ?order"
    using Suc.prems(3,4) by (simp_all add: c1_def)
  have ext1: "recv_ext c c1 0"
    unfolding recv_ext_def c1_def
    by (rule exI [of _ "[]"], rule exI [of _ "sctx_metrics c"],
        rule exI [of _ "(sctx_next_capture_index c + 1) mod count"])
       (use Suc.prems(3,4) in \<open>simp add: cursor_ok_def\<close>)
  have "captures_inv (shared_table_of c1) (sctx_captures c1)" "map_of (sctx_captures c1) ?key = Some cap"
    using Suc.prems(1) cap c1 by simp_all
  from fill_capture_ok [OF acc this Suc.prems(5,6), of target k]
  obtain r q1 d1 c2 k1 where one: "fill_capture os target budget ?key target q d c1 k = Some (r, q1, d1, c2, k1)"
    "q \<le> q1" "q1 \<le> target" "d1 \<le> budget" "recv_ext c1 c2 (q1 - q)"
    "sctx_next_capture_index c2 = sctx_next_capture_index c1" "opens k1 = opens k"
    by blast
  have ext2: "recv_ext c c2 (q1 - q)" using recv_ext_trans [OF ext1 one(5)] by simp
  note same = recv_ext_same [OF ext2]
  consider e where "r = Inl e" | "r = Inr True" | "r = Inr False" by (metis (full_types) sum.exhaust)
  then show ?case
  proof cases
    case 3
    have step: "fill_captures os target budget count (Suc turns) q d c k =
        fill_captures os target budget count turns q1 d1 c2 k1"
      using lt one(1) 3 by (simp add: Let_def c1_def)
    have "order_inv (sctx_captures c2) (sctx_capture_order c2) (sctx_next_capture_index c2)"
      using Suc.prems(2,3) same lt by (simp add: order_inv_def cursor_ok_def)
    then obtain r' c' k' q' where rest: "fill_captures os target budget count turns q1 d1 c2 k1 = Some (r', c', k')"
      "q1 \<le> q'" "q' \<le> target" "recv_ext c2 c' (q' - q1)" "\<forall>n. r' = Inr n \<longrightarrow> n = q'" "opens k' = opens k1"
      using Suc.IH [of c2 q1 d1 k1] Suc.prems(1,3,4) same one(3,4) by auto
    have "q1 - q + (q' - q1) = q' - q" using one(2) rest(2) by simp
    then have ext: "recv_ext c c' (q' - q)" using recv_ext_trans [OF ext2 rest(4)] by simp
    show ?thesis
      unfolding step
      by (rule exI [of _ r'], rule exI [of _ c'], rule exI [of _ k'], rule exI [of _ q'])
         (use rest one(2,7) ext in auto)
  qed (use lt one ext2 in \<open>auto simp: Let_def c1_def\<close>)
qed

text \<open>A fill queues as many packets as it reports, never beyond the limit of the queue.\<close>

lemma fill_pending_ok:
  assumes acc: "accounts os opens" and inv: "shared_inv c"
  shows "\<exists>r c' k' q. fill_pending os n c k = Some (r, c', k') \<and>
     q \<le> n \<and> length (sctx_pending_packets c) + q \<le> lim_max_pending_packets (sctx_limits c) \<and>
     recv_ext c c' q \<and> (\<forall>m. r = Inr m \<longrightarrow> m = q) \<and> opens k' = opens k"
proof -
  let ?target = "min n (lim_max_pending_packets (sctx_limits c) - length (sctx_pending_packets c))"
  have room: "length (sctx_pending_packets c) \<le> lim_max_pending_packets (sctx_limits c)"
    using inv by (simp add: shared_inv_def limits_inv_def)
  show ?thesis
  proof (cases "sctx_capture_order c = [] \<or> ?target = 0")
    case True
    then show ?thesis using room by (auto simp: fill_pending_def Let_def recv_ext_refl)
  next
    case False
    then have ne: "sctx_capture_order c \<noteq> []" by simp
    have "captures_inv (shared_table_of c) (sctx_captures c)"
      "order_inv (sctx_captures c) (sctx_capture_order c) (sctx_next_capture_index c)"
      using inv by (simp_all add: shared_inv_def)
    from fill_captures_ok [OF acc this ne refl le0 le0, where target = ?target and k = k
        and budget = "min (?target + length (sctx_capture_order c)) usize_MAX"
        and turns = "length (sctx_capture_order c)"]
    obtain r c' k' q where "fill_captures os ?target (min (?target + length (sctx_capture_order c)) usize_MAX)
        (length (sctx_capture_order c)) (length (sctx_capture_order c)) 0 0 c k = Some (r, c', k')"
      "q \<le> ?target" "recv_ext c c' (q - 0)" "\<forall>m. r = Inr m \<longrightarrow> m = q" "opens k' = opens k"
      by blast
    then show ?thesis using False room by (auto simp: fill_pending_def Let_def)
  qed
qed

section \<open>Descriptors\<close>

text \<open>The descriptors that the capture of each key holds.\<close>

definition held :: "shared_raw_context \<Rightarrow> raw_shared_capture_key \<Rightarrow> socket set" where
  "held c key =
     (case map_of (sctx_captures c) key of None \<Rightarrow> {} | Some cap \<Rightarrow> rr_sockets (cap_socket cap))"

definition owns :: "('k \<Rightarrow> socket set) \<Rightarrow> (raw_shared_capture_key \<Rightarrow> socket set) \<Rightarrow> 'k \<Rightarrow> bool" where
  "owns opens H k \<longleftrightarrow>
     (\<forall>key key'. key \<noteq> key' \<longrightarrow> H key \<inter> H key' = {}) \<and> \<Union> (range H) \<subseteq> opens k"

text \<open>A step that neither leaks a descriptor nor closes a foreign one.\<close>

definition transfers ::
  "('k \<Rightarrow> socket set) \<Rightarrow> (raw_shared_capture_key \<Rightarrow> socket set) \<Rightarrow> 'k \<Rightarrow>
   (raw_shared_capture_key \<Rightarrow> socket set) \<Rightarrow> 'k \<Rightarrow> bool" where
  "transfers opens H k H' k' \<longleftrightarrow> owns opens H' k' \<and> opens k' - \<Union> (range H') = opens k - \<Union> (range H)"

lemma transfers_same: "owns opens H k \<Longrightarrow> opens k' = opens k \<Longrightarrow> transfers opens H k H k'"
  by (simp add: transfers_def owns_def)

lemma transfers_acquire:
  assumes "owns opens H k" and "H key = {}" and "X \<inter> opens k = {}" and "opens k' = X \<union> opens k"
  shows "transfers opens H k (H(key := X)) k'"
proof -
  have range: "\<Union> (range (H(key := X))) = X \<union> \<Union> (range H)" using assms(2) by (fastforce split: if_splits)
  have "X \<inter> H key' = {}" for key' using assms(1,3) unfolding owns_def by blast
  then have "owns opens (H(key := X)) k'"
    using assms(1,4) unfolding owns_def range by (auto simp: Int_commute)
  then show ?thesis using assms(1,3,4) unfolding transfers_def range owns_def by auto
qed

lemma transfers_release:
  assumes "owns opens H k" and "opens k' = opens k - H key"
  shows "transfers opens H k (H(key := {})) k'"
proof -
  have range: "\<Union> (range (H(key := {}))) = \<Union> (range H) - H key"
    using assms(1) unfolding owns_def by (fastforce split: if_splits)
  show ?thesis using assms unfolding transfers_def owns_def range by (auto split: if_splits)
qed

lemma transfers_trans:
  "transfers opens H k H1 k1 \<Longrightarrow> transfers opens H1 k1 H2 k2 \<Longrightarrow> transfers opens H k H2 k2"
  by (simp add: transfers_def)

lemma transfers_owns: "transfers opens H k H' k' \<Longrightarrow> owns opens H' k'"
  by (simp add: transfers_def)

lemma acquires_open_shared_raw_socket:
  "accounts os opens \<Longrightarrow> acquires opens rr_sockets (open_shared_raw_socket os key)"
  unfolding open_shared_raw_socket_def
  by (intro acquires_if acquires_with_membership acquires_linux_packet_socket acquires_throw)

section \<open>Joining\<close>

lemma hm_length: "hm_ok m \<Longrightarrow> length m = card (dom (map_of m))"
  by (metis distinct_card dom_map_of_conv_image_fst hm_ok_def length_map list.set_map)

lemma finite_table: "finite (dom (map_of m))"
  by (rule finite_dom_map_of)

lemma keys_inv_state:
  assumes "S i = Some s" and "keys_inv S keys"
  shows "keys_inv (S(i \<mapsto> s\<lparr>ssub_state := st\<rparr>)) keys"
proof -
  have "users (S(i \<mapsto> s\<lparr>ssub_state := st\<rparr>)) sel = users S sel" for sel
    using assms(1) by (auto simp: users_def)
  moreover have "resolved_exact (S(i \<mapsto> s\<lparr>ssub_state := st\<rparr>)) sel e"
    if "resolved_exact S sel e" and "users (S(i \<mapsto> s\<lparr>ssub_state := st\<rparr>)) sel = users S sel" for sel e
    using that assms(1) by (cases e) auto
  ultimately show ?thesis using assms(2) by (simp add: keys_inv_def)
qed

lemma subs_inv_state:
  "S i = Some s \<Longrightarrow> subs_inv S n \<Longrightarrow> subs_inv (S(i \<mapsto> s\<lparr>ssub_state := st\<rparr>)) n"
  by (auto simp: subs_inv_def)

lemma captures_inv_update:
  assumes "captures_inv S caps" and "hm_ok caps'"
    and "\<And>k. k \<noteq> changed \<Longrightarrow> map_of caps' k = map_of caps k \<and> joined_at S' k = joined_at S k"
    and "capture_entry (joined_at S' changed) (map_of caps' changed)"
  shows "captures_inv S' caps'"
  using assms unfolding captures_inv_def by metis

lemma captures_needed_update:
  assumes "captures_needed S caps"
    and "\<And>k. k \<noteq> changed \<Longrightarrow> map_of caps' k = map_of caps k \<and> joined_at S' k = joined_at S k"
    and "map_of caps' changed \<noteq> None \<Longrightarrow> joined_at S' changed \<noteq> Map.empty"
  shows "captures_needed S' caps'"
  using assms unfolding captures_needed_def by metis

text \<open>The effect of the last steps of a join, once the capture is there.\<close>

lemma join_state_ok:
  assumes inv: "shared_inv c" and s: "shared_table_of c i = Some s" and no: "\<not> shared_is_joined s"
    and c1: "c1 = c\<lparr>sctx_captures := caps, sctx_capture_order := keys_order\<rparr>"
    and hm: "hm_ok caps" and ord: "order_inv caps keys_order (sctx_next_capture_index c)"
    and cap: "map_of caps (ssub_capture_key s) = Some cap"
      "capture_inv (joined_at (shared_table_of c) (ssub_capture_key s)) cap"
    and others: "\<And>key. key \<noteq> ssub_capture_key s \<Longrightarrow> map_of caps key = map_of (sctx_captures c) key"
  shows "\<exists>c2. shared_set_state i Joined
       (c1\<lparr>sctx_captures := hm_insert (ssub_capture_key s)
           (capture_add_membership i (ssub_config s) cap) caps\<rparr>) = Some c2 \<and>
     shared_inv c2 \<and> held c2 = held c1"
proof -
  let ?S = "shared_table_of c" and ?key = "ssub_capture_key s"
  let ?S' = "?S(i \<mapsto> s\<lparr>ssub_state := Joined\<rparr>)"
  let ?caps = "hm_insert ?key (capture_add_membership i (ssub_config s) cap) caps"
  define c2 where "c2 = c1\<lparr>sctx_captures := ?caps,
    sctx_subscriptions := hm_insert i (s\<lparr>ssub_state := Joined\<rparr>) (sctx_subscriptions c)\<rparr>"
  have joined: "joined_at ?S' key = (if key = ?key then (joined_at ?S key)(i \<mapsto> ssub_config s) else joined_at ?S key)" for key
    using s no by (rule joined_at_join)
  have free: "joined_at ?S ?key i = None" using s no by (simp add: joined_at_def)
  have table: "shared_table_of c2 = ?S'" by (simp add: c2_def hm_simps)
  have "captures_inv ?S (sctx_captures c)" "captures_needed ?S (sctx_captures c)"
    using inv by (simp_all add: shared_inv_def)
  note old = this
  have added: "capture_inv (joined_at ?S' ?key) (capture_add_membership i (ssub_config s) cap)"
    using capture_inv_add [OF finite_joined_at [OF finite_table] cap(2) free] joined [of ?key] by simp
  have same: "map_of ?caps k = map_of (sctx_captures c) k \<and> joined_at ?S' k = joined_at ?S k"
    if "k \<noteq> ?key" for k
    using others [OF that] joined [of k] that by (simp add: hm_simps)
  have "map_of ?caps ?key = Some (capture_add_membership i (ssub_config s) cap)"
    by (simp add: hm_insert)
  then have "capture_entry (joined_at ?S' ?key) (map_of ?caps ?key)" using added by simp
  moreover have "hm_ok ?caps" using hm by (simp add: hm_simps)
  ultimately have "captures_inv ?S' ?caps" by (intro captures_inv_update [OF old(1) _ same])
  moreover have "joined_at ?S' ?key i = Some (ssub_config s)" by (simp add: joined_at_def shared_is_joined_def)
  then have "joined_at ?S' ?key \<noteq> Map.empty" by auto
  then have "captures_needed ?S' ?caps" by (intro captures_needed_update [OF old(2) same])
  ultimately have caps: "captures_inv ?S' ?caps" "captures_needed ?S' ?caps" .
  have "order_inv ?caps keys_order (sctx_next_capture_index c)"
    using ord cap(1) by (auto simp: order_inv_def hm_simps)
  moreover have "\<forall>p \<in> set (sctx_pending_packets c). pending_ok ?S' p"
  proof
    fix p assume "p \<in> set (sctx_pending_packets c)"
    then have ok: "pending_ok ?S p" using inv by (simp add: shared_inv_def)
    then show "pending_ok ?S' p"
      by (rule pending_ok_keep) (use s no in auto)
  qed
  moreover have "hm_ok (sctx_subscriptions c2)" "length (sctx_subscriptions c2) = length (sctx_subscriptions c)"
  proof -
    show hm2: "hm_ok (sctx_subscriptions c2)" using inv by (simp add: c2_def shared_inv_def hm_simps)
    have "dom ?S' = dom ?S" using s by auto
    then show "length (sctx_subscriptions c2) = length (sctx_subscriptions c)"
      using inv hm_length [OF hm2] hm_length [of "sctx_subscriptions c"] table by (simp add: shared_inv_def)
  qed
  ultimately have "shared_inv c2"
    using inv caps keys_inv_state [where S = ?S and i = i and s = s] s subs_inv_state [where S = ?S and i = i and s = s]
    unfolding shared_inv_def table by (simp add: c2_def c1)
  moreover have "held c2 = held c1"
    using cap(1) by (auto simp: held_def c2_def c1 hm_simps capture_add_membership_def Let_def fun_eq_iff)
  moreover have "shared_set_state i Joined (c1\<lparr>sctx_captures := ?caps\<rparr>) = Some c2"
    using s by (simp add: shared_set_state_def c2_def c1)
  ultimately show ?thesis by blast
qed

lemma keeps_join_kernel_membership:
  "accounts os opens \<Longrightarrow> keeps opens (join_kernel_membership os cap cfg)"
  unfolding join_kernel_membership_def by (auto intro!: keeps_intros)

text \<open>Rolling back a capture that was opened for a join that failed.\<close>

lemma rollback_ok:
  assumes inv: "shared_inv c" and new: "map_of (sctx_captures c) key = None"
    and c1: "c1 = c\<lparr>sctx_captures := hm_insert key cap (sctx_captures c), sctx_capture_order := keys_order\<rparr>"
    and ord: "order_inv (sctx_captures c1) keys_order (sctx_next_capture_index c)"
  shows "\<exists>c2. remove_capture os key c1 k = Some (c2, drop_raw_socket os (cap_socket cap) k) \<and>
     shared_inv c2 \<and> held c2 = (held c1)(key := {})"
proof -
  have caps: "captures_inv (shared_table_of c) (sctx_captures c)"
    "captures_needed (shared_table_of c) (sctx_captures c)" using inv by (simp_all add: shared_inv_def)
  have hm: "hm_ok (sctx_captures c1)" using caps(1) by (simp add: c1 captures_inv_def hm_simps)
  have cap: "map_of (sctx_captures c1) key = Some cap" by (simp add: c1 hm_simps)
  have "order_inv (sctx_captures c1) (sctx_capture_order c1) (sctx_next_capture_index c1)"
    using ord by (simp add: c1)
  from remove_capture_ok [OF this hm cap, of os k]
  obtain c2 keys_order' index where run: "remove_capture os key c1 k = Some (c2, drop_raw_socket os (cap_socket cap) k)"
    and c2: "c2 = c1\<lparr>sctx_captures := hm_remove key (sctx_captures c1), sctx_capture_order := keys_order',
      sctx_next_capture_index := index\<rparr>" and ord2: "order_inv (sctx_captures c2) keys_order' index"
    by blast
  have same: "map_of (sctx_captures c2) = map_of (sctx_captures c)"
    using new by (auto simp: c2 c1 hm_simps)
  have "hm_ok (sctx_captures c2)" using hm by (simp add: c2 hm_simps)
  then have "captures_inv (shared_table_of c) (sctx_captures c2)" "captures_needed (shared_table_of c) (sctx_captures c2)"
    using caps by (simp_all add: captures_inv_def captures_needed_def same)
  then have "shared_inv c2" using inv ord2 by (simp add: shared_inv_def c2 c1)
  moreover have "held c2 = (held c1)(key := {})" by (auto simp: held_def c2 hm_simps fun_eq_iff)
  ultimately show ?thesis using run by blast
qed

text \<open>Joining on a capture that is already open, and on one that the join opens.\<close>

lemma join_existing_ok:
  assumes acc: "accounts os opens" and inv: "shared_inv c" and owns: "owns opens (held c) k"
    and s: "shared_table_of c i = Some s" "\<not> shared_is_joined s"
    and cap: "map_of (sctx_captures c) (ssub_capture_key s) = Some cap"
      "capture_inv (joined_at (shared_table_of c) (ssub_capture_key s)) cap"
  shows "\<exists>r c' k'. shared_join_subscription os c i k = Some (r, c', k') \<and>
     shared_inv c' \<and> transfers opens (held c) k (held c') k'"
proof -
  let ?key = "ssub_capture_key s" and ?cfg = "ssub_config s"
  have ord: "order_inv (sctx_captures c) (sctx_capture_order c) (sctx_next_capture_index c)"
    and hm: "hm_ok (sctx_captures c)" using inv by (simp_all add: shared_inv_def captures_inv_def)
  obtain r k' where kernel: "join_kernel_membership os cap ?cfg k = (r, k')" by fastforce
  note kept = transfers_same [OF owns keeps_run [OF keeps_join_kernel_membership [OF acc] kernel]]
  obtain c' where c': "shared_set_state i Joined
      (c\<lparr>sctx_captures := hm_insert ?key (capture_add_membership i ?cfg cap) (sctx_captures c)\<rparr>) = Some c'"
    "shared_inv c'" "held c' = held c"
    using join_state_ok [OF inv s _ hm ord cap, of c] by auto
  have "ensure_capture os ?key c k = (Inr False, c, k)" using cap(1) by (simp add: ensure_capture_def)
  then show ?thesis
    using s cap(1) kernel kept c' inv by (cases r) (auto simp: shared_join_subscription_def)
qed

lemma join_opened_ok:
  assumes acc: "accounts os opens" and inv: "shared_inv c" and owns: "owns opens (held c) k"
    and s: "shared_table_of c i = Some s" "\<not> shared_is_joined s"
    and ensure: "ensure_capture os (ssub_capture_key s) c k = (Inr True, c1, k1)"
    and none: "map_of (sctx_captures c) (ssub_capture_key s) = None"
    and opened: "open_shared_raw_socket os (ssub_capture_key s) k = (Inr rr, k1)"
    and c1: "c1 = c\<lparr>sctx_captures := hm_insert (ssub_capture_key s) (shared_capture_new rr) (sctx_captures c),
       sctx_capture_order := keys_order\<rparr>"
    and ord: "order_inv (sctx_captures c1) keys_order (sctx_next_capture_index c)"
    and cap: "capture_inv (joined_at (shared_table_of c) (ssub_capture_key s)) (shared_capture_new rr)"
  shows "\<exists>r c' k'. shared_join_subscription os c i k = Some (r, c', k') \<and>
     shared_inv c' \<and> transfers opens (held c) k (held c') k'"
proof -
  let ?key = "ssub_capture_key s" and ?cfg = "ssub_config s" and ?cap = "shared_capture_new rr"
  have found: "map_of (sctx_captures c1) ?key = Some ?cap" by (simp add: c1 hm_simps)
  have held1: "held c1 = (held c)(?key := rr_sockets rr)"
    by (auto simp: held_def c1 hm_simps shared_capture_new_def fun_eq_iff)
  have "held c ?key = {}" using none by (simp add: held_def)
  from transfers_acquire [OF owns this, of "rr_sockets rr" k1]
  have got1: "transfers opens (held c) k (held c1) k1"
    using acquires_Inr [OF acquires_open_shared_raw_socket [OF acc] opened] held1 by simp
  obtain r k2 where kernel: "join_kernel_membership os ?cap ?cfg k1 = (r, k2)" by fastforce
  note kept = keeps_run [OF keeps_join_kernel_membership [OF acc] kernel]
  have got2: "transfers opens (held c) k (held c1) k2"
    using transfers_trans [OF got1 transfers_same [OF transfers_owns [OF got1] kept]] .
  show ?thesis
  proof (cases r)
    case (Inl e)
    obtain c2 where c2: "remove_capture os ?key c1 k2 = Some (c2, drop_raw_socket os rr k2)"
      "shared_inv c2" "held c2 = (held c1)(?key := {})"
      using rollback_ok [OF inv none c1 ord, of os k2] by (auto simp: shared_capture_new_def)
    have "opens (drop_raw_socket os rr k2) = opens k2 - held c1 ?key"
      by (simp add: opens_drop_raw_socket [OF acc] held1)
    then have "transfers opens (held c) k (held c2) (drop_raw_socket os rr k2)"
      unfolding c2(3) by (rule transfers_trans [OF got2 transfers_release [OF transfers_owns [OF got2]]])
    then show ?thesis using s ensure found kernel Inl c2 by (simp add: shared_join_subscription_def)
  next
    case (Inr u)
    have "hm_ok (sctx_captures c1)" using inv by (simp add: c1 shared_inv_def captures_inv_def hm_simps)
    then obtain c2 where "shared_set_state i Joined
        (c1\<lparr>sctx_captures := hm_insert ?key (capture_add_membership i ?cfg ?cap) (sctx_captures c1)\<rparr>) = Some c2"
      "shared_inv c2" "held c2 = held c1"
      using join_state_ok [OF inv s c1 _ _ _ cap] ord found by (auto simp: c1 hm_simps)
    then show ?thesis using s ensure found kernel Inr got2 by (simp add: shared_join_subscription_def)
  qed
qed

lemma shared_join_ok:
  assumes acc: "accounts os opens" and inv: "shared_inv c" and owns: "owns opens (held c) k"
  shows "\<exists>r c' k'. shared_join_subscription os c i k = Some (r, c', k') \<and>
     shared_inv c' \<and> transfers opens (held c) k (held c') k'"
proof (cases "\<exists>s. shared_table_of c i = Some s \<and> \<not> shared_is_joined s")
  case False
  then show ?thesis using inv transfers_same [OF owns]
    by (auto simp: shared_join_subscription_def split: option.split)
next
  case True
  then obtain s where s: "shared_table_of c i = Some s" "\<not> shared_is_joined s" by blast
  have ord: "order_inv (sctx_captures c) (sctx_capture_order c) (sctx_next_capture_index c)"
    and caps: "captures_inv (shared_table_of c) (sctx_captures c)" using inv by (simp_all add: shared_inv_def)
  obtain r c1 k1 where ensure: "ensure_capture os (ssub_capture_key s) c k = (r, c1, k1)" by (metis prod_cases3)
  show ?thesis
  proof (cases r)
    case (Inl e)
    then have "c1 = c" "opens k1 = opens k"
      using ensure acquires_Inl [OF acquires_open_shared_raw_socket [OF acc]]
      by (auto simp: ensure_capture_def split: option.splits prod.splits sum.splits)
    then show ?thesis using s ensure Inl inv transfers_same [OF owns]
      by (simp add: shared_join_subscription_def)
  next
    case (Inr created)
    show ?thesis using ord caps ensure [unfolded Inr]
    proof (cases rule: ensure_capture_ok)
      case (existing cap)
      then show ?thesis by (intro join_existing_ok [OF acc inv owns s])
    next
      case (opened rr keys_order)
      show ?thesis
        by (rule join_opened_ok [OF acc inv owns s _ opened(2,3,4,5,7)]) (use ensure Inr opened(1) in simp)
    qed
  qed
qed

section \<open>Leaving\<close>

lemma leave_state_ok:
  assumes inv: "shared_inv c" and s: "shared_table_of c i = Some s" and joined: "shared_is_joined s"
  defines "subs \<equiv> hm_insert i (s\<lparr>ssub_state := Bound\<rparr>) (sctx_subscriptions c)"
  shows "\<exists>ps. Option.bind (shared_set_state i Bound (c\<lparr>sctx_captures := caps\<rparr>)) (remove_pending_membership i) =
       Some (c\<lparr>sctx_captures := caps, sctx_subscriptions := subs, sctx_pending_packets := ps\<rparr>) \<and>
     (\<forall>caps' keys_order index. captures_inv (map_of subs) caps' \<longrightarrow> captures_needed (map_of subs) caps' \<longrightarrow>
        order_inv caps' keys_order index \<longrightarrow>
        shared_inv (c\<lparr>sctx_subscriptions := subs, sctx_pending_packets := ps, sctx_captures := caps',
          sctx_capture_order := keys_order, sctx_next_capture_index := index\<rparr>))"
proof -
  let ?S = "shared_table_of c"
  have table: "map_of subs = ?S(i \<mapsto> s\<lparr>ssub_state := Bound\<rparr>)" by (simp add: subs_def hm_simps)
  have hm: "hm_ok subs" using inv by (simp add: subs_def shared_inv_def hm_simps)
  have "dom (map_of subs) = dom ?S" using s by (auto simp: table)
  then have length: "length subs = length (sctx_subscriptions c)"
    using inv hm_length [OF hm] hm_length [of "sctx_subscriptions c"] by (simp add: shared_inv_def)
  obtain ps where ps: "retain_pending (drop_pending_membership subs i) (sctx_pending_packets c) = Some ps"
    "\<forall>p \<in> set ps. pending_ok (map_of subs) p" "length ps \<le> length (sctx_pending_packets c)"
  proof -
    have "\<exists>kept. drop_pending_membership subs i p = Some kept \<and>
       (\<forall>p'. kept = Some p' \<longrightarrow> pending_ok (map_of subs) p')" if "p \<in> set (sctx_pending_packets c)" for p
      by (rule drop_pending_membership_ok [where S = ?S])
         (use that inv in \<open>auto simp: shared_inv_def table\<close>)
    note kept = this
    have "\<exists>ps. retain_pending (drop_pending_membership subs i) (sctx_pending_packets c) = Some ps \<and>
       (\<forall>p \<in> set ps. pending_ok (map_of subs) p) \<and> length ps \<le> length (sctx_pending_packets c)"
      by (rule retain_pending_ok) (rule kept)
    then show thesis using that by blast
  qed
  have "keys_inv (map_of subs) (sctx_resolved_capture_keys c)"
    "subs_inv (map_of subs) (sctx_next_subscription_id c)"
    using inv keys_inv_state [where S = ?S and i = i and s = s] s subs_inv_state [where S = ?S and i = i and s = s]
    by (simp_all add: table shared_inv_def)
  then have "shared_inv (c\<lparr>sctx_subscriptions := subs, sctx_pending_packets := ps, sctx_captures := caps',
      sctx_capture_order := keys_order, sctx_next_capture_index := index\<rparr>)"
    if "captures_inv (map_of subs) caps'" "captures_needed (map_of subs) caps'" "order_inv caps' keys_order index"
    for caps' keys_order index
    using that inv ps hm length by (simp add: shared_inv_def limits_inv_def)
  moreover have "Option.bind (shared_set_state i Bound (c\<lparr>sctx_captures := caps\<rparr>)) (remove_pending_membership i) =
      Some (c\<lparr>sctx_captures := caps, sctx_subscriptions := subs, sctx_pending_packets := ps\<rparr>)"
    using s ps(1) by (simp add: shared_set_state_def remove_pending_membership_def subs_def)
  ultimately show ?thesis by blast
qed

lemma capture_drop_keeps:
  assumes acc: "accounts os opens" and run: "capture_drop_membership os i cfg cap k = Some (r, k')"
  shows "opens k' = opens k"
  using run
  by (auto dest!: keeps_run [OF keeps_raw_membership(2) [OF acc]] simp: capture_drop_membership_def drop_kernel_membership_def Let_def
      split: option.splits prod.splits sum.splits if_splits)

text \<open>The captures after a leave: without the subscription, and without a capture that nobody uses.\<close>

lemma left_captures:
  assumes caps: "captures_inv S caps" "captures_needed S caps"
    and here: "joined_at S' key = (joined_at S key)(i := None)" "finite (dom (joined_at S' key))"
    and others: "\<forall>key'. key' \<noteq> key \<longrightarrow> joined_at S' key' = joined_at S key'"
    and cap': "capture_inv ((joined_at S key)(i := None)) cap'"
  shows "cap_memberships cap' \<noteq> 0 \<Longrightarrow>
      captures_inv S' (hm_insert key cap' caps) \<and> captures_needed S' (hm_insert key cap' caps)"
    and "cap_memberships cap' = 0 \<Longrightarrow>
      captures_inv S' (hm_remove key (hm_insert key cap' caps)) \<and>
      captures_needed S' (hm_remove key (hm_insert key cap' caps))"
proof -
  let ?in = "hm_insert key cap' caps" and ?out = "hm_remove key (hm_insert key cap' caps)"
  have hm: "hm_ok ?in" "hm_ok ?out" using caps(1) by (simp_all add: captures_inv_def hm_simps)
  have n: "cap_memberships cap' = card (dom (joined_at S' key))" using cap' by (simp add: capture_inv_def here(1))
  have same: "map_of ?in k = map_of caps k \<and> joined_at S' k = joined_at S k"
    "map_of ?out k = map_of caps k \<and> joined_at S' k = joined_at S k" if "k \<noteq> key" for k
    using that others by (simp_all add: hm_simps)
  show "captures_inv S' ?in \<and> captures_needed S' ?in" if "cap_memberships cap' \<noteq> 0"
  proof -
    have "joined_at S' key \<noteq> Map.empty" using that n by auto
    moreover have "capture_entry (joined_at S' key) (map_of ?in key)" using cap' by (simp add: hm_insert here(1))
    ultimately show ?thesis
      using captures_inv_update [OF caps(1) hm(1) same(1)] captures_needed_update [OF caps(2) same(1)] by blast
  qed
  show "captures_inv S' ?out \<and> captures_needed S' ?out" if "cap_memberships cap' = 0"
  proof -
    have "joined_at S' key = Map.empty" using that n here(2) by simp
    moreover have "map_of ?out key = None" by (simp add: hm_simps)
    ultimately have "capture_entry (joined_at S' key) (map_of ?out key)" "map_of ?out key = None" by simp_all
    then show ?thesis
      using captures_inv_update [OF caps(1) hm(2) same(2)] captures_needed_update [OF caps(2) same(2)] by blast
  qed
qed

text \<open>The rest of a leave, once the membership has been dropped from the capture.\<close>

lemma leave_dropped_ok:
  assumes acc: "accounts os opens" and inv: "shared_inv c" and owns: "owns opens (held c) k"
    and s: "shared_table_of c i = Some s" "shared_is_joined s"
    and cap: "map_of (sctx_captures c) (ssub_capture_key s) = Some cap"
    and run: "capture_drop_membership os i (ssub_config s) cap k = Some (Inr cap', k1)"
    and cap': "capture_inv ((joined_at (shared_table_of c) (ssub_capture_key s))(i := None)) cap'"
      "cap_socket cap' = cap_socket cap"
  shows "\<exists>c' k'. shared_leave_subscription os c i k = Some (Inr (), c', k') \<and> shared_inv c' \<and>
     transfers opens (held c) k (held c') k' \<and>
     shared_table_of c' = (shared_table_of c)(i \<mapsto> s\<lparr>ssub_state := Bound\<rparr>)"
proof -
  let ?S = "shared_table_of c" and ?key = "ssub_capture_key s"
  define subs where "subs = hm_insert i (s\<lparr>ssub_state := Bound\<rparr>) (sctx_subscriptions c)"
  have table: "map_of subs = ?S(i \<mapsto> s\<lparr>ssub_state := Bound\<rparr>)" by (simp add: subs_def hm_simps)
  have ord: "order_inv (sctx_captures c) (sctx_capture_order c) (sctx_next_capture_index c)"
    and caps: "captures_inv ?S (sctx_captures c)" "captures_needed ?S (sctx_captures c)"
    and hm: "hm_ok (sctx_captures c)"
    using inv by (simp_all add: shared_inv_def captures_inv_def)
  have here: "joined_at (map_of subs) ?key = (joined_at ?S ?key)(i := None)"
    and others: "\<forall>key. key \<noteq> ?key \<longrightarrow> joined_at (map_of subs) key = joined_at ?S key"
    using joined_at_leave [of ?S i s] s by (simp_all add: table)
  let ?caps = "hm_insert ?key cap' (sctx_captures c)"
  let ?out = "hm_remove ?key ?caps"
  note left = left_captures [OF caps here finite_joined_at [OF finite_table] others cap'(1)]
  obtain ps where bind: "Option.bind (shared_set_state i Bound (c\<lparr>sctx_captures := ?caps\<rparr>)) (remove_pending_membership i) =
       Some (c\<lparr>sctx_captures := ?caps, sctx_subscriptions := subs, sctx_pending_packets := ps\<rparr>)"
    and assemble: "\<And>caps' keys_order index. captures_inv (map_of subs) caps' \<Longrightarrow>
      captures_needed (map_of subs) caps' \<Longrightarrow> order_inv caps' keys_order index \<Longrightarrow>
      shared_inv (c\<lparr>sctx_subscriptions := subs, sctx_pending_packets := ps, sctx_captures := caps',
        sctx_capture_order := keys_order, sctx_next_capture_index := index\<rparr>)"
    using leave_state_ok [OF inv s, of ?caps, folded subs_def] by blast
  define c2 where "c2 = c\<lparr>sctx_captures := ?caps, sctx_subscriptions := subs, sctx_pending_packets := ps\<rparr>"
  have bind2: "Option.bind (shared_set_state i Bound (c\<lparr>sctx_captures := ?caps\<rparr>))
      (\<lambda>c1. Option.bind (remove_pending_membership i c1) f) = f c2" for f
    using bind by (auto simp: c2_def bind_eq_Some_conv)
  have ord2: "order_inv ?caps (sctx_capture_order c) (sctx_next_capture_index c)"
    using ord cap by (auto simp: order_inv_def hm_simps)
  have held2: "held c2 = held c" using cap cap'(2) by (auto simp: held_def c2_def hm_simps fun_eq_iff)
  have kept: "opens k1 = opens k" by (rule capture_drop_keeps [OF acc run])
  show ?thesis
  proof (cases "cap_memberships cap' = 0")
    case False
    have "c\<lparr>sctx_subscriptions := subs, sctx_pending_packets := ps, sctx_captures := ?caps,
        sctx_capture_order := sctx_capture_order c, sctx_next_capture_index := sctx_next_capture_index c\<rparr> = c2"
      by (rule shared_raw_context.equality) (simp_all add: c2_def)
    then have "shared_inv c2" using assemble [OF _ _ ord2] left(1) [OF False] by metis
    moreover have "transfers opens (held c) k (held c2) k1" unfolding held2 by (rule transfers_same [OF owns kept])
    moreover have "shared_leave_subscription os c i k = Some (Inr (), c2, k1)"
      using s cap run False by (simp add: shared_leave_subscription_def bind2)
    ultimately show ?thesis by (auto simp: c2_def table)
  next
    case True
    let ?k = "drop_raw_socket os (cap_socket cap') k1"
    have "order_inv (sctx_captures c2) (sctx_capture_order c2) (sctx_next_capture_index c2)"
      "hm_ok (sctx_captures c2)" "map_of (sctx_captures c2) ?key = Some cap'"
      using ord2 hm by (simp_all add: c2_def hm_simps)
    from remove_capture_ok [OF this, of os k1]
    obtain c3 keys_order index where rem: "remove_capture os ?key c2 k1 = Some (c3, ?k)"
      and c3: "c3 = c2\<lparr>sctx_captures := ?out, sctx_capture_order := keys_order, sctx_next_capture_index := index\<rparr>"
      and ord3: "order_inv (sctx_captures c3) keys_order index"
      by (auto simp: c2_def)
    have "shared_inv c3" using assemble [of ?out keys_order index] left(2) [OF True] ord3 by (simp add: c3 c2_def)
    moreover have held3: "held c3 = (held c)(?key := {})"
      unfolding held2 [symmetric] by (auto simp: held_def c3 c2_def hm_simps fun_eq_iff)
    have "opens ?k = opens k - held c ?key"
      using cap cap'(2) kept by (simp add: opens_drop_raw_socket [OF acc] held_def)
    then have "transfers opens (held c) k (held c3) ?k" unfolding held3 by (rule transfers_release [OF owns])
    moreover have "shared_leave_subscription os c i k = Some (Inr (), c3, ?k)"
      using s cap run True rem by (simp add: shared_leave_subscription_def bind2)
    ultimately show ?thesis by (auto simp: c3 c2_def table)
  qed
qed

lemma shared_leave_ok:
  assumes acc: "accounts os opens" and inv: "shared_inv c" and owns: "owns opens (held c) k"
  shows "\<exists>r c' k'. shared_leave_subscription os c i k = Some (r, c', k') \<and>
     shared_inv c' \<and> transfers opens (held c) k (held c') k' \<and>
     (\<forall>u. r = Inr u \<longrightarrow> (\<exists>s. shared_table_of c i = Some s \<and>
        shared_table_of c' = (shared_table_of c)(i \<mapsto> s\<lparr>ssub_state := Bound\<rparr>)))"
proof (cases "\<exists>s. shared_table_of c i = Some s \<and> shared_is_joined s")
  case False
  then show ?thesis using inv transfers_same [OF owns]
    by (auto simp: shared_leave_subscription_def split: option.split)
next
  case True
  then obtain s where s: "shared_table_of c i = Some s" "shared_is_joined s" by blast
  let ?S = "shared_table_of c" and ?key = "ssub_capture_key s" and ?cfg = "ssub_config s"
  have caps: "captures_inv ?S (sctx_captures c)" using inv by (simp add: shared_inv_def)
  have J: "joined_at ?S ?key i = Some ?cfg" using s by (simp add: joined_at_def)
  then obtain cap where cap: "map_of (sctx_captures c) ?key = Some cap"
    using caps unfolding captures_inv_def by (metis capture_entry.simps(1) not_None_eq)
  note drop = capture_drop_membership_ok [OF finite_joined_at [OF finite_table] capture_of_key [OF caps cap] J]
  show ?thesis
  proof (rule drop [of os k])
    fix e k' assume run: "capture_drop_membership os i ?cfg cap k = Some (Inl e, k')"
    then show ?thesis
      using s cap inv transfers_same [OF owns capture_drop_keeps [OF acc run]]
      by (simp add: shared_leave_subscription_def)
  next
    fix cap' k' assume "capture_drop_membership os i ?cfg cap k = Some (Inr cap', k')"
      "capture_inv ((joined_at ?S ?key)(i := None)) cap'" "cap_socket cap' = cap_socket cap"
    from leave_dropped_ok [OF acc inv owns s cap this] s(1) show ?thesis by blast
  qed
qed

section \<open>Adding and removing\<close>

lemma keeps_shared_raw_capture_key:
  "accounts os opens \<Longrightarrow> keeps opens (shared_raw_capture_key os cfg)"
  unfolding shared_raw_capture_key_def by (auto intro!: keeps_intros)

lemma resolve_capture_key_frame:
  assumes acc: "accounts os opens" and run: "resolve_capture_key os cfg c k = (r, c', k')"
  shows "opens k' = opens k \<and> (\<forall>e. r = Inl e \<longrightarrow> c' = c)"
  using run
  by (auto dest!: keeps_run [OF keeps_shared_raw_capture_key [OF acc]]
      simp: resolve_capture_key_def Let_def split: option.splits prod.splits sum.splits)

lemma fresh_id: "subs_inv S next_id \<Longrightarrow> S (SubscriptionId next_id) = None"
  by (cases "S (SubscriptionId next_id)") (fastforce simp: subs_inv_def)+

lemma shared_add_ok:
  assumes acc: "accounts os opens" and inv: "shared_inv c"
    and n: "unat (sctx_next_subscription_id c) < 2 ^ 64 - 1"
    and run: "shared_add_subscription os c cfg k = (r, c', k')"
  shows "shared_inv c' \<and> held c' = held c \<and> opens k' = opens k"
proof (cases "\<exists>i. r = Inr i")
  case False
  then show ?thesis using run inv
    by (auto dest!: resolve_capture_key_frame [OF acc]
        simp: shared_add_subscription_def Let_def split: sum.splits if_splits prod.splits)
next
  case True
  then obtain i where i: "r = Inr i" ..
  let ?S = "shared_table_of c"
  obtain key c1 where valid: "raw_validate cfg = Inr ()"
    and room: "length (sctx_subscriptions c) < lim_max_subscriptions (sctx_limits c)"
    and resolve: "resolve_capture_key os cfg c k = (Inr key, c1, k')"
    and i_def: "i = SubscriptionId (sctx_next_subscription_id c1)"
    and c': "c' = c1\<lparr>sctx_next_subscription_id := sctx_next_subscription_id c1 + 1,
       sctx_subscriptions := hm_insert i (shared_sub_new i cfg key) (sctx_subscriptions c1)\<rparr>"
    using run unfolding i
    by (auto simp: shared_add_subscription_def Let_def split: sum.splits if_splits prod.splits)
  have new: "?S (SubscriptionId (sctx_next_subscription_id c)) = None"
    using inv by (simp add: shared_inv_def fresh_id)
  have "keys_inv ?S (sctx_resolved_capture_keys c)" using inv by (simp add: shared_inv_def)
  from resolve_capture_key_ok [OF finite_table this new resolve]
  obtain keys where c1: "c1 = c\<lparr>sctx_resolved_capture_keys := keys\<rparr>"
    and keys: "keys_inv (?S(SubscriptionId (sctx_next_subscription_id c) \<mapsto>
       shared_sub_new (SubscriptionId (sctx_next_subscription_id c)) cfg key)) keys"
    by blast
  have i2: "i = SubscriptionId (sctx_next_subscription_id c)" by (simp add: i_def c1)
  let ?sub = "shared_sub_new i cfg key"
  have table: "shared_table_of c' = ?S(i \<mapsto> ?sub)" by (simp add: c' c1 hm_simps)
  have no: "\<not> shared_is_joined ?sub" by (simp add: shared_is_joined_def shared_sub_new_def)
  have joined: "joined_at (?S(i \<mapsto> ?sub)) = joined_at ?S"
    using joined_at_other(1) [of ?S i ?sub] new no i2 by simp
  have hm: "hm_ok (sctx_subscriptions c')" using inv by (simp add: c' c1 shared_inv_def hm_simps)
  have "card (insert i (dom ?S)) \<le> Suc (card (dom ?S))" by (simp add: card_insert_if finite_table)
  then have "length (sctx_subscriptions c') \<le> Suc (length (sctx_subscriptions c))"
    using hm_length [OF hm] hm_length [of "sctx_subscriptions c"] inv table by (simp add: shared_inv_def)
  moreover have "subs_inv (?S(i \<mapsto> ?sub)) (sctx_next_subscription_id c + 1)"
    using inv unat_Suc_u64 [OF n] valid i2
    by (fastforce simp: shared_inv_def subs_inv_def shared_sub_new_def intro: less_SucI)
  moreover have "\<forall>p \<in> set (sctx_pending_packets c). pending_ok (?S(i \<mapsto> ?sub)) p"
  proof
    fix p assume "p \<in> set (sctx_pending_packets c)"
    then have "pending_ok ?S p" using inv by (simp add: shared_inv_def)
    then show "pending_ok (?S(i \<mapsto> ?sub)) p" by (rule pending_ok_keep) (use new i2 in auto)
  qed
  ultimately have "shared_inv c'"
    using inv hm keys room joined i2 unfolding shared_inv_def table
    by (simp add: c' c1 captures_inv_def captures_needed_def limits_inv_def)
  then show ?thesis using resolve_capture_key_frame [OF acc resolve] by (simp add: held_def c' c1 fun_eq_iff)
qed

lemma forget_ok:
  assumes inv: "shared_inv c" and s: "shared_table_of c i = Some s" and no: "\<not> shared_is_joined s"
  shows "\<exists>c'. release_capture_key (ssub_config s) (c\<lparr>sctx_subscriptions := hm_remove i (sctx_subscriptions c)\<rparr>) =
       Some c' \<and> shared_inv c' \<and> held c' = held c"
proof -
  let ?S = "shared_table_of c"
  let ?c = "c\<lparr>sctx_subscriptions := hm_remove i (sctx_subscriptions c)\<rparr>"
  have "keys_inv ?S (sctx_resolved_capture_keys ?c)" using inv by (simp add: shared_inv_def)
  from release_capture_key_ok [OF finite_table this s] obtain keys where
    run: "release_capture_key (ssub_config s) ?c = Some (?c\<lparr>sctx_resolved_capture_keys := keys\<rparr>)"
    and keys: "keys_inv (?S(i := None)) keys" by blast
  let ?c' = "?c\<lparr>sctx_resolved_capture_keys := keys\<rparr>"
  have table: "shared_table_of ?c' = ?S(i := None)" by (simp add: hm_simps)
  have joined: "joined_at (?S(i := None)) = joined_at ?S"
    using joined_at_other(2) [of ?S i s] s no by simp
  have hm: "hm_ok (sctx_subscriptions ?c')" using inv by (simp add: shared_inv_def hm_simps)
  have "length (sctx_subscriptions ?c') \<le> length (sctx_subscriptions c)" by (simp add: length_delete_le)
  moreover have "subs_inv (?S(i := None)) (sctx_next_subscription_id c)"
    using inv by (auto simp: shared_inv_def subs_inv_def)
  moreover have "\<forall>p \<in> set (sctx_pending_packets c). pending_ok (?S(i := None)) p"
  proof
    fix p assume "p \<in> set (sctx_pending_packets c)"
    then have "pending_ok ?S p" using inv by (simp add: shared_inv_def)
    then show "pending_ok (?S(i := None)) p" by (rule pending_ok_keep) (use s no in auto)
  qed
  ultimately have "shared_inv ?c'"
    using inv hm keys joined unfolding shared_inv_def table
    by (simp add: captures_inv_def captures_needed_def limits_inv_def)
  then show ?thesis using run by (auto simp: held_def fun_eq_iff)
qed

lemma shared_remove_ok:
  assumes acc: "accounts os opens" and inv: "shared_inv c" and owns: "owns opens (held c) k"
  shows "\<exists>r c' k'. shared_remove_subscription os c i k = Some (r, c', k') \<and>
     shared_inv c' \<and> transfers opens (held c) k (held c') k'"
proof (cases "shared_table_of c i")
  case None
  then show ?thesis using inv transfers_same [OF owns] by (simp add: shared_remove_subscription_def)
next
  case (Some s)
  obtain r c1 k1 where left: "(if shared_is_joined s then shared_leave_subscription os c i k
      else Some (Inr (), c, k)) = Some (r, c1, k1)" "shared_inv c1" "transfers opens (held c) k (held c1) k1"
    "\<forall>u. r = Inr u \<longrightarrow> (\<exists>t. shared_table_of c1 i = Some t \<and> \<not> shared_is_joined t)"
  proof (cases "shared_is_joined s")
    case True
    obtain r c1 k1 where run: "shared_leave_subscription os c i k = Some (r, c1, k1)" "shared_inv c1"
      "transfers opens (held c) k (held c1) k1"
      and state: "\<forall>u. r = Inr u \<longrightarrow> (\<exists>t. shared_table_of c i = Some t \<and>
        shared_table_of c1 = (shared_table_of c)(i \<mapsto> t\<lparr>ssub_state := Bound\<rparr>))"
      using shared_leave_ok [OF acc inv owns, of i] by blast
    have "\<forall>u. r = Inr u \<longrightarrow> (\<exists>t. shared_table_of c1 i = Some t \<and> \<not> shared_is_joined t)"
      using state by (auto simp: shared_is_joined_def)
    then show thesis using that [OF _ run(2,3)] True run(1) by simp
  next
    case False
    then show thesis using that [OF _ inv transfers_same [OF owns refl]] Some by simp
  qed
  show ?thesis
  proof (cases r)
    case (Inl e)
    then show ?thesis using left Some by (simp add: shared_remove_subscription_def)
  next
    case (Inr u)
    then obtain t where t: "shared_table_of c1 i = Some t" "\<not> shared_is_joined t" using left(4) by auto
    then obtain c2 where "release_capture_key (ssub_config t)
        (c1\<lparr>sctx_subscriptions := hm_remove i (sctx_subscriptions c1)\<rparr>) = Some c2" "shared_inv c2" "held c2 = held c1"
      using forget_ok [OF left(2)] by blast
    then show ?thesis using left(1,3) Some Inr t(1) by (simp add: shared_remove_subscription_def)
  qed
qed

section \<open>Receives of the context\<close>

lemma recv_ext_inv:
  assumes inv: "shared_inv c" and ext: "recv_ext c c' q"
    and room: "length (sctx_pending_packets c) + q \<le> lim_max_pending_packets (sctx_limits c)"
  shows "shared_inv c' \<and> held c' = held c \<and> sctx_next_subscription_id c' = sctx_next_subscription_id c"
proof -
  obtain new metrics index where c': "c' = c\<lparr>sctx_pending_packets := sctx_pending_packets c @ new,
      sctx_metrics := metrics, sctx_next_capture_index := index\<rparr>" "length new = q"
    "\<forall>p \<in> set new. pending_ok (shared_table_of c) p"
    "cursor_ok (sctx_capture_order c) (sctx_next_capture_index c) \<longrightarrow> cursor_ok (sctx_capture_order c) index"
    using ext unfolding recv_ext_def by blast
  have "order_inv (sctx_captures c) (sctx_capture_order c) index"
    using inv c'(4) by (simp add: shared_inv_def order_inv_def cursor_ok_def)
  then show ?thesis
    using inv c'(1-3) room by (auto simp: shared_inv_def limits_inv_def held_def fun_eq_iff)
qed

text \<open>Taking packets off the queue keeps the invariant.\<close>

lemma pending_subset_inv:
  assumes "shared_inv c" and "set ps \<subseteq> set (sctx_pending_packets c)"
    and "length ps \<le> length (sctx_pending_packets c)"
  shows "shared_inv (c\<lparr>sctx_pending_packets := ps\<rparr>)" and "held (c\<lparr>sctx_pending_packets := ps\<rparr>) = held c"
  using assms by (auto simp: shared_inv_def limits_inv_def held_def fun_eq_iff)

lemma pop_pending_ok:
  assumes "shared_inv c" and "pop_pending c = (p, c')"
  shows "shared_inv c' \<and> held c' = held c \<and> sctx_next_subscription_id c' = sctx_next_subscription_id c \<and>
     shared_table_of c' = shared_table_of c \<and>
     (\<forall>x. p = Some x \<longrightarrow> pending_ok (shared_table_of c) x)"
proof (cases "sctx_pending_packets c")
  case Nil
  then show ?thesis using assms by (simp add: pop_pending_def)
next
  case (Cons x xs)
  then have "p = Some x" "c' = c\<lparr>sctx_pending_packets := xs\<rparr>" using assms(2) by (simp_all add: pop_pending_def)
  moreover have "set xs \<subseteq> set (sctx_pending_packets c)" "length xs \<le> length (sctx_pending_packets c)"
    using Cons by auto
  moreover have "pending_ok (shared_table_of c) x" using assms(1) Cons by (simp add: shared_inv_def)
  ultimately show ?thesis using pending_subset_inv [OF assms(1)] by simp
qed

lemma shared_recv_ok:
  assumes acc: "accounts os opens" and inv: "shared_inv c"
  shows "\<exists>r c' k'. shared_try_recv_any os c k = Some (r, c', k') \<and> shared_inv c' \<and>
     held c' = held c \<and> sctx_next_subscription_id c' = sctx_next_subscription_id c \<and>
     opens k' = opens k \<and> shared_table_of c' = shared_table_of c \<and>
     (\<forall>p. r = Inr (Some p) \<longrightarrow> pending_ok (shared_table_of c) p)"
proof -
  obtain p0 c0 where pop: "pop_pending c = (p0, c0)" by fastforce
  show ?thesis
  proof (cases p0)
    case (Some p)
    then show ?thesis using pop pop_pending_ok [OF inv pop] by (simp add: shared_try_recv_any_def)
  next
    case None
    obtain r c1 k1 q where fill: "fill_pending os 1 c k = Some (r, c1, k1)"
      "length (sctx_pending_packets c) + q \<le> lim_max_pending_packets (sctx_limits c)"
      "recv_ext c c1 q" "opens k1 = opens k"
      using fill_pending_ok [OF acc inv, of 1 k] by blast
    have c1: "shared_inv c1" "held c1 = held c" "shared_table_of c1 = shared_table_of c"
      "sctx_next_subscription_id c1 = sctx_next_subscription_id c"
      using recv_ext_inv [OF inv fill(3,2)] recv_ext_same [OF fill(3)] by simp_all
    obtain p2 c2 where pop2: "pop_pending c1 = (p2, c2)" by fastforce
    show ?thesis
      using pop None fill(1,4) c1 pop2 pop_pending_ok [OF c1(1) pop2]
      by (cases r) (auto simp: shared_try_recv_any_def)
  qed
qed

text \<open>
  The batch: it returns within its fuel, delivers what it reports and no more than was asked, only
  packets that are well-formed, and keeps what was in the vector before.
\<close>

lemma drain_ok:
  assumes inv: "shared_inv c" and run: "drain_pending_into packets n c = (drained, packets', c')"
  shows "shared_inv c' \<and> held c' = held c \<and> sctx_next_subscription_id c' = sctx_next_subscription_id c \<and>
     shared_table_of c' = shared_table_of c \<and>
     drained = min n (length (sctx_pending_packets c)) \<and>
     (\<exists>new. packets' = packets @ new \<and> length new = drained \<and> (\<forall>p \<in> set new. pending_ok (shared_table_of c) p))"
proof -
  let ?n = "min n (length (sctx_pending_packets c))"
  have r: "drained = ?n" "packets' = packets @ take ?n (sctx_pending_packets c)"
    "c' = c\<lparr>sctx_pending_packets := drop ?n (sctx_pending_packets c)\<rparr>"
    using run by (auto simp: drain_pending_into_def Let_def)
  have "\<forall>p \<in> set (take ?n (sctx_pending_packets c)). pending_ok (shared_table_of c) p"
    using inv by (auto simp: shared_inv_def dest: in_set_takeD)
  moreover have "shared_inv c'" "held c' = held c"
    unfolding r(3) by (rule pending_subset_inv [OF inv]; simp add: set_drop_subset)+
  ultimately show ?thesis using r by auto
qed

lemma shared_batch_loop_ok:
  assumes acc: "accounts os opens" and "shared_inv c" and "received \<le> n" and "n \<le> received + fuel"
  shows "\<exists>r new c' k'. shared_batch_loop fuel os n received packets c k = Some (r, packets @ new, c', k') \<and>
     shared_inv c' \<and> held c' = held c \<and> sctx_next_subscription_id c' = sctx_next_subscription_id c \<and>
     opens k' = opens k \<and>
     (\<forall>p \<in> set new. pending_ok (shared_table_of c) p) \<and> received + length new \<le> n \<and>
     (\<forall>m. r = Inr m \<longrightarrow> m = received + length new)"
  using assms(2-)
proof (induction fuel arbitrary: received packets c k)
  case 0
  then show ?case by (simp add: shared_batch_loop.simps)
next
  case (Suc fuel)
  show ?case
  proof (cases "received < n")
    case False
    then show ?thesis using Suc.prems by (simp add: shared_batch_loop.simps)
  next
    case True
    obtain r c1 k1 q where fill: "fill_pending os (n - received) c k = Some (r, c1, k1)"
      "length (sctx_pending_packets c) + q \<le> lim_max_pending_packets (sctx_limits c)"
      "recv_ext c c1 q" "\<forall>m. r = Inr m \<longrightarrow> m = q" "opens k1 = opens k"
      using fill_pending_ok [OF acc Suc.prems(1), of "n - received" k] by blast
    have c1: "shared_inv c1" "held c1 = held c" "shared_table_of c1 = shared_table_of c"
      "sctx_next_subscription_id c1 = sctx_next_subscription_id c"
      "length (sctx_pending_packets c1) = length (sctx_pending_packets c) + q"
      using recv_ext_inv [OF Suc.prems(1) fill(3,2)] recv_ext_same [OF fill(3)] by simp_all
    consider e where "r = Inl e" | "r = Inr 0" | "r = Inr q" "q \<noteq> 0" using fill(4) by (metis sum.exhaust)
    then show ?thesis
    proof cases
      case 3
      obtain drained packets' c2 where drain: "drain_pending_into packets (n - received) c1 = (drained, packets', c2)"
        by (metis prod_cases3)
      obtain new where new: "packets' = packets @ new" "length new = drained"
        "\<forall>p \<in> set new. pending_ok (shared_table_of c) p"
        and c2: "shared_inv c2" "held c2 = held c" "shared_table_of c2 = shared_table_of c"
          "sctx_next_subscription_id c2 = sctx_next_subscription_id c"
        and drained: "drained = min (n - received) (length (sctx_pending_packets c1))"
        using drain_ok [OF c1(1) drain] c1(2-4) by auto
      have pos: "0 < drained" "received + drained \<le> n" using drained c1(5) 3(2) True by auto
      have "received + drained \<le> n" "n \<le> (received + drained) + fuel" using pos Suc.prems(3) by auto
      from Suc.IH [OF c2(1) this, of packets' k1]
      obtain r' new' c' k' where rest:
        "shared_batch_loop fuel os n (received + drained) packets' c2 k1 = Some (r', packets' @ new', c', k')"
        "shared_inv c'" "held c' = held c2" "sctx_next_subscription_id c' = sctx_next_subscription_id c2" "opens k' = opens k1"
        "\<forall>p \<in> set new'. pending_ok (shared_table_of c2) p" "received + drained + length new' \<le> n"
        "\<forall>m. r' = Inr m \<longrightarrow> m = received + drained + length new'" by blast
      have run: "shared_batch_loop (Suc fuel) os n received packets c k = Some (r', packets @ (new @ new'), c', k')"
        using True fill(1) 3 drain rest(1) new(1) by (subst shared_batch_loop.simps) simp
      show ?thesis
        by (rule exI [of _ r'], rule exI [of _ "new @ new'"], rule exI [of _ c'], rule exI [of _ k'])
           (use run rest c2 new fill(5) in auto)
    qed (use True fill c1 Suc.prems in \<open>auto simp: shared_batch_loop.simps\<close>)
  qed
qed

lemma shared_batch_ok:
  assumes acc: "accounts os opens" and inv: "shared_inv c"
  shows "\<exists>r new c' k'. shared_try_recv_batch_into os packets n c k = Some (r, packets @ new, c', k') \<and>
     shared_inv c' \<and> held c' = held c \<and> sctx_next_subscription_id c' = sctx_next_subscription_id c \<and>
     opens k' = opens k \<and>
     (\<forall>p \<in> set new. pending_ok (shared_table_of c) p) \<and> length new \<le> n \<and>
     (\<forall>m. r = Inr m \<longrightarrow> m = length new)"
proof (cases "n = 0")
  case True
  then show ?thesis using inv by (auto simp: shared_try_recv_batch_into_def)
next
  case False
  obtain drained packets' c1 where drain: "drain_pending_into packets n c = (drained, packets', c1)"
    by (metis prod_cases3)
  obtain new where new: "packets' = packets @ new" "length new = drained"
    "\<forall>p \<in> set new. pending_ok (shared_table_of c) p"
    and c1: "shared_inv c1" "held c1 = held c" "shared_table_of c1 = shared_table_of c"
      "sctx_next_subscription_id c1 = sctx_next_subscription_id c" and le: "drained \<le> n"
    using drain_ok [OF inv drain] by auto
  from shared_batch_loop_ok [OF acc c1(1) le le_add2, of packets' k]
  obtain r' new' c' k' where rest: "shared_batch_loop n os n drained packets' c1 k = Some (r', packets' @ new', c', k')"
    "shared_inv c'" "held c' = held c1" "sctx_next_subscription_id c' = sctx_next_subscription_id c1"
    "opens k' = opens k" "\<forall>p \<in> set new'. pending_ok (shared_table_of c1) p"
    "drained + length new' \<le> n" "\<forall>m. r' = Inr m \<longrightarrow> m = drained + length new'" by blast
  have run: "shared_try_recv_batch_into os packets n c k = Some (r', packets @ (new @ new'), c', k')"
    using False drain rest(1) new(1) by (simp add: shared_try_recv_batch_into_def)
  show ?thesis
    by (rule exI [of _ r'], rule exI [of _ "new @ new'"], rule exI [of _ c'], rule exI [of _ k'])
       (use run rest c1 new in auto)
qed

section \<open>Reachable contexts\<close>

datatype shared_op =
    SharedAdd raw_subscription_config
  | SharedJoin subscription_id
  | SharedLeave subscription_id
  | SharedRemove subscription_id
  | SharedRecv
  | SharedBatch usize

text \<open>One call of the interface; \<open>None\<close> is a panic, or a batch that does not return.\<close>

fun shared_run :: "'k os \<Rightarrow> shared_op \<Rightarrow> shared_raw_context \<Rightarrow> 'k \<Rightarrow> (shared_raw_context \<times> 'k) option" where
  "shared_run os (SharedAdd cfg) c k = Some (snd (shared_add_subscription os c cfg k))"
| "shared_run os (SharedJoin i) c k = map_option snd (shared_join_subscription os c i k)"
| "shared_run os (SharedLeave i) c k = map_option snd (shared_leave_subscription os c i k)"
| "shared_run os (SharedRemove i) c k = map_option snd (shared_remove_subscription os c i k)"
| "shared_run os SharedRecv c k = map_option snd (shared_try_recv_any os c k)"
| "shared_run os (SharedBatch n) c k = map_option (snd \<circ> snd) (shared_try_recv_batch_into os [] n c k)"

inductive shared_reach ::
  "'k os \<Rightarrow> ('k \<Rightarrow> socket set) \<Rightarrow> shared_raw_context_limits \<Rightarrow> nat \<Rightarrow> shared_raw_context \<Rightarrow> 'k \<Rightarrow> bool"
  for os opens limits where
  shared_reach_new: "shared_with_limits limits = Inr c \<Longrightarrow> shared_reach os opens limits 0 c k"
| shared_reach_world: "shared_reach os opens limits n c k \<Longrightarrow> \<Union> (range (held c)) \<subseteq> opens k' \<Longrightarrow>
    shared_reach os opens limits n c k'"
| shared_reach_step: "shared_reach os opens limits n c k \<Longrightarrow> shared_run os op c k = Some (c', k') \<Longrightarrow>
    shared_reach os opens limits (Suc n) c' k'"

lemma remove_capture_next:
  "remove_capture os key c k = Some (c', k') \<Longrightarrow> sctx_next_subscription_id c' = sctx_next_subscription_id c"
  by (auto simp: remove_capture_def Let_def split: option.splits)

lemma shared_set_state_next:
  "shared_set_state i st c = Some c' \<Longrightarrow> sctx_next_subscription_id c' = sctx_next_subscription_id c"
  by (auto simp: shared_set_state_def split: option.splits)

lemma shared_join_next:
  assumes "shared_join_subscription os c i k = Some (r, c', k')"
  shows "sctx_next_subscription_id c' = sctx_next_subscription_id c"
proof -
  have "sctx_next_subscription_id c1 = sctx_next_subscription_id c"
    if "ensure_capture os key c k = (r, c1, k1)" for key r c1 k1
    using that by (auto simp: ensure_capture_def split: option.splits prod.splits sum.splits)
  then show ?thesis using assms
    by (auto simp: shared_join_subscription_def dest!: remove_capture_next shared_set_state_next
        split: option.splits if_splits prod.splits sum.splits)
qed

lemma shared_leave_next:
  assumes "shared_leave_subscription os c i k = Some (r, c', k')"
  shows "sctx_next_subscription_id c' = sctx_next_subscription_id c"
  using assms
  by (auto simp: shared_leave_subscription_def remove_pending_membership_def bind_eq_Some_conv
      dest!: remove_capture_next shared_set_state_next split: option.splits if_splits prod.splits sum.splits)

lemma shared_remove_next:
  assumes "shared_remove_subscription os c i k = Some (r, c', k')"
  shows "sctx_next_subscription_id c' = sctx_next_subscription_id c"
proof -
  have release: "sctx_next_subscription_id c2 = sctx_next_subscription_id c1"
    if "release_capture_key cfg c1 = Some c2" for cfg c1 c2
    using that by (auto simp: release_capture_key_def Let_def split: option.splits if_splits)
  show ?thesis using assms
    by (auto simp: shared_remove_subscription_def bind_eq_Some_conv dest!: shared_leave_next release
        split: option.splits if_splits sum.splits) (metis shared_leave_next unit_sum_cases)
qed

text \<open>Every call of a well-formed context succeeds in the sense of the model and keeps it well-formed.\<close>

lemma shared_run_ok:
  assumes acc: "accounts os opens" and inv: "shared_inv c" and owns: "owns opens (held c) k"
    and n: "unat (sctx_next_subscription_id c) < 2 ^ 64 - 1"
  shows "\<exists>c' k'. shared_run os op c k = Some (c', k') \<and> shared_inv c' \<and> transfers opens (held c) k (held c') k' \<and>
     sctx_next_subscription_id c' \<in> {sctx_next_subscription_id c, sctx_next_subscription_id c + 1}"
proof (cases op)
  case (SharedAdd cfg)
  obtain r c' k' where run: "shared_add_subscription os c cfg k = (r, c', k')" by (metis prod_cases3)
  have "sctx_next_subscription_id c' \<in> {sctx_next_subscription_id c, sctx_next_subscription_id c + 1}"
    using run by (auto simp: shared_add_subscription_def resolve_capture_key_def Let_def
        split: sum.splits if_splits prod.splits option.splits)
  then show ?thesis using shared_add_ok [OF acc inv n run] SharedAdd run transfers_same [OF owns] by simp
next
  case (SharedJoin i)
  show ?thesis using shared_join_ok [OF acc inv owns, of i] SharedJoin by (auto dest: shared_join_next)
next
  case (SharedLeave i)
  show ?thesis using shared_leave_ok [OF acc inv owns, of i] SharedLeave by (auto dest: shared_leave_next)
next
  case (SharedRemove i)
  show ?thesis using shared_remove_ok [OF acc inv owns, of i] SharedRemove by (auto dest: shared_remove_next)
next
  case SharedRecv
  show ?thesis using shared_recv_ok [OF acc inv, of k] SharedRecv transfers_same [OF owns] by fastforce
next
  case (SharedBatch m)
  show ?thesis using shared_batch_ok [OF acc inv, of "[]" m k] SharedBatch transfers_same [OF owns] by fastforce
qed

lemma shared_reach_inv:
  assumes acc: "accounts os opens" and "shared_reach os opens limits n c k" and "n < 2 ^ 64 - 1"
  shows "shared_inv c \<and> owns opens (held c) k \<and> unat (sctx_next_subscription_id c) \<le> Suc n"
  using assms(2,3)
proof induction
  case (shared_reach_new c k)
  then have "held c = (\<lambda>key. {})" "sctx_next_subscription_id c = 1"
    by (auto simp: shared_with_limits_def held_def split: if_splits)
  then show ?case using shared_inv_new [OF shared_reach_new(1)] by (simp add: owns_def)
next
  case (shared_reach_world n c k k')
  then show ?case by (simp add: owns_def)
next
  case (shared_reach_step n c k op c' k')
  then have ih: "shared_inv c" "owns opens (held c) k" and b: "unat (sctx_next_subscription_id c) \<le> Suc n" by auto
  have lt: "unat (sctx_next_subscription_id c) < 2 ^ 64 - 1" using b shared_reach_step.prems by linarith
  have "shared_inv c'" "transfers opens (held c) k (held c') k'"
    "sctx_next_subscription_id c' \<in> {sctx_next_subscription_id c, sctx_next_subscription_id c + 1}"
    using shared_run_ok [OF acc ih lt, of op] shared_reach_step.hyps(2) by auto
  then show ?case using unat_Suc_u64 [OF lt] b transfers_owns by auto
qed

section \<open>Counts\<close>

lemma active_membership_count_eq:
  assumes inv: "shared_inv c"
  shows "active_membership_count c = card {i. \<exists>s. shared_table_of c i = Some s \<and> shared_is_joined s}"
proof -
  let ?S = "shared_table_of c" and ?C = "set (sctx_captures c)"
  have caps: "captures_inv ?S (sctx_captures c)" and hm: "distinct (map fst (sctx_captures c))"
    using inv by (simp_all add: shared_inv_def captures_inv_def hm_ok_def)
  have entry: "map_of (sctx_captures c) (fst x) = Some (snd x)" if "x \<in> ?C" for x
    using that hm by (metis map_of_is_SomeI prod.collapse)
  have count: "cap_memberships (snd x) = card (dom (joined_at ?S (fst x)))" if "x \<in> ?C" for x
    using capture_of_key [OF caps entry [OF that]] by (simp add: capture_inv_def)
  have "active_membership_count c = (\<Sum>x \<in> ?C. cap_memberships (snd x))"
    using hm by (simp add: active_membership_count_def comp_def sum_list_distinct_conv_sum_set distinct_map)
  also have "\<dots> = (\<Sum>x \<in> ?C. card (dom (joined_at ?S (fst x))))" by (rule sum.cong) (simp_all add: count)
  also have "\<dots> = card (\<Union>x \<in> ?C. dom (joined_at ?S (fst x)))"
  proof (rule card_UN_disjoint [symmetric])
    show "\<forall>x \<in> ?C. \<forall>y \<in> ?C. x \<noteq> y \<longrightarrow> dom (joined_at ?S (fst x)) \<inter> dom (joined_at ?S (fst y)) = {}"
    proof (intro ballI impI)
      fix x y assume "x \<in> ?C" "y \<in> ?C" "x \<noteq> y"
      then have "fst x \<noteq> fst y" using hm by (metis distinct_map inj_on_eq_iff)
      then show "dom (joined_at ?S (fst x)) \<inter> dom (joined_at ?S (fst y)) = {}"
        by (auto simp: joined_at_Some)
    qed
  qed (simp_all add: finite_joined_at [OF finite_table])
  also have "(\<Union>x \<in> ?C. dom (joined_at ?S (fst x))) = {i. \<exists>s. ?S i = Some s \<and> shared_is_joined s}"
  proof (intro equalityI subsetI)
    fix i assume "i \<in> {i. \<exists>s. ?S i = Some s \<and> shared_is_joined s}"
    then obtain s where s: "?S i = Some s" "shared_is_joined s" by blast
    then have J: "joined_at ?S (ssub_capture_key s) i = Some (ssub_config s)" by (simp add: joined_at_def)
    then obtain cap where "map_of (sctx_captures c) (ssub_capture_key s) = Some cap"
      using caps unfolding captures_inv_def by (metis capture_entry.simps(1) not_None_eq)
    then have "(ssub_capture_key s, cap) \<in> ?C" by (rule map_of_SomeD)
    then show "i \<in> (\<Union>x \<in> ?C. dom (joined_at ?S (fst x)))" using J by force
  qed (auto simp: joined_at_Some)
  finally show ?thesis .
qed

section \<open>A context at work\<close>

text \<open>
  On the simulated system: one subscription is added and joined, and a receive filters one frame and
  delivers the next.
\<close>

definition shared_demo :: "shared_op list \<Rightarrow> sim \<Rightarrow> (shared_raw_context \<times> sim) option" where
  "shared_demo ops k =
     fold (\<lambda>op r. Option.bind r (\<lambda>(c, k). shared_run (sim_os Linux) op c k)) ops
       (map_option (\<lambda>c. (c, k)) shared_new)"

lemma sim_join_ssm:
  "join_multicast_group (sim_os Linux) s (membership_compat_config raw_demo_config) k =
     (Inr (), k\<lparr>sim_log := sim_log k @ [(s, JoinSsmV4 (Quad 10 0 0 1) (Quad 232 1 2 3) ipv4_UNSPECIFIED)]\<rparr>)"
proof -
  let ?cfg = "membership_compat_config raw_demo_config"
  have "family ?cfg = Ipv4" "resolve_ipv4_interface ?cfg = Inr ipv4_UNSPECIFIED"
    "ipv4_membership ?cfg = Inr \<lparr>m4_group = Quad 232 1 2 3, m4_source = Some (Quad 10 0 0 1), m4_interface = None\<rparr>"
    by (simp_all add: raw_demo_config_def raw_ssm_def raw_ssm_ip_def family_def unwrap_or_def resolve_ipv4_interface_def ipv4_membership_def
        config_ipv4_membership_def membership_compat_config_def ok_or_def res_bind_def)
  then show ?thesis
    by (simp add: join_multicast_group_def join_source_multicast_v4_def res_simps io_map_err_def sim_os_def)
qed

definition sdemo_key :: raw_shared_capture_key where
  "sdemo_key = \<lparr>rk_family = Ipv4, rk_interface_index = 0\<rparr>"

lemma sdemo_capture_key: "shared_raw_capture_key (sim_os Linux) raw_demo_config k = (Inr sdemo_key, k)"
  using sample_valid [of 1]
  by (simp add: shared_raw_capture_key_def resolve_linux_packet_interface_index_def sdemo_key_def
      resolve_packet_interface_index_def raw_demo_config_def raw_ssm_def raw_ssm_ip_def raw_family_def
      io_map_err_def sim_simps io_bind_def)

lemma sdemo_open:
  "\<exists>k'. open_shared_raw_socket (sim_os Linux) sdemo_key k =
     (Inr (plain_raw_socket (Socket (sim_next k)) (Socket (Suc (sim_next k))) None), k') \<and> sim_frames k' = sim_frames k"
  by (simp add: open_shared_raw_socket_def with_membership_socket_def sdemo_key_def
      open_linux_packet_socket_with_filter_def attach_linux_filter_def
      open_membership_socket_def io_bind_def io_map_err_def owning_def sim_simps)

lemma sdemo_kernel_join:
  "join_raw_multicast_group (sim_os Linux) (plain_raw_socket a b None) raw_demo_config k =
    (Inr (), k\<lparr>sim_log := sim_log k @ [(b, JoinSsmV4 (Quad 10 0 0 1) (Quad 232 1 2 3) ipv4_UNSPECIFIED)]\<rparr>)"
  by (simp add: join_raw_multicast_group_def sim_join_ssm io_bind_def ok_or_def Let_def) (simp add: sim_os_def)

abbreviation sdemo_sub :: "subscription_state \<Rightarrow> shared_raw_subscription" where
  "sdemo_sub st \<equiv>
     \<lparr>ssub_id = SubscriptionId 1, ssub_config = raw_demo_config, ssub_capture_key = sdemo_key, ssub_state = st\<rparr>"

definition sdemo_added :: shared_raw_context where
  "sdemo_added =
        \<lparr>sctx_subscriptions = [(SubscriptionId 1, sdemo_sub Bound)],
         sctx_resolved_capture_keys = [(capture_selector_from raw_demo_config, \<lparr>rck_key = sdemo_key, rck_references = 1\<rparr>)],
         sctx_captures = [],
         sctx_capture_order = [], sctx_pending_packets = [], sctx_limits = limits_default,
         sctx_next_subscription_id = 2, sctx_next_capture_index = 0,
         sctx_metrics = \<lparr>sm_received_packets_total = 0, sm_unmatched_packets_total = 0,
           sm_demultiplex_matches_total = 0\<rparr>\<rparr>"

lemma sdemo_add: "shared_demo [SharedAdd raw_demo_config] k = Some (sdemo_added, k)"
  using sample_valid [of 1]
  by (simp add: shared_demo_def shared_new_def shared_with_limits_def limits_default_def res_ok_def
     shared_add_subscription_def resolve_capture_key_def sdemo_capture_key Let_def sdemo_added_def
     shared_sub_new_def raw_demo_config_def [symmetric])

definition sdemo_joined :: shared_raw_context where
  "sdemo_joined = sdemo_added\<lparr>
         sctx_subscriptions := [(SubscriptionId 1, sdemo_sub Joined)],
         sctx_captures := [(sdemo_key, capture_add_membership (SubscriptionId 1) raw_demo_config
           (shared_capture_new (plain_raw_socket (Socket 3) (Socket 4) None)))],
         sctx_capture_order := [sdemo_key]\<rparr>"

lemma sdemo_join:
  "\<exists>k'. shared_demo [SharedAdd raw_demo_config, SharedJoin (SubscriptionId 1)] raw_demo_state =
       Some (sdemo_joined, k') \<and> sim_frames k' = sim_frames raw_demo_state"
proof -
  obtain k' where k': "open_shared_raw_socket (sim_os Linux) sdemo_key raw_demo_state =
     (Inr (plain_raw_socket (Socket 3) (Socket 4) None), k')" "sim_frames k' = sim_frames raw_demo_state"
    using sdemo_open [of raw_demo_state] by (auto simp: raw_demo_state_def sim_init_def)
  show ?thesis
    using sdemo_add [of raw_demo_state] k' 
    by (simp add: shared_demo_def shared_join_subscription_def sdemo_added_def ensure_capture_def
       shared_is_joined_def join_kernel_membership_def shared_capture_new_def sdemo_kernel_join
       shared_set_state_def sdemo_joined_def)
qed

definition sdemo_captured :: raw_captured_datagram where
  "sdemo_captured = \<lparr>cd_datagram = sample_datagram, cd_source_ip = V4 (Quad 10 0 0 1), cd_group = V4 (Quad 232 1 2 3),
     cd_ip_protocol = 17, cd_ingress_interface_index = Some 2\<rparr>"

lemma sdemo_recv:
  assumes "sim_frames k = sim_frames raw_demo_state"
  shows "\<exists>k'. recv_shared_raw_datagram (sim_os Linux) rr sdemo_key k = (Inr (Some sdemo_captured), k')"
proof -
  have p: "parse_ip_datagram (sample_datagram @ [0]) = Some sample_parsed"
    using parse_ipv4_roundtrip [of 5 "[]" "[7, 8]" 0 "Quad 0 0 0 0" 1 17 0 "Quad 10 0 0 1" "Quad 232 1 2 3" "[0]"]
    by (simp add: sample_datagram_def sample_parsed_def)
  have no: "parse_ip_datagram [1, 2, 3] = None"
    by (simp add: parse_ip_datagram_def)
  have l: "length sample_datagram = 22" by (simp add: sample_datagram_def ipv4_datagram_def be16_def)
  show ?thesis using assms
    by (simp add: recv_shared_raw_datagram_def filtered_loop.simps recv_shared_body_def sdemo_key_def
        sim_os_def raw_demo_state_def no p budget_exhausted_def MAX_RAW_FILTERED_READS_PER_RECV_def
        ingress_index_def sdemo_captured_def l sample_parsed_def)
qed

definition sdemo_packet :: shared_raw_packet where
  "sdemo_packet = \<lparr>srp_packet = raw_packet_from_captured (SubscriptionId 1) raw_demo_config sdemo_captured,
     srp_matching = One (SubscriptionId 1)\<rparr>"

lemma sdemo_matches:
  "capture_matches (cap_demultiplexer (capture_add_membership (SubscriptionId 1) raw_demo_config (shared_capture_new rr)))
     (V4 (Quad 232 1 2 3)) (V4 (Quad 10 0 0 1)) = Some (One (SubscriptionId 1))"
  by (simp add: capture_add_membership_def Let_def shared_capture_new_def capture_insert_def raw_demo_config_def raw_ssm_def
     raw_ssm_ip_def raw_source_addr_def group_insert_def group_default_def insert_id_def binary_search_def bsearch.simps vec_insert_def
     capture_matches_def group_matches_def from_sorted_slices_def)

lemma sdemo_receive:
  assumes "sim_frames k = sim_frames raw_demo_state"
  shows "\<exists>c' k'. shared_try_recv_any (sim_os Linux) sdemo_joined k = Some (Inr (Some sdemo_packet), c', k')"
proof -
  obtain k' where "recv_shared_raw_datagram (sim_os Linux) (plain_raw_socket (Socket 3) (Socket 4) None) sdemo_key k = (Inr (Some sdemo_captured), k')"
    using sdemo_recv [OF assms] by blast
  then show ?thesis
    using sdemo_matches [of "plain_raw_socket (Socket 3) (Socket 4) None"]
    by (simp add: shared_try_recv_any_def pop_pending_def sdemo_joined_def sdemo_added_def fill_pending_def Let_def limits_default_def
       queue_captured_def sdemo_captured_def record_demultiplex_matches_def record_shared_received_def first_id_def push_pending_def
       sdemo_packet_def usize_MAX_def capture_add_membership_def shared_capture_new_def)
qed

lemma shared_demo_reach:
  "shared_demo ops k = Some (c, k') \<Longrightarrow> shared_reach (sim_os Linux) sim_sockets limits_default (length ops) c k'"
proof (induction ops arbitrary: c k' rule: rev_induct)
  case Nil
  then show ?case
    by (auto simp: shared_demo_def shared_new_def res_ok_def split: sum.splits intro: shared_reach_new)
next
  case (snoc op ops)
  then obtain c1 k1 where "shared_demo ops k = Some (c1, k1)" "shared_run (sim_os Linux) op c1 k1 = Some (c, k')"
    by (auto simp: shared_demo_def bind_eq_Some_conv)
  with snoc.IH show ?case by (auto intro: shared_reach_step)
qed

lemma sdemo_reach:
  "\<exists>k'. shared_reach (sim_os Linux) sim_sockets limits_default 2 sdemo_joined k' \<and>
     sim_frames k' = sim_frames raw_demo_state"
  using sdemo_join shared_demo_reach [of "[SharedAdd raw_demo_config, SharedJoin (SubscriptionId 1)]"]
  by (fastforce simp: numeral_2_eq_2)

section \<open>Properties\<close>

text \<open>
  C3. No call of the shared raw context panics, and every call returns, in any reachable state and
  whatever the operating system answers: no \<open>expect\<close>, index, \<open>checked_sub\<close>, \<open>unreachable\<close> or debug
  assertion of the file can fail.
\<close>

theorem shared_context_never_panics:
  assumes "accounts os opens" and "shared_reach os opens limits n c k" and "n < 2 ^ 64 - 2"
  shows "shared_run os op c k \<noteq> None"
proof -
  have inv: "shared_inv c" "owns opens (held c) k" and "unat (sctx_next_subscription_id c) \<le> Suc n"
    using shared_reach_inv [OF assms(1,2)] assms(3) by auto
  then have "unat (sctx_next_subscription_id c) < 2 ^ 64 - 1" using assms(3) by linarith
  from shared_run_ok [OF assms(1) inv this, of op] show ?thesis by auto
qed

theorem shared_context_never_panics_witness:
  "\<exists>k'. shared_run (sim_os Linux) (SharedLeave (SubscriptionId 1)) sdemo_joined k' \<noteq> None"
proof -
  obtain k' where reach: "shared_reach (sim_os Linux) sim_sockets limits_default 2 sdemo_joined k'"
    using sdemo_reach by blast
  show ?thesis using shared_context_never_panics [OF sim_accounts reach, of "SharedLeave (SubscriptionId 1)"] by auto
qed

text \<open>
  C2. The reference counts of the shared raw context are exact in every reachable state: a capture
  is open exactly for the keys that a joined subscription uses; the kernel membership of a group and
  source is held exactly while a subscription joined on the capture has that group and source, and
  counts those subscriptions; and the active memberships are the joined subscriptions.
\<close>

theorem shared_reference_counts_exact:
  assumes "accounts os opens" and "shared_reach os opens limits n c k" and "n < 2 ^ 64 - 1"
  shows "(\<forall>key. case map_of (sctx_captures c) key of
       None \<Rightarrow> {i. \<exists>s. shared_table_of c i = Some s \<and> shared_is_joined s \<and> ssub_capture_key s = key} = {}
     | Some cap \<Rightarrow>
         cap_memberships cap =
           card {i. \<exists>s. shared_table_of c i = Some s \<and> shared_is_joined s \<and> ssub_capture_key s = key} \<and>
         0 < cap_memberships cap \<and>
         (\<forall>mk. (case map_of (cap_kernel_memberships cap) mk of None \<Rightarrow> 0 | Some m \<Rightarrow> km_references m) =
            card {i. \<exists>s. shared_table_of c i = Some s \<and> shared_is_joined s \<and> ssub_capture_key s = key \<and>
              kernel_membership_key_from (ssub_config s) = mk} \<and>
            (map_of (cap_kernel_memberships cap) mk = None \<longleftrightarrow>
              (\<nexists>i s. shared_table_of c i = Some s \<and> shared_is_joined s \<and> ssub_capture_key s = key \<and>
                kernel_membership_key_from (ssub_config s) = mk)))) \<and>
     active_membership_count c = card {i. \<exists>s. shared_table_of c i = Some s \<and> shared_is_joined s}"
proof (intro conjI allI)
  let ?S = "shared_table_of c"
  have inv: "shared_inv c" using shared_reach_inv [OF assms] by simp
  then show "active_membership_count c = card {i. \<exists>s. ?S i = Some s \<and> shared_is_joined s}"
    by (rule active_membership_count_eq)
  fix key
  have caps: "captures_inv ?S (sctx_captures c)" "captures_needed ?S (sctx_captures c)"
    using inv by (simp_all add: shared_inv_def)
  have dom: "dom (joined_at ?S key) = {i. \<exists>s. ?S i = Some s \<and> shared_is_joined s \<and> ssub_capture_key s = key}"
    by (auto simp: joined_at_Some)
  have reg: "registered (joined_at ?S key) mk = {i. \<exists>s. ?S i = Some s \<and> shared_is_joined s \<and>
      ssub_capture_key s = key \<and> kernel_membership_key_from (ssub_config s) = mk}" for mk
    by (auto simp: registered_def joined_at_Some)
  show "case map_of (sctx_captures c) key of
       None \<Rightarrow> {i. \<exists>s. ?S i = Some s \<and> shared_is_joined s \<and> ssub_capture_key s = key} = {}
     | Some cap \<Rightarrow>
         cap_memberships cap = card {i. \<exists>s. ?S i = Some s \<and> shared_is_joined s \<and> ssub_capture_key s = key} \<and>
         0 < cap_memberships cap \<and>
         (\<forall>mk. (case map_of (cap_kernel_memberships cap) mk of None \<Rightarrow> 0 | Some m \<Rightarrow> km_references m) =
            card {i. \<exists>s. ?S i = Some s \<and> shared_is_joined s \<and> ssub_capture_key s = key \<and>
              kernel_membership_key_from (ssub_config s) = mk} \<and>
            (map_of (cap_kernel_memberships cap) mk = None \<longleftrightarrow>
              (\<nexists>i s. ?S i = Some s \<and> shared_is_joined s \<and> ssub_capture_key s = key \<and>
                kernel_membership_key_from (ssub_config s) = mk)))"
  proof (cases "map_of (sctx_captures c) key")
    case None
    then have "joined_at ?S key = Map.empty"
      using caps(1) unfolding captures_inv_def by (metis capture_entry.simps(1))
    then show ?thesis using None dom by simp
  next
    case (Some cap)
    have cap: "capture_inv (joined_at ?S key) cap" by (rule capture_of_key [OF caps(1) Some])
    have ne: "joined_at ?S key \<noteq> Map.empty" using caps(2) Some by (simp add: captures_needed_def)
    have n: "cap_memberships cap = card (dom (joined_at ?S key))" using cap by (simp add: capture_inv_def)
    have "0 < cap_memberships cap"
      using ne finite_joined_at [OF finite_table, of "sctx_subscriptions c" key] by (simp add: n card_gt_0_iff)
    moreover have "(case map_of (cap_kernel_memberships cap) mk of None \<Rightarrow> 0 | Some m \<Rightarrow> km_references m) =
        card (registered (joined_at ?S key) mk) \<and>
        (map_of (cap_kernel_memberships cap) mk = None \<longleftrightarrow> registered (joined_at ?S key) mk = {})" for mk
      using cap memberships_exactD [of "joined_at ?S key" "cap_kernel_memberships cap" mk]
      by (cases "map_of (cap_kernel_memberships cap) mk") (auto simp: capture_inv_def)
    ultimately show ?thesis using Some n unfolding reg dom by simp
  qed
qed

theorem shared_reference_counts_exact_witness:
  "active_membership_count sdemo_joined = 1"
proof -
  obtain k' where reach: "shared_reach (sim_os Linux) sim_sockets limits_default 2 sdemo_joined k'"
    using sdemo_reach by blast
  moreover have "{i. \<exists>s. shared_table_of sdemo_joined i = Some s \<and> shared_is_joined s} = {SubscriptionId 1}"
    by (auto simp: sdemo_joined_def shared_is_joined_def split: if_splits)
  ultimately show ?thesis using shared_reference_counts_exact [OF sim_accounts] by fastforce
qed

text \<open>The subscriptions joined on a capture that accept a group and source.\<close>

definition accepting ::
  "shared_table \<Rightarrow> raw_shared_capture_key \<Rightarrow> ip_addr \<Rightarrow> ip_addr \<Rightarrow> subscription_id set" where
  "accepting S key grp source =
     {i. \<exists>s. S i = Some s \<and> shared_is_joined s \<and> ssub_capture_key s = key \<and>
        accepts_source (ssub_config s) grp source}"

text \<open>
  C6. A datagram captured in a reachable state is queued exactly when a subscription joined on that
  capture accepts its group and source; it is then queued once, at the end, and names exactly those
  subscriptions.
\<close>

theorem shared_demultiplex_exact:
  assumes "accounts os opens" and "shared_reach os opens limits n c k" and "n < 2 ^ 64 - 1"
    and "map_of (sctx_captures c) key = Some cap"
    and "recv_shared_raw_datagram os (cap_socket cap) key k' = (Inr (Some dg), k'')"
  shows "\<exists>matched c'. queue_captured cap dg c = Some (matched, c') \<and>
     (if accepting (shared_table_of c) key (cd_group dg) (cd_source_ip dg) = {}
      then \<not> matched \<and> sctx_pending_packets c' = sctx_pending_packets c
      else matched \<and> (\<exists>p. sctx_pending_packets c' = sctx_pending_packets c @ [p] \<and>
        set (matching_ids p) = accepting (shared_table_of c) key (cd_group dg) (cd_source_ip dg) \<and>
        rp_datagram (srp_packet p) = cd_datagram dg))"
proof -
  have inv: "shared_inv c" using shared_reach_inv [OF assms(1-3)] by simp
  then have "captures_inv (shared_table_of c) (sctx_captures c)" by (simp add: shared_inv_def)
  note cap = capture_of_key [OF this assms(4)] and dg = recv_shared_delivers [OF assms(5)]
  obtain matched c' where q: "queue_captured cap dg c = Some (matched, c')"
    and ext: "recv_ext c c' (if matched then 1 else 0)"
    and ids: "accepting (shared_table_of c) key (cd_group dg) (cd_source_ip dg) =
       (if matched then set (matching_ids (last (sctx_pending_packets c'))) else {})"
    using queue_captured_ok [OF cap dg] unfolding accepting_def by blast
  show ?thesis
  proof (cases matched)
    case False
    have "length (sctx_pending_packets c') = length (sctx_pending_packets c)" using recv_ext_same [OF ext] False by simp
    then have "sctx_pending_packets c' = sctx_pending_packets c" using ext by (auto simp: recv_ext_def)
    then show ?thesis using q ids False by auto
  next
    case True
    obtain p where p: "sctx_pending_packets c' = sctx_pending_packets c @ [p]" "pending_ok (shared_table_of c) p"
      using ext True by (auto simp: recv_ext_def length_Suc_conv)
    have "rp_datagram (srp_packet p) = cd_datagram dg"
      using q p(1) True by (auto simp: queue_captured_def Let_def push_pending_def record_demultiplex_matches_def
          record_shared_received_def raw_packet_from_captured_def bind_eq_Some_conv split: option.splits)
    moreover have "matching_ids p \<noteq> []" using p(2) by (simp add: pending_ok_def matching_ok_def matching_ids_def)
    ultimately show ?thesis using q ids p True by auto
  qed
qed

theorem shared_demultiplex_exact_witness:
  "\<exists>c'. queue_captured (capture_add_membership (SubscriptionId 1) raw_demo_config
         (shared_capture_new (plain_raw_socket (Socket 3) (Socket 4) None))) sdemo_captured sdemo_joined =
       Some (True, c')"
proof -
  obtain k' where reach: "shared_reach (sim_os Linux) sim_sockets limits_default 2 sdemo_joined k'"
    and frames: "sim_frames k' = sim_frames raw_demo_state"
    using sdemo_reach by blast
  let ?cap = "capture_add_membership (SubscriptionId 1) raw_demo_config
    (shared_capture_new (plain_raw_socket (Socket 3) (Socket 4) None))"
  have cap: "map_of (sctx_captures sdemo_joined) sdemo_key = Some ?cap" by (simp add: sdemo_joined_def)
  obtain k'' where recv: "recv_shared_raw_datagram (sim_os Linux) (cap_socket ?cap) sdemo_key k' =
      (Inr (Some sdemo_captured), k'')"
    using sdemo_recv [OF frames] by blast
  have "SubscriptionId 1 \<in> accepting (shared_table_of sdemo_joined) sdemo_key
      (cd_group sdemo_captured) (cd_source_ip sdemo_captured)"
    by (simp add: accepting_def sdemo_joined_def shared_is_joined_def accepts_source_def sdemo_captured_def
        raw_demo_config_def raw_ssm_def raw_ssm_ip_def)
  then show ?thesis
    using shared_demultiplex_exact [OF sim_accounts reach _ cap recv] by (auto split: if_splits)
qed

text \<open>
  C13. In every reachable state - in particular after a leave - the queue holds only packets that are
  complete datagrams and name, in ascending order, subscriptions that are joined and accept the
  datagram, the first of them as the packet's own; and a receive delivers such a packet.
\<close>

theorem shared_receive_exact:
  assumes "accounts os opens" and "shared_reach os opens limits n c k" and "n < 2 ^ 64 - 1"
    and "p \<in> set (sctx_pending_packets c) \<or> shared_try_recv_any os c k' = Some (Inr (Some p), c', k'')"
  shows "matching_ids p \<noteq> [] \<and> sorted_wrt (<) (matching_ids p) \<and>
     rp_subscription_id (srp_packet p) = hd (matching_ids p) \<and>
     (\<exists>grp source. datagram_from (srp_packet p) grp source \<and>
        (\<forall>i \<in> set (matching_ids p). \<exists>s. shared_table_of c i = Some s \<and> shared_is_joined s \<and>
           accepts_source (ssub_config s) grp source))"
proof -
  have inv: "shared_inv c" using shared_reach_inv [OF assms(1-3)] by simp
  have "pending_ok (shared_table_of c) p"
    using assms(4) inv shared_recv_ok [OF assms(1) inv, of k'] by (auto simp: shared_inv_def)
  then show ?thesis
    unfolding pending_ok_def matching_ok_def labelled_by_def accepted_by_def by (simp add: matching_ids_def)
qed

theorem shared_receive_exact_witness:
  "\<exists>k' c' k''. shared_reach (sim_os Linux) sim_sockets limits_default 2 sdemo_joined k' \<and>
     shared_try_recv_any (sim_os Linux) sdemo_joined k' = Some (Inr (Some sdemo_packet), c', k'') \<and>
     (\<exists>grp source. datagram_from (srp_packet sdemo_packet) grp source)"
proof -
  obtain k' where reach: "shared_reach (sim_os Linux) sim_sockets limits_default 2 sdemo_joined k'"
    and frames: "sim_frames k' = sim_frames raw_demo_state"
    using sdemo_reach by blast
  obtain c' k'' where recv: "shared_try_recv_any (sim_os Linux) sdemo_joined k' = Some (Inr (Some sdemo_packet), c', k'')"
    using sdemo_receive [OF frames] by blast
  show ?thesis using shared_receive_exact [OF sim_accounts reach _ disjI2 [OF recv]] reach recv by auto
qed

text \<open>
  C15. The shared raw context owns exactly the descriptors of its captures: they are open, belong to
  one capture each, and no call leaks a descriptor or closes a foreign one - a join that fails after
  it opened a capture closes it again.
\<close>

theorem shared_context_never_leaks:
  assumes "accounts os opens" and "shared_reach os opens limits n c k" and "n < 2 ^ 64 - 2"
    and "shared_run os op c k = Some (c', k')"
  shows "\<Union> (range (held c')) \<subseteq> opens k' \<and>
     opens k' - \<Union> (range (held c')) = opens k - \<Union> (range (held c)) \<and>
     (\<forall>key key'. key \<noteq> key' \<longrightarrow> held c' key \<inter> held c' key' = {})"
proof -
  have inv: "shared_inv c" "owns opens (held c) k" and "unat (sctx_next_subscription_id c) \<le> Suc n"
    using shared_reach_inv [OF assms(1,2)] assms(3) by auto
  then have "unat (sctx_next_subscription_id c) < 2 ^ 64 - 1" using assms(3) by linarith
  from shared_run_ok [OF assms(1) inv this, of op] assms(4) show ?thesis by (auto simp: transfers_def owns_def)
qed

theorem shared_context_never_leaks_witness:
  "\<exists>k' c'' k''. shared_run (sim_os Linux) (SharedRemove (SubscriptionId 1)) sdemo_joined k' = Some (c'', k'') \<and>
     sim_sockets k'' - \<Union> (range (held c'')) = sim_sockets k' - \<Union> (range (held sdemo_joined))"
proof -
  obtain k' where reach: "shared_reach (sim_os Linux) sim_sockets limits_default 2 sdemo_joined k'"
    using sdemo_reach by blast
  have "shared_inv sdemo_joined" "owns sim_sockets (held sdemo_joined) k'"
    using shared_reach_inv [OF sim_accounts reach] by simp_all
  from shared_remove_ok [OF sim_accounts this, of Linux "SubscriptionId 1"]
  obtain c'' k'' where "shared_run (sim_os Linux) (SharedRemove (SubscriptionId 1)) sdemo_joined k' = Some (c'', k'')"
    by auto
  with shared_context_never_leaks [OF sim_accounts reach _ this] show ?thesis by auto
qed

text \<open>
  C18. A batch of a reachable context returns with at most \<open>max_packets\<close> turns of its loop, appends at most
  \<open>max_packets\<close> packets to the caller's vector and reports their number when it succeeds; afterwards
  the queue and the table are within the configured limits.
\<close>

theorem shared_batch_bounded:
  assumes "accounts os opens" and "shared_reach os opens limits n c k" and "n < 2 ^ 64 - 1"
  shows "\<exists>r new c' k''. shared_try_recv_batch_into os packets max_packets c k' = Some (r, packets @ new, c', k'') \<and>
     length new \<le> max_packets \<and> (case r of Inr received \<Rightarrow> received = length new | Inl e \<Rightarrow> True) \<and>
     pending_packet_count c' \<le> lim_max_pending_packets (sctx_limits c') \<and>
     shared_subscription_count c' \<le> lim_max_subscriptions (sctx_limits c')"
proof -
  have inv: "shared_inv c" using shared_reach_inv [OF assms] by simp
  obtain r new c' k'' where run: "shared_try_recv_batch_into os packets max_packets c k' = Some (r, packets @ new, c', k'')"
    "shared_inv c'" "length new \<le> max_packets" "\<forall>m. r = Inr m \<longrightarrow> m = length new"
    using shared_batch_ok [OF assms(1) inv, of packets max_packets k'] by blast
  then show ?thesis
    by (auto simp: shared_inv_def limits_inv_def pending_packet_count_def shared_subscription_count_def split: sum.split)
qed

theorem shared_batch_bounded_witness:
  "\<exists>k' r new c' k''. shared_try_recv_batch_into (sim_os Linux) [] 3 sdemo_joined k' = Some (r, new, c', k'') \<and>
     length new \<le> 3"
proof -
  obtain k' where reach: "shared_reach (sim_os Linux) sim_sockets limits_default 2 sdemo_joined k'"
    using sdemo_reach by blast
  obtain r new c' k'' where "shared_try_recv_batch_into (sim_os Linux) [] 3 sdemo_joined k' = Some (r, [] @ new, c', k'')"
    "length new \<le> 3"
    using shared_batch_bounded [OF sim_accounts reach, of "[]" 3 k'] by auto
  then show ?thesis unfolding append_Nil by blast
qed

end
