(* ===== verification/StdParse.thy ===== *)
theory StdParse
  imports Net
begin

text \<open>
  The part of the standard library that turns text into numbers and addresses, as the command-line
  arguments use it: \<open>str::parse\<close> for the unsigned integers, \<open>IpAddr\<close> and \<open>Ipv6Addr\<close>, with the texts of
  their errors. A \<open>&str\<close> is the list of its UTF-8 bytes. Lemmas: decimal numbers, dotted quads and
  colon-separated groups are read back as what they were written from.
\<close>

section \<open>Digits\<close>

text \<open>\<open>char::to_digit\<close> for the radices 10 and 16.\<close>

definition to_digit :: "nat \<Rightarrow> char \<Rightarrow> nat option" where
  "to_digit radix c =
     (let n = of_char c;
          d = (if 48 \<le> n \<and> n \<le> 57 then n - 48
               else if 97 \<le> n \<and> n \<le> 102 then n - 87
               else if 65 \<le> n \<and> n \<le> 70 then n - 55
               else 16) in
      if d < radix then Some d else None)"

definition is_ascii_digit :: "char \<Rightarrow> bool" where
  "is_ascii_digit c \<longleftrightarrow> 48 \<le> (of_char c :: nat) \<and> of_char c \<le> (57 :: nat)"

section \<open>Splitting\<close>

text \<open>\<open>str::rsplit_once\<close>\<close>

definition rsplit_once :: "char \<Rightarrow> string \<Rightarrow> (string \<times> string) option" where
  "rsplit_once c s =
     (if c \<in> set s
      then Some (rev (tl (dropWhile (\<lambda>d. d \<noteq> c) (rev s))), rev (takeWhile (\<lambda>d. d \<noteq> c) (rev s)))
      else None)"

lemma rsplit_once_last:
  "c \<notin> set t \<Longrightarrow> rsplit_once c (s @ c # t) = Some (s, t)"
  "c \<notin> set s \<Longrightarrow> rsplit_once c s = None"
  by (auto simp: rsplit_once_def takeWhile_append dropWhile_append)

section \<open>Unsigned integers\<close>

datatype int_error_kind = EmptyInt | InvalidDigit | PosOverflow | NegOverflow

fun parse_int_error_display :: "int_error_kind \<Rightarrow> string" where
  "parse_int_error_display EmptyInt = ''cannot parse integer from empty string''"
| "parse_int_error_display InvalidDigit = ''invalid digit found in string''"
| "parse_int_error_display PosOverflow = ''number too large to fit in target type''"
| "parse_int_error_display NegOverflow = ''number too small to fit in target type''"

text \<open>The loop of \<open>from_str_radix\<close>, which rejects a bad digit before it reports an overflow.\<close>

fun digits_loop :: "nat \<Rightarrow> nat \<Rightarrow> string \<Rightarrow> int_error_kind + nat" where
  "digits_loop limit result [] = Inr result"
| "digits_loop limit result (c # rest) =
     (case to_digit 10 c of
        None \<Rightarrow> Inl InvalidDigit
      | Some x \<Rightarrow>
          (if limit \<le> result * 10 then Inl PosOverflow
           else if limit \<le> result * 10 + x then Inl PosOverflow
           else digits_loop limit (result * 10 + x) rest))"

definition parse_unsigned :: "nat \<Rightarrow> string \<Rightarrow> int_error_kind + nat" where
  "parse_unsigned limit s =
     (case s of
        [] \<Rightarrow> Inl EmptyInt
      | c # rest \<Rightarrow>
          (if rest = [] \<and> (c = CHR ''+'' \<or> c = CHR ''-'') then Inl InvalidDigit
           else if c = CHR ''+'' then digits_loop limit 0 rest
           else digits_loop limit 0 s))"

definition parse_u16 :: "string \<Rightarrow> int_error_kind + u16" where
  "parse_u16 s = map_sum id of_nat (parse_unsigned (2 ^ 16) s)"

definition parse_u32 :: "string \<Rightarrow> int_error_kind + u32" where
  "parse_u32 s = map_sum id of_nat (parse_unsigned (2 ^ 32) s)"

definition parse_u64 :: "string \<Rightarrow> int_error_kind + u64" where
  "parse_u64 s = map_sum id of_nat (parse_unsigned (2 ^ 64) s)"

text \<open>Below zero the digits are subtracted, as far as the least \<open>i64\<close>.\<close>

definition parse_i64 :: "string \<Rightarrow> int_error_kind + int" where
  "parse_i64 s =
     (case s of
        [] \<Rightarrow> Inl EmptyInt
      | c # rest \<Rightarrow>
          (if rest = [] \<and> (c = CHR ''+'' \<or> c = CHR ''-'') then Inl InvalidDigit
           else if c = CHR ''-''
           then map_sum (\<lambda>e. if e = PosOverflow then NegOverflow else e) (\<lambda>n. - int n) (digits_loop (2 ^ 63 + 1) 0 rest)
           else map_sum id int (digits_loop (2 ^ 63) 0 (if c = CHR ''+'' then rest else s))))"

section \<open>Addresses\<close>

text \<open>
  A parser reads a prefix of its input; \<open>None\<close> leaves the input where it was
  (\<open>read_atomically\<close>).
\<close>

type_synonym 'a parser = "string \<Rightarrow> ('a \<times> string) option"

definition read_given_char :: "char \<Rightarrow> unit parser" where
  "read_given_char c s = (case s of [] \<Rightarrow> None | d # rest \<Rightarrow> if d = c then Some ((), rest) else None)"

definition read_separator :: "char \<Rightarrow> nat \<Rightarrow> 'a parser \<Rightarrow> 'a parser" where
  "read_separator sep index inner s =
     (if 0 < index then Option.bind (read_given_char sep s) (\<lambda>(_, rest). inner rest) else inner s)"

definition digit_value :: "nat \<Rightarrow> string \<Rightarrow> nat" where
  "digit_value radix ds = foldl (\<lambda>n c. n * radix + the (to_digit radix c)) 0 ds"

text \<open>\<open>read_number\<close> with a bound on the digits; \<open>limit\<close> is the range of the result type.\<close>

definition read_number :: "nat \<Rightarrow> nat \<Rightarrow> bool \<Rightarrow> nat \<Rightarrow> nat parser" where
  "read_number radix max_digits allow_zero_prefix limit s =
     (let ds = takeWhile (\<lambda>c. to_digit radix c \<noteq> None) s;
          rest = dropWhile (\<lambda>c. to_digit radix c \<noteq> None) s in
      if max_digits < length ds then None
      else if ds = [] then None
      else if \<not> allow_zero_prefix \<and> hd ds = CHR ''0'' \<and> 1 < length ds then None
      else if digit_value radix ds < limit then Some (digit_value radix ds, rest)
      else None)"

definition read_ipv4_addr :: "ipv4_addr parser" where
  "read_ipv4_addr s =
     Option.bind (read_separator CHR ''.'' 0 (read_number 10 3 False 256) s) (\<lambda>(a, s).
     Option.bind (read_separator CHR ''.'' 1 (read_number 10 3 False 256) s) (\<lambda>(b, s).
     Option.bind (read_separator CHR ''.'' 2 (read_number 10 3 False 256) s) (\<lambda>(c, s).
     Option.bind (read_separator CHR ''.'' 3 (read_number 10 3 False 256) s) (\<lambda>(d, s).
     Some (Quad (of_nat a) (of_nat b) (of_nat c) (of_nat d), s)))))"

text \<open>
  \<open>read_groups\<close> from group \<open>i\<close> on: the groups read, whether the last two are an embedded IPv4
  address, and the rest of the input.
\<close>

function read_groups :: "nat \<Rightarrow> nat \<Rightarrow> string \<Rightarrow> u16 list \<times> bool \<times> string" where
  "read_groups limit i s =
     (if limit \<le> i then ([], False, s)
      else
        (case (if i < limit - 1 then read_separator CHR '':'' i read_ipv4_addr s else None) of
           Some (Quad a b c d, s') \<Rightarrow> ([u16_from_be_bytes a b, u16_from_be_bytes c d], True, s')
         | None \<Rightarrow>
             (case read_separator CHR '':'' i (read_number 16 4 True 65536) s of
                None \<Rightarrow> ([], False, s)
              | Some (g, s') \<Rightarrow>
                  (case read_groups limit (i + 1) s' of
                     (gs, v4, s'') \<Rightarrow> (of_nat g # gs, v4, s'')))))"
  by pat_completeness auto
termination by (relation "measure (\<lambda>(limit, i, s). limit - i)") auto

declare read_groups.simps [simp del]

text \<open>\<open>Ipv6Addr::from([u16; 8])\<close>\<close>

definition high_byte :: "u16 \<Rightarrow> u8" where "high_byte g = ucast (drop_bit 8 g)"

definition low_byte :: "u16 \<Rightarrow> u8" where "low_byte g = ucast g"

definition two_groups :: "u16 \<Rightarrow> u16 \<Rightarrow> quad" where
  "two_groups g h = Quad (high_byte g) (low_byte g) (high_byte h) (low_byte h)"

definition ipv6_from_groups :: "u16 list \<Rightarrow> ipv6_addr" where
  "ipv6_from_groups gs =
     Ipv6Addr (two_groups (gs ! 0) (gs ! 1)) (two_groups (gs ! 2) (gs ! 3))
       (two_groups (gs ! 4) (gs ! 5)) (two_groups (gs ! 6) (gs ! 7))"

definition read_ipv6_addr :: "ipv6_addr parser" where
  "read_ipv6_addr s =
     (case read_groups 8 0 s of
        (head, head_ipv4, s1) \<Rightarrow>
          (if length head = 8 then Some (ipv6_from_groups head, s1)
           else if head_ipv4 then None
           else
             Option.bind (read_given_char CHR '':'' s1) (\<lambda>(_, s2).
             Option.bind (read_given_char CHR '':'' s2) (\<lambda>(_, s3).
             (case read_groups (8 - (length head + 1)) 0 s3 of
                (tail, _, s4) \<Rightarrow>
                  Some (ipv6_from_groups (head @ replicate (8 - length head - length tail) 0 @ tail), s4))))))"

definition read_ip_addr :: "ip_addr parser" where
  "read_ip_addr s =
     (case read_ipv4_addr s of
        Some (a, s') \<Rightarrow> Some (V4 a, s')
      | None \<Rightarrow> map_option (\<lambda>(a, s'). (V6 a, s')) (read_ipv6_addr s))"

text \<open>\<open>parse_with\<close>: the whole input must be read.\<close>

definition parse_with :: "'a parser \<Rightarrow> string \<Rightarrow> 'a option" where
  "parse_with p s = (case p s of Some (a, []) \<Rightarrow> Some a | _ \<Rightarrow> None)"

definition parse_ip_addr :: "string \<Rightarrow> string + ip_addr" where
  "parse_ip_addr s = ok_or (parse_with read_ip_addr s) ''invalid IP address syntax''"

definition parse_ipv6_addr :: "string \<Rightarrow> string + ipv6_addr" where
  "parse_ipv6_addr s = ok_or (parse_with read_ipv6_addr s) ''invalid IPv6 address syntax''"

section \<open>Numbers are read back\<close>

definition digit_char :: "nat \<Rightarrow> char" where
  "digit_char d = char_of (if d < 10 then 48 + d else 87 + d)"

fun radix_digits :: "nat \<Rightarrow> nat \<Rightarrow> string" where
  "radix_digits r n =
     (if n < r \<or> r < 2 then [digit_char n] else radix_digits r (n div r) @ [digit_char (n mod r)])"

declare radix_digits.simps [simp del]

abbreviation hex_digits :: "nat \<Rightarrow> string" where
  "hex_digits \<equiv> radix_digits 16"

lemma of_char_digit: "d < 16 \<Longrightarrow> (of_char (digit_char d) :: nat) = (if d < 10 then 48 + d else 87 + d)"
  by (simp add: digit_char_def)

lemma to_digit_char: "d < r \<Longrightarrow> r \<le> 16 \<Longrightarrow> to_digit r (digit_char d) = Some d"
  by (simp add: to_digit_def of_char_digit Let_def)

lemma dec_digits_radix: "dec_digits n = radix_digits 10 n"
proof (induction n rule: dec_digits.induct)
  case (1 n)
  then show ?case
    by (subst dec_digits.simps, subst radix_digits.simps) (simp add: digit_char_def)
qed

lemma radix_digits_ne [simp]: "radix_digits r n \<noteq> []"
  by (subst radix_digits.simps) simp

lemma radix_digits_all:
  assumes "2 \<le> r" and "r \<le> 16" and "c \<in> set (radix_digits r n)"
  shows "to_digit r c \<noteq> None"
  using assms
proof (induction r n rule: radix_digits.induct)
  case (1 r n)
  have mod: "n mod r < r" using "1.prems"(1) by simp
  show ?case
  proof (cases "n < r")
    case True
    then show ?thesis using "1.prems" to_digit_char [of n r] by (subst (asm) radix_digits.simps) simp
  next
    case False
    then have "c \<in> set (radix_digits r (n div r)) \<or> c = digit_char (n mod r)"
      using "1.prems" by (subst (asm) radix_digits.simps) auto
    then show ?thesis using 1 False to_digit_char [OF mod] by auto
  qed
qed

lemma digits_are_ascii: "c \<in> set (radix_digits 10 n) \<Longrightarrow> is_ascii_digit c"
  using radix_digits_all [of 10 c n] by (auto simp: to_digit_def is_ascii_digit_def Let_def split: if_splits)

lemma digit_value_snoc: "digit_value r (ds @ [c]) = digit_value r ds * r + the (to_digit r c)"
  by (simp add: digit_value_def)

lemma digit_value_digits:
  assumes "2 \<le> r" and "r \<le> 16"
  shows "digit_value r (radix_digits r n) = n"
  using assms
proof (induction r n rule: radix_digits.induct)
  case (1 r n)
  have mod: "n mod r < r" using "1.prems"(1) by simp
  show ?case
    using 1 to_digit_char [of n r] to_digit_char [OF mod]
    by (subst radix_digits.simps) (auto simp: digit_value_snoc, simp add: digit_value_def)
qed

lemma length_radix_digits:
  assumes "2 \<le> r" and "n < r ^ k" and "0 < k"
  shows "length (radix_digits r n) \<le> k"
  using assms
proof (induction r n arbitrary: k rule: radix_digits.induct)
  case (1 r n)
  show ?case
  proof (cases "n < r")
    case True
    then show ?thesis using "1.prems" by (subst radix_digits.simps) simp
  next
    case False
    obtain m where k: "k = Suc m" using "1.prems"(3) by (cases k) auto
    with False "1.prems" have "0 < m" by (cases m) auto
    moreover have "n div r < r ^ m"
      using "1.prems"(1,2) k by (simp add: less_mult_imp_div_less mult.commute)
    ultimately have "length (radix_digits r (n div r)) \<le> m" using 1 False by simp
    then show ?thesis using False k "1.prems"(1) by (subst radix_digits.simps) simp
  qed
qed

lemma radix_digits_leading:
  assumes "2 \<le> r" and "r \<le> 16" and "hd (radix_digits r n) = CHR ''0''"
  shows "length (radix_digits r n) = 1"
proof -
  have zero: "digit_char d \<noteq> CHR ''0''" if "d < 16" "0 < d" for d
  proof
    assume "digit_char d = CHR ''0''"
    then have "(of_char (digit_char d) :: nat) = of_char CHR ''0''" by simp
    then show False using of_char_digit [OF that(1)] that by (simp split: if_splits)
  qed
  have "0 < n \<Longrightarrow> hd (radix_digits r n) \<noteq> CHR ''0''"
    using assms(1,2)
  proof (induction r n rule: radix_digits.induct)
    case (1 r n)
    show ?case
    proof (cases "n < r")
      case True
      then show ?thesis using 1 zero [of n] by (subst radix_digits.simps) simp
    next
      case False
      then have "0 < n div r" using 1 by (simp add: div_greater_zero_iff)
      then show ?thesis using 1 False by (subst radix_digits.simps) simp
    qed
  qed
  then have "n = 0" using assms(3) by auto
  then show ?thesis using assms(1) by (subst radix_digits.simps) simp
qed

text \<open>What ends a number: the end of the input, or a character that is no digit.\<close>

definition ends :: "nat \<Rightarrow> string \<Rightarrow> bool" where
  "ends r rest \<longleftrightarrow> (case rest of [] \<Rightarrow> True | c # _ \<Rightarrow> to_digit r c = None)"

lemma read_number_digits:
  assumes "2 \<le> r" and "r \<le> 16" and "n < r ^ k" and "0 < k" and "n < limit" and "ends r rest"
  shows "read_number r k z limit (radix_digits r n @ rest) = Some (n, rest)"
proof -
  let ?p = "\<lambda>c. to_digit r c \<noteq> None"
  have all: "\<forall>c \<in> set (radix_digits r n). ?p c" using radix_digits_all [OF assms(1,2)] by blast
  have "takeWhile ?p rest = []" "dropWhile ?p rest = rest" using assms(6) by (cases rest; simp add: ends_def)+
  then have "takeWhile ?p (radix_digits r n @ rest) = radix_digits r n"
    "dropWhile ?p (radix_digits r n @ rest) = rest"
    using all by (simp_all add: takeWhile_append dropWhile_append)
  then show ?thesis
    using digit_value_digits [OF assms(1,2), of n] length_radix_digits [OF assms(1,3,4)] assms(5)
      radix_digits_leading [OF assms(1,2), of n]
    by (auto simp: read_number_def Let_def)
qed

lemma digits_loop_dec: "n < limit \<Longrightarrow> digits_loop limit 0 (radix_digits 10 n @ s) = digits_loop limit n s"
proof (induction "10 :: nat" n arbitrary: s rule: radix_digits.induct)
  case (1 n)
  show ?case
  proof (cases "n < 10")
    case True
    then show ?thesis using to_digit_char [of n 10] "1.prems" by (subst radix_digits.simps) simp
  next
    case False
    have "n div 10 * 10 + n mod 10 = n" by simp
    then have "n div 10 * 10 < limit" using "1.prems" by linarith
    then show ?thesis
      using 1 False to_digit_char [of "n mod 10" 10] by (subst radix_digits.simps) simp
  qed
qed

lemma parse_unsigned_dec:
  assumes "n < limit"
  shows "parse_unsigned limit (dec_digits n) = Inr n"
proof -
  obtain c rest where d: "radix_digits 10 n = c # rest" by (cases "radix_digits 10 n") auto
  have "to_digit 10 c \<noteq> None" by (rule radix_digits_all [of _ _ n]) (simp_all add: d)
  then have "c \<noteq> CHR ''+''" "c \<noteq> CHR ''-''" by (auto simp: to_digit_def Let_def)
  then show ?thesis
    using digits_loop_dec [OF assms, of "[]"] by (simp add: parse_unsigned_def dec_digits_radix d)
qed

section \<open>Addresses are read back\<close>

fun show_ipv4 :: "ipv4_addr \<Rightarrow> string" where
  "show_ipv4 (Quad a b c d) =
     dec_digits (unat a) @ ''.'' @ dec_digits (unat b) @ ''.'' @ dec_digits (unat c) @ ''.'' @ dec_digits (unat d)"

text \<open>Groups from position \<open>i\<close> on, each but the first of the address after a colon.\<close>

fun groups_text :: "nat \<Rightarrow> u16 list \<Rightarrow> string" where
  "groups_text i [] = []"
| "groups_text i (g # gs) =
     (if 0 < i then '':'' else []) @ hex_digits (unat g) @ groups_text (i + 1) gs"

text \<open>The texts of an address: a dotted quad, all eight groups, or groups around one \<open>::\<close>.\<close>

inductive ip_text :: "string \<Rightarrow> ip_addr \<Rightarrow> bool" where
  ip_text_v4: "ip_text (show_ipv4 a) (V4 a)"
| ip_text_full: "length gs = 8 \<Longrightarrow> ip_text (groups_text 0 gs) (V6 (ipv6_from_groups gs))"
| ip_text_compressed: "length hs + length ts \<le> 7 \<Longrightarrow>
    ip_text (groups_text 0 hs @ ''::'' @ groups_text 0 ts)
      (V6 (ipv6_from_groups (hs @ replicate (8 - length hs - length ts) 0 @ ts)))"

lemma ends_simps [simp]:
  "ends r []" "ends 10 (CHR ''.'' # s)" "ends 10 (CHR '':'' # s)" "ends 16 (CHR '':'' # s)"
  by (simp_all add: ends_def to_digit_def)

lemma read_octet:
  assumes "ends 10 rest"
  shows "read_number 10 3 False 256 (dec_digits (unat (a :: u8)) @ rest) = Some (unat a, rest)"
  using read_number_digits [of 10 "unat a" 3 256 rest False] unsigned_less [of a] assms
  by (simp add: dec_digits_radix)

lemma read_ipv4_text:
  assumes "ends 10 rest"
  shows "read_ipv4_addr (show_ipv4 a @ rest) = Some (a, rest)"
  using read_octet assms
  by (cases a) (simp add: read_ipv4_addr_def read_separator_def read_given_char_def)

text \<open>No dotted quad starts where the first decimal digits are not followed by a dot.\<close>

lemma read_ipv4_None:
  assumes "\<forall>t. dropWhile (\<lambda>c. to_digit 10 c \<noteq> None) s \<noteq> CHR ''.'' # t"
  shows "read_ipv4_addr s = None"
proof (cases "read_number 10 3 False 256 s")
  case None
  then show ?thesis by (simp add: read_ipv4_addr_def read_separator_def)
next
  case (Some x)
  then have "snd x = dropWhile (\<lambda>c. to_digit 10 c \<noteq> None) s"
    by (auto simp: read_number_def Let_def split: if_splits)
  then have "\<forall>t. snd x \<noteq> CHR ''.'' # t" using assms by metis
  then have "read_given_char CHR ''.'' (snd x) = None" by (cases "snd x") (auto simp: read_given_char_def)
  then show ?thesis using Some by (cases x) (simp add: read_ipv4_addr_def read_separator_def)
qed

lemma dropWhile_digits:
  assumes "\<forall>c \<in> set ds. P c" and "\<not> P CHR ''.''" and "\<forall>t. rest \<noteq> CHR ''.'' # t" and "\<forall>c t. rest = c # t \<longrightarrow> \<not> Q c"
    and "\<And>c. Q c \<Longrightarrow> P c"
  shows "\<forall>t. dropWhile Q (ds @ rest) \<noteq> CHR ''.'' # t"
  using assms by (induction ds) (auto simp: dropWhile_eq_Cons_conv split: if_splits intro: list.exhaust [of rest])

lemma read_ipv4_group_None:
  assumes "rest = [] \<or> (\<exists>t. rest = CHR '':'' # t)"
  shows "read_ipv4_addr (hex_digits n @ rest) = None"
proof (rule read_ipv4_None, rule dropWhile_digits [where P = "\<lambda>c. to_digit 16 c \<noteq> None"])
  show "\<forall>c \<in> set (hex_digits n). to_digit 16 c \<noteq> None" using radix_digits_all [of 16] by simp
  show "\<And>c. to_digit 10 c \<noteq> None \<Longrightarrow> to_digit 16 c \<noteq> None"
    by (auto simp: to_digit_def Let_def split: if_splits)
qed (use assms in \<open>auto simp: to_digit_def\<close>)

lemma read_colon_None:
  "read_number 16 k z limit [] = None" "read_number 16 k z limit (CHR '':'' # t) = None"
  "read_ipv4_addr [] = None" "read_ipv4_addr (CHR '':'' # t) = None"
proof -
  show "read_number 16 k z limit [] = None" "read_number 16 k z limit (CHR '':'' # t) = None"
    by (simp_all add: read_number_def to_digit_def)
  show "read_ipv4_addr [] = None" "read_ipv4_addr (CHR '':'' # t) = None"
    by (rule read_ipv4_None; simp add: to_digit_def)+
qed

lemma read_group:
  assumes "rest = [] \<or> (\<exists>t. rest = CHR '':'' # t)"
  shows "read_number 16 4 True 65536 (hex_digits (unat (g :: u16)) @ rest) = Some (unat g, rest)"
proof -
  have "ends 16 rest" using assms by auto
  then show ?thesis using read_number_digits [of 16 "unat g" 4 65536 rest True] unsigned_less [of g] by simp
qed

lemma groups_text_rest:
  assumes "0 < i" and "rest = [] \<or> (\<exists>t. rest = CHR '':'' # t)"
  shows "groups_text i gs @ rest = [] \<or> (\<exists>t. groups_text i gs @ rest = CHR '':'' # t)"
  using assms by (cases gs) auto

lemma read_groups_text:
  assumes "i + length gs \<le> limit" and "rest = [] \<or> (\<exists>t. rest = ''::'' @ t)"
  shows "read_groups limit i (groups_text i gs @ rest) = (gs, False, rest)"
  using assms
proof (induction gs arbitrary: i)
  case Nil
  then show ?case
    by (subst read_groups.simps) (auto simp: read_separator_def read_given_char_def read_colon_None)
next
  case (Cons g gs)
  have colon: "rest = [] \<or> (\<exists>t. rest = CHR '':'' # t)" using Cons.prems(2) by auto
  note next_rest = groups_text_rest [OF zero_less_Suc colon, of i gs]
  have IH: "read_groups limit (i + 1) (groups_text (i + 1) gs @ rest) = (gs, False, rest)"
    using Cons by simp
  have none: "read_separator CHR '':'' i read_ipv4_addr (groups_text i (g # gs) @ rest) = None"
    using read_ipv4_group_None [OF next_rest] by (cases i) (simp_all add: read_separator_def read_given_char_def)
  have some: "read_separator CHR '':'' i (read_number 16 4 True 65536) (groups_text i (g # gs) @ rest) =
      Some (unat g, groups_text (i + 1) gs @ rest)"
    using read_group [OF next_rest] by (cases i) (simp_all add: read_separator_def read_given_char_def)
  show ?case
    using Cons.prems(1) none some IH by (subst read_groups.simps) (simp del: groups_text.simps)
qed

lemma read_ipv6_text:
  "length gs = 8 \<Longrightarrow> read_ipv6_addr (groups_text 0 gs) = Some (ipv6_from_groups gs, [])"
  "length hs + length ts \<le> 7 \<Longrightarrow>
   read_ipv6_addr (groups_text 0 hs @ ''::'' @ groups_text 0 ts) =
     Some (ipv6_from_groups (hs @ replicate (8 - length hs - length ts) 0 @ ts), [])"
proof -
  show "read_ipv6_addr (groups_text 0 gs) = Some (ipv6_from_groups gs, [])" if "length gs = 8"
    using read_groups_text [of 0 gs 8 "[]"] that by (simp add: read_ipv6_addr_def)
  show "read_ipv6_addr (groups_text 0 hs @ ''::'' @ groups_text 0 ts) =
     Some (ipv6_from_groups (hs @ replicate (8 - length hs - length ts) 0 @ ts), [])"
    if "length hs + length ts \<le> 7"
    using read_groups_text [of 0 hs 8 "''::'' @ groups_text 0 ts"]
      read_groups_text [of 0 ts "8 - (length hs + 1)" "[]"] that
    by (simp add: read_ipv6_addr_def read_given_char_def)
qed

lemma read_ipv4_ipv6_None:
  "rest = [] \<or> (\<exists>t. rest = CHR '':'' # t) \<Longrightarrow> read_ipv4_addr (groups_text 0 gs @ rest) = None"
  using read_ipv4_group_None groups_text_rest [of 1 rest] by (cases gs) (auto simp: read_colon_None)

theorem parse_ip_text: "ip_text s a \<Longrightarrow> parse_ip_addr s = Inr a"
proof (induction rule: ip_text.induct)
  case (ip_text_v4 a)
  then show ?case
    using read_ipv4_text [of "[]" a] by (simp add: parse_ip_addr_def parse_with_def read_ip_addr_def)
next
  case (ip_text_full gs)
  then show ?case
    using read_ipv6_text(1) read_ipv4_ipv6_None [of "[]" gs]
    by (simp add: parse_ip_addr_def parse_with_def read_ip_addr_def)
next
  case (ip_text_compressed hs ts)
  then show ?case
    using read_ipv6_text(2) read_ipv4_ipv6_None [of "''::'' @ groups_text 0 ts" hs]
    by (simp add: parse_ip_addr_def parse_with_def read_ip_addr_def)
qed

text \<open>Every address has a text.\<close>

lemma two_groups_surj: "\<exists>g h. q = two_groups g h"
proof -
  obtain a b c d where q: "q = Quad a b c d" by (cases q)
  have above: "\<not> bit (y :: u8) (8 + n)" for y n using bit_imp_le_length [of y "8 + n"] by auto
  have "high_byte (u16_from_be_bytes x y) = x \<and> low_byte (u16_from_be_bytes x y) = y" for x y :: u8
    by (auto simp: high_byte_def low_byte_def u16_from_be_bytes_def above intro!: bit_word_eqI simp: bit_simps)
  then show ?thesis using q by (metis two_groups_def)
qed

lemma ip_text_exists: "\<exists>s. ip_text s a"
proof (cases a)
  case (V4 q)
  then show ?thesis using ip_text_v4 by blast
next
  case (V6 v)
  obtain p q r s where v: "v = Ipv6Addr p q r s" by (cases v)
  obtain g0 g1 g2 g3 g4 g5 g6 g7 where "p = two_groups g0 g1" "q = two_groups g2 g3"
    "r = two_groups g4 g5" "s = two_groups g6 g7"
    using two_groups_surj by metis
  then have "v = ipv6_from_groups [g0, g1, g2, g3, g4, g5, g6, g7]" by (simp add: v ipv6_from_groups_def)
  then show ?thesis using V6 ip_text_full [of "[g0, g1, g2, g3, g4, g5, g6, g7]"] by auto
qed

end
