(* ===== verification/CliArgs.thy ===== *)
theory CliArgs
  imports StdParse Sim
begin

text \<open>
  \<open>src/bin/common/recv_args.rs\<close>: the command-line arguments of the receiver binaries. Errors are the
  messages the binaries print. Lemmas: every command line written for a group, a port, a source and
  an interface - positional or as flags - is read back as them; and what is accepted is usable.
\<close>

section \<open>Data\<close>

record receive_cli_args =
  cli_group :: ip_addr
  cli_dst_port :: u16
  cli_source :: "ip_addr option"
  cli_interface :: "ip_addr option"
  cli_interface_index :: "u32 option"

record raw_receive_cli_args =
  rcli_group :: ip_addr
  rcli_source :: "ip_addr option"
  rcli_interface :: "ip_addr option"
  rcli_interface_index :: "u32 option"

type_synonym parsed_interface = "ip_addr option \<times> u32 option"
type_synonym parsed_source_and_interface = "ip_addr option \<times> ip_addr option \<times> u32 option"

fun ip_is_ipv6 :: "ip_addr \<Rightarrow> bool" where
  "ip_is_ipv6 (V4 _) = False"
| "ip_is_ipv6 (V6 _) = True"

section \<open>Values\<close>

text \<open>\<open>format!("invalid {name} '{value}': {err}")\<close>\<close>

definition invalid_text :: "string \<Rightarrow> string \<Rightarrow> string \<Rightarrow> string" where
  "invalid_text name value err =
     ''invalid '' @ name @ '' '' @ [CHR 39] @ value @ [CHR 39] @ '': '' @ err"

definition cli_parse_ip :: "string \<Rightarrow> string \<Rightarrow> string + ip_addr" where
  "cli_parse_ip name value = map_sum (invalid_text name value) id (parse_ip_addr value)"

definition cli_parse_port :: "string \<Rightarrow> string + u16" where
  "cli_parse_port value =
     (case parse_u16 value of
        Inl err \<Rightarrow> Inl (invalid_text ''dst_port'' value (parse_int_error_display err))
      | Inr port \<Rightarrow> if port = 0 then Inl ''dst_port must not be 0'' else Inr port)"

definition interface_name_to_index :: "'k os \<Rightarrow> string \<Rightarrow> ('k, string, u32) io" where
  "interface_name_to_index os name =
     (if CHR 0x00 \<in> set name then io_throw ''interface name must not contain NUL bytes''
      else (\<lambda>k. case os_if_nametoindex os name k of (index, k') \<Rightarrow>
        (if index = 0 then Inl ''unknown interface name'' else Inr index, k')))"

definition parse_interface_scope :: "'k os \<Rightarrow> string \<Rightarrow> ('k, string, u32) io" where
  "parse_interface_scope os value =
     (if list_all is_ascii_digit value
      then io_lift
        (case parse_u32 value of
           Inl err \<Rightarrow> Inl (invalid_text ''interface index'' value (parse_int_error_display err))
         | Inr scope \<Rightarrow> if scope = 0 then Inl ''interface index must not be 0'' else Inr scope)
      else io_map_err (invalid_text ''interface scope'' value) (interface_name_to_index os value))"

definition parse_interface_value :: "'k os \<Rightarrow> ip_addr \<Rightarrow> string \<Rightarrow> ('k, string, parsed_interface) io" where
  "parse_interface_value os grp value =
     (let plain = io_bind (io_lift (cli_parse_ip ''interface'' value)) (\<lambda>ip. io_return (Some ip, None)) in
      if ip_is_ipv6 grp
      then
        (case rsplit_once CHR ''%'' value of
           Some (addr, scope) \<Rightarrow>
             io_bind (io_lift (map_sum (invalid_text ''interface'' value) id (parse_ipv6_addr addr))) (\<lambda>addr.
             io_bind (parse_interface_scope os scope) (\<lambda>scope.
             io_return (Some (V6 addr), Some scope)))
         | None \<Rightarrow>
             (if list_all is_ascii_digit value
              then io_bind (parse_interface_scope os value) (\<lambda>scope. io_return (None, Some scope))
              else plain))
      else plain)"

section \<open>Arguments\<close>

text \<open>The loop of \<open>parse_flag_args\<close>, from the argument at \<open>index\<close> on.\<close>

fun flag_loop ::
  "'k os \<Rightarrow> ip_addr \<Rightarrow> string list \<Rightarrow> parsed_source_and_interface \<Rightarrow>
   ('k, string, parsed_source_and_interface) io" where
  "flag_loop os grp [] st = io_return st"
| "flag_loop os grp [flag] st =
     io_throw
       (if flag = ''--source'' then ''missing value after --source''
        else if flag = ''--interface'' then ''missing value after --interface''
        else ''unexpected argument '' @ [CHR 39] @ flag @ [CHR 39])"
| "flag_loop os grp (flag # value # rest) (source, interface, interface_index) =
     (if flag = ''--source''
      then io_bind (io_lift (cli_parse_ip ''source'' value)) (\<lambda>ip.
             flag_loop os grp rest (Some ip, interface, interface_index))
      else if flag = ''--interface''
      then io_bind (parse_interface_value os grp value) (\<lambda>(ifc, ix).
             flag_loop os grp rest (source, ifc, ix))
      else io_throw (''unexpected argument '' @ [CHR 39] @ flag @ [CHR 39]))"

definition parse_flag_args ::
  "'k os \<Rightarrow> ip_addr \<Rightarrow> string list \<Rightarrow> ('k, string, parsed_source_and_interface) io" where
  "parse_flag_args os grp remainder = flag_loop os grp remainder (None, None, None)"

text \<open>The first loop of \<open>parse_mixed_args\<close>: positional arguments, and flags with their values.\<close>

fun split_args :: "string list \<Rightarrow> string list \<Rightarrow> string list \<Rightarrow> string + (string list \<times> string list)" where
  "split_args [] positional flagged = Inr (positional, flagged)"
| "split_args [a] positional flagged =
     (if take 2 a = ''--'' then Inl (''missing value after '' @ a) else Inr (positional @ [a], flagged))"
| "split_args (a # value # rest) positional flagged =
     (if take 2 a = ''--'' then split_args rest positional (flagged @ [a, value])
      else split_args (value # rest) (positional @ [a]) flagged)"

text \<open>\<open>positional.next()\<close>\<close>

definition next_arg :: "string list \<Rightarrow> string option \<times> string list" where
  "next_arg args = (case args of [] \<Rightarrow> (None, []) | a # rest \<Rightarrow> (Some a, rest))"

definition parse_mixed_args ::
  "'k os \<Rightarrow> ip_addr \<Rightarrow> string list \<Rightarrow> ('k, string, parsed_source_and_interface) io" where
  "parse_mixed_args os grp remainder =
     io_bind (io_lift (split_args remainder [] [])) (\<lambda>(positional, flagged).
     io_bind (parse_flag_args os grp flagged) (\<lambda>(source, interface, interface_index).
     io_bind
       (if source = None
        then (case next_arg positional of
                (Some value, rest) \<Rightarrow>
                  io_bind (io_lift (cli_parse_ip ''source'' value)) (\<lambda>ip. io_return (Some ip, rest))
              | (None, rest) \<Rightarrow> io_return (source, rest))
        else io_return (source, positional)) (\<lambda>(source, positional).
     io_bind
       (if interface = None
        then (case next_arg positional of
                (Some value, rest) \<Rightarrow>
                  io_bind (parse_interface_value os grp value) (\<lambda>(ifc, ix). io_return (ifc, ix, rest))
              | (None, rest) \<Rightarrow> io_return (interface, interface_index, rest))
        else io_return (interface, interface_index, positional)) (\<lambda>(interface, interface_index, positional).
     case next_arg positional of
       (Some _, _) \<Rightarrow> io_throw ''invalid arguments''
     | (None, _) \<Rightarrow> io_return (source, interface, interface_index)))))"

definition not_multicast_text :: "'k os \<Rightarrow> ip_addr \<Rightarrow> string" where
  "not_multicast_text os grp = ''group address '' @ os_show_ip os grp @ '' is not multicast''"

definition parse_receive_cli_args :: "'k os \<Rightarrow> string list \<Rightarrow> ('k, string, receive_cli_args) io" where
  "parse_receive_cli_args os args =
     (if length args < 3 then io_throw ''invalid arguments''
      else
        io_bind (io_lift (cli_parse_ip ''group'' (args ! 1))) (\<lambda>grp.
        io_bind (io_lift (cli_parse_port (args ! 2))) (\<lambda>dst_port.
        io_bind (parse_mixed_args os grp (drop 3 args)) (\<lambda>(source, interface, interface_index).
        if \<not> ip_is_multicast grp then io_throw (not_multicast_text os grp)
        else io_return
          \<lparr>cli_group = grp, cli_dst_port = dst_port, cli_source = source, cli_interface = interface,
           cli_interface_index = interface_index\<rparr>))))"

definition parse_raw_receive_cli_args :: "'k os \<Rightarrow> string list \<Rightarrow> ('k, string, raw_receive_cli_args) io" where
  "parse_raw_receive_cli_args os args =
     (if length args < 2 then io_throw ''invalid arguments''
      else
        io_bind (io_lift (cli_parse_ip ''group'' (args ! 1))) (\<lambda>grp.
        io_bind (parse_mixed_args os grp (drop 2 args)) (\<lambda>(source, interface, interface_index).
        if \<not> ip_is_multicast grp then io_throw (not_multicast_text os grp)
        else io_return
          \<lparr>rcli_group = grp, rcli_source = source, rcli_interface = interface,
           rcli_interface_index = interface_index\<rparr>)))"

section \<open>What the texts contain\<close>

lemma text_chars:
  assumes "ip_text s a" and "c \<in> set s"
  shows "to_digit 16 c \<noteq> None \<or> c = CHR ''.'' \<or> c = CHR '':''"
proof -
  have dec: "to_digit 16 c \<noteq> None" if "c \<in> set (dec_digits n)" for n
    using digits_are_ascii [of c n] that by (auto simp: dec_digits_radix to_digit_def is_ascii_digit_def Let_def)
  have groups: "to_digit 16 c \<noteq> None \<or> c = CHR '':''" if "c \<in> set (groups_text i gs)" for i gs
    using that radix_digits_all [of 16 c] by (induction gs arbitrary: i) (auto split: if_splits)
  from assms show ?thesis
  proof cases
    case (ip_text_v4 q)
    then show ?thesis using assms(2) dec by (cases q) auto
  qed (use assms(2) groups in auto)
qed

lemma text_has_separator:
  assumes "ip_text s a"
  shows "\<exists>c \<in> set s. \<not> is_ascii_digit c"
  using assms
proof cases
  case (ip_text_v4 q)
  then show ?thesis by (cases q) (auto simp: is_ascii_digit_def intro: bexI [of _ "CHR ''.''"])
next
  case (ip_text_full gs)
  then have "CHR '':'' \<in> set s" by (auto simp: length_Suc_conv eval_nat_numeral)
  then show ?thesis by (auto simp: is_ascii_digit_def intro: bexI [of _ "CHR '':''"])
next
  case (ip_text_compressed hs ts)
  then show ?thesis by (auto simp: is_ascii_digit_def intro: bexI [of _ "CHR '':''"])
qed

lemma text_no_percent: "ip_text s a \<Longrightarrow> CHR ''%'' \<notin> set s"
  using text_chars [of s a "CHR ''%''"] by (auto simp: to_digit_def)

lemma text_no_flag: "ip_text s a \<Longrightarrow> take 2 s \<noteq> ''--''"
proof
  assume "ip_text s a" and "take 2 s = ''--''"
  moreover from this have "CHR ''-'' \<in> set s" by (metis in_set_takeD list.set_intros(1))
  ultimately show False using text_chars [of s a "CHR ''-''"] by (auto simp: to_digit_def)
qed

lemma parse_ip_argument: "ip_text s a \<Longrightarrow> cli_parse_ip name s = Inr a"
  by (simp add: cli_parse_ip_def parse_ip_text)

lemma parse_ipv6_text:
  assumes "ip_text s (V6 v)"
  shows "parse_ipv6_addr s = Inr v"
  using assms
proof cases
  case (ip_text_full gs)
  then show ?thesis using read_ipv6_text(1) by (simp add: parse_ipv6_addr_def parse_with_def)
next
  case (ip_text_compressed hs ts)
  then show ?thesis using read_ipv6_text(2) [of hs ts] by (simp add: parse_ipv6_addr_def parse_with_def)
qed

lemma parse_port_text: "port \<noteq> 0 \<Longrightarrow> cli_parse_port (dec_digits (unat port)) = Inr port"
  using parse_unsigned_dec [of "unat port" "2 ^ 16"] unsigned_less [of port, where 'a = nat]
  by (simp add: cli_parse_port_def parse_u16_def)

section \<open>Interfaces are read back\<close>

text \<open>
  The texts of an interface for a group: an address, and for an IPv6 group also an address with a
  numeric scope, or a bare index.
\<close>

inductive interface_text :: "ip_addr \<Rightarrow> string \<Rightarrow> parsed_interface \<Rightarrow> bool" where
  interface_text_ip: "ip_text s a \<Longrightarrow> interface_text grp s (Some a, None)"
| interface_text_scoped: "ip_is_ipv6 grp \<Longrightarrow> ip_text s (V6 v) \<Longrightarrow> ix \<noteq> 0 \<Longrightarrow>
    interface_text grp (s @ ''%'' @ dec_digits (unat ix)) (Some (V6 v), Some ix)"
| interface_text_index: "ip_is_ipv6 grp \<Longrightarrow> ix \<noteq> 0 \<Longrightarrow>
    interface_text grp (dec_digits (unat ix)) (None, Some ix)"

lemma parse_scope_text:
  assumes "ix \<noteq> 0"
  shows "parse_interface_scope os (dec_digits (unat ix)) k = (Inr ix, k)"
  using parse_unsigned_dec [of "unat ix" "2 ^ 32"] unsigned_less [of ix, where 'a = nat] assms
  by (simp add: parse_interface_scope_def parse_u32_def list_all_iff dec_digits_radix digits_are_ascii)

lemma dec_no_percent: "CHR ''%'' \<notin> set (dec_digits n)"
  using digits_are_ascii [of "CHR ''%''" n] by (auto simp: dec_digits_radix is_ascii_digit_def)

lemma parse_interface_text:
  assumes "interface_text grp s i"
  shows "parse_interface_value os grp s k = (Inr i, k)"
  using assms
proof cases
  case (interface_text_ip a)
  then have "rsplit_once CHR ''%'' s = None" by (simp add: rsplit_once_last(2) text_no_percent)
  moreover have "\<not> list_all is_ascii_digit s" using text_has_separator [OF interface_text_ip(2)] by (auto simp: list_all_iff)
  ultimately show ?thesis
    using interface_text_ip by (simp add: parse_interface_value_def parse_ip_argument io_bind_def Let_def)
next
  case (interface_text_scoped t v ix)
  then show ?thesis
    using rsplit_once_last(1) [OF dec_no_percent, of t "unat ix"] parse_scope_text [OF interface_text_scoped(5), of os k]
    by (simp add: parse_interface_value_def parse_ipv6_text io_bind_def)
next
  case (interface_text_index ix)
  then show ?thesis
    using parse_scope_text [OF interface_text_index(4), of os k] rsplit_once_last(2) [OF dec_no_percent]
    by (simp add: parse_interface_value_def io_bind_def list_all_iff dec_digits_radix digits_are_ascii)
qed

text \<open>Neither an address nor a number looks like a flag.\<close>

lemma dec_no_flag: "take 2 (dec_digits n) \<noteq> ''--''"
proof
  assume "take 2 (dec_digits n) = ''--''"
  then have "CHR ''-'' \<in> set (dec_digits n)" by (metis in_set_takeD list.set_intros(1))
  then show False using digits_are_ascii [of "CHR ''-''" n] by (auto simp: dec_digits_radix is_ascii_digit_def)
qed

lemma interface_no_flag: "interface_text grp s i \<Longrightarrow> take 2 s \<noteq> ''--''"
proof (induction rule: interface_text.induct)
  case (interface_text_scoped grp s v ix)
  show ?case
  proof
    assume flag: "take 2 (s @ ''%'' @ dec_digits (unat ix)) = ''--''"
    obtain c t where s: "s = c # t" using text_has_separator [OF interface_text_scoped(2)] by (cases s) auto
    with flag have "c = CHR ''-''" by (simp add: numeral_2_eq_2)
    then show False using text_chars [OF interface_text_scoped(2), of c] s by (auto simp: to_digit_def)
  qed
qed (use dec_no_flag text_no_flag in blast)+

section \<open>Command lines are read back\<close>

text \<open>The ways to write a source and an interface, each of them optional.\<close>

inductive cli_options ::
  "ip_addr \<Rightarrow> string list \<Rightarrow> ip_addr option \<Rightarrow> parsed_interface \<Rightarrow> bool" for grp where
  opts_none: "cli_options grp [] None (None, None)"
| opts_source: "ip_text s a \<Longrightarrow> cli_options grp [s] (Some a) (None, None)"
| opts_both: "ip_text s a \<Longrightarrow> interface_text grp t i \<Longrightarrow> cli_options grp [s, t] (Some a) i"
| opts_flag_source: "ip_text s a \<Longrightarrow> cli_options grp [''--source'', s] (Some a) (None, None)"
| opts_flag_interface: "interface_text grp t i \<Longrightarrow> cli_options grp [''--interface'', t] None i"
| opts_flags: "ip_text s a \<Longrightarrow> interface_text grp t i \<Longrightarrow>
    cli_options grp [''--source'', s, ''--interface'', t] (Some a) i"
| opts_flags_swapped: "ip_text s a \<Longrightarrow> interface_text grp t i \<Longrightarrow>
    cli_options grp [''--interface'', t, ''--source'', s] (Some a) i"
| opts_mixed: "ip_text s a \<Longrightarrow> interface_text grp t i \<Longrightarrow>
    cli_options grp [s, ''--interface'', t] (Some a) i"
| opts_mixed_swapped: "ip_text s a \<Longrightarrow> interface_text grp t i \<Longrightarrow>
    cli_options grp [''--interface'', t, s] (Some a) i"

lemma cli_options_parse:
  assumes "cli_options grp opts src i"
  shows "parse_mixed_args os grp opts k = (Inr (src, i), k)"
  using assms
  by cases
     (auto simp: parse_mixed_args_def parse_flag_args_def parse_ip_argument parse_interface_text
       text_no_flag interface_no_flag next_arg_def io_bind_def split: prod.splits)

lemma receive_cli_text:
  assumes "ip_text g grp" and "ip_is_multicast grp" and "port \<noteq> 0" and "cli_options grp opts src (ifc, ix)"
  shows "parse_receive_cli_args os ([prog, g, dec_digits (unat port)] @ opts) k =
    (Inr \<lparr>cli_group = grp, cli_dst_port = port, cli_source = src, cli_interface = ifc,
       cli_interface_index = ix\<rparr>, k)"
  using parse_ip_argument [OF assms(1)] parse_port_text [OF assms(3)] cli_options_parse [OF assms(4), of os k] assms(2)
  by (simp add: parse_receive_cli_args_def io_bind_def)

lemma raw_receive_cli_text:
  assumes "ip_text g grp" and "ip_is_multicast grp" and "cli_options grp opts src (ifc, ix)"
  shows "parse_raw_receive_cli_args os ([prog, g] @ opts) k =
    (Inr \<lparr>rcli_group = grp, rcli_source = src, rcli_interface = ifc, rcli_interface_index = ix\<rparr>, k)"
  using parse_ip_argument [OF assms(1)] cli_options_parse [OF assms(3), of os k] assms(2)
  by (simp add: parse_raw_receive_cli_args_def io_bind_def)

text \<open>Concrete texts for the witnesses.\<close>

lemma example_texts:
  "ip_text ''232.1.2.3'' (V4 (Quad 232 1 2 3))" "ip_text ''10.0.0.1'' (V4 (Quad 10 0 0 1))"
  "ip_text ''192.168.1.20'' (V4 (Quad 192 168 1 20))"
  using ip_text_v4 [of "Quad 232 1 2 3"] ip_text_v4 [of "Quad 10 0 0 1"] ip_text_v4 [of "Quad 192 168 1 20"]
  by (simp_all add: dec_digits.simps char_of_def bit_Suc_0_iff)

lemma example_numbers: "dec_digits 5000 = ''5000''" "dec_digits 9 = ''9''" "dec_digits 4 = ''4''"
  by (simp_all add: dec_digits.simps char_of_def bit_Suc_0_iff)

section \<open>Properties\<close>



text \<open>What the parsers accept as an interface.\<close>

definition interface_ok :: "ip_addr \<Rightarrow> u32 option \<Rightarrow> bool" where
  "interface_ok grp ix \<longleftrightarrow> (case ix of None \<Rightarrow> True | Some n \<Rightarrow> n \<noteq> 0 \<and> ip_is_ipv6 grp)"

lemma parse_scope_nonzero: "parse_interface_scope os s k = (Inr ix, k') \<Longrightarrow> ix \<noteq> 0"
  by (auto simp: parse_interface_scope_def interface_name_to_index_def io_map_err_def
      split: sum.splits if_splits prod.splits)

lemma parse_interface_ok: "parse_interface_value os grp s k = (Inr (ifc, ix), k') \<Longrightarrow> interface_ok grp ix"
  by (auto simp: parse_interface_value_def Let_def io_eqs interface_ok_def dest: parse_scope_nonzero
      split: if_splits option.splits)

lemma flag_loop_ok:
  "flag_loop os grp args st k = (Inr (src, ifc, ix), k') \<Longrightarrow> interface_ok grp (snd (snd st)) \<Longrightarrow> interface_ok grp ix"
  by (induction os grp args st arbitrary: k rule: flag_loop.induct)
     (auto simp: io_eqs split: if_splits prod.splits dest: parse_interface_ok)

lemma parse_mixed_ok: "parse_mixed_args os grp args k = (Inr (src, ifc, ix), k') \<Longrightarrow> interface_ok grp ix"
  by (auto simp: parse_mixed_args_def parse_flag_args_def io_eqs interface_ok_def next_arg_def
      split: if_splits option.splits list.splits prod.splits dest!: flag_loop_ok parse_interface_ok)

lemma parse_port_nonzero: "cli_parse_port s = Inr port \<Longrightarrow> port \<noteq> 0"
  by (auto simp: cli_parse_port_def split: sum.splits if_splits)

lemma receive_cli_ok:
  assumes "parse_receive_cli_args os args k = (Inr c, k')"
  shows "ip_is_multicast (cli_group c) \<and> cli_dst_port c \<noteq> 0 \<and> interface_ok (cli_group c) (cli_interface_index c)"
  using assms
  by (auto simp: parse_receive_cli_args_def io_eqs dest: parse_mixed_ok parse_port_nonzero
      split: if_splits prod.splits)

lemma raw_receive_cli_ok:
  assumes "parse_raw_receive_cli_args os args k = (Inr r, k')"
  shows "ip_is_multicast (rcli_group r) \<and> interface_ok (rcli_group r) (rcli_interface_index r)"
  using assms
  by (auto simp: parse_raw_receive_cli_args_def io_eqs dest: parse_mixed_ok split: if_splits prod.splits)

text \<open>
  C25. What the parsers accept is usable: the group is multicast, the port is not zero, and an
  interface index is not zero and only given for an IPv6 group.
\<close>

theorem cli_accepted:
  "(\<forall>c. fst (parse_receive_cli_args os args k) = Inr c \<longrightarrow>
      ip_is_multicast (cli_group c) \<and> cli_dst_port c \<noteq> 0 \<and> interface_ok (cli_group c) (cli_interface_index c)) \<and>
   (\<forall>r. fst (parse_raw_receive_cli_args os args k) = Inr r \<longrightarrow>
      ip_is_multicast (rcli_group r) \<and> interface_ok (rcli_group r) (rcli_interface_index r))"
  using receive_cli_ok raw_receive_cli_ok by (metis prod.collapse)

theorem cli_accepted_witness:
  "interface_ok (V4 (Quad 232 1 2 3)) None \<and> ip_is_multicast (V4 (Quad 232 1 2 3))"
proof -
  have "fst (parse_receive_cli_args (sim_os Linux) [''mcrx-recv'', ''232.1.2.3'', ''5000''] sim_init) =
      Inr \<lparr>cli_group = V4 (Quad 232 1 2 3), cli_dst_port = 5000, cli_source = None, cli_interface = None,
        cli_interface_index = None\<rparr>"
    using receive_cli_text [OF example_texts(1) _ _ opts_none, where port = 5000 and k = sim_init]
    by (simp add: example_numbers)
  then show ?thesis
    using cli_accepted [of "sim_os Linux" "[''mcrx-recv'', ''232.1.2.3'', ''5000'']" sim_init] by simp
qed

text \<open>
  For an IPv6 group, a second positional argument after a flagged interface is an error when the
  flag gave an address, but silently replaces the interface when the flag gave an index.
\<close>

theorem cli_second_interface:
  fixes ix :: u32
  assumes "ip_is_ipv6 grp" and "ip_text s a" and "interface_text grp t i" and "ip_text u b" and "ix \<noteq> 0"
  shows "fst (parse_mixed_args os grp [''--interface'', u, s, t] k) = Inl ''invalid arguments'' \<and>
    fst (parse_mixed_args os grp [''--interface'', dec_digits (unat ix), s, t] k) = Inr (Some a, i)"
  using parse_interface_text [OF interface_text_ip [OF assms(4), of grp], of os k]
    parse_interface_text [OF interface_text_index [OF assms(1) assms(5)], of os k]
    parse_interface_text [OF assms(3), of os k] text_no_flag [OF assms(2)] interface_no_flag [OF assms(3)]
    parse_ip_argument [OF assms(2)]
  by (cases i) (simp add: parse_mixed_args_def parse_flag_args_def next_arg_def io_bind_def)

theorem cli_second_interface_witness:
  "fst (parse_mixed_args (sim_os Linux) (V6 (ipv6_from_groups [0xff3e, 0, 0, 0, 0, 0, 0, 1]))
     [''--interface'', ''9'', ''10.0.0.1'', ''4''] sim_init) = Inr (Some (V4 (Quad 10 0 0 1)), None, Some 4)"
proof -
  have "interface_text (V6 (ipv6_from_groups [0xff3e, 0, 0, 0, 0, 0, 0, 1])) ''4'' (None, Some 4)"
    using interface_text_index [of "V6 (ipv6_from_groups [0xff3e, 0, 0, 0, 0, 0, 0, 1])" 4]
    by (simp add: example_numbers)
  from cli_second_interface [OF _ example_texts(2) this example_texts(3), where ix = 9 and os = "sim_os Linux" and k = sim_init]
  show ?thesis by (simp add: example_numbers)
qed

end
