(* ===== verification/Files.thy ===== *)
theory Files
  imports StdParse
begin

text \<open>
  The part of \<open>std::path\<close>, \<open>std::fs\<close> and \<open>std::io\<close> that the JSONL writers use. A file is a
  sequence of bytes found under its path; a handle in append mode writes at its end; a lock of
  \<open>fs2\<close> belongs to the handle that took it and goes away with it. Every call may fail: the store
  holds the failures to come, an arbitrary sequence on which nothing is assumed.
\<close>

section \<open>Paths\<close>

text \<open>A path is its components.\<close>

datatype component = PathPrefix string | RootDir | CurDir | ParentDir | Normal string

type_synonym path = "component list"

definition path_parent :: "path \<Rightarrow> path option" where
  "path_parent p =
     (if p = [] then None
      else (case last p of PathPrefix _ \<Rightarrow> None | RootDir \<Rightarrow> None | _ \<Rightarrow> Some (butlast p)))"

definition file_name :: "path \<Rightarrow> string option" where
  "file_name p = (if p = [] then None else (case last p of Normal n \<Rightarrow> Some n | _ \<Rightarrow> None))"

definition stem_of :: "string \<Rightarrow> string" where
  "stem_of n = (case rsplit_once CHR ''.'' n of None \<Rightarrow> n | Some (before, _) \<Rightarrow> if before = [] then n else before)"

definition file_stem :: "path \<Rightarrow> string option" where
  "file_stem p = map_option stem_of (file_name p)"

section \<open>Text\<close>

text \<open>\<open>str::from_utf8\<close>: the well-formed sequences, by their first byte.\<close>

definition byte_in :: "nat \<Rightarrow> nat \<Rightarrow> char \<Rightarrow> bool" where
  "byte_in lo hi c \<longleftrightarrow> lo \<le> of_char c \<and> of_char c \<le> hi"

abbreviation cont :: "char \<Rightarrow> bool" where
  "cont \<equiv> byte_in 0x80 0xBF"

fun utf8_tail :: "char \<Rightarrow> string \<Rightarrow> string option" where
  "utf8_tail a s =
     (if byte_in 0 0x7F a then Some s
      else case s of [] \<Rightarrow> None | b # s1 \<Rightarrow>
        if byte_in 0xC2 0xDF a then (if cont b then Some s1 else None)
        else case s1 of [] \<Rightarrow> None | c # s2 \<Rightarrow>
          if byte_in 0xE0 0xEF a
          then (if (if a = CHR 0xE0 then byte_in 0xA0 0xBF b
                    else if a = CHR 0xED then byte_in 0x80 0x9F b else cont b) \<and> cont c
                then Some s2 else None)
          else case s2 of [] \<Rightarrow> None | d # s3 \<Rightarrow>
            if byte_in 0xF0 0xF4 a \<and>
              (if a = CHR 0xF0 then byte_in 0x90 0xBF b
               else if a = CHR 0xF4 then byte_in 0x80 0x8F b else cont b) \<and> cont c \<and> cont d
            then Some s3 else None)"

lemma utf8_tail_shorter: "utf8_tail a s = Some s' \<Longrightarrow> length s' \<le> length s"
  by (auto split: if_splits list.splits)

declare utf8_tail.simps [simp del]

function utf8_valid :: "string \<Rightarrow> bool" where
  "utf8_valid [] = True"
| "utf8_valid (a # s) = (case utf8_tail a s of None \<Rightarrow> False | Some s' \<Rightarrow> utf8_valid s')"
  by pat_completeness auto
termination
  by (relation "measure length") (auto simp: le_imp_less_Suc utf8_tail_shorter)

lemma ascii_utf8: "\<forall>c \<in> set s. of_char c < (128 :: nat) \<Longrightarrow> utf8_valid s"
  by (induction s) (simp_all add: utf8_tail.simps byte_in_def)

text \<open>\<open>str::trim\<close> leaves nothing: only characters with the \<open>White_Space\<close> property.\<close>

fun white_space_tail :: "char \<Rightarrow> string \<Rightarrow> string option" where
  "white_space_tail a s =
     (if byte_in 9 13 a \<or> a = CHR '' '' then Some s
      else case s of [] \<Rightarrow> None | b # s1 \<Rightarrow>
        if a = CHR 0xC2 then (if b = CHR 0x85 \<or> b = CHR 0xA0 then Some s1 else None)
        else case s1 of [] \<Rightarrow> None | c # s2 \<Rightarrow>
          if a = CHR 0xE1 \<and> b = CHR 0x9A \<and> c = CHR 0x80 \<or>
            a = CHR 0xE2 \<and> b = CHR 0x80 \<and> (byte_in 0x80 0x8A c \<or> c = CHR 0xA8 \<or> c = CHR 0xA9 \<or> c = CHR 0xAF) \<or>
            a = CHR 0xE2 \<and> b = CHR 0x81 \<and> c = CHR 0x9F \<or>
            a = CHR 0xE3 \<and> b = CHR 0x80 \<and> c = CHR 0x80
          then Some s2 else None)"

lemma white_space_tail_shorter: "white_space_tail a s = Some s' \<Longrightarrow> length s' \<le> length s"
  by (auto split: if_splits list.splits)

declare white_space_tail.simps [simp del]

function blank :: "string \<Rightarrow> bool" where
  "blank [] = True"
| "blank (a # s) = (case white_space_tail a s of None \<Rightarrow> False | Some s' \<Rightarrow> blank s')"
  by pat_completeness auto
termination
  by (relation "measure length") (auto simp: le_imp_less_Suc white_space_tail_shorter)

section \<open>Lines\<close>

abbreviation newline :: char where "newline \<equiv> CHR 0x0A"

text \<open>The complete lines of a text, and what follows the last newline.\<close>

fun split_lines :: "string \<Rightarrow> string \<Rightarrow> string list \<times> string" where
  "split_lines cur [] = ([], cur)"
| "split_lines cur (c # cs) =
     (if c = newline then (case split_lines [] cs of (ls, r) \<Rightarrow> (cur # ls, r)) else split_lines (cur @ [c]) cs)"

lemma split_lines_append:
  "split_lines cur (c @ d) =
     (case split_lines cur c of (ls, r) \<Rightarrow> (case split_lines r d of (ls', r') \<Rightarrow> (ls @ ls', r')))"
  by (induction c arbitrary: cur) (auto split: prod.splits)

lemma split_lines_plain: "newline \<notin> set l \<Longrightarrow> split_lines cur l = ([], cur @ l)"
  by (induction l arbitrary: cur) auto

definition invalid_utf8 :: io_error where
  "invalid_utf8 = CustomError InvalidData ''stream did not contain valid UTF-8''"

definition line_item :: "string \<Rightarrow> io_error + string" where
  "line_item l = (if utf8_valid l then Inr l else Inl invalid_utf8)"

definition strip_cr :: "string \<Rightarrow> string" where
  "strip_cr l = (if l \<noteq> [] \<and> last l = CHR 0x0D then butlast l else l)"

text \<open>
  \<open>BufRead::lines\<close> over the bytes that could be read, with the error that ended the reading. A
  carriage return is only removed together with a newline.
\<close>

definition line_items :: "string \<Rightarrow> io_error option \<Rightarrow> (io_error + string) list" where
  "line_items content err =
     (case split_lines [] content of (ls, r) \<Rightarrow>
        map (\<lambda>l. map_sum id strip_cr (line_item l)) ls @
        (case err of Some e \<Rightarrow> [Inl e] | None \<Rightarrow> if r = [] then [] else [line_item r]))"

section \<open>The file store\<close>

text \<open>A failure: its error, and the bytes that a failing read or write still moved.\<close>

record fault =
  fault_error :: io_error
  fault_read :: nat
  fault_written :: nat

record store =
  files :: "path \<Rightarrow> string option"
  locked :: "path list"
  faults :: "fault option list"

type_synonym 'a fs = "(store, io_error, 'a) io"

definition next_fault :: "store \<Rightarrow> fault option \<times> store" where
  "next_fault s = (case faults s of [] \<Rightarrow> (None, s) | f # fs \<Rightarrow> (f, s\<lparr>faults := fs\<rparr>))"

definition may_fail :: "'a fs \<Rightarrow> 'a fs" where
  "may_fail m s = (case next_fault s of (Some f, s') \<Rightarrow> (Inl (fault_error f), s') | (None, s') \<Rightarrow> m s')"

definition contents :: "path \<Rightarrow> store \<Rightarrow> string" where
  "contents p s = (case files s p of None \<Rightarrow> [] | Some c \<Rightarrow> c)"

definition create_dir_all :: "path \<Rightarrow> unit fs" where
  "create_dir_all dir = may_fail (io_return ())"

text \<open>\<open>OpenOptions::new().create(true).read(true).append(true).open(path)\<close>\<close>

definition open_append :: "path \<Rightarrow> path fs" where
  "open_append p = may_fail (\<lambda>s. (Inr p, s\<lparr>files := (files s)(p := Some (contents p s))\<rparr>))"

text \<open>\<open>File::open\<close>: \<open>NotFound\<close> for a file that does not exist.\<close>

definition not_found :: io_error where
  "not_found = CustomError KindNotFound ''entity not found''"

definition open_read :: "path \<Rightarrow> path fs" where
  "open_read p = may_fail (\<lambda>s. (case files s p of None \<Rightarrow> Inl not_found | Some _ \<Rightarrow> Inr p, s))"

definition seek_start :: "path \<Rightarrow> unit fs" where
  "seek_start file = may_fail (io_return ())"

definition read_lines :: "path \<Rightarrow> (io_error + string) list fs" where
  "read_lines file s =
     (case next_fault s of
        (Some f, s') \<Rightarrow> (Inr (line_items (take (fault_read f) (contents file s')) (Some (fault_error f))), s')
      | (None, s') \<Rightarrow> (Inr (line_items (contents file s') None), s'))"

definition write_all :: "path \<Rightarrow> string \<Rightarrow> unit fs" where
  "write_all file bs s =
     (case next_fault s of
        (Some f, s') \<Rightarrow>
          (Inl (fault_error f), s'\<lparr>files := (files s')(file := Some (contents file s' @ take (fault_written f) bs))\<rparr>)
      | (None, s') \<Rightarrow> (Inr (), s'\<lparr>files := (files s')(file := Some (contents file s' @ bs))\<rparr>))"

text \<open>\<open>fs2::try_lock_exclusive\<close>, with the error of a lock that is held; closing a handle drops its lock.\<close>

definition try_lock_exclusive :: "io_error \<Rightarrow> path \<Rightarrow> unit fs" where
  "try_lock_exclusive contended file =
     may_fail (\<lambda>s. if file \<in> set (locked s) then (Inl contended, s) else (Inr (), s\<lparr>locked := file # locked s\<rparr>))"

definition close_file :: "path \<Rightarrow> store \<Rightarrow> store" where
  "close_file file s = s\<lparr>locked := removeAll file (locked s)\<rparr>"

text \<open>A handle that is dropped at the end of a call, or when the call fails.\<close>

definition closing :: "path \<Rightarrow> 'a fs \<Rightarrow> 'a fs" where
  "closing file m s = (case m s of (r, s') \<Rightarrow> (r, close_file file s'))"

definition closing_on_error :: "path \<Rightarrow> 'a fs \<Rightarrow> 'a fs" where
  "closing_on_error file m s = (case m s of (Inl e, s') \<Rightarrow> (Inl e, close_file file s') | (Inr a, s') \<Rightarrow> (Inr a, s'))"

end
