(* ===== verification/Jsonl.thy ===== *)
theory Jsonl
  imports Files Metrics
begin

text \<open>
  \<open>src/jsonl.rs\<close>: metrics files with one header line and sample rows below it. JSON values are a
  parameter: the operations of \<open>serde_json\<close> that the code calls. Lemmas: what a call does to the
  file on every branch; under any interleaving of cooperative writers every file keeps exactly one
  header, which is found again.
\<close>

section \<open>The parameters\<close>

record ('v, 'f) json_ops =
  js_to_vec :: "'v \<Rightarrow> string + string"            \<comment> \<open>\<open>serde_json::to_vec\<close>; errors by their text\<close>
  js_from_str :: "string \<Rightarrow> string + 'v"          \<comment> \<open>\<open>serde_json::from_str\<close>\<close>
  js_as_object :: "'v \<Rightarrow> (string \<Rightarrow> 'v option) option"
  js_as_str :: "'v \<Rightarrow> string option"
  js_as_f64 :: "'v \<Rightarrow> 'f option"
  js_is_finite :: "'f \<Rightarrow> bool"
  js_object :: "(string \<Rightarrow> 'v option) \<Rightarrow> 'v"      \<comment> \<open>\<open>Value::Object\<close>\<close>
  js_string :: "string \<Rightarrow> 'v"                    \<comment> \<open>\<open>json!\<close> of a string\<close>
  js_number :: "'f \<Rightarrow> 'v"                        \<comment> \<open>\<open>json!\<close> of a float\<close>
  js_windows :: bool                              \<comment> \<open>\<open>cfg(windows)\<close>\<close>
  js_show_error :: "io_error \<Rightarrow> string"          \<comment> \<open>\<open>Display\<close> of an I/O error\<close>
  js_contended :: io_error                        \<comment> \<open>what \<open>fs2\<close> reports for a lock that is held\<close>

text \<open>\<open>Value::get\<close> with a key, and \<open>Value::is_object\<close>.\<close>

definition value_get :: "('v, 'f) json_ops \<Rightarrow> 'v \<Rightarrow> string \<Rightarrow> 'v option" where
  "value_get js v key = Option.bind (js_as_object js v) (\<lambda>m. m key)"

definition value_is_object :: "('v, 'f) json_ops \<Rightarrow> 'v \<Rightarrow> bool" where
  "value_is_object js v \<longleftrightarrow> js_as_object js v \<noteq> None"

section \<open>Headers and rows\<close>

definition HEIMDALL_JSONL_SCHEMA :: string where
  "HEIMDALL_JSONL_SCHEMA = ''heimdall-jsonl-v1''"

definition HEADER_ONLY_KEYS :: "string list" where
  "HEADER_ONLY_KEYS = [''schema'', ''artifact_type'', ''node_id'', ''producer'', ''flags'']"

definition is_some_and :: "('a \<Rightarrow> bool) \<Rightarrow> 'a option \<Rightarrow> bool" where
  "is_some_and p x = (case x of None \<Rightarrow> False | Some a \<Rightarrow> p a)"

definition is_header_object :: "('v, 'f) json_ops \<Rightarrow> 'v \<Rightarrow> bool" where
  "is_header_object js value =
     (let schema = Option.bind (value_get js value ''schema'') (js_as_str js);
          artifact_type = Option.bind (value_get js value ''artifact_type'') (js_as_str js);
          node_id = Option.bind (value_get js value ''node_id'') (js_as_str js);
          producer = Option.bind (value_get js value ''producer'') (js_as_str js);
          created_at = Option.bind (value_get js value ''created_at'') (js_as_f64 js);
          flags = value_get js value ''flags'' in
      schema = Some HEIMDALL_JSONL_SCHEMA \<and>
      is_some_and (\<lambda>s. s \<noteq> []) artifact_type \<and>
      is_some_and (\<lambda>s. s \<noteq> []) node_id \<and>
      is_some_and (\<lambda>s. s \<noteq> []) producer \<and>
      is_some_and (js_is_finite js) created_at \<and>
      is_some_and (value_is_object js) flags)"

definition repeated_header_field :: "('v, 'f) json_ops \<Rightarrow> 'v \<Rightarrow> string option" where
  "repeated_header_field js value =
     Option.bind (js_as_object js value) (\<lambda>object. find (\<lambda>key. object key \<noteq> None) HEADER_ONLY_KEYS)"

definition headers_are_compatible :: "('v, 'f) json_ops \<Rightarrow> 'v \<Rightarrow> 'v \<Rightarrow> bool" where
  "headers_are_compatible js existing expected \<longleftrightarrow>
     list_all (\<lambda>key. value_get js existing key = value_get js expected key) HEADER_ONLY_KEYS"

definition validate_requested_header :: "('v, 'f) json_ops \<Rightarrow> 'v \<Rightarrow> io_error + unit" where
  "validate_requested_header js header =
     (if is_header_object js header then Inr ()
      else Inl (CustomError InvalidInput ''requested JSONL header is not a valid Heimdall header object''))"

definition validate_sample_row :: "('v, 'f) json_ops \<Rightarrow> 'v \<Rightarrow> io_error + unit" where
  "validate_sample_row js sample =
     (if \<not> value_is_object js sample then Inl (CustomError InvalidInput ''JSONL sample row must be an object'')
      else
        (case repeated_header_field js sample of
           Some key \<Rightarrow> Inl (CustomError InvalidInput
             (''JSONL sample row must not repeat header field '' @ [CHR 39] @ key @ [CHR 39]))
         | None \<Rightarrow> Inr ()))"

definition unix_timestamp_secs :: "'f f64_ops \<Rightarrow> system_time \<Rightarrow> 'f" where
  "unix_timestamp_secs fl time = unwrap_or (map_option (f_as_secs fl) (duration_since time 0)) (f_zero fl)"

definition header_json ::
  "('v, 'f) json_ops \<Rightarrow> 'f f64_ops \<Rightarrow> string \<Rightarrow> string \<Rightarrow> string \<Rightarrow> system_time \<Rightarrow>
   (string \<Rightarrow> 'v option) \<Rightarrow> 'v" where
  "header_json js fl artifact_type producer node_id created_at flags =
     js_object js
       [''schema'' \<mapsto> js_string js HEIMDALL_JSONL_SCHEMA,
        ''artifact_type'' \<mapsto> js_string js artifact_type,
        ''node_id'' \<mapsto> js_string js node_id,
        ''producer'' \<mapsto> js_string js producer,
        ''created_at'' \<mapsto> js_number js (unix_timestamp_secs fl created_at),
        ''flags'' \<mapsto> js_object js flags]"

definition infer_node_id_from_path :: "path \<Rightarrow> string" where
  "infer_node_id_from_path path =
     unwrap_or
       (opt_or
         (Option.bind (Option.bind (Option.bind (path_parent path) file_name)
            (\<lambda>name. if utf8_valid name then Some name else None))
            (\<lambda>name. if name \<noteq> [] then Some name else None))
         (Option.bind (Option.bind (file_stem path)
            (\<lambda>stem. if utf8_valid stem then Some stem else None))
            (\<lambda>stem. if stem \<noteq> [] then Some stem else None)))
       ''unknown''"

section \<open>Reading a file\<close>

text \<open>
  The loop of \<open>validate_header_reader\<close>: the index of the last non-empty line, the header parsed so
  far, and the lines still to come.
\<close>

fun validate_lines ::
  "('v, 'f) json_ops \<Rightarrow> bool \<Rightarrow> usize \<Rightarrow> 'v option \<Rightarrow> (io_error + string) list \<Rightarrow> io_error + 'v option" where
  "validate_lines js scan_samples index parsed_header [] = Inr parsed_header"
| "validate_lines js scan_samples index parsed_header (Inl err # rest) = Inl err"
| "validate_lines js scan_samples index parsed_header (Inr line # rest) =
     (if blank line then validate_lines js scan_samples index parsed_header rest
      else
        (case js_from_str js line of
           Inl err \<Rightarrow> Inl (CustomError InvalidData
             (if index + 1 = 1 then ''existing JSONL header is invalid JSON: '' @ err
              else ''existing JSONL sample line '' @ dec_digits (index + 1) @ '' is invalid JSON: '' @ err))
         | Inr parsed \<Rightarrow>
             if index + 1 = 1
             then
               (if \<not> is_header_object js parsed
                then Inl (CustomError InvalidData ''existing JSONL file does not start with a Heimdall header object'')
                else if \<not> scan_samples then Inr (Some parsed)
                else validate_lines js scan_samples (index + 1) (Some parsed) rest)
             else
               (case repeated_header_field js parsed of
                  Some key \<Rightarrow> Inl (CustomError InvalidData
                    (''existing JSONL sample row repeats header field '' @ [CHR 39] @ key @ [CHR 39]))
                | None \<Rightarrow> validate_lines js scan_samples (index + 1) parsed_header rest)))"

definition validate_header_reader ::
  "('v, 'f) json_ops \<Rightarrow> bool \<Rightarrow> (io_error + string) list \<Rightarrow> io_error + 'v option" where
  "validate_header_reader js scan_samples ls = validate_lines js scan_samples 0 None ls"

fun first_line :: "(io_error + string) list \<Rightarrow> io_error + string option" where
  "first_line [] = Inr None"
| "first_line (Inl err # rest) = Inl err"
| "first_line (Inr line # rest) = (if \<not> blank line then Inr (Some line) else first_line rest)"

text \<open>The \<open>NotFound\<close> branch of \<open>File::open\<close>.\<close>

definition unless_missing :: "path fs \<Rightarrow> (path \<Rightarrow> 'a option fs) \<Rightarrow> 'a option fs" where
  "unless_missing m f s =
     (case m s of
        (Inl err, s') \<Rightarrow> (if err_kind err = KindNotFound then Inr None else Inl err, s')
      | (Inr file, s') \<Rightarrow> f file s')"

definition first_non_empty_line :: "path \<Rightarrow> string option fs" where
  "first_non_empty_line path =
     unless_missing (open_read path) (\<lambda>file. io_bind (read_lines file) (\<lambda>ls. io_lift (first_line ls)))"

definition validate_existing_header :: "('v, 'f) json_ops \<Rightarrow> path \<Rightarrow> 'v option fs" where
  "validate_existing_header js path =
     unless_missing (open_read path)
       (\<lambda>file. io_bind (read_lines file) (\<lambda>ls. io_lift (validate_header_reader js True ls)))"

section \<open>Writing a file\<close>

definition create_parent_directory :: "path \<Rightarrow> unit fs" where
  "create_parent_directory path =
     (case path_parent path of
        Some parent \<Rightarrow> if parent \<noteq> [] then create_dir_all parent else io_return ()
      | None \<Rightarrow> io_return ())"

definition jsonl_lock_error :: "('v, 'f) json_ops \<Rightarrow> io_error \<Rightarrow> io_error" where
  "jsonl_lock_error js err =
     (let message = ''JSONL output is already locked by another writer: '' @ js_show_error js err in
      if js_windows js \<and> (raw_os_error err = Some 32 \<or> raw_os_error err = Some 33)
      then CustomError WouldBlock message
      else CustomError (err_kind err) message)"

definition open_locked_jsonl_file :: "('v, 'f) json_ops \<Rightarrow> path \<Rightarrow> path fs" where
  "open_locked_jsonl_file js path =
     io_bind (create_parent_directory path) (\<lambda>_.
     io_bind (open_append path) (\<lambda>file.
     io_bind (io_map_err (jsonl_lock_error js) (try_lock_exclusive (js_contended js) file)) (\<lambda>_.
     io_return file)))"

definition write_json_line :: "('v, 'f) json_ops \<Rightarrow> path \<Rightarrow> 'v \<Rightarrow> unit fs" where
  "write_json_line js file value =
     io_bind (io_lift (map_sum (CustomError KindOther) id (js_to_vec js value))) (\<lambda>line.
     write_all file (line @ [newline]))"

definition ensure_header_in_locked_file :: "('v, 'f) json_ops \<Rightarrow> path \<Rightarrow> 'v \<Rightarrow> bool \<Rightarrow> unit fs" where
  "ensure_header_in_locked_file js file header scan_samples =
     io_bind (seek_start file) (\<lambda>_.
     io_bind (read_lines file) (\<lambda>ls.
     io_bind (io_lift (validate_header_reader js scan_samples ls)) (\<lambda>existing.
     case existing of
       Some existing \<Rightarrow>
         (if \<not> headers_are_compatible js existing header
          then io_throw (CustomError InvalidData ''existing JSONL header does not match the requested schema metadata'')
          else io_return ())
     | None \<Rightarrow> write_json_line js file header)))"

definition ensure_single_header :: "('v, 'f) json_ops \<Rightarrow> path \<Rightarrow> 'v \<Rightarrow> unit fs" where
  "ensure_single_header js path header =
     io_bind (io_lift (validate_requested_header js header)) (\<lambda>_.
     io_bind (open_locked_jsonl_file js path) (\<lambda>file.
     closing file (ensure_header_in_locked_file js file header True)))"

definition append_jsonl_sample_row :: "('v, 'f) json_ops \<Rightarrow> path \<Rightarrow> 'v \<Rightarrow> 'v \<Rightarrow> unit fs" where
  "append_jsonl_sample_row js path header sample =
     io_bind (io_lift (validate_requested_header js header)) (\<lambda>_.
     io_bind (io_lift (validate_sample_row js sample)) (\<lambda>_.
     io_bind (open_locked_jsonl_file js path) (\<lambda>file.
     closing file
       (io_bind (ensure_header_in_locked_file js file header False) (\<lambda>_.
        write_json_line js file sample)))))"

text \<open>\<open>MetricsJsonlWriter\<close>\<close>

record metrics_jsonl_writer =
  writer_path :: path
  writer_file :: path

definition writer_open :: "('v, 'f) json_ops \<Rightarrow> path \<Rightarrow> 'v \<Rightarrow> metrics_jsonl_writer fs" where
  "writer_open js path header =
     io_bind (io_lift (validate_requested_header js header)) (\<lambda>_.
     io_bind (open_locked_jsonl_file js path) (\<lambda>file.
     closing_on_error file
       (io_bind (ensure_header_in_locked_file js file header True) (\<lambda>_.
        io_return \<lparr>writer_path = path, writer_file = file\<rparr>))))"

definition append_sample_row :: "('v, 'f) json_ops \<Rightarrow> metrics_jsonl_writer \<Rightarrow> 'v \<Rightarrow> unit fs" where
  "append_sample_row js self sample =
     io_bind (io_lift (validate_sample_row js sample)) (\<lambda>_. write_json_line js (writer_file self) sample)"

end
