(* ===== verification/JsonlInv.thy ===== *)
theory JsonlInv
  imports Jsonl "HOL-Library.Sublist"
begin

text \<open>
  Metrics files stay metrics files: lemmas on lines and on the validation loop, on every call of
  \<open>jsonl.rs\<close>, and on systems of cooperating writers, whose calls interleave arbitrarily and fail
  arbitrarily.
\<close>

section \<open>Lines\<close>

definition terminated :: "string \<Rightarrow> bool" where
  "terminated c \<longleftrightarrow> c = [] \<or> last c = newline"

lemma terminated_split: "terminated c \<longleftrightarrow> snd (split_lines [] c) = []"
proof (cases c rule: rev_cases)
  case (snoc d x)
  then show ?thesis by (auto simp: terminated_def split_lines_append split: prod.splits)
qed (simp add: terminated_def)

lemma line_items_snoc:
  assumes "terminated c" and "newline \<notin> set l" and "utf8_valid l" and "strip_cr l = l"
  shows "line_items (c @ l @ [newline]) None = line_items c None @ [Inr l]"
  using assms split_lines_plain [OF assms(2), of "[]"]
  by (auto simp: line_items_def terminated_split split_lines_append line_item_def split: prod.splits)

text \<open>A reading that fails has seen complete lines of the file only.\<close>

lemma line_items_fault: "\<exists>xs ys. line_items (take n c) (Some e) = xs @ [Inl e] \<and> line_items c None = xs @ ys"
proof -
  have "split_lines [] c =
      (case split_lines [] (take n c) of (ls, r) \<Rightarrow> (case split_lines r (drop n c) of (ls', r') \<Rightarrow> (ls @ ls', r')))"
    using split_lines_append [of "[]" "take n c" "drop n c"] by simp
  then show ?thesis by (auto simp: line_items_def split: prod.splits)
qed

section \<open>The validation loop\<close>

definition counted :: "io_error + string \<Rightarrow> bool" where
  "counted x = (case x of Inl _ \<Rightarrow> True | Inr l \<Rightarrow> \<not> blank l)"

lemma validate_append:
  "validate_lines js True n h xs = Inr h' \<Longrightarrow>
   validate_lines js True n h (xs @ ys) = validate_lines js True (n + length (filter counted xs)) h' ys"
  by (induction js "True" n h xs rule: validate_lines.induct)
     (auto simp: counted_def split: if_splits sum.splits option.splits)

lemma validate_started:
  "validate_lines js True n h xs = Inr h' \<Longrightarrow> (n = 0 \<longleftrightarrow> h = None) \<Longrightarrow>
   (n + length (filter counted xs) = 0 \<longleftrightarrow> h' = None)"
  by (induction js "True" n h xs rule: validate_lines.induct)
     (auto simp: counted_def split: if_splits sum.splits option.splits)

lemma validate_keeps: "validate_lines js scan n h xs = Inr h' \<Longrightarrow> 0 < n \<Longrightarrow> h' = h"
  by (induction js scan n h xs rule: validate_lines.induct)
     (auto split: if_splits sum.splits option.splits)

lemma validate_no_scan:
  "validate_lines js True 0 None xs = Inr h \<Longrightarrow> validate_lines js scan 0 None xs = Inr h"
proof (induction xs)
  case (Cons x xs)
  then show ?case
    by (cases x) (auto split: if_splits sum.splits option.splits dest: validate_keeps)
qed simp

lemma validate_early:
  "validate_lines js scan n h (xs @ [Inl e]) = Inr h' \<Longrightarrow> validate_lines js scan n h (xs @ ys) = Inr h'"
  by (induction js scan n h xs rule: validate_lines.induct)
     (auto split: if_splits sum.splits option.splits)

section \<open>Documents\<close>

text \<open>What a file says its header is, and the files that the library writes.\<close>

definition header_of :: "('v, 'f) json_ops \<Rightarrow> string \<Rightarrow> io_error + 'v option" where
  "header_of js c = validate_header_reader js True (line_items c None)"

definition document :: "('v, 'f) json_ops \<Rightarrow> string \<Rightarrow> bool" where
  "document js c \<longleftrightarrow> terminated c \<and> (\<exists>h. header_of js c = Inr h)"

text \<open>What a value is written as can be read back, and reads as a header or a row as before.\<close>

definition written_as :: "('v, 'f) json_ops \<Rightarrow> 'v \<Rightarrow> string \<Rightarrow> 'v \<Rightarrow> bool" where
  "written_as js v line w \<longleftrightarrow>
     newline \<notin> set line \<and> utf8_valid line \<and> strip_cr line = line \<and> \<not> blank line \<and>
     js_from_str js line = Inr w \<and> is_header_object js w = is_header_object js v \<and>
     repeated_header_field js w = repeated_header_field js v"

definition reads_back :: "('v, 'f) json_ops \<Rightarrow> 'v \<Rightarrow> bool" where
  "reads_back js v \<longleftrightarrow>
     (case js_to_vec js v of Inl _ \<Rightarrow> True | Inr line \<Rightarrow>
        (case js_from_str js line of Inl _ \<Rightarrow> False | Inr w \<Rightarrow> written_as js v line w))"

lemma reads_backE:
  assumes "reads_back js v" and "js_to_vec js v = Inr line"
  obtains w where "written_as js v line w"
  using assms by (auto simp: reads_back_def split: sum.splits)

lemma header_of_snoc:
  assumes "document js c" and "written_as js v line w" and "header_of js c = Inr h"
  shows "header_of js (c @ line @ [newline]) =
    (if h = None then validate_lines js True 0 None [Inr line] else validate_lines js True 1 h [Inr line])"
proof -
  let ?n = "length (filter counted (line_items c None))"
  have loop: "validate_lines js True 0 None (line_items c None) = Inr h"
    using assms(3) by (simp add: header_of_def validate_header_reader_def)
  have "line_items (c @ line @ [newline]) None = line_items c None @ [Inr line]"
    using assms(1,2) by (intro line_items_snoc) (auto simp: document_def written_as_def)
  then have all: "header_of js (c @ line @ [newline]) = validate_lines js True ?n h [Inr line]"
    using validate_append [OF loop, of "[Inr line]"] by (simp add: header_of_def validate_header_reader_def)
  have n: "?n = 0 \<longleftrightarrow> h = None" using validate_started [OF loop] by simp
  show ?thesis
  proof (cases "h = None")
    case True
    then have "?n = 0" using n by simp
    then show ?thesis using all True by presburger
  next
    case False
    then obtain m where "?n = Suc m" using n by (cases ?n) auto
    then show ?thesis using all False assms(2)
      by (auto simp: written_as_def split: option.splits sum.splits)
  qed
qed

lemma terminated_snoc: "terminated (c @ line @ [newline])"
  by (simp add: terminated_def)

lemma document_header:
  assumes "document js c" and "written_as js v line w" and "header_of js c = Inr None" and "is_header_object js v"
  shows "header_of js (c @ line @ [newline]) = Inr (Some w)" and "document js (c @ line @ [newline])"
  using header_of_snoc [OF assms(1-3)] assms(2,4) terminated_snoc [of c line]
  by (auto simp: written_as_def document_def)

lemma document_row:
  assumes "document js c" and "written_as js v line w" and "header_of js c = Inr (Some h)"
    and "repeated_header_field js v = None"
  shows "header_of js (c @ line @ [newline]) = Inr (Some h)" and "document js (c @ line @ [newline])"
  using header_of_snoc [OF assms(1-3)] assms(2,4) terminated_snoc [of c line]
  by (auto simp: written_as_def document_def)

lemma document_Nil: "document js []"
  by (simp add: document_def terminated_def header_of_def validate_header_reader_def line_items_def)

lemma read_lines_header:
  assumes "header_of js (contents f s) = Inr h" and "read_lines f s = (Inr ls, s')"
    and "validate_header_reader js scan ls = Inr x"
  shows "x = h"
proof -
  have loop: "validate_lines js scan 0 None (line_items (contents f s) None) = Inr h"
    using assms(1) by (auto simp: header_of_def validate_header_reader_def intro: validate_no_scan)
  obtain fo s1 where nf: "next_fault s = (fo, s1)" by force
  then have same: "contents f s1 = contents f s"
    by (auto simp: next_fault_def contents_def split: list.splits)
  show ?thesis
  proof (cases fo)
    case None
    then show ?thesis using assms nf same loop by (simp add: read_lines_def validate_header_reader_def)
  next
    case (Some x)
    then obtain xs ys where items: "ls = xs @ [Inl (fault_error x)]" "line_items (contents f s) None = xs @ ys"
      using line_items_fault [of "fault_read x" "contents f s" "fault_error x"] assms(2) nf same
      by (auto simp: read_lines_def)
    then show ?thesis using validate_early assms(3) loop by (metis validate_header_reader_def sum.inject(2))
  qed
qed

section \<open>Calls on the store\<close>

text \<open>
  The failures to come write nothing: a write that is cut short leaves half a line, which no later
  call of the library repairs.
\<close>

definition whole_writes :: "store \<Rightarrow> bool" where
  "whole_writes s \<longleftrightarrow> (\<forall>f. Some f \<in> set (faults s) \<longrightarrow> fault_written f = 0)"

definition sound :: "('v, 'f) json_ops \<Rightarrow> store \<Rightarrow> bool" where
  "sound js s \<longleftrightarrow> whole_writes s \<and> (\<forall>p. document js (contents p s))"

text \<open>Files only grow, and a header once written stays the header.\<close>

definition grows :: "('v, 'f) json_ops \<Rightarrow> store \<Rightarrow> store \<Rightarrow> bool" where
  "grows js s s' \<longleftrightarrow>
     (\<forall>p. prefix (contents p s) (contents p s') \<and>
       (\<forall>h. header_of js (contents p s) = Inr (Some h) \<longrightarrow> header_of js (contents p s') = Inr (Some h)))"

lemma grows_refl [intro]: "grows js s s"
  by (simp add: grows_def)

lemma grows_trans [trans]: "grows js s s' \<Longrightarrow> grows js s' s'' \<Longrightarrow> grows js s s''"
  unfolding grows_def by (meson prefix_order.trans)

text \<open>A call that changes no content and takes failures from the front of those to come.\<close>

definition quiet :: "store \<Rightarrow> store \<Rightarrow> bool" where
  "quiet s s' \<longleftrightarrow> (\<forall>p. contents p s' = contents p s) \<and> set (faults s') \<subseteq> set (faults s)"

lemma quiet_refl [intro, simp]: "quiet s s"
  by (simp add: quiet_def)

lemma quiet_trans: "quiet s s' \<Longrightarrow> quiet s' s'' \<Longrightarrow> quiet s s''"
  by (auto simp: quiet_def)

lemma quiet_sound: "quiet s s' \<Longrightarrow> sound js s \<Longrightarrow> sound js s' \<and> grows js s s'"
  by (auto simp: quiet_def sound_def grows_def whole_writes_def)

lemma quiet_close: "quiet s (close_file f s)"
  by (simp add: quiet_def close_file_def contents_def)

lemma next_fault_quiet:
  assumes "next_fault s = (fo, s')"
  shows "quiet s s' \<and> locked s' = locked s \<and> files s' = files s \<and> (\<forall>f. fo = Some f \<longrightarrow> Some f \<in> set (faults s))"
  using assms by (auto simp: next_fault_def quiet_def contents_def split: list.splits)

lemma may_failE:
  assumes "may_fail m s = (r, s')"
  obtains (fault) f where "r = Inl f" "quiet s s'" "locked s' = locked s"
  | (works) s1 where "quiet s s1" "locked s1 = locked s" "files s1 = files s" "m s1 = (r, s')"
  using assms next_fault_quiet [of s] by (auto simp: may_fail_def split: prod.splits option.splits)

lemma open_append_quiet:
  "open_append p s = (r, s') \<Longrightarrow> quiet s s' \<and> locked s' = locked s \<and> (\<forall>f. r = Inr f \<longrightarrow> f = p)"
  unfolding open_append_def
  by (erule may_failE) (auto simp: quiet_def contents_def split: if_splits)

lemma try_lock_quiet:
  "try_lock_exclusive e f s = (r, s') \<Longrightarrow>
   quiet s s' \<and> (case r of Inl _ \<Rightarrow> locked s' = locked s | Inr _ \<Rightarrow> f \<notin> set (locked s) \<and> locked s' = f # locked s)"
  unfolding try_lock_exclusive_def
  by (erule may_failE) (auto simp: quiet_def contents_def split: if_splits)

lemma create_parent_quiet: "create_parent_directory p s = (r, s') \<Longrightarrow> quiet s s' \<and> locked s' = locked s"
  unfolding create_parent_directory_def create_dir_all_def
  by (auto split: option.splits if_splits elim!: may_failE)

lemma open_locked_quiet:
  assumes "open_locked_jsonl_file js p s = (r, s')"
  shows "quiet s s' \<and>
    (case r of Inl _ \<Rightarrow> locked s' = locked s | Inr f \<Rightarrow> f = p \<and> p \<notin> set (locked s) \<and> locked s' = p # locked s)"
proof -
  obtain r1 s1 where c: "create_parent_directory p s = (r1, s1)" by force
  obtain r2 s2 where o: "open_append p s1 = (r2, s2)" by force
  obtain r3 s3 where l: "try_lock_exclusive (js_contended js) p s2 = (r3, s3)" by force
  note quiet = create_parent_quiet [OF c] open_append_quiet [OF o] try_lock_quiet [OF l]
  have q2: "quiet s s2" and q3: "quiet s s3" using quiet quiet_trans by blast+
  show ?thesis
  proof (cases r1)
    case (Inl e)
    then show ?thesis using assms c quiet by (auto simp: open_locked_jsonl_file_def io_bind_def)
  next
    case Inr1: (Inr u)
    show ?thesis
    proof (cases r2)
      case (Inl e)
      then show ?thesis using assms c o quiet q2 Inr1 by (auto simp: open_locked_jsonl_file_def io_bind_def)
    next
      case (Inr g)
      then show ?thesis using assms c o l quiet q3 Inr1
        by (cases r3) (auto simp: open_locked_jsonl_file_def io_bind_def io_map_err_def)
    qed
  qed
qed

lemma seek_quiet: "seek_start f s = (r, s') \<Longrightarrow> quiet s s' \<and> locked s' = locked s"
  unfolding seek_start_def by (auto elim!: may_failE)

lemma read_lines_quiet: "read_lines f s = (r, s') \<Longrightarrow> quiet s s' \<and> locked s' = locked s"
  using next_fault_quiet [of s] by (auto simp: read_lines_def split: prod.splits option.splits)

text \<open>A write that works, or one that does nothing.\<close>

lemma write_allE:
  assumes "write_all f bs s = (r, s')" and "whole_writes s"
  obtains (fault) e where "r = Inl e" "quiet s s'" "locked s' = locked s"
  | (works) "r = Inr ()" "locked s' = locked s" "set (faults s') \<subseteq> set (faults s)"
      "\<And>p. contents p s' = (if p = f then contents f s @ bs else contents p s)"
proof -
  obtain fo s1 where nf: "next_fault s = (fo, s1)" by force
  note facts = next_fault_quiet [OF nf]
  show thesis
  proof (cases fo)
    case None
    then have "s' = s1\<lparr>files := (files s1)(f := Some (contents f s1 @ bs))\<rparr>" "r = Inr ()"
      using assms nf by (auto simp: write_all_def)
    then show thesis using facts by (intro works) (auto simp: quiet_def contents_def)
  next
    case (Some x)
    then have "fault_written x = 0" using facts assms(2) by (auto simp: whole_writes_def)
    then have "s' = s1\<lparr>files := (files s1)(f := Some (contents f s1))\<rparr>" "r = Inl (fault_error x)"
      using assms nf Some by (auto simp: write_all_def)
    then show thesis using facts by (intro fault) (auto simp: quiet_def contents_def)
  qed
qed

text \<open>Writing a header into a file without one, or a row into a file with one.\<close>

lemma sound_line:
  assumes "sound js s" and "locked s' = locked s" and "set (faults s') \<subseteq> set (faults s)"
    and "\<And>p. contents p s' = (if p = f then contents f s @ l else contents p s)"
    and "document js (contents f s @ l)"
    and "\<And>h. header_of js (contents f s) = Inr (Some h) \<Longrightarrow> header_of js (contents f s @ l) = Inr (Some h)"
  shows "sound js s' \<and> grows js s s'"
  using assms by (auto simp: sound_def whole_writes_def grows_def)

lemma write_header:
  assumes "write_json_line js f v s = (r, s')" and "sound js s" and "reads_back js v" and "is_header_object js v"
    and "header_of js (contents f s) = Inr None"
  shows "sound js s' \<and> grows js s s' \<and> locked s' = locked s \<and>
    (r = Inr () \<longrightarrow> (\<exists>line w. written_as js v line w \<and> js_to_vec js v = Inr line \<and>
       header_of js (contents f s') = Inr (Some w)))"
proof (cases "js_to_vec js v")
  case (Inl e)
  then show ?thesis using assms(1,2) by (auto simp: write_json_line_def io_bind_def)
next
  case (Inr line)
  obtain w where w: "written_as js v line w" using reads_backE [OF assms(3) Inr] by blast
  have "document js (contents f s)" using assms(2) by (simp add: sound_def)
  note doc = document_header [OF this w assms(5,4)]
  have "write_all f (line @ [newline]) s = (r, s')" using assms(1) Inr by (simp add: write_json_line_def io_bind_def)
  moreover have "whole_writes s" using assms(2) by (simp add: sound_def)
  ultimately show ?thesis
  proof (cases rule: write_allE)
    case fault
    then show ?thesis using quiet_sound assms(2) by auto
  next
    case works
    then show ?thesis using sound_line [OF assms(2) works(2-4) doc(2)] assms(5) doc(1) w Inr by auto
  qed
qed

lemma write_row:
  assumes "write_json_line js f v s = (r, s')" and "sound js s" and "reads_back js v"
    and "repeated_header_field js v = None" and "header_of js (contents f s) = Inr (Some h)"
  shows "sound js s' \<and> grows js s s' \<and> locked s' = locked s"
proof (cases "js_to_vec js v")
  case (Inl e)
  then show ?thesis using assms(1,2) by (auto simp: write_json_line_def io_bind_def)
next
  case (Inr line)
  obtain w where w: "written_as js v line w" using reads_backE [OF assms(3) Inr] by blast
  have "document js (contents f s)" using assms(2) by (simp add: sound_def)
  note doc = document_row [OF this w assms(5,4)]
  have "write_all f (line @ [newline]) s = (r, s')" using assms(1) Inr by (simp add: write_json_line_def io_bind_def)
  moreover have "whole_writes s" using assms(2) by (simp add: sound_def)
  ultimately show ?thesis
  proof (cases rule: write_allE)
    case fault
    then show ?thesis using quiet_sound assms(2) by auto
  next
    case works
    then show ?thesis using sound_line [OF assms(2) works(2-4) doc(2)] assms(5) doc(1) by auto
  qed
qed

text \<open>The header that a requested one finds in a file: a compatible one, or what it was written as.\<close>

definition header_found :: "('v, 'f) json_ops \<Rightarrow> 'v \<Rightarrow> 'v \<Rightarrow> bool" where
  "header_found js v h \<longleftrightarrow>
     headers_are_compatible js h v \<or> (\<exists>line. js_to_vec js v = Inr line \<and> js_from_str js line = Inr h)"

definition holds_header :: "('v, 'f) json_ops \<Rightarrow> path \<Rightarrow> 'v \<Rightarrow> store \<Rightarrow> bool" where
  "holds_header js f v s \<longleftrightarrow> (\<exists>h. header_of js (contents f s) = Inr (Some h) \<and> header_found js v h)"

lemma holds_header_grows: "holds_header js f v s \<Longrightarrow> grows js s s' \<Longrightarrow> holds_header js f v s'"
  unfolding holds_header_def grows_def by blast

lemma ensure_header:
  assumes "ensure_header_in_locked_file js f v scan s = (r, s')" and "sound js s" and "reads_back js v"
    and "is_header_object js v"
  shows "sound js s' \<and> grows js s s' \<and> locked s' = locked s \<and> (r = Inr () \<longrightarrow> holds_header js f v s')"
proof -
  obtain r1 s1 where seek: "seek_start f s = (r1, s1)" by force
  obtain r2 s2 where rd: "read_lines f s1 = (r2, s2)" by force
  have q1: "quiet s s1" "locked s1 = locked s" and q2: "quiet s1 s2" "locked s2 = locked s1"
    using seek_quiet [OF seek] read_lines_quiet [OF rd] by auto
  have s1: "sound js s1" "grows js s s1" using quiet_sound [OF q1(1) assms(2)] by auto
  have s2: "sound js s2" "grows js s s2" using quiet_sound [OF quiet_trans [OF q1(1) q2(1)] assms(2)] by auto
  have same: "contents f s2 = contents f s1" using q2 by (simp add: quiet_def)
  obtain ls where ls: "r2 = Inr ls" using rd by (auto simp: read_lines_def split: prod.splits option.splits)
  obtain h where h: "header_of js (contents f s1) = Inr h" using s1 by (auto simp: sound_def document_def)
  consider (seek) e where "r1 = Inl e" | (invalid) e where "r1 = Inr ()" "validate_header_reader js scan ls = Inl e"
    | (absent) "r1 = Inr ()" "validate_header_reader js scan ls = Inr None"
    | (present) x where "r1 = Inr ()" "validate_header_reader js scan ls = Inr (Some x)"
    by (cases r1; cases "validate_header_reader js scan ls") (auto intro: option.exhaust)
  then show ?thesis
  proof cases
    case seek
    then show ?thesis using assms(1) s1 q1 \<open>seek_start f s = (r1, s1)\<close>
      by (auto simp: ensure_header_in_locked_file_def io_bind_def)
  next
    case invalid
    then show ?thesis using assms(1) s2 q1 q2 \<open>seek_start f s = (r1, s1)\<close> rd ls
      by (auto simp: ensure_header_in_locked_file_def io_bind_def)
  next
    case absent
    then have "header_of js (contents f s2) = Inr None"
      using read_lines_header [OF h, of ls s2 scan None] rd ls h same by simp
    moreover have "write_json_line js f v s2 = (r, s')"
      using assms(1) absent seek rd ls by (simp add: ensure_header_in_locked_file_def io_bind_def)
    ultimately show ?thesis
      using write_header [OF _ s2(1) assms(3,4)] grows_trans [OF s2(2)] q1 q2
      by (fastforce simp: holds_header_def header_found_def written_as_def)
  next
    case present
    then have "header_of js (contents f s2) = Inr (Some x)"
      using read_lines_header [OF h, of ls s2 scan "Some x"] rd ls h same by simp
    moreover have "s' = s2 \<and> (r = Inr () \<longrightarrow> headers_are_compatible js x v)"
      using assms(1) present seek rd ls
      by (auto simp: ensure_header_in_locked_file_def io_bind_def split: if_splits)
    ultimately show ?thesis using s2 q1 q2 by (auto simp: holds_header_def header_found_def)
  qed
qed

text \<open>Each call, started in a sound store.\<close>

lemma validated:
  "validate_requested_header js v = Inr () \<longleftrightarrow> is_header_object js v"
  "validate_sample_row js v = Inr () \<longleftrightarrow> value_is_object js v \<and> repeated_header_field js v = None"
  by (auto simp: validate_requested_header_def validate_sample_row_def split: option.splits)

lemma open_locked_sound:
  assumes "open_locked_jsonl_file js p s = (r, s')" and "sound js s"
  shows "sound js s' \<and> grows js s s'"
  using open_locked_quiet [OF assms(1)] quiet_sound assms(2) by blast

lemma close_sound: "sound js s \<Longrightarrow> sound js (close_file f s) \<and> grows js s (close_file f s)"
  by (rule quiet_sound [OF quiet_close])

lemma close_holds [simp]: "holds_header js f v (close_file g s) = holds_header js f v s"
  by (simp add: holds_header_def close_file_def contents_def)

lemma close_locked: "f \<notin> set l \<Longrightarrow> locked s = f # l \<Longrightarrow> locked (close_file f s) = l"
  by (simp add: close_file_def)

text \<open>The shared shape of the stateless calls: lock, work, close.\<close>

lemma locked_call:
  assumes run: "io_bind (open_locked_jsonl_file js p) (\<lambda>file. closing file (m file)) s = (r, s')" and "sound js s"
    and body: "\<And>s1 r1 s2. m p s1 = (r1, s2) \<Longrightarrow> sound js s1 \<Longrightarrow>
      sound js s2 \<and> grows js s1 s2 \<and> locked s2 = locked s1 \<and> (r1 = Inr () \<longrightarrow> holds_header js p v s2)"
  shows "sound js s' \<and> grows js s s' \<and> locked s' = locked s \<and> (r = Inr () \<longrightarrow> holds_header js p v s')"
proof -
  obtain r0 s0 where o: "open_locked_jsonl_file js p s = (r0, s0)" by force
  note opened = open_locked_quiet [OF o] open_locked_sound [OF o assms(2)]
  show ?thesis
  proof (cases r0)
    case (Inl e)
    then show ?thesis using run o opened by (auto simp: io_bind_def)
  next
    case (Inr f)
    then have f: "f = p" "p \<notin> set (locked s)" "locked s0 = p # locked s" using opened by auto
    obtain r1 s1 where m: "m p s0 = (r1, s1)" by force
    then have "r = r1" "s' = close_file p s1" using run o Inr f by (auto simp: io_bind_def closing_def)
    moreover have "sound js s0" "grows js s s0" using opened by auto
    moreover from this have "sound js s1" "grows js s0 s1" "locked s1 = p # locked s" "r1 = Inr () \<longrightarrow> holds_header js p v s1"
      using body [OF m] f by auto
    moreover have "sound js (close_file p s1)" "grows js s (close_file p s1)"
      using calculation close_sound [of js s1 p] grows_trans by blast+
    ultimately show ?thesis using close_locked [OF f(2), of s1] by auto
  qed
qed

lemma ensure_single_header_call:
  assumes "ensure_single_header js p v s = (r, s')" and "sound js s" and "reads_back js v"
  shows "sound js s' \<and> grows js s s' \<and> locked s' = locked s \<and> (r = Inr () \<longrightarrow> holds_header js p v s')"
proof (cases "validate_requested_header js v")
  case (Inl e)
  then show ?thesis using assms by (auto simp: ensure_single_header_def io_bind_def)
next
  case (Inr u)
  then have v: "is_header_object js v" using validated(1) by (metis (full_types) unit.exhaust)
  have "io_bind (open_locked_jsonl_file js p) (\<lambda>file. closing file (ensure_header_in_locked_file js file v True)) s = (r, s')"
    using assms(1) Inr by (simp add: ensure_single_header_def io_bind_def)
  then show ?thesis
    by (rule locked_call [OF _ assms(2)]) (rule ensure_header [OF _ _ assms(3) v])
qed

lemma append_row_call:
  assumes "append_jsonl_sample_row js p v sample s = (r, s')" and "sound js s" and "reads_back js v"
    and "reads_back js sample"
  shows "sound js s' \<and> grows js s s' \<and> locked s' = locked s \<and> (r = Inr () \<longrightarrow> holds_header js p v s')"
proof (cases "validate_requested_header js v = Inr () \<and> validate_sample_row js sample = Inr ()")
  case False
  then have "s' = s \<and> r \<noteq> Inr ()"
    using assms(1) by (auto simp: append_jsonl_sample_row_def io_bind_def split: sum.splits)
  then show ?thesis using assms(2) by auto
next
  case True
  then have v: "is_header_object js v" and row: "repeated_header_field js sample = None" by (simp_all add: validated)
  let ?body = "\<lambda>file. io_bind (ensure_header_in_locked_file js file v False) (\<lambda>_. write_json_line js file sample)"
  have "io_bind (open_locked_jsonl_file js p) (\<lambda>file. closing file (?body file)) s = (r, s')"
    using assms(1) True by (simp add: append_jsonl_sample_row_def io_bind_def)
  then show ?thesis
  proof (rule locked_call [OF _ assms(2)])
    fix s1 r1 s2 assume run: "?body p s1 = (r1, s2)" and s1: "sound js s1"
    obtain r0 s0 where e: "ensure_header_in_locked_file js p v False s1 = (r0, s0)" by force
    note ens = ensure_header [OF e s1 assms(3) v]
    show "sound js s2 \<and> grows js s1 s2 \<and> locked s2 = locked s1 \<and> (r1 = Inr () \<longrightarrow> holds_header js p v s2)"
    proof (cases r0)
      case (Inl err)
      then show ?thesis using run e ens by (auto simp: io_bind_def)
    next
      case (Inr u)
      then have held: "holds_header js p v s0" using ens by (cases u) auto
      then obtain h where h: "header_of js (contents p s0) = Inr (Some h)" by (auto simp: holds_header_def)
      have "write_json_line js p sample s0 = (r1, s2)" using run e Inr by (simp add: io_bind_def)
      from write_row [OF this _ assms(4) row h] ens
      have w: "sound js s2" "grows js s0 s2" "locked s2 = locked s1" by auto
      then show ?thesis using ens held holds_header_grows [OF held w(2)] grows_trans by blast
    qed
  qed
qed

lemma writer_open_call:
  assumes "writer_open js p v s = (r, s')" and "sound js s" and "reads_back js v"
  shows "sound js s' \<and> grows js s s' \<and>
    (case r of Inl _ \<Rightarrow> locked s' = locked s
     | Inr w \<Rightarrow> w = \<lparr>writer_path = p, writer_file = p\<rparr> \<and> p \<notin> set (locked s) \<and> locked s' = p # locked s \<and>
         holds_header js p v s')"
proof (cases "validate_requested_header js v")
  case (Inl e)
  then show ?thesis using assms by (auto simp: writer_open_def io_bind_def)
next
  case (Inr u)
  then have v: "is_header_object js v" using validated(1) by (metis (full_types) unit.exhaust)
  obtain r0 s0 where o: "open_locked_jsonl_file js p s = (r0, s0)" by force
  note opened = open_locked_quiet [OF o] open_locked_sound [OF o assms(2)]
  show ?thesis
  proof (cases r0)
    case (Inl e)
    then show ?thesis using assms(1) Inr o opened by (auto simp: writer_open_def io_bind_def)
  next
    case Inr0: (Inr f)
    then have f: "f = p" "p \<notin> set (locked s)" "locked s0 = p # locked s" using opened by auto
    obtain r1 s1 where e: "ensure_header_in_locked_file js p v True s0 = (r1, s1)" by force
    have s1: "sound js s1" "grows js s s1" "locked s1 = p # locked s" "r1 = Inr () \<longrightarrow> holds_header js p v s1"
      using ensure_header [OF e _ assms(3) v] opened f grows_trans by auto
    show ?thesis
    proof (cases r1)
      case (Inl err)
      have c: "sound js (close_file p s1)" "grows js s (close_file p s1)"
        using s1 close_sound [of js s1 p] grows_trans by blast+
      have "r = Inl err" "s' = close_file p s1" using assms(1) Inr o Inr0 f e Inl
        by (auto simp: writer_open_def io_bind_def closing_on_error_def)
      then show ?thesis using c close_locked [OF f(2) s1(3)] by simp
    next
      case Inr1: (Inr u)
      then have "r = Inr \<lparr>writer_path = p, writer_file = p\<rparr>" "s' = s1" using assms(1) Inr o Inr0 f e
        by (auto simp: writer_open_def io_bind_def closing_on_error_def)
      then show ?thesis using s1 f Inr1 by (cases u) simp
    qed
  qed
qed

lemma append_sample_call:
  assumes "append_sample_row js w sample s = (r, s')" and "sound js s" and "reads_back js sample"
    and "header_of js (contents (writer_file w) s) = Inr (Some h)"
  shows "sound js s' \<and> grows js s s' \<and> locked s' = locked s"
proof (cases "validate_sample_row js sample = Inr ()")
  case False
  then have "s' = s" using assms(1) by (auto simp: append_sample_row_def io_bind_def split: sum.splits)
  then show ?thesis using assms(2) by auto
next
  case True
  then have "write_json_line js (writer_file w) sample s = (r, s')" "repeated_header_field js sample = None"
    using assms(1) validated(2) [of js sample] by (auto simp: append_sample_row_def io_bind_def)
  then show ?thesis using write_row [OF _ assms(2,3) _ assms(4)] by blast
qed

section \<open>Systems of cooperating writers\<close>

text \<open>
  The writers that are open, and the store. Every call holds the lock of its file while it reads and
  writes it, so a call is one step. The outcome of a call never matters: it may fail.
\<close>

type_synonym jsonl_system = "metrics_jsonl_writer list \<times> store"

inductive jsonl_step :: "('v, 'f) json_ops \<Rightarrow> jsonl_system \<Rightarrow> jsonl_system \<Rightarrow> bool" for js where
  step_open: "writer_open js p v s = (Inr w, s') \<Longrightarrow> jsonl_step js (ws, s) (w # ws, s')"
| step_open_failed: "writer_open js p v s = (Inl e, s') \<Longrightarrow> jsonl_step js (ws, s) (ws, s')"
| step_append: "w \<in> set ws \<Longrightarrow> append_sample_row js w sample s = (r, s') \<Longrightarrow> jsonl_step js (ws, s) (ws, s')"
| step_drop: "w \<in> set ws \<Longrightarrow> jsonl_step js (ws, s) (remove1 w ws, close_file (writer_file w) s)"
| step_ensure: "ensure_single_header js p v s = (r, s') \<Longrightarrow> jsonl_step js (ws, s) (ws, s')"
| step_append_row: "append_jsonl_sample_row js p v sample s = (r, s') \<Longrightarrow> jsonl_step js (ws, s) (ws, s')"

definition system_inv :: "('v, 'f) json_ops \<Rightarrow> store \<Rightarrow> jsonl_system \<Rightarrow> bool" where
  "system_inv js s0 sys \<longleftrightarrow>
     sound js (snd sys) \<and> grows js s0 (snd sys) \<and>
     locked (snd sys) = map writer_file (fst sys) \<and> distinct (locked (snd sys)) \<and>
     (\<forall>w \<in> set (fst sys). \<exists>h. header_of js (contents (writer_file w) (snd sys)) = Inr (Some h))"

lemma system_keeps:
  assumes "system_inv js s0 (ws, s)" and "sound js s'" and "grows js s s'" and "locked s' = locked s"
  shows "system_inv js s0 (ws, s')"
  using assms grows_trans [of js s0 s s'] by (fastforce simp: system_inv_def grows_def)

lemma removeAll_file:
  "distinct (map f ws) \<Longrightarrow> w \<in> set ws \<Longrightarrow> removeAll (f w) (map f ws) = map f (remove1 w ws)"
  by (induction ws) (auto simp: removeAll_id image_iff)

lemma step_inv:
  assumes "jsonl_step js sys sys'" and "\<forall>v. reads_back js v" and "system_inv js s0 sys"
  shows "system_inv js s0 sys'"
  using assms(1,3)
proof cases
  case (step_open p v s w s' ws)
  have inv: "system_inv js s0 (ws, s)" using assms(3) step_open by simp
  have call: "sound js s'" "grows js s s'" "w = \<lparr>writer_path = p, writer_file = p\<rparr>" "p \<notin> set (locked s)"
    "locked s' = p # locked s" "holds_header js p v s'"
    using writer_open_call [OF step_open(3)] inv assms(2) by (auto simp: system_inv_def)
  then show ?thesis
    using inv step_open grows_trans [OF _ call(2), of s0]
    by (fastforce simp: system_inv_def holds_header_def grows_def)
next
  case (step_open_failed p v s e s' ws)
  have inv: "system_inv js s0 (ws, s)" using assms(3) step_open_failed by simp
  then have "sound js s' \<and> grows js s s' \<and> locked s' = locked s"
    using writer_open_call [OF step_open_failed(3)] assms(2) by (auto simp: system_inv_def)
  then show ?thesis using system_keeps [OF inv] step_open_failed by simp
next
  case (step_append w ws sample s r s')
  have inv: "system_inv js s0 (ws, s)" using assms(3) step_append by simp
  then obtain h where "header_of js (contents (writer_file w) s) = Inr (Some h)"
    using step_append by (auto simp: system_inv_def)
  from append_sample_call [OF step_append(4) _ _ this] inv assms(2)
  have "sound js s' \<and> grows js s s' \<and> locked s' = locked s" by (auto simp: system_inv_def)
  then show ?thesis using system_keeps [OF inv] step_append by simp
next
  case (step_drop w ws s)
  have inv: "system_inv js s0 (ws, s)" using assms(3) step_drop by simp
  have "contents p (close_file (writer_file w) s) = contents p s" for p
    by (simp add: close_file_def contents_def)
  moreover have "locked (close_file (writer_file w) s) = map writer_file (remove1 w ws) \<and>
      distinct (map writer_file (remove1 w ws))"
  proof -
    have l: "locked s = map writer_file ws" and d: "distinct (map writer_file ws)"
      using inv unfolding system_inv_def by (metis fst_conv snd_conv)+
    from d have "distinct (removeAll (writer_file w) (map writer_file ws))" by (rule distinct_removeAll)
    then show ?thesis using removeAll_file [OF d step_drop(3)] by (simp add: close_file_def l)
  qed
  ultimately show ?thesis
    using inv step_drop close_sound [of js s "writer_file w"] grows_trans [of js s0 s]
    by (auto simp: system_inv_def close_file_def distinct_removeAll dest: notin_set_remove1)
next
  case (step_ensure p v s r s' ws)
  have inv: "system_inv js s0 (ws, s)" using assms(3) step_ensure by simp
  then have "sound js s' \<and> grows js s s' \<and> locked s' = locked s"
    using ensure_single_header_call [OF step_ensure(3)] assms(2) by (simp add: system_inv_def)
  then show ?thesis using system_keeps [OF inv] step_ensure by simp
next
  case (step_append_row p v sample s r s' ws)
  have inv: "system_inv js s0 (ws, s)" using assms(3) step_append_row by simp
  then have "sound js s' \<and> grows js s s' \<and> locked s' = locked s"
    using append_row_call [OF step_append_row(3)] assms(2) by (simp add: system_inv_def)
  then show ?thesis using system_keeps [OF inv] step_append_row by simp
qed

lemma steps_inv:
  assumes "(jsonl_step js)\<^sup>*\<^sup>* sys sys'" and "\<forall>v. reads_back js v" and "system_inv js s0 sys"
  shows "system_inv js s0 sys'"
  using assms by (induction rule: rtranclp_induct) (auto intro: step_inv)

section \<open>A concrete instance\<close>

text \<open>A header and a row that are written as one letter.\<close>

datatype demo_value = DemoHeader | DemoRow | DemoText string | DemoNumber int

fun demo_object :: "demo_value \<Rightarrow> (string \<Rightarrow> demo_value option) option" where
  "demo_object DemoHeader =
     Some [''schema'' \<mapsto> DemoText HEIMDALL_JSONL_SCHEMA, ''artifact_type'' \<mapsto> DemoText ''mcrx-network'',
           ''node_id'' \<mapsto> DemoText ''n'', ''producer'' \<mapsto> DemoText ''p'', ''created_at'' \<mapsto> DemoNumber 0,
           ''flags'' \<mapsto> DemoRow]"
| "demo_object DemoRow = Some Map.empty"
| "demo_object _ = None"

definition demo_js :: "(demo_value, int) json_ops" where
  "demo_js =
     \<lparr>js_to_vec = (\<lambda>v. case v of DemoHeader \<Rightarrow> Inr ''H'' | DemoRow \<Rightarrow> Inr ''R'' | _ \<Rightarrow> Inl ''unsupported''),
      js_from_str = (\<lambda>s. if s = ''H'' then Inr DemoHeader else if s = ''R'' then Inr DemoRow else Inl ''bad''),
      js_as_object = demo_object,
      js_as_str = (\<lambda>v. case v of DemoText t \<Rightarrow> Some t | _ \<Rightarrow> None),
      js_as_f64 = (\<lambda>v. case v of DemoNumber n \<Rightarrow> Some n | _ \<Rightarrow> None),
      js_is_finite = (\<lambda>_. True), js_object = (\<lambda>_. DemoRow), js_string = DemoText, js_number = DemoNumber,
      js_windows = False, js_show_error = (\<lambda>_. ''error''), js_contended = CustomError WouldBlock ''locked''\<rparr>"

lemma demo_reads_back: "\<forall>v. reads_back demo_js v"
proof
  have "written_as demo_js DemoHeader ''H'' DemoHeader" "written_as demo_js DemoRow ''R'' DemoRow"
    by (simp_all add: written_as_def demo_js_def utf8_tail.simps white_space_tail.simps byte_in_def strip_cr_def)
  then show "reads_back demo_js v" for v by (cases v) (simp_all add: reads_back_def demo_js_def)
qed

definition demo_store :: store where
  "demo_store = \<lparr>files = Map.empty, locked = [], faults = []\<rparr>"

lemma demo_sound: "sound demo_js demo_store"
  by (simp add: sound_def whole_writes_def demo_store_def contents_def document_Nil)

lemma jsonl_demo_open: "fst (writer_open demo_js [Normal ''m''] DemoHeader demo_store) =
    Inr \<lparr>writer_path = [Normal ''m''], writer_file = [Normal ''m'']\<rparr>"
  by (simp add: writer_open_def demo_store_def validate_requested_header_def is_header_object_def Let_def
      value_get_def value_is_object_def is_some_and_def demo_js_def open_locked_jsonl_file_def io_bind_def
      create_parent_directory_def path_parent_def open_append_def may_fail_def next_fault_def contents_def
      io_map_err_def try_lock_exclusive_def closing_on_error_def ensure_header_in_locked_file_def seek_start_def
      read_lines_def validate_header_reader_def line_items_def write_json_line_def write_all_def)

section \<open>Properties\<close>



text \<open>
  A header that a call has put into a file, or accepted in it, is found again: after any further
  calls of any writers, validating the file returns a header with the same schema, artifact type,
  node, producer and flags.
\<close>

theorem jsonl_header_found_again:
  assumes "\<forall>v. reads_back js v" and "sound js s" and "locked s = map writer_file ws" and "distinct (locked s)"
    and "\<forall>w \<in> set ws. \<exists>h. header_of js (contents (writer_file w) s) = Inr (Some h)"
    and "fst (ensure_single_header js p v s) = Inr () \<and> s1 = snd (ensure_single_header js p v s) \<or>
      fst (append_jsonl_sample_row js p v row s) = Inr () \<and> s1 = snd (append_jsonl_sample_row js p v row s)"
    and "(jsonl_step js)\<^sup>*\<^sup>* (ws, s1) (ws', s')"
    and "\<forall>line w. js_to_vec js v = Inr line \<longrightarrow> js_from_str js line = Inr w \<longrightarrow> headers_are_compatible js w v"
  shows "\<exists>h. validate_existing_header js p (s'\<lparr>faults := []\<rparr>) = (Inr (Some h), s'\<lparr>faults := []\<rparr>) \<and>
    headers_are_compatible js h v"
proof -
  have call: "sound js s1 \<and> grows js s s1 \<and> locked s1 = locked s \<and> holds_header js p v s1"
    using assms(1,2,6) ensure_single_header_call [of js p v s] append_row_call [of js p v row s]
    by (metis prod.collapse)
  moreover from this have "\<forall>w \<in> set ws. \<exists>h. header_of js (contents (writer_file w) s1) = Inr (Some h)"
    using assms(5) unfolding grows_def by blast
  ultimately have inv1: "system_inv js s1 (ws, s1)"
    using assms(3,4) unfolding system_inv_def fst_conv snd_conv by (metis grows_refl)
  have "grows js s1 s'"
    using steps_inv [OF assms(7,1) inv1] unfolding system_inv_def snd_conv by (elim conjE)
  moreover have "holds_header js p v s1" using call by (elim conjE)
  ultimately have "holds_header js p v s'" by (rule holds_header_grows [rotated])
  then obtain h where h: "header_of js (contents p s') = Inr (Some h)" "headers_are_compatible js h v"
    using assms(8) by (auto simp: holds_header_def header_found_def)
  moreover have "files s' p \<noteq> None"
    using h(1) by (cases "files s' p") (simp_all add: contents_def header_of_def validate_header_reader_def line_items_def)
  ultimately show ?thesis
    by (auto simp: validate_existing_header_def unless_missing_def open_read_def may_fail_def next_fault_def
        io_bind_def read_lines_def header_of_def contents_def)
qed

lemma jsonl_demo_append: "fst (append_jsonl_sample_row demo_js [Normal ''m''] DemoHeader DemoRow demo_store) = Inr ()"
  by (simp add: append_jsonl_sample_row_def demo_store_def validate_requested_header_def is_header_object_def
      Let_def value_get_def value_is_object_def is_some_and_def demo_js_def open_locked_jsonl_file_def io_bind_def
      create_parent_directory_def path_parent_def open_append_def may_fail_def next_fault_def contents_def
      io_map_err_def try_lock_exclusive_def closing_def ensure_header_in_locked_file_def seek_start_def
      read_lines_def validate_header_reader_def line_items_def write_json_line_def write_all_def
      validate_sample_row_def repeated_header_field_def HEADER_ONLY_KEYS_def)

theorem jsonl_header_found_again_witness:
  "\<exists>h. fst (validate_existing_header demo_js [Normal ''m'']
     (snd (append_jsonl_sample_row demo_js [Normal ''m''] DemoHeader DemoRow demo_store)\<lparr>faults := []\<rparr>)) =
     Inr (Some h) \<and> headers_are_compatible demo_js h DemoHeader"
proof -
  have "headers_are_compatible demo_js w DemoHeader"
    if "js_to_vec demo_js DemoHeader = Inr line" "js_from_str demo_js line = Inr w" for line w
    using that by (auto simp: demo_js_def headers_are_compatible_def list_all_iff)
  then show ?thesis
    using jsonl_header_found_again [where js = demo_js and s = demo_store and ws = "[]" and p = "[Normal ''m'']"
        and v = DemoHeader and row = DemoRow, OF demo_reads_back demo_sound, OF _ _ _ _ rtranclp.rtrancl_refl]
      jsonl_demo_append
    by (fastforce simp: demo_store_def)
qed

text \<open>
  A file whose last line lacks its newline is accepted, and the next row is glued to that line: a
  header that ends the file is then followed by the row on its own line.
\<close>

theorem jsonl_unterminated_header_glued:
  assumes "contents p s = header" and "faults s = []" and "p \<notin> set (locked s)" and "header \<noteq> []"
    and "written_as js v header v" and "is_header_object js v" and "js_to_vec js row = Inr line"
    and "value_is_object js row" and "repeated_header_field js row = None"
  shows "fst (append_jsonl_sample_row js p v row s) = Inr () \<and>
    contents p (snd (append_jsonl_sample_row js p v row s)) = header @ line @ [newline]"
proof -
  have "split_lines [] header = ([], header)"
    using split_lines_plain [of header "[]"] assms(5) by (simp add: written_as_def)
  then have items: "line_items header None = [Inr header]"
    using assms(4,5) by (simp add: line_items_def line_item_def written_as_def)
  have parse: "validate_header_reader js False [Inr header] = Inr (Some v)"
    using assms(5,6) by (simp add: validate_header_reader_def written_as_def)
  show ?thesis
    using assms items parse
    by (cases "path_parent p")
       (auto simp: append_jsonl_sample_row_def validated io_bind_def open_locked_jsonl_file_def
        create_parent_directory_def create_dir_all_def open_append_def may_fail_def next_fault_def contents_def
        io_map_err_def try_lock_exclusive_def closing_def ensure_header_in_locked_file_def seek_start_def
        read_lines_def write_json_line_def write_all_def headers_are_compatible_def list_all_iff
        validate_requested_header_def validate_sample_row_def close_file_def)
qed

end
