(* ===== verification/FfiWorker.thy ===== *)
theory FfiWorker
  imports Prelude
begin

text \<open>
  The receive worker behind the C functions (\<open>mcrx-core-ffi/src/lib.rs\<close>): \<open>mcrx_context_start\<close>,
  \<open>mcrx_context_stop\<close>, \<open>mcrx_context_free\<close> and \<open>worker_loop\<close> run in different threads and in packet
  callbacks. Between two accesses to shared atomics or mutexes anything may happen, so each such
  access is one action, and a schedule is any sequence of actions. What a receive yields is part of
  the schedule.
\<close>

section \<open>State\<close>

definition MCRX_STATUS_OK :: int where "MCRX_STATUS_OK = 0"
definition MCRX_STATUS_INVALID_ARGUMENT :: int where "MCRX_STATUS_INVALID_ARGUMENT = 1"
definition MCRX_STATUS_ERROR :: int where "MCRX_STATUS_ERROR = 2"
definition MCRX_STATUS_ALREADY_RUNNING :: int where "MCRX_STATUS_ALREADY_RUNNING = 3"
definition MCRX_STATUS_PANIC :: int where "MCRX_STATUS_PANIC = 4"

text \<open>Where a worker is in \<open>worker_loop\<close>.\<close>

datatype worker_pc =
    AtCheck               \<comment> \<open>about to load \<open>active_worker_generation\<close>\<close>
  | AtReceive             \<comment> \<open>about to call \<open>receive_one\<close>\<close>
  | AtCallback            \<comment> \<open>in \<open>call_packet_callback\<close>\<close>
  | AtWait                \<comment> \<open>entering \<open>wait_for_worker_wakeup\<close>\<close>
  | AtSleep               \<comment> \<open>in \<open>wait_timeout_while\<close>, which is about to wait\<close>
  | Asleep                \<comment> \<open>waiting on \<open>wake_worker\<close>\<close>
  | AtError string        \<comment> \<open>entering \<open>stop_worker_generation_with_error\<close>\<close>
  | Finished bool         \<comment> \<open>the thread has ended, by a panic for \<open>True\<close>\<close>

record worker =
  wk_generation :: u64
  wk_pc :: worker_pc
  wk_received :: nat      \<comment> \<open>packets taken so far\<close>

text \<open>Who calls: a thread of the host, or the callback of a worker.\<close>

datatype actor = Host nat | InCallback nat

text \<open>Where a call is.\<close>

datatype call =
    NoCall
  | StopTakes bool        \<comment> \<open>\<open>stop_worker\<close>, about to lock the handle; \<open>True\<close> when freeing\<close>
  | StopJoins bool nat    \<comment> \<open>\<open>stop_worker\<close>, in \<open>JoinHandle::join\<close>\<close>
  | StartLocks            \<comment> \<open>\<open>mcrx_context_start\<close>, about to lock the handle\<close>
  | StartStores u64       \<comment> \<open>holding the lock, about to store the generation\<close>
  | StartSpawns u64       \<comment> \<open>holding the lock, about to spawn\<close>

record worker_state =
  handle_alive :: bool
  active_worker_generation :: u64
  next_worker_generation :: u64
  worker_handle :: "nat option"      \<comment> \<open>the \<open>JoinHandle\<close>, by the position of its thread\<close>
  worker_lock :: "actor option"
  worker_poisoned :: bool
  worker_error :: "string option"    \<comment> \<open>\<open>last_error\<close>\<close>
  workers :: "worker list"           \<comment> \<open>all threads spawned so far\<close>
  woken :: "nat set"                 \<comment> \<open>the threads that were asleep when \<open>wake_worker\<close> was notified\<close>
  calls :: "actor \<Rightarrow> call"
  statuses :: "(actor \<times> int) list"   \<comment> \<open>the calls that returned, latest first\<close>

definition worker_state_new :: worker_state where
  "worker_state_new =
     \<lparr>handle_alive = True, active_worker_generation = 0, next_worker_generation = 1, worker_handle = None,
      worker_lock = None, worker_poisoned = False, worker_error = None, workers = [], woken = {},
      calls = (\<lambda>_. NoCall), statuses = []\<rparr>"

section \<open>Actions\<close>

datatype outcome = GotPacket | GotNothing | GotError string | Panicked

datatype wake_reason = TimedOut | Notified | Spurious

datatype action =
    CallStop actor | CallFree actor | StopTake actor | StopJoin actor
  | CallStart actor bool | StartLock actor | StartStore actor | StartSpawn actor bool
  | Check nat | Receive nat outcome | CallbackReturns nat | Wait nat | Sleep nat
  | Wake nat wake_reason | Fail nat

definition set_call :: "actor \<Rightarrow> call \<Rightarrow> worker_state \<Rightarrow> worker_state" where
  "set_call a c s = s\<lparr>calls := (calls s)(a := c)\<rparr>"

definition finish_call :: "actor \<Rightarrow> int \<Rightarrow> worker_state \<Rightarrow> worker_state" where
  "finish_call a status s = set_call a NoCall s\<lparr>statuses := (a, status) # statuses s\<rparr>"

definition set_worker :: "nat \<Rightarrow> worker_pc \<Rightarrow> worker_state \<Rightarrow> worker_state" where
  "set_worker w pc s = s\<lparr>workers := (workers s)[w := (workers s ! w)\<lparr>wk_pc := pc\<rparr>]\<rparr>"

definition wk_finished :: "worker_state \<Rightarrow> nat \<Rightarrow> bool" where
  "wk_finished s w \<longleftrightarrow> (case wk_pc (workers s ! w) of Finished _ \<Rightarrow> True | _ \<Rightarrow> False)"

text \<open>\<open>wake_worker.notify_all()\<close> reaches the threads that wait at this moment.\<close>

definition notify_all :: "worker_state \<Rightarrow> worker_state" where
  "notify_all s = s\<lparr>woken := woken s \<union> {w. w < length (workers s) \<and> wk_pc (workers s ! w) = Asleep}\<rparr>"

text \<open>A callback calls while its worker is in it; one call at a time.\<close>

definition may_call :: "actor \<Rightarrow> worker_state \<Rightarrow> bool" where
  "may_call a s \<longleftrightarrow>
     calls s a = NoCall \<and>
     (case a of Host _ \<Rightarrow> True
      | InCallback w \<Rightarrow> w < length (workers s) \<and> wk_pc (workers s ! w) = AtCallback)"

text \<open>
  \<open>stop_worker\<close>: the store and \<open>notify_all\<close>; the handle is taken; the thread is joined. Its result
  becomes the status of \<open>mcrx_context_stop\<close>; \<open>mcrx_context_free\<close> drops it.
\<close>

definition stop_store :: "actor \<Rightarrow> bool \<Rightarrow> worker_state \<Rightarrow> worker_state" where
  "stop_store a freeing s = set_call a (StopTakes freeing) (notify_all (s\<lparr>active_worker_generation := 0\<rparr>))"

definition free_call :: "actor \<Rightarrow> worker_state \<Rightarrow> worker_state" where
  "free_call a s = stop_store a True (s\<lparr>handle_alive := False\<rparr>)"

definition finish_stop :: "actor \<Rightarrow> bool \<Rightarrow> string + unit \<Rightarrow> worker_state \<Rightarrow> worker_state" where
  "finish_stop a freeing r s =
     (if freeing then set_call a NoCall s
      else
        (case r of
           Inr _ \<Rightarrow> finish_call a MCRX_STATUS_OK (s\<lparr>worker_error := None\<rparr>)
         | Inl err \<Rightarrow> finish_call a MCRX_STATUS_ERROR (s\<lparr>worker_error := Some err\<rparr>)))"

definition stop_take :: "actor \<Rightarrow> bool \<Rightarrow> worker_state \<Rightarrow> worker_state" where
  "stop_take a freeing s =
     (if worker_poisoned s then finish_stop a freeing (Inl ''mcrx worker mutex is poisoned'') s
      else
        (case worker_handle s of
           None \<Rightarrow> finish_stop a freeing (Inr ()) s
         | Some h \<Rightarrow>
             (let s' = s\<lparr>worker_handle := None\<rparr> in
              if a = InCallback h then finish_stop a freeing (Inr ()) s'
              else set_call a (StopJoins freeing h) s')))"

definition stop_join :: "actor \<Rightarrow> bool \<Rightarrow> nat \<Rightarrow> worker_state \<Rightarrow> worker_state" where
  "stop_join a freeing h s =
     finish_stop a freeing
       (if wk_pc (workers s ! h) = Finished True then Inl ''mcrx receive worker panicked'' else Inr ()) s"

text \<open>
  \<open>mcrx_context_start\<close>: the check of the callback; the lock and the next generation; the store; the
  thread.
\<close>

definition start_call :: "actor \<Rightarrow> bool \<Rightarrow> worker_state \<Rightarrow> worker_state" where
  "start_call a has_callback s =
     (if \<not> has_callback
      then finish_call a MCRX_STATUS_INVALID_ARGUMENT (s\<lparr>worker_error := Some ''callback must not be null''\<rparr>)
      else set_call a StartLocks s)"

definition next_generation :: "u64 \<Rightarrow> u64" where
  "next_generation current = max (current + 1) 1"

definition start_lock :: "actor \<Rightarrow> worker_state \<Rightarrow> worker_state" where
  "start_lock a s =
     (if worker_poisoned s
      then finish_call a MCRX_STATUS_ERROR (s\<lparr>worker_error := Some ''mcrx worker mutex is poisoned''\<rparr>)
      else if (\<exists>h. worker_handle s = Some h \<and> \<not> wk_finished s h)
      then finish_call a MCRX_STATUS_ALREADY_RUNNING s
      else
        set_call a (StartStores (next_worker_generation s))
          (s\<lparr>worker_handle := None, worker_lock := Some a,
             next_worker_generation := next_generation (next_worker_generation s)\<rparr>))"

definition start_store :: "actor \<Rightarrow> u64 \<Rightarrow> worker_state \<Rightarrow> worker_state" where
  "start_store a g s = set_call a (StartSpawns g) (s\<lparr>active_worker_generation := g\<rparr>)"

text \<open>A spawn that fails panics and poisons the mutex.\<close>

definition start_spawn :: "actor \<Rightarrow> u64 \<Rightarrow> bool \<Rightarrow> worker_state \<Rightarrow> worker_state" where
  "start_spawn a g works s =
     (if works
      then finish_call a MCRX_STATUS_OK
        (s\<lparr>workers := workers s @ [\<lparr>wk_generation = g, wk_pc = AtCheck, wk_received = 0\<rparr>],
           worker_handle := Some (length (workers s)), worker_lock := None, worker_error := None\<rparr>)
      else finish_call a MCRX_STATUS_PANIC (s\<lparr>worker_poisoned := True, worker_lock := None\<rparr>))"

text \<open>\<open>worker_loop\<close>, from one access to the shared state to the next.\<close>

definition worker_check :: "nat \<Rightarrow> worker_state \<Rightarrow> worker_state" where
  "worker_check w s =
     set_worker w
       (if active_worker_generation s = wk_generation (workers s ! w) then AtReceive else Finished False) s"

definition worker_receive :: "nat \<Rightarrow> outcome \<Rightarrow> worker_state \<Rightarrow> worker_state" where
  "worker_receive w r s =
     (case r of
        GotPacket \<Rightarrow>
          s\<lparr>workers := (workers s)[w := (workers s ! w)
             \<lparr>wk_pc := AtCallback, wk_received := wk_received (workers s ! w) + 1\<rparr>]\<rparr>
      | GotNothing \<Rightarrow> set_worker w AtWait s
      | GotError e \<Rightarrow> set_worker w (AtError e) s
      | Panicked \<Rightarrow> set_worker w (Finished True) s)"

definition worker_wait :: "nat \<Rightarrow> worker_state \<Rightarrow> worker_state" where
  "worker_wait w s =
     set_worker w (if active_worker_generation s \<noteq> wk_generation (workers s ! w) then AtCheck else AtSleep) s"

text \<open>
  \<open>wait_timeout_while\<close>: between its look at the generation and the wait it holds \<open>idle_wait\<close>, which
  \<open>stop_worker\<close> does not take. Woken before the timeout, it looks at the generation again.
\<close>

definition worker_sleep :: "nat \<Rightarrow> worker_state \<Rightarrow> worker_state" where
  "worker_sleep w s = set_worker w Asleep (s\<lparr>woken := woken s - {w}\<rparr>)"

definition worker_wake :: "nat \<Rightarrow> wake_reason \<Rightarrow> worker_state \<Rightarrow> worker_state" where
  "worker_wake w reason s =
     set_worker w
       (if reason \<noteq> TimedOut \<and> active_worker_generation s = wk_generation (workers s ! w) then AtSleep else AtCheck) s"

text \<open>A message for C; none may contain a zero byte.\<close>

definition cstring_lossy :: "string \<Rightarrow> string" where
  "cstring_lossy message =
     (if CHR 0x00 \<in> set message then ''mcrx error contained an interior nul byte'' else message)"

text \<open>\<open>stop_worker_generation_with_error\<close>: the exchange succeeds only for the worker's own generation.\<close>

definition worker_fail :: "nat \<Rightarrow> string \<Rightarrow> worker_state \<Rightarrow> worker_state" where
  "worker_fail w e s =
     set_worker w (Finished False)
       (if active_worker_generation s = wk_generation (workers s ! w)
        then notify_all (s\<lparr>active_worker_generation := 0, worker_error := Some (cstring_lossy e)\<rparr>) else s)"

text \<open>The actions, where they are possible.\<close>

definition at_pc :: "nat \<Rightarrow> worker_pc \<Rightarrow> worker_state \<Rightarrow> bool" where
  "at_pc w pc s \<longleftrightarrow> w < length (workers s) \<and> wk_pc (workers s ! w) = pc"

fun act :: "action \<Rightarrow> worker_state \<Rightarrow> worker_state option" where
  "act (CallStop a) s = (if may_call a s then Some (stop_store a False s) else None)"
| "act (CallFree a) s = (if may_call a s then Some (free_call a s) else None)"
| "act (StopTake a) s =
     (case calls s a of
        StopTakes freeing \<Rightarrow> if worker_lock s = None then Some (stop_take a freeing s) else None
      | _ \<Rightarrow> None)"
| "act (StopJoin a) s =
     (case calls s a of
        StopJoins freeing h \<Rightarrow> if wk_finished s h then Some (stop_join a freeing h s) else None
      | _ \<Rightarrow> None)"
| "act (CallStart a has_callback) s = (if may_call a s then Some (start_call a has_callback s) else None)"
| "act (StartLock a) s = (if calls s a = StartLocks \<and> worker_lock s = None then Some (start_lock a s) else None)"
| "act (StartStore a) s = (case calls s a of StartStores g \<Rightarrow> Some (start_store a g s) | _ \<Rightarrow> None)"
| "act (StartSpawn a works) s = (case calls s a of StartSpawns g \<Rightarrow> Some (start_spawn a g works s) | _ \<Rightarrow> None)"
| "act (Check w) s = (if at_pc w AtCheck s then Some (worker_check w s) else None)"
| "act (Receive w r) s = (if at_pc w AtReceive s then Some (worker_receive w r s) else None)"
| "act (CallbackReturns w) s =
     (if at_pc w AtCallback s \<and> calls s (InCallback w) = NoCall then Some (set_worker w AtCheck s) else None)"
| "act (Wait w) s = (if at_pc w AtWait s then Some (worker_wait w s) else None)"
| "act (Sleep w) s = (if at_pc w AtSleep s then Some (worker_sleep w s) else None)"
| "act (Wake w reason) s =
     (if at_pc w Asleep s \<and> (reason = Notified \<longrightarrow> w \<in> woken s) then Some (worker_wake w reason s) else None)"
| "act (Fail w) s =
     (if w < length (workers s)
      then (case wk_pc (workers s ! w) of AtError e \<Rightarrow> Some (worker_fail w e s) | _ \<Rightarrow> None) else None)"

fun run_schedule :: "action list \<Rightarrow> worker_state \<Rightarrow> worker_state option" where
  "run_schedule [] s = Some s"
| "run_schedule (x # xs) s = Option.bind (act x s) (run_schedule xs)"

lemma notify_simps [simp]:
  "workers (notify_all s) = workers s" "calls (notify_all s) = calls s"
  "active_worker_generation (notify_all s) = active_worker_generation s"
  "next_worker_generation (notify_all s) = next_worker_generation s" "worker_lock (notify_all s) = worker_lock s"
  "worker_handle (notify_all s) = worker_handle s" "worker_poisoned (notify_all s) = worker_poisoned s"
  by (simp_all add: notify_all_def)

section \<open>Generations\<close>

definition gens :: "worker_state \<Rightarrow> u64 list" where
  "gens s = map wk_generation (workers s)"

lemma gens_set_worker [simp]: "gens (set_worker w pc s) = gens s"
proof -
  have "map wk_generation ((workers s)[w := (workers s ! w)\<lparr>wk_pc := pc\<rparr>]) = map wk_generation (workers s)"
    by (cases "w < length (workers s)") (simp_all add: map_update list_update_same_conv list_update_beyond)
  then show ?thesis by (simp add: gens_def set_worker_def)
qed

lemma gens_receive [simp]: "gens (worker_receive w r s) = gens s"
proof (cases r)
  case GotPacket
  have "map wk_generation ((workers s)[w := (workers s ! w)\<lparr>wk_pc := AtCallback,
      wk_received := wk_received (workers s ! w) + 1\<rparr>]) = map wk_generation (workers s)"
    by (cases "w < length (workers s)") (simp_all add: map_update list_update_same_conv list_update_beyond)
  then show ?thesis using GotPacket by (simp add: gens_def worker_receive_def)
qed (simp_all add: worker_receive_def)

text \<open>
  As long as the counter has not wrapped around, generations are fresh: no two workers share one, a
  pending start holds the lock and a generation that no worker has.
\<close>

definition pending :: "worker_state \<Rightarrow> actor \<Rightarrow> u64 \<Rightarrow> bool" where
  "pending s a g \<longleftrightarrow> calls s a = StartStores g \<or> calls s a = StartSpawns g"

definition gens_inv :: "worker_state \<Rightarrow> bool" where
  "gens_inv s \<longleftrightarrow>
     unat (active_worker_generation s) < unat (next_worker_generation s) \<and>
     (\<forall>g \<in> set (gens s). 0 < unat g \<and> unat g < unat (next_worker_generation s)) \<and>
     distinct (gens s) \<and>
     (\<forall>a g. pending s a g \<longrightarrow>
        worker_lock s = Some a \<and> 0 < unat g \<and> unat g < unat (next_worker_generation s) \<and> g \<notin> set (gens s))"

lemma gens_inv_new: "gens_inv worker_state_new"
  by (simp add: gens_inv_def worker_state_new_def gens_def pending_def)

lemma next_generation_unat: "unat g + 1 < 2 ^ 64 \<Longrightarrow> unat (next_generation g) = unat g + 1"
  by (simp add: next_generation_def max_def word_le_nat_alt unat_word_ariths)

text \<open>What an action that concerns no generation keeps.\<close>

definition unrelated :: "worker_state \<Rightarrow> worker_state \<Rightarrow> bool" where
  "unrelated s s' \<longleftrightarrow>
     gens s' = gens s \<and> active_worker_generation s' \<in> {0, active_worker_generation s} \<and>
     next_worker_generation s' = next_worker_generation s \<and> worker_lock s' = worker_lock s \<and>
     (\<forall>a g. pending s' a g \<longrightarrow> pending s a g)"

lemma unrelated_gens:
  assumes "unrelated s s'" and "gens_inv s"
  shows "gens_inv s' \<and> unat (next_worker_generation s') \<le> unat (next_worker_generation s) + 1"
  using assms unfolding gens_inv_def unrelated_def by force

lemmas call_simps = set_call_def finish_call_def finish_stop_def pending_def gens_def

lemma unrelated_calls:
  "unrelated s (stop_store a freeing s)" "unrelated s (free_call a s)"
  "unrelated s (finish_stop a freeing r s)" "unrelated s (stop_take a freeing s)"
  "unrelated s (stop_join a freeing h s)" "unrelated s (start_call a has_callback s)"
  by (simp_all add: unrelated_def free_call_def stop_store_def stop_take_def stop_join_def start_call_def call_simps Let_def
      split: option.splits sum.splits)

lemma unrelated_worker:
  "unrelated s (set_worker w pc s)" "unrelated s (worker_check w s)" "unrelated s (worker_receive w r s)"
  "unrelated s (worker_wait w s)" "unrelated s (worker_sleep w s)" "unrelated s (worker_wake w reason s)"
  "unrelated s (worker_fail w e s)"
proof -
  have only: "unrelated s s'"
    if "gens s' = gens s" "active_worker_generation s' \<in> {0, active_worker_generation s}"
      "next_worker_generation s' = next_worker_generation s" "worker_lock s' = worker_lock s" "calls s' = calls s" for s'
    using that by (simp add: unrelated_def pending_def)
  have upd: "active_worker_generation (set_worker w pc s) = active_worker_generation s"
    "next_worker_generation (set_worker w pc s) = next_worker_generation s"
    "worker_lock (set_worker w pc s) = worker_lock s" "calls (set_worker w pc s) = calls s" for pc s
    by (simp_all add: set_worker_def)
  show "unrelated s (set_worker w pc s)" "unrelated s (worker_check w s)" "unrelated s (worker_wait w s)"
    "unrelated s (worker_wake w reason s)"
    by (auto intro!: only simp: worker_check_def worker_wait_def worker_wake_def upd)
  show "unrelated s (worker_sleep w s)"
    by (rule only) (auto simp: worker_sleep_def upd, simp_all add: gens_def)
  show "unrelated s (worker_receive w r s)"
    by (rule only, rule gens_receive) (auto simp: worker_receive_def upd split: outcome.split)
  show "unrelated s (worker_fail w e s)"
    by (rule only) (auto simp: worker_fail_def upd, simp_all add: gens_def)
qed

lemma act_unrelated:
  assumes "act x s = Some s'"
  obtains (lock) a where "x = StartLock a" | (store) a where "x = StartStore a"
  | (spawn) a works where "x = StartSpawn a works" | (unrelated) "unrelated s s'"
proof (cases x)
  case (StartLock a)
  then show thesis by (rule lock)
next
  case (StartStore a)
  then show thesis by (rule store)
next
  case (StartSpawn a works)
  then show thesis by (rule spawn)
qed (rule unrelated, use assms unrelated_calls unrelated_worker in
  \<open>auto split: if_splits call.splits worker_pc.splits\<close>)+

lemma act_gens:
  assumes "act x s = Some s'" and "gens_inv s" and "unat (next_worker_generation s) + 1 < 2 ^ 64"
  shows "gens_inv s' \<and> unat (next_worker_generation s') \<le> unat (next_worker_generation s) + 1"
  using assms(1)
proof (cases rule: act_unrelated)
  case (lock a)
  then have free: "worker_lock s = None" and s': "s' = start_lock a s" using assms(1) by (auto split: if_splits)
  have up: "unat (next_generation (next_worker_generation s)) = unat (next_worker_generation s) + 1"
    by (rule next_generation_unat [OF assms(3)])
  show ?thesis
    using assms(2) free up
    by (auto simp: s' start_lock_def gens_inv_def call_simps less_SucI split: if_splits)
next
  case (store a)
  then obtain g where g: "calls s a = StartStores g" "s' = start_store a g s"
    using assms(1) by (auto split: call.splits)
  then have p: "pending s a g" by (simp add: pending_def)
  have facts: "gens s' = gens s" "active_worker_generation s' = g" "worker_lock s' = worker_lock s"
    "next_worker_generation s' = next_worker_generation s"
    by (simp_all add: g(2) start_store_def set_call_def gens_def)
  have "pending s' b h \<Longrightarrow> pending s b h" for b h
    using p by (auto simp: g start_store_def set_call_def pending_def split: if_splits)
  then show ?thesis using assms(2) p unfolding gens_inv_def facts by (meson le_add1)
next
  case (spawn a works)
  then obtain g where g: "calls s a = StartSpawns g" "s' = start_spawn a g works s"
    using assms(1) by (auto split: call.splits)
  then have p: "pending s a g" by (simp add: pending_def)
  then have inv: "worker_lock s = Some a" "0 < unat g" "unat g < unat (next_worker_generation s)" "g \<notin> set (gens s)"
    using assms(2) unfolding gens_inv_def by blast+
  have "\<not> pending s' b h" for b h
  proof (cases "b = a")
    case False
    then have "\<not> pending s b h" using assms(2) inv(1) unfolding gens_inv_def by (metis option.inject)
    then show ?thesis using False by (simp add: g(2) start_spawn_def call_simps)
  qed (simp add: g(2) start_spawn_def call_simps)
  moreover have "active_worker_generation s' = active_worker_generation s"
    "next_worker_generation s' = next_worker_generation s" "gens s' = gens s \<or> gens s' = gens s @ [g]"
    by (auto simp: g(2) start_spawn_def call_simps)
  ultimately show ?thesis using assms(2) inv unfolding gens_inv_def by auto
next
  case unrelated
  then show ?thesis by (rule unrelated_gens [OF _ assms(2)])
qed

lemma run_gens:
  assumes "run_schedule xs s = Some s'" and "gens_inv s" and "unat (next_worker_generation s) + length xs < 2 ^ 64"
  shows "gens_inv s'"
  using assms
proof (induction xs arbitrary: s)
  case (Cons x xs)
  then obtain s1 where s1: "act x s = Some s1" "run_schedule xs s1 = Some s'" by (auto simp: bind_eq_Some_conv)
  then show ?case using act_gens [OF s1(1)] Cons by simp
qed simp

section \<open>A worker that was stopped\<close>

text \<open>Its generation is not the active one.\<close>

definition stopped :: "nat \<Rightarrow> worker_state \<Rightarrow> bool" where
  "stopped w s \<longleftrightarrow> w < length (workers s) \<and> wk_generation (workers s ! w) \<noteq> active_worker_generation s"

text \<open>The packets a stopped worker has taken, with the one it is about to take.\<close>

definition will_receive :: "worker \<Rightarrow> nat" where
  "will_receive k = wk_received k + (if wk_pc k = AtReceive then 1 else 0)"

text \<open>The actions of a worker's own thread, and how many of them are left at most.\<close>

fun acts_for :: "action \<Rightarrow> nat option" where
  "acts_for (Check w) = Some w"
| "acts_for (Receive w r) = Some w"
| "acts_for (CallbackReturns w) = Some w"
| "acts_for (Wait w) = Some w"
| "acts_for (Sleep w) = Some w"
| "acts_for (Wake w reason) = Some w"
| "acts_for (Fail w) = Some w"
| "acts_for _ = None"

fun steps_left :: "worker_pc \<Rightarrow> nat" where
  "steps_left AtReceive = 3"
| "steps_left AtCallback = 2"
| "steps_left AtWait = 2"
| "steps_left AtSleep = 3"
| "steps_left Asleep = 2"
| "steps_left AtCheck = 1"
| "steps_left (AtError e) = 1"
| "steps_left (Finished p) = 0"

lemma workers_calls [simp]:
  "workers (set_call a c s) = workers s" "workers (finish_call a st s) = workers s"
  "workers (finish_stop a freeing r s) = workers s" "workers (stop_store a freeing s) = workers s"
  "workers (free_call a s) = workers s"
  "workers (stop_take a freeing s) = workers s" "workers (stop_join a freeing h s) = workers s"
  "workers (start_call a has_callback s) = workers s" "workers (start_lock a s) = workers s"
  "workers (start_store a g s) = workers s"
  by (simp_all add: set_call_def finish_call_def finish_stop_def free_call_def stop_store_def stop_take_def stop_join_def
      start_call_def start_lock_def start_store_def Let_def split: option.splits sum.splits)

text \<open>An action leaves the workers alone, adds one, or is one worker's own.\<close>

lemma act_workers:
  assumes "act x s = Some s'" and "w < length (workers s)" and "acts_for x \<noteq> Some w"
  shows "w < length (workers s') \<and> workers s' ! w = workers s ! w"
  using assms
  by (cases x)
     (auto simp: start_spawn_def finish_call_def set_call_def nth_append set_worker_def worker_check_def
       worker_receive_def worker_wait_def worker_sleep_def worker_wake_def worker_fail_def
       split: if_splits call.splits worker_pc.splits outcome.splits)

lemma act_own:
  assumes "act x s = Some s'" and "acts_for x = Some w" and "stopped w s"
  shows "wk_generation (workers s' ! w) = wk_generation (workers s ! w) \<and>
    active_worker_generation s' = active_worker_generation s \<and> w < length (workers s') \<and>
    steps_left (wk_pc (workers s' ! w)) < steps_left (wk_pc (workers s ! w)) \<and>
    wk_received (workers s ! w) \<le> wk_received (workers s' ! w) \<and>
    will_receive (workers s' ! w) \<le> will_receive (workers s ! w) \<and> (\<forall>v. v \<noteq> w \<longrightarrow> workers s' ! v = workers s ! v)"
  using assms
  by (cases x)
     (auto simp: set_worker_def worker_check_def worker_receive_def worker_wait_def worker_sleep_def worker_wake_def worker_fail_def at_pc_def
       stopped_def will_receive_def split: if_splits worker_pc.splits outcome.splits)

lemma act_stopped:
  assumes "act x s = Some s'" and "gens_inv s" and "stopped w s" and "acts_for x \<noteq> Some w"
  shows "stopped w s'"
proof -
  have w: "w < length (workers s')" "workers s' ! w = workers s ! w"
    using act_workers [OF assms(1)] assms(3,4) by (auto simp: stopped_def)
  have gen: "wk_generation (workers s ! w) \<in> set (gens s)" using assms(3) by (simp add: stopped_def gens_def)
  have pos: "0 < unat (wk_generation (workers s ! w))" using assms(2) gen unfolding gens_inv_def by metis
  from assms(1) show ?thesis
  proof (cases rule: act_unrelated)
    case (store a)
    then obtain g where g: "calls s a = StartStores g" "s' = start_store a g s"
      using assms(1) by (auto split: call.splits)
    then have "pending s a g" by (simp add: pending_def)
    then have "g \<noteq> wk_generation (workers s ! w)" using assms(2) gen unfolding gens_inv_def by metis
    then show ?thesis using w by (simp add: stopped_def g start_store_def set_call_def)
  next
    case (lock a)
    then have "active_worker_generation s' = active_worker_generation s"
      using assms(1) by (auto simp: start_lock_def set_call_def finish_call_def split: if_splits)
    then show ?thesis using w assms(3) by (simp add: stopped_def)
  next
    case (spawn a works)
    then have "active_worker_generation s' = active_worker_generation s"
      using assms(1) by (auto simp: start_spawn_def set_call_def finish_call_def split: call.splits)
    then show ?thesis using w assms(3) by (simp add: stopped_def)
  next
    case unrelated
    then show ?thesis using w assms(3) pos by (auto simp: stopped_def unrelated_def)
  qed
qed

lemma run_stopped:
  assumes "run_schedule xs s = Some s'" and "gens_inv s" and "unat (next_worker_generation s) + length xs < 2 ^ 64"
    and "stopped w s"
  shows "stopped w s' \<and>
    length (filter (\<lambda>x. acts_for x = Some w) xs) + steps_left (wk_pc (workers s' ! w)) \<le> steps_left (wk_pc (workers s ! w)) \<and>
    wk_received (workers s ! w) \<le> wk_received (workers s' ! w) \<and>
    will_receive (workers s' ! w) \<le> will_receive (workers s ! w)"
  using assms
proof (induction xs arbitrary: s)
  case (Cons x xs)
  then obtain s1 where s1: "act x s = Some s1" "run_schedule xs s1 = Some s'" by (auto simp: bind_eq_Some_conv)
  have "stopped w s1 \<and>
      (if acts_for x = Some w then 1 else 0) + steps_left (wk_pc (workers s1 ! w)) \<le> steps_left (wk_pc (workers s ! w)) \<and>
      wk_received (workers s ! w) \<le> wk_received (workers s1 ! w) \<and>
      will_receive (workers s1 ! w) \<le> will_receive (workers s ! w)"
  proof (cases "acts_for x = Some w")
    case True
    then show ?thesis using act_own [OF s1(1) True Cons.prems(4)] Cons.prems(4) by (auto simp: stopped_def)
  next
    case False
    then show ?thesis
      using act_stopped [OF s1(1) Cons.prems(2,4) False] act_workers [OF s1(1) _ False] Cons.prems(4)
      by (auto simp: stopped_def)
  qed
  moreover have "gens_inv s1" "unat (next_worker_generation s1) + length xs < 2 ^ 64"
    using act_gens [OF s1(1) Cons.prems(2)] Cons.prems(3) by auto
  ultimately show ?case using Cons.IH [OF s1(2)] by auto
qed simp

lemma run_append: "run_schedule (xs @ ys) s = Option.bind (run_schedule xs s) (run_schedule ys)"
proof (induction xs arbitrary: s)
  case (Cons x xs)
  then show ?case by (cases "act x s") simp_all
qed simp

lemma run_next:
  assumes "run_schedule xs s = Some s'" and "gens_inv s" and "unat (next_worker_generation s) + length xs < 2 ^ 64"
  shows "unat (next_worker_generation s') \<le> unat (next_worker_generation s) + length xs"
  using assms
proof (induction xs arbitrary: s)
  case (Cons x xs)
  then obtain s1 where s1: "act x s = Some s1" "run_schedule xs s1 = Some s'" by (auto simp: bind_eq_Some_conv)
  then show ?case using act_gens [OF s1(1)] Cons.IH [OF s1(2)] Cons.prems by simp
qed simp

text \<open>Every reachable state is good for as many further actions as the counter has room for.\<close>

lemma reached:
  assumes "run_schedule xs worker_state_new = Some s" and "length xs + n + 1 < 2 ^ 64"
  shows "gens_inv s" and "unat (next_worker_generation s) + n < 2 ^ 64"
proof -
  have one: "unat (next_worker_generation worker_state_new) = 1" by (simp add: worker_state_new_def)
  show "gens_inv s" using run_gens [OF assms(1) gens_inv_new] assms(2) one by simp
  show "unat (next_worker_generation s) + n < 2 ^ 64"
    using run_next [OF assms(1) gens_inv_new] assms(2) one by simp
qed

text \<open>A stopped worker can always go on, unless its callback waits for a call.\<close>

lemma stopped_enabled:
  assumes "w < length (workers s)"
  shows "wk_finished s w \<or> calls s (InCallback w) \<noteq> NoCall \<or> (\<exists>x. acts_for x = Some w \<and> act x s \<noteq> None)"
proof (cases "wk_pc (workers s ! w)")
  case AtCheck
  then show ?thesis using assms by (intro disjI2 exI [of _ "Check w"]) (simp add: at_pc_def)
next
  case AtReceive
  then show ?thesis using assms by (intro disjI2 exI [of _ "Receive w GotNothing"]) (simp add: at_pc_def)
next
  case AtCallback
  then show ?thesis using assms by (cases "calls s (InCallback w) = NoCall")
      (auto intro!: exI [of _ "CallbackReturns w"] simp: at_pc_def)
next
  case AtWait
  then show ?thesis using assms by (intro disjI2 exI [of _ "Wait w"]) (simp add: at_pc_def)
next
  case AtSleep
  then show ?thesis using assms by (intro disjI2 exI [of _ "Sleep w"]) (simp add: at_pc_def)
next
  case Asleep
  then show ?thesis using assms by (intro disjI2 exI [of _ "Wake w TimedOut"]) (simp add: at_pc_def)
next
  case (AtError e)
  then show ?thesis using assms by (intro disjI2 exI [of _ "Fail w"]) simp
next
  case (Finished p)
  then show ?thesis by (simp add: wk_finished_def)
qed

section \<open>Properties\<close>

text \<open>
  A worker that is stopped while it is in a packet callback - by that callback or by anybody
  else - takes no further packet, whatever follows, new workers included; and nothing it still does
  touches the active generation or another worker.
\<close>

theorem stopped_in_callback_is_harmless:
  assumes "run_schedule xs worker_state_new = Some s" and "at_pc w AtCallback s"
    and "act (CallStop a) s = Some s1" and "run_schedule ys s1 = Some s'" and "length xs + length ys + 2 < 2 ^ 64"
  shows "wk_received (workers s' ! w) = wk_received (workers s ! w) \<and>
    (\<forall>x s''. acts_for x = Some w \<and> act x s' = Some s'' \<longrightarrow>
       active_worker_generation s'' = active_worker_generation s' \<and>
       (\<forall>v. v \<noteq> w \<longrightarrow> workers s'' ! v = workers s' ! v))"
proof -
  have s1: "run_schedule (xs @ [CallStop a]) worker_state_new = Some s1" using assms(1,3) by (simp add: run_append)
  have bound: "length (xs @ [CallStop a]) + length ys + 1 < 2 ^ 64" using assms(5) by simp
  note inv = reached [OF s1 bound]
  have w: "w < length (workers s1)" "workers s1 ! w = workers s ! w" "active_worker_generation s1 = 0"
    using assms(2,3) by (auto simp: at_pc_def stop_store_def set_call_def split: if_splits)
  then have "wk_generation (workers s1 ! w) \<in> set (gens s1)" by (metis gens_def length_map nth_map nth_mem)
  then have "0 < unat (wk_generation (workers s1 ! w))" using inv(1) unfolding gens_inv_def by blast
  then have "stopped w s1" using w by (auto simp: stopped_def)
  from run_stopped [OF assms(4) inv this] have st: "stopped w s'"
    "wk_received (workers s ! w) \<le> wk_received (workers s' ! w)" "will_receive (workers s' ! w) \<le> will_receive (workers s ! w)"
    using w(2) by auto
  then have "wk_received (workers s' ! w) = wk_received (workers s ! w)"
    using assms(2) by (auto simp: will_receive_def at_pc_def split: if_splits)
  then show ?thesis using act_own [OF _ _ st(1)] by blast
qed

text \<open>
  C27. A worker whose generation is no longer active ends: it takes at most three more steps of its
  own and at most one more packet, and until it has ended it is never stuck, except for a call that
  its callback has in progress.
\<close>

theorem stopped_worker_ends:
  assumes "run_schedule xs worker_state_new = Some s" and "stopped w s" and "run_schedule ys s = Some s'"
    and "length xs + length ys + 1 < 2 ^ 64"
  shows "length (filter (\<lambda>x. acts_for x = Some w) ys) \<le> 3 \<and>
    wk_received (workers s' ! w) \<le> wk_received (workers s ! w) + 1 \<and>
    (wk_finished s' w \<or> calls s' (InCallback w) \<noteq> NoCall \<or> (\<exists>x. acts_for x = Some w \<and> act x s' \<noteq> None))"
proof -
  note run = run_stopped [OF assms(3) reached [OF assms(1,4)] assms(2)]
  have "steps_left (wk_pc (workers s ! w)) \<le> 3" by (cases "wk_pc (workers s ! w)") auto
  moreover have "wk_received (workers s' ! w) \<le> wk_received (workers s ! w) + 1"
    using run by (auto simp: will_receive_def split: if_splits)
  ultimately show ?thesis using run stopped_enabled [of w s'] by (auto simp: stopped_def)
qed

section \<open>One controlling thread\<close>

text \<open>Only one thread of the host starts, stops and frees.\<close>

fun controlled :: "action \<Rightarrow> bool" where
  "controlled (CallStop a) = (a = Host 0)"
| "controlled (CallFree a) = (a = Host 0)"
| "controlled (CallStart a has_callback) = (a = Host 0)"
| "controlled _ = True"

definition only_running :: "worker_state \<Rightarrow> nat option \<Rightarrow> bool" where
  "only_running s h \<longleftrightarrow>
     (\<forall>w < length (workers s). \<not> wk_finished s w \<longrightarrow> h = Some w) \<and> (\<forall>w. h = Some w \<longrightarrow> w < length (workers s))"

definition control_inv :: "worker_state \<Rightarrow> bool" where
  "control_inv s \<longleftrightarrow>
     (\<forall>a. a \<noteq> Host 0 \<longrightarrow> calls s a = NoCall) \<and>
     (worker_poisoned s \<longrightarrow> worker_handle s = None) \<and>
     (case calls s (Host 0) of
        NoCall \<Rightarrow> only_running s (worker_handle s)
      | StopTakes freeing \<Rightarrow> active_worker_generation s = 0 \<and> only_running s (worker_handle s)
      | StopJoins freeing w \<Rightarrow> worker_handle s = None \<and> stopped w s \<and> only_running s (Some w)
      | StartLocks \<Rightarrow> only_running s (worker_handle s)
      | StartStores g \<Rightarrow> worker_handle s = None \<and> only_running s None \<and> \<not> worker_poisoned s
      | StartSpawns g \<Rightarrow> worker_handle s = None \<and> only_running s None \<and> \<not> worker_poisoned s)"

lemma control_inv_new: "control_inv worker_state_new"
  by (simp add: control_inv_def worker_state_new_def only_running_def)

text \<open>Calls do not touch the workers; a worker's own step ends no other worker's and starts none.\<close>

lemma only_running_same [simp]:
  "only_running (set_call a c s) h = only_running s h" "only_running (finish_call a st s) h = only_running s h"
  "only_running (s\<lparr>active_worker_generation := g\<rparr>) h = only_running s h"
  "only_running (s\<lparr>handle_alive := v\<rparr>) h = only_running s h"
  "only_running (s\<lparr>worker_handle := i\<rparr>) h = only_running s h"
  "only_running (s\<lparr>worker_error := e\<rparr>) h = only_running s h"
  "only_running (s\<lparr>worker_handle := i, worker_lock := l, next_worker_generation := n\<rparr>) h = only_running s h"
  "only_running (s\<lparr>worker_poisoned := b, worker_lock := l\<rparr>) h = only_running s h"
  "only_running (notify_all s) h = only_running s h"
  by (simp_all add: only_running_def wk_finished_def set_call_def finish_call_def)

lemma only_running_finished: "only_running s (Some w) \<Longrightarrow> wk_finished s w \<Longrightarrow> only_running s None"
  by (auto simp: only_running_def)

lemma only_running_spawn:
  "only_running s None \<Longrightarrow> only_running (start_spawn a g True s) (Some (length (workers s)))"
  by (auto simp: only_running_def wk_finished_def start_spawn_def finish_call_def set_call_def nth_append less_Suc_eq)

lemma calls_simps [simp]:
  "calls (set_call a c s) = (calls s)(a := c)" "calls (finish_call a st s) = (calls s)(a := NoCall)"
  "calls (finish_stop a freeing r s) = (calls s)(a := NoCall)"
  "worker_handle (set_call a c s) = worker_handle s" "worker_handle (finish_call a st s) = worker_handle s"
  "worker_handle (finish_stop a freeing r s) = worker_handle s"
  "worker_poisoned (set_call a c s) = worker_poisoned s" "worker_poisoned (finish_call a st s) = worker_poisoned s"
  "worker_poisoned (finish_stop a freeing r s) = worker_poisoned s"
  "active_worker_generation (set_call a c s) = active_worker_generation s"
  by (simp_all add: set_call_def finish_call_def finish_stop_def split: sum.split)

lemma only_running_stop [simp]: "only_running (finish_stop a freeing r s) h = only_running s h"
  by (simp add: finish_stop_def split: sum.split)

lemma act_worker_frame:
  assumes "act x s = Some s'" and "acts_for x = Some w"
  shows "w < length (workers s) \<and> length (workers s') = length (workers s) \<and> calls s' = calls s \<and>
    worker_handle s' = worker_handle s \<and> worker_poisoned s' = worker_poisoned s \<and>
    (active_worker_generation s = 0 \<longrightarrow> active_worker_generation s' = 0) \<and> \<not> wk_finished s w"
  using assms
  by (cases x)
     (auto simp: set_worker_def worker_check_def worker_receive_def worker_wait_def worker_sleep_def worker_wake_def worker_fail_def at_pc_def
       wk_finished_def split: if_splits worker_pc.splits outcome.splits)

lemma act_own_control:
  assumes "act x s = Some s'" and "acts_for x = Some w" and "control_inv s" and "gens_inv s"
  shows "control_inv s'"
proof -
  note frame = act_worker_frame [OF assms(1,2)]
  have stopped: "stopped v s \<Longrightarrow> stopped v s'" for v
    using act_own [OF assms(1,2)] act_stopped [OF assms(1,4)] assms(2)
    by (cases "v = w") (auto simp: stopped_def)
  have "wk_finished s v \<Longrightarrow> v < length (workers s) \<Longrightarrow> wk_finished s' v" for v
    using act_workers [OF assms(1), of v] assms(2) frame by (cases "v = w") (auto simp: wk_finished_def)
  then have "only_running s h \<Longrightarrow> only_running s' h" for h
    using frame unfolding only_running_def by metis
  then show ?thesis
    using assms(3) frame stopped by (cases "calls s (Host 0)") (simp_all add: control_inv_def)
qed

lemma act_control:
  assumes "act x s = Some s'" and "controlled x" and "control_inv s" and "gens_inv s"
  shows "control_inv s'"
proof (cases "acts_for x")
  case (Some w)
  then show ?thesis by (rule act_own_control [OF assms(1) _ assms(3,4)])
next
  case None
  have host: "calls s a \<noteq> NoCall \<Longrightarrow> a = Host 0" for a using assms(3) unfolding control_inv_def by blast
  have positive: "w < length (workers s) \<Longrightarrow> wk_generation (workers s ! w) \<noteq> 0" for w
    using assms(4) unfolding gens_inv_def gens_def by (metis less_numeral_extra(3) length_map nth_map nth_mem unat_0)
  show ?thesis
  proof (cases x)
    case (CallStop a)
    then show ?thesis using assms(1-3)
      by (auto simp: control_inv_def may_call_def stop_store_def split: if_splits)
  next
    case (CallFree a)
    then show ?thesis using assms(1-3)
      by (auto simp: control_inv_def may_call_def free_call_def stop_store_def split: if_splits)
  next
    case (StopTake a)
    then obtain freeing where c: "calls s a = StopTakes freeing" "s' = stop_take a freeing s"
      using assms(1) by (auto split: call.splits if_splits)
    then have "a = Host 0" using host by simp
    show ?thesis
    proof (cases "worker_handle s")
      case None
      then show ?thesis using assms(3) c \<open>a = Host 0\<close> by (simp add: control_inv_def stop_take_def)
    next
      case (Some h)
      then have "worker_handle s = Some h" "\<not> worker_poisoned s" "active_worker_generation s = 0"
        "only_running s (Some h)" using assms(3) c \<open>a = Host 0\<close> by (auto simp: control_inv_def)
      moreover from this have "stopped h s" using positive by (simp add: stopped_def only_running_def)
      moreover have "stopped h (set_call a (StopJoins freeing h) (s\<lparr>worker_handle := None\<rparr>)) = stopped h s"
        by (simp add: stopped_def)
      ultimately show ?thesis using assms(3) c \<open>a = Host 0\<close> by (simp add: control_inv_def stop_take_def)
    qed
  next
    case (StopJoin a)
    then obtain freeing h where c: "calls s a = StopJoins freeing h" "s' = stop_join a freeing h s" "wk_finished s h"
      using assms(1) by (auto split: call.splits if_splits)
    then have "a = Host 0" using host by simp
    then show ?thesis using assms(3) c only_running_finished [of s h]
      by (simp add: control_inv_def stop_join_def)
  next
    case (CallStart a has_callback)
    then show ?thesis using assms(1-3)
      by (auto simp: control_inv_def may_call_def start_call_def split: if_splits)
  next
    case (StartLock a)
    then have c: "calls s a = StartLocks" "s' = start_lock a s" using assms(1) by (auto split: if_splits)
    then have "a = Host 0" using host by simp
    moreover have "only_running s None" if "\<nexists>h. worker_handle s = Some h \<and> \<not> wk_finished s h"
      using assms(3) c(1) that \<open>a = Host 0\<close> only_running_finished
      by (cases "worker_handle s") (auto simp: control_inv_def)
    ultimately show ?thesis using assms(3) c
      by (auto simp: control_inv_def start_lock_def)
  next
    case (StartStore a)
    then obtain g where c: "calls s a = StartStores g" "s' = start_store a g s" using assms(1) by (auto split: call.splits)
    then have "a = Host 0" using host by simp
    then show ?thesis using assms(3) c by (simp add: control_inv_def start_store_def)
  next
    case (StartSpawn a works)
    then obtain g where c: "calls s a = StartSpawns g" "s' = start_spawn a g works s"
      using assms(1) by (auto split: call.splits)
    then have a: "a = Host 0" using host by simp
    show ?thesis
    proof (cases works)
      case True
      then show ?thesis using assms(3) c a only_running_spawn [of s a g]
        by (simp add: control_inv_def) (simp add: start_spawn_def)
    next
      case False
      then show ?thesis using assms(3) c a by (simp add: control_inv_def start_spawn_def)
    qed
  qed (use None in auto)
qed

lemma run_control:
  assumes "run_schedule xs s = Some s'" and "list_all controlled xs" and "control_inv s" and "gens_inv s"
    and "unat (next_worker_generation s) + length xs < 2 ^ 64"
  shows "control_inv s'"
  using assms
proof (induction xs arbitrary: s)
  case (Cons x xs)
  then obtain s1 where s1: "act x s = Some s1" "run_schedule xs s1 = Some s'" by (auto simp: bind_eq_Some_conv)
  then show ?case using act_gens [OF s1(1)] act_control [OF s1(1)] Cons by simp
qed simp


text \<open>A schedule of two threads, the first of which starts the worker again after an idle check.\<close>

definition racing_schedule :: "action list" where
  "racing_schedule =
     [CallStart (Host 0) True, StartLock (Host 0), StartStore (Host 0), StartSpawn (Host 0) True,
      CallStop (Host 1), Check 0,
      CallStart (Host 0) True, StartLock (Host 0), StartStore (Host 0), StartSpawn (Host 0) True,
      StopTake (Host 1)]"

text \<open>What could end a worker: another call, an error, a panic.\<close>

fun may_end_worker :: "action \<Rightarrow> bool" where
  "may_end_worker (CallStop a) = True"
| "may_end_worker (CallFree a) = True"
| "may_end_worker (CallStart a has_callback) = True"
| "may_end_worker (Receive w (GotError e)) = True"
| "may_end_worker (Receive w Panicked) = True"
| "may_end_worker _ = False"

definition waits_for_active :: "worker_state \<Rightarrow> bool" where
  "waits_for_active s \<longleftrightarrow>
     calls s = (\<lambda>_. NoCall)(Host 1 := StopJoins False 1) \<and> length (workers s) = 2 \<and>
     wk_pc (workers s ! 0) = Finished False \<and> wk_generation (workers s ! 1) = active_worker_generation s \<and>
     wk_pc (workers s ! 1) \<in> {AtCheck, AtReceive, AtCallback, AtWait, AtSleep, Asleep}"

lemma racing_waits: "run_schedule racing_schedule worker_state_new = Some s \<Longrightarrow> waits_for_active s"
  by (auto simp: racing_schedule_def worker_state_new_def may_call_def start_call_def set_call_def start_lock_def
      next_generation_def start_store_def start_spawn_def finish_call_def stop_store_def worker_check_def
      set_worker_def wk_finished_def stop_take_def waits_for_active_def at_pc_def fun_eq_iff)

lemma waits_keeps:
  assumes "act x s = Some s'" and "\<not> may_end_worker x" and "waits_for_active s"
  shows "waits_for_active s'"
proof -
  have c: "calls s a = (if a = Host 1 then StopJoins False 1 else NoCall)" for a
    using assms(3) by (simp add: waits_for_active_def)
  have running: "\<not> wk_finished s 1" using assms(3) by (auto simp: waits_for_active_def wk_finished_def)
  show ?thesis
  proof (cases "acts_for x")
    case None
    then show ?thesis using assms(1,2) c running by (cases x) (auto split: if_splits)
  next
    case (Some w)
    note frame = act_worker_frame [OF assms(1) Some]
    then have w: "w = 1" using assms(3) by (auto simp: waits_for_active_def wk_finished_def less_2_cases_iff)
    have "0 < length (workers s)" using assms(3) by (simp add: waits_for_active_def)
    then have "workers s' ! 0 = workers s ! 0" using act_workers [OF assms(1), of 0] Some w by simp
    moreover have "wk_generation (workers s' ! 1) = wk_generation (workers s ! 1) \<and>
        active_worker_generation s' = active_worker_generation s \<and>
        wk_pc (workers s' ! 1) \<in> {AtCheck, AtReceive, AtCallback, AtWait, AtSleep, Asleep}"
      using assms(1,2) Some w assms(3)
      by (cases x) (auto simp: waits_for_active_def at_pc_def set_worker_def worker_check_def worker_receive_def
        worker_wait_def worker_sleep_def worker_wake_def split: if_splits worker_pc.splits outcome.splits)
    ultimately show ?thesis using assms(3) frame by (simp add: waits_for_active_def)
  qed
qed

text \<open>
  A stop can wait for a worker that nobody told to stop: it clears the active generation before
  it takes the handle, and a start by another thread may come in between. However the threads go on,
  the stop then keeps waiting until there is another call or the new worker fails.
\<close>

theorem stop_races_with_start:
  assumes "run_schedule (racing_schedule @ ys) worker_state_new = Some s"
    and "list_all (\<lambda>x. \<not> may_end_worker x) ys"
  shows "calls s (Host 1) = StopJoins False 1 \<and> \<not> wk_finished s 1 \<and>
    wk_generation (workers s ! 1) = active_worker_generation s"
proof -
  obtain s0 where s0: "run_schedule racing_schedule worker_state_new = Some s0" "run_schedule ys s0 = Some s"
    using assms(1) by (auto simp: run_append bind_eq_Some_conv)
  have "run_schedule ys s0 = Some s \<Longrightarrow> list_all (\<lambda>x. \<not> may_end_worker x) ys \<Longrightarrow> waits_for_active s0 \<Longrightarrow>
      waits_for_active s"
    by (induction ys arbitrary: s0) (auto simp: bind_eq_Some_conv dest: waits_keeps)
  then show ?thesis using s0(2) assms(2) racing_waits [OF s0(1)]
    by (auto simp: waits_for_active_def wk_finished_def)
qed

text \<open>A worker that is about to wait when the stop notifies.\<close>

definition drowsy_schedule :: "action list" where
  "drowsy_schedule =
     [CallStart (Host 0) True, StartLock (Host 0), StartStore (Host 0), StartSpawn (Host 0) True,
      Check 0, Receive 0 GotNothing, Wait 0, CallStop (Host 0), Sleep 0, StopTake (Host 0)]"

text \<open>What could wake it: the timeout, a spurious wake-up, or what another call leads to.\<close>

fun may_wake_worker :: "action \<Rightarrow> bool" where
  "may_wake_worker (CallStop a) = True"
| "may_wake_worker (CallFree a) = True"
| "may_wake_worker (CallStart a has_callback) = True"
| "may_wake_worker (Wake w reason) = (reason \<noteq> Notified)"
| "may_wake_worker _ = False"

definition sleeps_on :: "worker_state \<Rightarrow> bool" where
  "sleeps_on s \<longleftrightarrow>
     calls s = (\<lambda>_. NoCall)(Host 0 := StopJoins False 0) \<and> length (workers s) = 1 \<and>
     wk_pc (workers s ! 0) = Asleep \<and> 0 \<notin> woken s \<and> active_worker_generation s = 0"

lemma drowsy_sleeps: "run_schedule drowsy_schedule worker_state_new = Some s \<Longrightarrow> sleeps_on s"
  by (auto simp: drowsy_schedule_def worker_state_new_def may_call_def start_call_def set_call_def start_lock_def
      next_generation_def start_store_def start_spawn_def finish_call_def stop_store_def worker_check_def
      worker_receive_def worker_wait_def worker_sleep_def notify_all_def
      set_worker_def wk_finished_def stop_take_def sleeps_on_def at_pc_def fun_eq_iff)


section \<open>Witnesses\<close>

lemma max_1_u64 [simp]: "max (1 :: u64) 1 = 1"
  by simp

text \<open>One host thread starts a worker, which takes a packet and is stopped in its callback.\<close>

definition callback_schedule :: "action list" where
  "callback_schedule =
     [CallStart (Host 0) True, StartLock (Host 0), StartStore (Host 0), StartSpawn (Host 0) True,
      Check 0, Receive 0 GotPacket]"

lemmas schedule_simps = callback_schedule_def racing_schedule_def drowsy_schedule_def notify_all_def
  worker_wait_def worker_sleep_def worker_state_new_def may_call_def start_call_def
  set_call_def start_lock_def next_generation_def start_store_def start_spawn_def finish_call_def stop_store_def
  worker_check_def worker_receive_def set_worker_def wk_finished_def stop_take_def at_pc_def finish_stop_def
  stop_join_def stopped_def

theorem stopped_in_callback_is_harmless_witness:
  "\<exists>s s'. run_schedule callback_schedule worker_state_new = Some s \<and>
     run_schedule [CallStop (Host 0), CallbackReturns 0, Check 0, StopTake (Host 0), StopJoin (Host 0)] s = Some s' \<and>
     wk_received (workers s' ! 0) = wk_received (workers s ! 0)"
proof -
  obtain s s1 s' where run: "run_schedule callback_schedule worker_state_new = Some s" "at_pc 0 AtCallback s"
      "act (CallStop (Host 0)) s = Some s1"
      "run_schedule [CallbackReturns 0, Check 0, StopTake (Host 0), StopJoin (Host 0)] s1 = Some s'"
    by (simp add: schedule_simps)
  then have "run_schedule [CallStop (Host 0), CallbackReturns 0, Check 0, StopTake (Host 0), StopJoin (Host 0)] s = Some s'"
    by (simp only: run_schedule.simps Option.bind.simps)
  then show ?thesis
    using run stopped_in_callback_is_harmless [OF run] by (auto simp: callback_schedule_def)
qed

theorem stopped_worker_ends_witness:
  "\<exists>s s'. run_schedule (callback_schedule @ [CallStop (Host 0)]) worker_state_new = Some s \<and>
     run_schedule [CallbackReturns 0, Check 0] s = Some s' \<and> wk_finished s' 0 \<and>
     wk_received (workers s' ! 0) \<le> wk_received (workers s ! 0) + 1"
proof -
  obtain s s' where run: "run_schedule (callback_schedule @ [CallStop (Host 0)]) worker_state_new = Some s"
      "stopped 0 s" "run_schedule [CallbackReturns 0, Check 0] s = Some s'" and fin: "wk_finished s' 0"
    by (simp add: schedule_simps)
  then show ?thesis using stopped_worker_ends [OF run] by (auto simp: callback_schedule_def)
qed


theorem stop_races_with_start_witness:
  "\<exists>s. run_schedule (racing_schedule @ [Check 1, Receive 1 GotNothing]) worker_state_new = Some s \<and>
     calls s (Host 1) = StopJoins False 1"
proof -
  obtain s where run: "run_schedule (racing_schedule @ [Check 1, Receive 1 GotNothing]) worker_state_new = Some s"
    by (simp add: schedule_simps)
  then show ?thesis using stop_races_with_start [OF run] by simp
qed


end
