(* ===== verification/Ffi.thy ===== *)
theory Ffi
  imports Context CliArgs Files FfiWorker
begin

text \<open>
  The C functions of \<open>mcrx-core-ffi/src/lib.rs\<close> apart from the worker: the parsing of their arguments,
  the calls on the context behind its mutex, polling with a callback, and the error messages. A C
  string is its bytes, or null; a packet callback is any function of the view it is given. Lemmas:
  each call is the operation of the context with a status; arguments are read as the binaries read
  theirs; no call panics.
\<close>

section \<open>State\<close>

datatype c_ptr = NullPtr | ValidPtr

type_synonym c_str = "string option"

text \<open>The part of \<open>ContextState\<close> that the calls share, and the thread that calls.\<close>

record ffi_state =
  fs_context :: mcrx_context
  fs_context_poisoned :: bool
  fs_last_error :: "string option"
  fs_handle_alive :: bool

record 'k ffi =
  ffi_shared :: ffi_state
  ffi_LAST_ERROR :: "string option"
  ffi_kernel :: 'k
  ffi_id_out :: u64            \<comment> \<open>\<open>*subscription_id_out\<close>\<close>
  ffi_received_out :: usize    \<comment> \<open>\<open>*received_out\<close>\<close>

text \<open>A body that returns a status, or panics.\<close>

type_synonym 'k ffi_body = "'k ffi \<Rightarrow> int option \<times> 'k ffi"

definition set_state_error :: "string option \<Rightarrow> 'k ffi \<Rightarrow> 'k ffi" where
  "set_state_error e w = w\<lparr>ffi_shared := (ffi_shared w)\<lparr>fs_last_error := e\<rparr>\<rparr>"

definition clear_error :: "'k ffi \<Rightarrow> 'k ffi" where
  "clear_error w = set_state_error None w"

definition set_error :: "string \<Rightarrow> 'k ffi_body" where
  "set_error message w = (Some MCRX_STATUS_ERROR, set_state_error (Some (cstring_lossy message)) w)"

definition set_invalid_argument :: "string \<Rightarrow> 'k ffi_body" where
  "set_invalid_argument message w =
     (Some MCRX_STATUS_INVALID_ARGUMENT, set_state_error (Some (cstring_lossy message)) w)"

definition set_last_error_with_status :: "string \<Rightarrow> int \<Rightarrow> 'k ffi \<Rightarrow> int \<times> 'k ffi" where
  "set_last_error_with_status message status w = (status, w\<lparr>ffi_LAST_ERROR := Some (cstring_lossy message)\<rparr>)"

definition set_last_invalid_argument :: "string \<Rightarrow> 'k ffi_body" where
  "set_last_invalid_argument message w =
     (Some MCRX_STATUS_INVALID_ARGUMENT, w\<lparr>ffi_LAST_ERROR := Some (cstring_lossy message)\<rparr>)"

definition clear_last_error :: "'k ffi \<Rightarrow> 'k ffi" where
  "clear_last_error w = w\<lparr>ffi_LAST_ERROR := None\<rparr>"

definition ffi_status :: "'k ffi_body \<Rightarrow> 'k ffi \<Rightarrow> int \<times> 'k ffi" where
  "ffi_status body w =
     (case body w of
        (Some status, w') \<Rightarrow> (status, w')
      | (None, w') \<Rightarrow> set_last_error_with_status ''panic crossed mcrx-core-ffi boundary'' MCRX_STATUS_PANIC w')"

definition with_context :: "c_ptr \<Rightarrow> 'k ffi_body \<Rightarrow> 'k ffi_body" where
  "with_context context body w =
     (if context = NullPtr then set_last_invalid_argument ''context pointer must not be null'' w else body w)"

section \<open>Arguments\<close>

definition required_str :: "c_str \<Rightarrow> string \<Rightarrow> string + string" where
  "required_str raw field =
     (case raw of
        None \<Rightarrow> Inl (field @ '' must not be null'')
      | Some s \<Rightarrow> if utf8_valid s then Inr s else Inl (field @ '' must be valid UTF-8''))"

definition optional_str :: "c_str \<Rightarrow> string \<Rightarrow> string + string option" where
  "optional_str raw field = (if raw = None then Inr None else map_sum id Some (required_str raw field))"

definition ffi_parse_ip_addr :: "string \<Rightarrow> string \<Rightarrow> string + ip_addr" where
  "ffi_parse_ip_addr raw field =
     map_sum (\<lambda>_. ''invalid '' @ field @ '' IP address: '' @ raw) id (parse_ip_addr raw)"

definition parse_optional_ip_addr :: "string option \<Rightarrow> string \<Rightarrow> string + ip_addr option" where
  "parse_optional_ip_addr raw field =
     (case raw of None \<Rightarrow> Inr None | Some value \<Rightarrow> map_sum id Some (ffi_parse_ip_addr value field))"

definition ffi_interface_name_to_index :: "'k os \<Rightarrow> string \<Rightarrow> ('k, string, u32) io" where
  "ffi_interface_name_to_index os raw =
     (if CHR 0x00 \<in> set raw then io_throw ''interface name must not contain NUL bytes''
      else (\<lambda>k. case os_if_nametoindex os raw k of (index, k') \<Rightarrow>
        (if index = 0 then Inl (''unknown interface name: '' @ raw) else Inr index, k')))"

definition ffi_parse_interface_scope :: "'k os \<Rightarrow> string \<Rightarrow> ('k, string, u32) io" where
  "ffi_parse_interface_scope os raw =
     (if list_all is_ascii_digit raw
      then io_lift
        (case parse_u32 raw of
           Inl _ \<Rightarrow> Inl (''invalid interface scope index: '' @ raw)
         | Inr scope \<Rightarrow> if scope = 0 then Inl ''interface scope index must not be 0'' else Inr scope)
      else ffi_interface_name_to_index os raw)"

definition parse_interface_selector ::
  "'k os \<Rightarrow> ip_addr \<Rightarrow> string option \<Rightarrow> ('k, string, ip_addr option \<times> u32 option) io" where
  "parse_interface_selector os grp raw =
     (case raw of
        None \<Rightarrow> io_return (None, None)
      | Some raw \<Rightarrow>
          (let plain = io_bind (io_lift (ffi_parse_ip_addr raw ''interface'')) (\<lambda>ip. io_return (Some ip, None)) in
           if ip_is_ipv6 grp
           then
             (case rsplit_once CHR ''%'' raw of
                Some (addr, scope) \<Rightarrow>
                  io_bind (io_lift (map_sum (\<lambda>_. ''invalid interface IP address: '' @ raw) id (parse_ipv6_addr addr))) (\<lambda>addr.
                  io_bind (ffi_parse_interface_scope os scope) (\<lambda>scope.
                  io_return (Some (V6 addr), Some scope)))
              | None \<Rightarrow>
                  (if list_all is_ascii_digit raw
                   then io_bind (ffi_parse_interface_scope os raw) (\<lambda>scope. io_return (None, Some scope))
                   else plain))
           else plain))"

definition build_subscription_config ::
  "'k os \<Rightarrow> string \<Rightarrow> u16 \<Rightarrow> string option \<Rightarrow> string option \<Rightarrow> ('k, string, subscription_config) io" where
  "build_subscription_config os grp dst_port source interface =
     io_bind (io_lift (ffi_parse_ip_addr grp ''group'')) (\<lambda>grp.
     io_bind (io_lift (parse_optional_ip_addr source ''source'')) (\<lambda>src.
     io_bind (parse_interface_selector os grp interface) (\<lambda>(interface_addr, interface_index).
     let config = (case src of
         Some src_ip \<Rightarrow> ssm_ip grp src_ip dst_port
       | None \<Rightarrow> asm_ip grp dst_port) in
     io_return (config\<lparr>cfg_interface := interface_addr, cfg_interface_index := interface_index\<rparr>))))"

section \<open>Packet views\<close>

record mcrx_packet_view =
  pv_payload :: bytes
  pv_payload_len :: usize
  pv_subscription_id :: u64
  pv_source_ip :: string
  pv_source_port :: u16
  pv_group_ip :: string
  pv_dst_port :: u16
  pv_socket_local_ip :: c_str
  pv_socket_local_port :: u16
  pv_configured_interface_ip :: c_str
  pv_configured_interface_index :: u32
  pv_has_configured_interface_index :: u8
  pv_destination_local_ip :: c_str
  pv_ingress_interface_index :: u32
  pv_has_ingress_interface_index :: u8

definition opt_ip_cstring :: "'k os \<Rightarrow> ip_addr option \<Rightarrow> string option" where
  "opt_ip_cstring os addr = map_option (\<lambda>a. cstring_lossy (os_show_ip os a)) addr"

definition opt_socket_ip_cstring :: "'k os \<Rightarrow> socket_addr option \<Rightarrow> string option" where
  "opt_socket_ip_cstring os addr = map_option (\<lambda>a. cstring_lossy (os_show_ip os (sa_ip a))) addr"

definition socket_port :: "socket_addr option \<Rightarrow> u16" where
  "socket_port addr = (case addr of None \<Rightarrow> 0 | Some a \<Rightarrow> sa_port a)"

definition is_some_u8 :: "'a option \<Rightarrow> u8" where
  "is_some_u8 x = (if x = None then 0 else 1)"

text \<open>A null pointer stands for an absent string (\<open>opt_cstr_ptr\<close>).\<close>

definition packet_view :: "packet_with_metadata \<Rightarrow> string \<Rightarrow> string \<Rightarrow> c_str \<Rightarrow> c_str \<Rightarrow> c_str \<Rightarrow> mcrx_packet_view" where
  "packet_view p source_ip group_ip socket_local_ip configured_interface_ip destination_local_ip =
     (let metadata = pwm_metadata p in
      \<lparr>pv_payload = pkt_payload (pwm_packet p),
       pv_payload_len = length (pkt_payload (pwm_packet p)),
       pv_subscription_id = sid (pkt_subscription_id (pwm_packet p)),
       pv_source_ip = source_ip,
       pv_source_port = sa_port (pkt_source (pwm_packet p)),
       pv_group_ip = group_ip,
       pv_dst_port = pkt_dst_port (pwm_packet p),
       pv_socket_local_ip = socket_local_ip,
       pv_socket_local_port = socket_port (md_socket_local_addr metadata),
       pv_configured_interface_ip = configured_interface_ip,
       pv_configured_interface_index = unwrap_or (md_configured_interface_index metadata) 0,
       pv_has_configured_interface_index = is_some_u8 (md_configured_interface_index metadata),
       pv_destination_local_ip = destination_local_ip,
       pv_ingress_interface_index = unwrap_or (md_ingress_interface_index metadata) 0,
       pv_has_ingress_interface_index = is_some_u8 (md_ingress_interface_index metadata)\<rparr>)"

type_synonym 'k packet_callback = "mcrx_packet_view \<Rightarrow> 'k ffi \<Rightarrow> 'k ffi"

definition call_packet_callback :: "'k os \<Rightarrow> packet_with_metadata \<Rightarrow> 'k packet_callback \<Rightarrow> 'k ffi \<Rightarrow> 'k ffi" where
  "call_packet_callback os p callback =
     callback (packet_view p (cstring_lossy (os_show_ip os (sa_ip (pkt_source (pwm_packet p)))))
       (cstring_lossy (os_show_ip os (pkt_group (pwm_packet p))))
       (opt_socket_ip_cstring os (md_socket_local_addr (pwm_metadata p)))
       (opt_ip_cstring os (md_configured_interface (pwm_metadata p)))
       (opt_ip_cstring os (md_destination_local_ip (pwm_metadata p))))"

section \<open>The context behind its mutex\<close>

definition error_text :: "'k os \<Rightarrow> mcrx_error \<Rightarrow> string" where
  "error_text os e = mcrx_error_display (os_show_error os) e"

definition poisoned_text :: string where
  "poisoned_text = ''mcrx context mutex is poisoned''"

definition put_context :: "mcrx_context \<Rightarrow> 'k \<Rightarrow> 'k ffi \<Rightarrow> 'k ffi" where
  "put_context c k w = w\<lparr>ffi_shared := (ffi_shared w)\<lparr>fs_context := c\<rparr>, ffi_kernel := k\<rparr>"

definition poison_context :: "'k ffi \<Rightarrow> 'k ffi" where
  "poison_context w = w\<lparr>ffi_shared := (ffi_shared w)\<lparr>fs_context_poisoned := True\<rparr>\<rparr>"

text \<open>\<open>lock_context\<close> with the early return on a poisoned mutex.\<close>

definition with_lock :: "(mcrx_context \<Rightarrow> 'k ffi_body) \<Rightarrow> 'k ffi_body" where
  "with_lock body w =
     (if fs_context_poisoned (ffi_shared w) then set_error poisoned_text w
      else body (fs_context (ffi_shared w)) w)"

text \<open>A panic inside \<open>receive_one\<close> holds the guard and poisons the mutex.\<close>

definition receive_one :: "'k os \<Rightarrow> 'k ffi \<Rightarrow> (string + packet_with_metadata option) option \<times> 'k ffi" where
  "receive_one os w =
     (if fs_context_poisoned (ffi_shared w) then (Some (Inl poisoned_text), w)
      else
        (case try_recv_any_with_metadata os (fs_context (ffi_shared w)) (ffi_kernel w) of
           None \<Rightarrow> (None, poison_context w)
         | Some (r, c', k') \<Rightarrow> (Some (map_sum (error_text os) id r), put_context c' k' w)))"

definition status_from_mcrx_result :: "'k os \<Rightarrow> mcrx_error + 'a \<Rightarrow> 'k ffi_body" where
  "status_from_mcrx_result os r w =
     (case r of Inr _ \<Rightarrow> (Some MCRX_STATUS_OK, clear_error w) | Inl err \<Rightarrow> set_error (error_text os err) w)"

section \<open>The calls\<close>

definition mcrx_context_new :: "'k ffi \<Rightarrow> 'k ffi" where
  "mcrx_context_new w =
     (clear_last_error w)\<lparr>ffi_shared :=
        \<lparr>fs_context = context_new, fs_context_poisoned = False, fs_last_error = None, fs_handle_alive = True\<rparr>\<rparr>"

definition mcrx_last_error :: "'k ffi \<Rightarrow> c_str" where
  "mcrx_last_error w = ffi_LAST_ERROR w"

text \<open>A null pointer is reported in \<open>LAST_ERROR\<close>, whose message is then returned.\<close>

definition mcrx_context_last_error :: "c_ptr \<Rightarrow> 'k ffi \<Rightarrow> c_str \<times> 'k ffi" where
  "mcrx_context_last_error context w =
     (if context = NullPtr
      then (let w' = snd (set_last_invalid_argument ''context pointer must not be null'' w) in (mcrx_last_error w', w'))
      else (fs_last_error (ffi_shared w), w))"

definition mcrx_context_subscription_count :: "c_ptr \<Rightarrow> 'k ffi \<Rightarrow> usize \<times> 'k ffi" where
  "mcrx_context_subscription_count context w =
     (if context = NullPtr then (0, snd (set_last_invalid_argument ''context pointer must not be null'' w))
      else (if fs_context_poisoned (ffi_shared w) then 0 else subscription_count (fs_context (ffi_shared w)), w))"

definition mcrx_context_add_subscription ::
  "'k os \<Rightarrow> c_ptr \<Rightarrow> c_str \<Rightarrow> u16 \<Rightarrow> c_str \<Rightarrow> c_str \<Rightarrow> c_ptr \<Rightarrow> 'k ffi \<Rightarrow> int \<times> 'k ffi" where
  "mcrx_context_add_subscription os context grp dst_port source interface subscription_id_out =
     ffi_status (with_context context (\<lambda>w.
       if subscription_id_out = NullPtr then set_invalid_argument ''subscription_id_out must not be null'' w
       else
         (case required_str grp ''group'' of
            Inl err \<Rightarrow> set_invalid_argument err w
          | Inr grp \<Rightarrow>
         (case optional_str source ''source'' of
            Inl err \<Rightarrow> set_invalid_argument err w
          | Inr source \<Rightarrow>
         (case optional_str interface ''interface'' of
            Inl err \<Rightarrow> set_invalid_argument err w
          | Inr interface \<Rightarrow>
         (case build_subscription_config os grp dst_port source interface (ffi_kernel w) of
            (Inl err, k) \<Rightarrow> set_invalid_argument err (w\<lparr>ffi_kernel := k\<rparr>)
          | (Inr config, k) \<Rightarrow>
              with_lock (\<lambda>inner w.
                (case add_subscription os inner config (ffi_kernel w) of
                   (Inr i, inner', k') \<Rightarrow>
                     (Some MCRX_STATUS_OK, clear_error ((put_context inner' k' w)\<lparr>ffi_id_out := sid i\<rparr>))
                 | (Inl err, inner', k') \<Rightarrow> set_error (error_text os err) (put_context inner' k' w)))
                (w\<lparr>ffi_kernel := k\<rparr>)))))))"

definition mcrx_context_join_subscription :: "'k os \<Rightarrow> c_ptr \<Rightarrow> u64 \<Rightarrow> 'k ffi \<Rightarrow> int \<times> 'k ffi" where
  "mcrx_context_join_subscription os context subscription_id =
     ffi_status (with_context context (with_lock (\<lambda>inner w.
       (case join_subscription os inner (SubscriptionId subscription_id) (ffi_kernel w) of
          (r, inner', k') \<Rightarrow> status_from_mcrx_result os r (put_context inner' k' w)))))"

definition mcrx_context_leave_subscription :: "'k os \<Rightarrow> c_ptr \<Rightarrow> u64 \<Rightarrow> 'k ffi \<Rightarrow> int \<times> 'k ffi" where
  "mcrx_context_leave_subscription os context subscription_id =
     ffi_status (with_context context (with_lock (\<lambda>inner w.
       (case leave_subscription os inner (SubscriptionId subscription_id) (ffi_kernel w) of
          (r, inner', k') \<Rightarrow> status_from_mcrx_result os r (put_context inner' k' w)))))"

definition mcrx_context_remove_subscription :: "'k os \<Rightarrow> c_ptr \<Rightarrow> u64 \<Rightarrow> 'k ffi \<Rightarrow> int \<times> 'k ffi" where
  "mcrx_context_remove_subscription os context subscription_id =
     ffi_status (with_context context (with_lock (\<lambda>inner w.
       (case remove_subscription os inner (SubscriptionId subscription_id) (ffi_kernel w) of
          (removed, inner', k') \<Rightarrow>
            (if removed then (Some MCRX_STATUS_OK, clear_error (put_context inner' k' w))
             else set_error (error_text os SubscriptionNotFound) (put_context inner' k' w))))))"

text \<open>The loop of \<open>mcrx_context_poll\<close>: the turns left, and the packets received so far.\<close>

fun poll_loop ::
  "'k os \<Rightarrow> 'k packet_callback \<Rightarrow> nat \<Rightarrow> usize \<Rightarrow> 'k ffi \<Rightarrow> (string + usize) option \<times> 'k ffi" where
  "poll_loop os callback 0 received w = (Some (Inr received), w)"
| "poll_loop os callback (Suc left) received w =
     (case receive_one os w of
        (None, w') \<Rightarrow> (None, w')
      | (Some (Inl err), w') \<Rightarrow> (Some (Inl err), w')
      | (Some (Inr None), w') \<Rightarrow> (Some (Inr received), w')
      | (Some (Inr (Some p)), w') \<Rightarrow>
          (let w'' = call_packet_callback os p callback w' in
           if \<not> fs_handle_alive (ffi_shared w'') then (Some (Inr (received + 1)), w'')
           else poll_loop os callback left (received + 1) w''))"

definition mcrx_context_poll ::
  "'k os \<Rightarrow> c_ptr \<Rightarrow> usize \<Rightarrow> 'k packet_callback option \<Rightarrow> c_ptr \<Rightarrow> 'k ffi \<Rightarrow> int \<times> 'k ffi" where
  "mcrx_context_poll os context max_packets callback received_out =
     ffi_status (with_context context (\<lambda>w.
       if received_out = NullPtr then set_invalid_argument ''received_out must not be null'' w
       else
         (case callback of
            None \<Rightarrow>
              (if max_packets = 0 then (Some MCRX_STATUS_OK, clear_error (w\<lparr>ffi_received_out := 0\<rparr>))
               else set_invalid_argument ''callback must not be null when max_packets is non-zero''
                 (w\<lparr>ffi_received_out := 0\<rparr>))
          | Some callback \<Rightarrow>
              (case poll_loop os callback max_packets 0 (w\<lparr>ffi_received_out := 0\<rparr>) of
                 (None, w') \<Rightarrow> (None, w')
               | (Some (Inl err), w') \<Rightarrow> set_error err w'
               | (Some (Inr received), w') \<Rightarrow>
                   (Some MCRX_STATUS_OK, clear_error (w'\<lparr>ffi_received_out := received\<rparr>))))))"

end
