(* ===== verification/FfiCorrect.thy ===== *)
theory FfiCorrect
  imports Ffi
begin

text \<open>
  The C interface is the library: arguments are read as their texts say and as the binaries read
  theirs, the state behind the C functions is always a reachable context, and no C call panics.
\<close>

section \<open>Arguments\<close>

lemma map_sum_eq_Inr [simp]: "map_sum f g r = Inr b \<longleftrightarrow> (\<exists>a. r = Inr a \<and> b = g a)"
  by (cases r) auto

lemma ffi_parse_ip_text: "ip_text s a \<Longrightarrow> ffi_parse_ip_addr s field = Inr a"
  by (simp add: ffi_parse_ip_addr_def parse_ip_text)

text \<open>The two parsers of an interface differ in their messages only.\<close>

definition agree :: "('e + 'a) \<times> 'k \<Rightarrow> ('f + 'a) \<times> 'k \<Rightarrow> bool" where
  "agree x y \<longleftrightarrow> res_ok (fst x) = res_ok (fst y) \<and> snd x = snd y"

lemma scope_agrees: "agree (ffi_parse_interface_scope os s k) (parse_interface_scope os s k)"
  by (auto simp: agree_def ffi_parse_interface_scope_def parse_interface_scope_def res_ok_def
      ffi_interface_name_to_index_def interface_name_to_index_def io_map_err_def
      split: sum.splits prod.splits)

lemma agree_bind:
  assumes "agree (m k) (n k)" and "\<And>a k. agree (f a k) (g a k)"
  shows "agree (io_bind m f k) (io_bind n g k)"
proof -
  obtain r k1 where m: "m k = (r, k1)" by force
  obtain q k2 where n: "n k = (q, k2)" by force
  have "k2 = k1" "res_ok r = res_ok q" using assms(1) m n by (simp_all add: agree_def)
  then show ?thesis using assms(2) m n by (cases r; cases q) (simp_all add: agree_def io_bind_def res_ok_def)
qed

lemma agree_lift: "res_ok r = res_ok q \<Longrightarrow> agree (io_lift r k) (io_lift q k)"
  by (simp add: agree_def)

lemma agree_return: "agree (io_return a k) (io_return a k)"
  by (simp add: agree_def res_ok_def)

lemma ip_agrees: "res_ok (ffi_parse_ip_addr s field) = res_ok (cli_parse_ip name s)"
  by (simp add: ffi_parse_ip_addr_def cli_parse_ip_def res_ok_def split: sum.split)

lemma ipv6_agrees: "res_ok (map_sum f id r) = res_ok (map_sum g id r)"
  by (cases r) (simp_all add: res_ok_def)

lemma selector_agrees: "agree (parse_interface_selector os grp (Some s) k) (parse_interface_value os grp s k)"
  by (auto simp: parse_interface_selector_def parse_interface_value_def Let_def
      intro!: agree_bind agree_lift agree_return scope_agrees ip_agrees ipv6_agrees split: option.split)

lemma agree_Inr: "agree x (Inr a, k) \<Longrightarrow> x = (Inr a, k)"
  by (cases x; cases "fst x") (auto simp: agree_def res_ok_def)

section \<open>Reachable states\<close>

text \<open>
  Everything that happens to a context behind a C handle: calls, single receives of polls and of the
  worker, and changes of the world that leave it alone.
\<close>

inductive ffi_reach :: "'k os \<Rightarrow> ('k \<Rightarrow> socket set) \<Rightarrow> nat \<Rightarrow> 'k ffi \<Rightarrow> bool" for os opens where
  ffi_new: "ffi_reach os opens 0 (mcrx_context_new w)"
| ffi_world: "ffi_reach os opens n w \<Longrightarrow> fs_context (ffi_shared w') = fs_context (ffi_shared w) \<Longrightarrow>
    fs_context_poisoned (ffi_shared w') = fs_context_poisoned (ffi_shared w) \<Longrightarrow>
    owned (fs_context (ffi_shared w')) \<subseteq> opens (ffi_kernel w') \<Longrightarrow> ffi_reach os opens n w'"
| ffi_add: "ffi_reach os opens n w \<Longrightarrow>
    mcrx_context_add_subscription os p grp port source interface out w = (st, w') \<Longrightarrow> ffi_reach os opens (Suc n) w'"
| ffi_join: "ffi_reach os opens n w \<Longrightarrow> mcrx_context_join_subscription os p i w = (st, w') \<Longrightarrow>
    ffi_reach os opens (Suc n) w'"
| ffi_leave: "ffi_reach os opens n w \<Longrightarrow> mcrx_context_leave_subscription os p i w = (st, w') \<Longrightarrow>
    ffi_reach os opens (Suc n) w'"
| ffi_remove: "ffi_reach os opens n w \<Longrightarrow> mcrx_context_remove_subscription os p i w = (st, w') \<Longrightarrow>
    ffi_reach os opens (Suc n) w'"
| ffi_receive: "ffi_reach os opens n w \<Longrightarrow> receive_one os w = (r, w') \<Longrightarrow> ffi_reach os opens (Suc n) w'"

text \<open>The context and the kernel are a reachable state of the library, within \<open>n\<close> operations.\<close>

definition simulates :: "'k os \<Rightarrow> ('k \<Rightarrow> socket set) \<Rightarrow> nat \<Rightarrow> 'k ffi \<Rightarrow> bool" where
  "simulates os opens n w \<longleftrightarrow>
     \<not> fs_context_poisoned (ffi_shared w) \<and>
     (\<exists>m \<le> n. ctx_reach os opens m (fs_context (ffi_shared w)) (ffi_kernel w))"

lemma shared_simps [simp]:
  "fs_context (ffi_shared (set_state_error e w)) = fs_context (ffi_shared w)"
  "fs_context_poisoned (ffi_shared (set_state_error e w)) = fs_context_poisoned (ffi_shared w)"
  "ffi_kernel (set_state_error e w) = ffi_kernel w"
  "fs_context (ffi_shared (put_context c k w)) = c"
  "fs_context_poisoned (ffi_shared (put_context c k w)) = fs_context_poisoned (ffi_shared w)"
  "ffi_kernel (put_context c k w) = k"
  by (simp_all add: set_state_error_def put_context_def)

lemmas status_simps = ffi_status_def with_context_def set_last_invalid_argument_def set_invalid_argument_def
  set_error_def clear_error_def status_from_mcrx_result_def set_last_error_with_status_def
  MCRX_STATUS_OK_def MCRX_STATUS_INVALID_ARGUMENT_def MCRX_STATUS_ERROR_def MCRX_STATUS_PANIC_def

text \<open>Reading the arguments opens and closes nothing.\<close>

lemma keeps_interface_name: "accounts os opens \<Longrightarrow> keeps opens (ffi_interface_name_to_index os s)"
  using keeps_accounts(11) [of os opens s]
  by (auto simp: ffi_interface_name_to_index_def keeps_def split: prod.split) (metis snd_conv)+

lemma keeps_build_config:
  assumes "accounts os opens"
  shows "keeps opens (build_subscription_config os grp port source interface)"
proof -
  have scope: "keeps opens (ffi_parse_interface_scope os s)" for s
    by (simp add: ffi_parse_interface_scope_def keeps_pure keeps_interface_name [OF assms])
  have plain: "keeps opens (io_bind (io_lift (ffi_parse_ip_addr s f)) (\<lambda>ip. io_return (Some ip, None)))" for s f
    by (intro keeps_intros)
  have "keeps opens (parse_interface_selector os g raw)" for g raw
    unfolding parse_interface_selector_def Let_def
    by (auto split: option.split intro!: keeps_bind keeps_pure scope)
  then show ?thesis
    unfolding build_subscription_config_def Let_def
    by (intro keeps_bind keeps_pure) (auto intro: keeps_pure)
qed

lemma unpoisoned_receive:
  assumes "receive_one os w = (r, w')" and "\<not> fs_context_poisoned (ffi_shared w)"
    and "try_recv_any_with_metadata os (fs_context (ffi_shared w)) (ffi_kernel w) \<noteq> None"
  shows "\<exists>q. try_recv_any_with_metadata os (fs_context (ffi_shared w)) (ffi_kernel w) =
      Some (q, fs_context (ffi_shared w'), ffi_kernel w') \<and> r = Some (map_sum (error_text os) id q) \<and>
      \<not> fs_context_poisoned (ffi_shared w')"
  using assms by (auto simp: receive_one_def put_context_def split: option.splits prod.splits)

text \<open>
  A call that locks the context does one operation on it, or none when an argument is rejected.
\<close>

lemma add_call:
  assumes "mcrx_context_add_subscription os p grp port source interface out w = (st, w')"
    and "\<not> fs_context_poisoned (ffi_shared w)" and "accounts os opens"
  shows "st \<noteq> MCRX_STATUS_PANIC \<and> \<not> fs_context_poisoned (ffi_shared w') \<and>
    (\<exists>k. opens k = opens (ffi_kernel w) \<and>
      (fs_context (ffi_shared w') = fs_context (ffi_shared w) \<and> ffi_kernel w' = k \<or>
       (\<exists>cfg r. add_subscription os (fs_context (ffi_shared w)) cfg k =
          (r, fs_context (ffi_shared w'), ffi_kernel w'))))"
proof (cases "p = NullPtr \<or> out = NullPtr")
  case True
  then have "st \<noteq> MCRX_STATUS_PANIC \<and> \<not> fs_context_poisoned (ffi_shared w') \<and>
      fs_context (ffi_shared w') = fs_context (ffi_shared w) \<and> ffi_kernel w' = ffi_kernel w"
    using assms(1,2) by (auto simp: mcrx_context_add_subscription_def status_simps split: if_splits)
  then show ?thesis by blast
next
  case False
  then have valid: "p = ValidPtr" "out = ValidPtr" by (cases p; cases out; simp)+
  show ?thesis
  proof (cases "required_str grp ''group''")
    case (Inl e)
    then have "st \<noteq> MCRX_STATUS_PANIC \<and> \<not> fs_context_poisoned (ffi_shared w') \<and>
        fs_context (ffi_shared w') = fs_context (ffi_shared w) \<and> ffi_kernel w' = ffi_kernel w"
      using assms(1,2) valid by (auto simp: mcrx_context_add_subscription_def status_simps)
    then show ?thesis by blast
  next
    case g: (Inr g)
    show ?thesis
    proof (cases "(\<exists>e. optional_str source ''source'' = Inl e) \<or> (\<exists>e. optional_str interface ''interface'' = Inl e)")
      case True
      then have "st \<noteq> MCRX_STATUS_PANIC \<and> \<not> fs_context_poisoned (ffi_shared w') \<and>
          fs_context (ffi_shared w') = fs_context (ffi_shared w) \<and> ffi_kernel w' = ffi_kernel w"
        using assms(1,2) valid g
        by (auto simp: mcrx_context_add_subscription_def status_simps split: sum.splits)
      then show ?thesis by blast
    next
      case False
      then obtain s i where s: "optional_str source ''source'' = Inr s" and i: "optional_str interface ''interface'' = Inr i"
        by (metis sum.exhaust)
      obtain r k where b: "build_subscription_config os g port s i (ffi_kernel w) = (r, k)" by force
      then have k: "opens k = opens (ffi_kernel w)" using keeps_run [OF keeps_build_config [OF assms(3)]] by metis
      have call: "mcrx_context_add_subscription os p grp port source interface out w =
          ffi_status (\<lambda>w. case r of
             Inl err \<Rightarrow> set_invalid_argument err (w\<lparr>ffi_kernel := k\<rparr>)
           | Inr config \<Rightarrow>
               with_lock (\<lambda>inner w.
                (case add_subscription os inner config (ffi_kernel w) of
                   (Inr i, inner', k') \<Rightarrow>
                     (Some MCRX_STATUS_OK, clear_error ((put_context inner' k' w)\<lparr>ffi_id_out := sid i\<rparr>))
                 | (Inl err, inner', k') \<Rightarrow> set_error (error_text os err) (put_context inner' k' w)))
                (w\<lparr>ffi_kernel := k\<rparr>)) w"
        using valid g s i b by (simp add: mcrx_context_add_subscription_def ffi_status_def with_context_def)
      have "st \<noteq> MCRX_STATUS_PANIC \<and> \<not> fs_context_poisoned (ffi_shared w') \<and>
          (fs_context (ffi_shared w') = fs_context (ffi_shared w) \<and> ffi_kernel w' = k \<or>
           (\<exists>cfg r. add_subscription os (fs_context (ffi_shared w)) cfg k =
              (r, fs_context (ffi_shared w'), ffi_kernel w')))"
      proof (cases r)
        case (Inl e)
        then show ?thesis using assms(1,2) call by (auto simp: status_simps set_state_error_def)
      next
        case (Inr cfg)
        obtain q c' k' where q: "add_subscription os (fs_context (ffi_shared w)) cfg k = (q, c', k')"
          by (metis prod_cases3)
        then show ?thesis
          using assms(1,2) call Inr
          by (cases q) (auto simp: status_simps with_lock_def set_state_error_def put_context_def)
      qed
      then show ?thesis using k by blast
    qed
  qed
qed

lemma join_call:
  assumes "mcrx_context_join_subscription os p i w = (st, w')" and "\<not> fs_context_poisoned (ffi_shared w)"
  shows "st \<noteq> MCRX_STATUS_PANIC \<and> \<not> fs_context_poisoned (ffi_shared w') \<and>
    (fs_context (ffi_shared w') = fs_context (ffi_shared w) \<and> ffi_kernel w' = ffi_kernel w \<or>
     (\<exists>r. join_subscription os (fs_context (ffi_shared w)) (SubscriptionId i) (ffi_kernel w) =
        (r, fs_context (ffi_shared w'), ffi_kernel w')))"
  using assms
  by (cases p) (auto simp: mcrx_context_join_subscription_def with_lock_def status_simps
      split: prod.splits sum.splits)

lemma leave_call:
  assumes "mcrx_context_leave_subscription os p i w = (st, w')" and "\<not> fs_context_poisoned (ffi_shared w)"
  shows "st \<noteq> MCRX_STATUS_PANIC \<and> \<not> fs_context_poisoned (ffi_shared w') \<and>
    (fs_context (ffi_shared w') = fs_context (ffi_shared w) \<and> ffi_kernel w' = ffi_kernel w \<or>
     (\<exists>r. leave_subscription os (fs_context (ffi_shared w)) (SubscriptionId i) (ffi_kernel w) =
        (r, fs_context (ffi_shared w'), ffi_kernel w')))"
  using assms
  by (cases p) (auto simp: mcrx_context_leave_subscription_def with_lock_def status_simps
      split: prod.splits sum.splits)

lemma remove_call:
  assumes "mcrx_context_remove_subscription os p i w = (st, w')" and "\<not> fs_context_poisoned (ffi_shared w)"
  shows "st \<noteq> MCRX_STATUS_PANIC \<and> \<not> fs_context_poisoned (ffi_shared w') \<and>
    (fs_context (ffi_shared w') = fs_context (ffi_shared w) \<and> ffi_kernel w' = ffi_kernel w \<or>
     (\<exists>r. remove_subscription os (fs_context (ffi_shared w)) (SubscriptionId i) (ffi_kernel w) =
        (r, fs_context (ffi_shared w'), ffi_kernel w')))"
  using assms
  by (cases p) (auto simp: mcrx_context_remove_subscription_def with_lock_def status_simps
      split: prod.splits if_splits)

section \<open>Simulation\<close>

lemma simulates_call:
  assumes "simulates os opens n w" and "accounts os opens" and "n < 2 ^ 64 - 1"
    and "\<not> fs_context_poisoned (ffi_shared w')" and "opens k = opens (ffi_kernel w)"
    and "fs_context (ffi_shared w') = fs_context (ffi_shared w) \<and> ffi_kernel w' = k \<or>
      ctx_step os op (fs_context (ffi_shared w)) k (fs_context (ffi_shared w')) (ffi_kernel w')"
    and "\<forall>cfg s. op \<noteq> OpAddWithSocket cfg s"
  shows "simulates os opens (Suc n) w'"
proof -
  obtain m where m: "m \<le> n" "ctx_reach os opens m (fs_context (ffi_shared w)) (ffi_kernel w)"
    using assms(1) by (auto simp: simulates_def)
  have "owned (fs_context (ffi_shared w)) \<subseteq> opens (ffi_kernel w)"
    using ctx_reach_inv [OF assms(2) m(2)] m(1) assms(3) by auto
  then have "owned (fs_context (ffi_shared w)) \<subseteq> opens k" using assms(5) by simp
  with m(2) have k: "ctx_reach os opens m (fs_context (ffi_shared w)) k" by (rule reach_world)
  have guard: "case op of OpAddWithSocket _ s \<Rightarrow> s \<in> opens k \<and> s \<notin> owned (fs_context (ffi_shared w)) | _ \<Rightarrow> True"
    using assms(7) by (cases op) auto
  from assms(6) have "\<exists>m' \<le> Suc m. ctx_reach os opens m' (fs_context (ffi_shared w')) (ffi_kernel w')"
  proof
    assume "fs_context (ffi_shared w') = fs_context (ffi_shared w) \<and> ffi_kernel w' = k"
    then show ?thesis using k by (metis le_SucI le_refl)
  next
    assume "ctx_step os op (fs_context (ffi_shared w)) k (fs_context (ffi_shared w')) (ffi_kernel w')"
    from reach_step [OF k this guard] show ?thesis by blast
  qed
  then show ?thesis using assms(4) m(1) unfolding simulates_def by (meson Suc_le_mono le_trans)
qed

lemma receive_total:
  assumes "simulates os opens n w" and "accounts os opens" and "n < 2 ^ 64 - 1"
  shows "try_recv_any_with_metadata os (fs_context (ffi_shared w)) (ffi_kernel w) \<noteq> None"
proof -
  obtain m where "m \<le> n" "ctx_reach os opens m (fs_context (ffi_shared w)) (ffi_kernel w)"
    using assms(1) by (auto simp: simulates_def)
  then have "ctx_any.cursor_ok (fs_context (ffi_shared w))"
    using ctx_reach_inv [OF assms(2)] assms(3) by (auto simp: ctx_inv_def table_ok_def ctx_any.cursor_ok_def)
  then show ?thesis using ctx_any_metadata.try_any_total [of "fs_context (ffi_shared w)" os "ffi_kernel w"]
    by (metis option.discI)
qed

lemma simulates_receive:
  assumes "receive_one os w = (r, w')" and "simulates os opens n w" and "accounts os opens" and "n < 2 ^ 64 - 1"
  shows "simulates os opens (Suc n) w' \<and> r \<noteq> None"
proof -
  have p: "\<not> fs_context_poisoned (ffi_shared w)" using assms(2) by (simp add: simulates_def)
  obtain q where q: "try_recv_any_with_metadata os (fs_context (ffi_shared w)) (ffi_kernel w) =
      Some (q, fs_context (ffi_shared w'), ffi_kernel w')" "r = Some (map_sum (error_text os) id q)"
      "\<not> fs_context_poisoned (ffi_shared w')"
    using unpoisoned_receive [OF assms(1) p receive_total [OF assms(2-4)]] by blast
  then show ?thesis
    using simulates_call [OF assms(2-4) q(3) refl disjI2 [OF step_recv_any_with_metadata [OF q(1)]]] by simp
qed

lemma ffi_reach_simulates:
  assumes "ffi_reach os opens n w" and "accounts os opens" and "n < 2 ^ 64 - 1"
  shows "simulates os opens n w"
  using assms(1,3)
proof induction
  case (ffi_new w)
  then show ?case by (auto simp: simulates_def mcrx_context_new_def intro: reach_new)
next
  case (ffi_world n w w')
  then obtain m where "m \<le> n" "ctx_reach os opens m (fs_context (ffi_shared w)) (ffi_kernel w)"
    by (auto simp: simulates_def)
  then have "ctx_reach os opens m (fs_context (ffi_shared w')) (ffi_kernel w')"
    using ffi_world.hyps by (metis reach_world)
  then show ?case using \<open>m \<le> n\<close> ffi_world unfolding simulates_def by auto
next
  case (ffi_add n w p grp port source interface out st w')
  then have sim: "simulates os opens n w" by simp
  then have "\<not> fs_context_poisoned (ffi_shared w)" by (simp add: simulates_def)
  from add_call [OF ffi_add.hyps(2) this assms(2)] obtain k where
    c: "\<not> fs_context_poisoned (ffi_shared w')" "opens k = opens (ffi_kernel w)"
      "fs_context (ffi_shared w') = fs_context (ffi_shared w) \<and> ffi_kernel w' = k \<or>
       (\<exists>cfg r. add_subscription os (fs_context (ffi_shared w)) cfg k = (r, fs_context (ffi_shared w'), ffi_kernel w'))"
    by blast
  then have "\<exists>cfg. fs_context (ffi_shared w') = fs_context (ffi_shared w) \<and> ffi_kernel w' = k \<or>
      ctx_step os (OpAdd cfg) (fs_context (ffi_shared w)) k (fs_context (ffi_shared w')) (ffi_kernel w')"
    by (metis step_add)
  then show ?case using simulates_call [OF sim assms(2) _ c(1,2)] ffi_add.prems by auto
next
  case (ffi_join n w p i st w')
  then have sim: "simulates os opens n w" by simp
  then have "\<not> fs_context_poisoned (ffi_shared w)" by (simp add: simulates_def)
  note c = join_call [OF ffi_join.hyps(2) this]
  then have "fs_context (ffi_shared w') = fs_context (ffi_shared w) \<and> ffi_kernel w' = ffi_kernel w \<or>
      ctx_step os (OpJoin (SubscriptionId i)) (fs_context (ffi_shared w)) (ffi_kernel w)
        (fs_context (ffi_shared w')) (ffi_kernel w')"
    by (metis step_join)
  then show ?case
    using simulates_call [OF sim assms(2) _ _ refl, of w' "OpJoin (SubscriptionId i)"] c ffi_join.prems by simp
next
  case (ffi_leave n w p i st w')
  then have sim: "simulates os opens n w" by simp
  then have "\<not> fs_context_poisoned (ffi_shared w)" by (simp add: simulates_def)
  note c = leave_call [OF ffi_leave.hyps(2) this]
  then have "fs_context (ffi_shared w') = fs_context (ffi_shared w) \<and> ffi_kernel w' = ffi_kernel w \<or>
      ctx_step os (OpLeave (SubscriptionId i)) (fs_context (ffi_shared w)) (ffi_kernel w)
        (fs_context (ffi_shared w')) (ffi_kernel w')"
    by (metis step_leave)
  then show ?case
    using simulates_call [OF sim assms(2) _ _ refl, of w' "OpLeave (SubscriptionId i)"] c ffi_leave.prems by simp
next
  case (ffi_remove n w p i st w')
  then have sim: "simulates os opens n w" by simp
  then have "\<not> fs_context_poisoned (ffi_shared w)" by (simp add: simulates_def)
  note c = remove_call [OF ffi_remove.hyps(2) this]
  then have "fs_context (ffi_shared w') = fs_context (ffi_shared w) \<and> ffi_kernel w' = ffi_kernel w \<or>
      ctx_step os (OpRemove (SubscriptionId i)) (fs_context (ffi_shared w)) (ffi_kernel w)
        (fs_context (ffi_shared w')) (ffi_kernel w')"
    by (metis step_remove)
  then show ?case
    using simulates_call [OF sim assms(2) _ _ refl, of w' "OpRemove (SubscriptionId i)"] c ffi_remove.prems by simp
next
  case (ffi_receive n w r w')
  then show ?case using simulates_receive [OF ffi_receive.hyps(2) _ assms(2)] by simp
qed

section \<open>Polling\<close>

lemma poll_loop_ok:
  assumes callbacks: "\<And>v m w. ffi_reach os opens m w \<Longrightarrow> \<exists>m' \<le> m + b. ffi_reach os opens m' (callback v w)"
    and acc: "accounts os opens"
    and "ffi_reach os opens n w" and "n + left * (b + 1) < 2 ^ 64 - 1"
    and "poll_loop os callback left received w = (r, w')"
  shows "r \<noteq> None \<and> (\<exists>m \<le> n + left * (b + 1). ffi_reach os opens m w') \<and>
    (\<forall>got. r = Some (Inr got) \<longrightarrow> received \<le> got \<and> got \<le> received + left)"
  using assms(3-)
proof (induction left arbitrary: n received w)
  case (Suc left)
  obtain q w1 where q: "receive_one os w = (q, w1)" by force
  have sim: "simulates os opens n w" using ffi_reach_simulates [OF Suc.prems(1) acc] Suc.prems(2) by simp
  have "q \<noteq> None" using simulates_receive [OF q sim acc] Suc.prems(2) by simp
  moreover have w1: "ffi_reach os opens (Suc n) w1" using ffi_receive [OF Suc.prems(1) q] .
  ultimately consider (err) e where "q = Some (Inl e)" | (none) "q = Some (Inr None)" | (some) p where "q = Some (Inr (Some p))"
    by (metis not_None_eq sum.exhaust)
  then show ?case
  proof cases
    case err
    then have "r = Some (Inl e)" "w' = w1" using Suc.prems(3) q by auto
    then show ?thesis using w1 by (auto intro!: exI [of _ "Suc n"])
  next
    case none
    then have "r = Some (Inr received)" "w' = w1" using Suc.prems(3) q by auto
    then show ?thesis using w1 by (auto intro!: exI [of _ "Suc n"])
  next
    case (some p)
    define w2 where "w2 = call_packet_callback os p callback w1"
    obtain m where m: "m \<le> Suc n + b" "ffi_reach os opens m w2"
      using callbacks [OF w1] unfolding w2_def call_packet_callback_def by blast
    show ?thesis
    proof (cases "fs_handle_alive (ffi_shared w2)")
      case False
      then have "r = Some (Inr (received + 1))" "w' = w2" using Suc.prems(3) q some by (auto simp: Let_def w2_def)
      then show ?thesis using m by (auto intro!: exI [of _ m])
    next
      case True
      then have loop: "poll_loop os callback left (received + 1) w2 = (r, w')"
        using Suc.prems(3) q some by (auto simp: Let_def w2_def)
      have le: "m + left * (b + 1) \<le> n + Suc left * (b + 1)" using m(1) by simp
      then have "m + left * (b + 1) < 2 ^ 64 - 1" using Suc.prems(2) by linarith
      note IH = Suc.IH [OF m(2) this loop]
      then obtain m' where "m' \<le> m + left * (b + 1)" "ffi_reach os opens m' w'" by blast
      then have "\<exists>m \<le> n + Suc left * (b + 1). ffi_reach os opens m w'" using le by (meson le_trans)
      then show ?thesis using IH by auto
    qed
  qed
qed auto

section \<open>Texts are valid C strings\<close>

lemma digit_ascii: "to_digit 16 c \<noteq> None \<Longrightarrow> of_char c < (128 :: nat)"
  by (auto simp: to_digit_def Let_def split: if_splits)

lemma ip_text_ascii: "ip_text s a \<Longrightarrow> c \<in> set s \<Longrightarrow> of_char c < (128 :: nat)"
  using text_chars [of s a c] digit_ascii [of c] by auto

lemma dec_ascii: "c \<in> set (dec_digits n) \<Longrightarrow> of_char c < (128 :: nat)"
  using digits_are_ascii [of c n] by (simp add: dec_digits_radix is_ascii_digit_def)

lemma interface_text_ascii: "interface_text grp s i \<Longrightarrow> c \<in> set s \<Longrightarrow> of_char c < (128 :: nat)"
  by (induction rule: interface_text.induct) (auto dest: ip_text_ascii dec_ascii)

lemma build_config_text:
  assumes "ip_text g grp" and "ip_text s src" and "interface_text grp t (ifc, ix)"
  shows "build_subscription_config os g port (Some s) (Some t) k =
    (Inr \<lparr>cfg_group = grp, cfg_source = Source src, cfg_dst_port = port,
       cfg_interface = ifc, cfg_interface_index = ix\<rparr>, k)"
proof -
  have "parse_interface_selector os grp (Some t) k = (Inr (ifc, ix), k)"
    using selector_agrees [of os grp t k] parse_interface_text [OF assms(3), of os k] by (intro agree_Inr) simp
  then show ?thesis
    by (simp add: build_subscription_config_def parse_optional_ip_addr_def ffi_parse_ip_text [OF assms(1)]
        ffi_parse_ip_text [OF assms(2)] io_bind_def ssm_ip_def)
qed

lemma add_texts:
  assumes "ip_text g grp" and "ip_text s src" and "interface_text grp t (ifc, ix)"
    and "\<not> fs_context_poisoned (ffi_shared w)"
    and "add_subscription os (fs_context (ffi_shared w))
      \<lparr>cfg_group = grp, cfg_source = Source src, cfg_dst_port = port, cfg_interface = ifc, cfg_interface_index = ix\<rparr>
      (ffi_kernel w) = (r, c', k')"
  shows "mcrx_context_add_subscription os ValidPtr (Some g) port (Some s) (Some t) ValidPtr w =
      (case r of
         Inr i \<Rightarrow> (MCRX_STATUS_OK, clear_error ((put_context c' k' w)\<lparr>ffi_id_out := sid i\<rparr>))
       | Inl err \<Rightarrow> (MCRX_STATUS_ERROR, snd (set_error (error_text os err) (put_context c' k' w))))"
proof -
  have texts: "required_str (Some g) ''group'' = Inr g" "optional_str (Some s) ''source'' = Inr (Some s)"
    "optional_str (Some t) ''interface'' = Inr (Some t)"
    using ip_text_ascii [OF assms(1)] ip_text_ascii [OF assms(2)] interface_text_ascii [OF assms(3)]
    by (simp_all add: required_str_def optional_str_def ascii_utf8)
  then show ?thesis
    using build_config_text [OF assms(1-3), of os port "ffi_kernel w"] assms(4,5)
    by (cases r) (simp_all add: mcrx_context_add_subscription_def ffi_status_def with_context_def with_lock_def set_error_def)
qed

lemma poll_outcome:
  assumes acc: "accounts os opens" and reach: "ffi_reach os opens n w"
    and bound: "n + max_packets * (b + 1) < 2 ^ 64 - 1"
    and callbacks: "\<forall>v m w. ffi_reach os opens m w \<longrightarrow> (\<exists>m' \<le> m + b. ffi_reach os opens m' (callback v w))"
    and owned: "owned (fs_context (ffi_shared w)) \<subseteq> opens (ffi_kernel w)"
    and poll: "mcrx_context_poll os p max_packets (Some callback) out w = (st, w')"
  shows "st \<noteq> MCRX_STATUS_PANIC \<and> (\<exists>m \<le> n + max_packets * (b + 1). ffi_reach os opens m w') \<and>
    (p = ValidPtr \<and> out = ValidPtr \<and> st = MCRX_STATUS_OK \<longrightarrow> ffi_received_out w' \<le> max_packets)"
proof (cases "p = NullPtr \<or> out = NullPtr")
  case True
  then have "fs_context (ffi_shared w') = fs_context (ffi_shared w)" "ffi_kernel w' = ffi_kernel w"
    "fs_context_poisoned (ffi_shared w') = fs_context_poisoned (ffi_shared w)" "st \<noteq> MCRX_STATUS_PANIC"
    using poll by (auto simp: mcrx_context_poll_def status_simps split: if_splits)
  note same = this
  then have "ffi_reach os opens n w'" using ffi_world [OF reach, of w'] owned by simp
  then have "\<exists>m \<le> n + max_packets * (b + 1). ffi_reach os opens m w'" by (intro exI [of _ n]) simp
  moreover have "\<not> (p = ValidPtr \<and> out = ValidPtr)" using True by auto
  ultimately show ?thesis using same(4) by blast
next
  case False
  let ?w0 = "w\<lparr>ffi_received_out := 0\<rparr>"
  have w0: "ffi_reach os opens n ?w0" using ffi_world [OF reach, of ?w0] owned by simp
  obtain r w1 where loop: "poll_loop os callback max_packets 0 ?w0 = (r, w1)" by force
  have cb: "\<And>v m w. ffi_reach os opens m w \<Longrightarrow> \<exists>m' \<le> m + b. ffi_reach os opens m' (callback v w)"
    using callbacks by blast
  note res = poll_loop_ok [OF cb acc w0 bound loop]
  then obtain m where m: "m \<le> n + max_packets * (b + 1)" "ffi_reach os opens m w1" by blast
  obtain m1 where "m1 \<le> m" "ctx_reach os opens m1 (fs_context (ffi_shared w1)) (ffi_kernel w1)"
    using ffi_reach_simulates [OF m(2) acc] m(1) bound by (auto simp: simulates_def)
  then have owned1: "owned (fs_context (ffi_shared w1)) \<subseteq> opens (ffi_kernel w1)"
    using ctx_reach_inv [OF acc] m(1) bound by auto
  have final: "ffi_reach os opens m (clear_error (w1\<lparr>ffi_received_out := got\<rparr>))"
    "ffi_reach os opens m (snd (set_error e w1))" for got e
    using ffi_world [OF m(2)] owned1 by (simp_all add: clear_error_def set_error_def set_state_error_def)
  have call: "(st, w') = (case r of
      None \<Rightarrow> set_last_error_with_status ''panic crossed mcrx-core-ffi boundary'' MCRX_STATUS_PANIC w1
    | Some (Inl err) \<Rightarrow> (MCRX_STATUS_ERROR, snd (set_error err w1))
    | Some (Inr got) \<Rightarrow> (MCRX_STATUS_OK, clear_error (w1\<lparr>ffi_received_out := got\<rparr>)))"
    using poll False loop
    by (cases p; cases out)
       (auto simp: mcrx_context_poll_def ffi_status_def with_context_def set_error_def split: option.splits sum.splits)
  consider (err) e where "r = Some (Inl e)" | (got) g where "r = Some (Inr g)"
    using res by (metis not_None_eq sum.exhaust)
  then show ?thesis
  proof cases
    case err
    then show ?thesis using call m(1) final(2) [of e]
      by (auto simp: MCRX_STATUS_ERROR_def MCRX_STATUS_PANIC_def MCRX_STATUS_OK_def)
  next
    case (got g)
    then show ?thesis using call m(1) final(1) [of g] res
      by (auto simp: MCRX_STATUS_PANIC_def MCRX_STATUS_OK_def clear_error_def set_state_error_def)
  qed
qed

section \<open>Properties\<close>

text \<open>
  C9. What is behind a C handle is always a context that the library itself could have reached in as
  many operations, whatever arguments the calls were given; its mutex is never poisoned.
\<close>

theorem ffi_simulates_context:
  assumes "accounts os opens" and "ffi_reach os opens n w" and "n < 2 ^ 64 - 1"
  shows "\<not> fs_context_poisoned (ffi_shared w) \<and>
    (\<exists>m \<le> n. ctx_reach os opens m (fs_context (ffi_shared w)) (ffi_kernel w))"
  using ffi_reach_simulates [OF assms(2,1,3)] by (simp add: simulates_def)

definition demo_ffi :: "sim ffi" where
  "demo_ffi =
     \<lparr>ffi_shared = \<lparr>fs_context = context_new, fs_context_poisoned = False, fs_last_error = None,
        fs_handle_alive = True\<rparr>, ffi_LAST_ERROR = None, ffi_kernel = sim_init, ffi_id_out = 0, ffi_received_out = 0\<rparr>"

lemma demo_ffi_reach: "ffi_reach (sim_os Linux) sim_sockets 0 demo_ffi"
proof -
  have "mcrx_context_new demo_ffi = demo_ffi"
    by (simp add: mcrx_context_new_def demo_ffi_def clear_last_error_def)
  then show ?thesis using ffi_new by metis
qed

theorem ffi_simulates_context_witness:
  "\<exists>w. mcrx_context_remove_subscription (sim_os Linux) ValidPtr 5 demo_ffi = (MCRX_STATUS_ERROR, w) \<and>
     \<not> fs_context_poisoned (ffi_shared w)"
proof -
  obtain w where w: "mcrx_context_remove_subscription (sim_os Linux) ValidPtr 5 demo_ffi = (MCRX_STATUS_ERROR, w)"
    by (simp add: mcrx_context_remove_subscription_def status_simps with_lock_def demo_ffi_def remove_subscription_def
        take_subscription_def context_new_def)
  from ffi_simulates_context [OF sim_accounts ffi_remove [OF demo_ffi_reach w]] w show ?thesis by simp
qed



text \<open>
  Adding through the C interface reads its texts back: when a group, a source and an interface
  are written in any of their texts and the call succeeds, the identifier it reports belongs to a new
  subscription with exactly this configuration.
\<close>

theorem ffi_add_roundtrip:
  assumes "accounts os opens" and "ffi_reach os opens n w" and "n < 2 ^ 64 - 1"
    and "ip_text g grp" and "ip_text s src" and "interface_text grp t (ifc, ix)"
    and "mcrx_context_add_subscription os ValidPtr (Some g) port (Some s) (Some t) ValidPtr w = (MCRX_STATUS_OK, w')"
  shows "get_subscription (fs_context (ffi_shared w)) (SubscriptionId (ffi_id_out w')) = None \<and>
    (\<exists>sub. get_subscription (fs_context (ffi_shared w')) (SubscriptionId (ffi_id_out w')) = Some sub \<and>
      sub_config sub = \<lparr>cfg_group = grp, cfg_source = Source src, cfg_dst_port = port,
        cfg_interface = ifc, cfg_interface_index = ix\<rparr>)"
proof -
  let ?c = "fs_context (ffi_shared w)" and ?cfg = "\<lparr>cfg_group = grp, cfg_source = Source src,
    cfg_dst_port = port, cfg_interface = ifc, cfg_interface_index = ix\<rparr>"
  obtain m where m: "m \<le> n" "ctx_reach os opens m ?c (ffi_kernel w)" and ok: "\<not> fs_context_poisoned (ffi_shared w)"
    using ffi_reach_simulates [OF assms(2,1,3)] by (auto simp: simulates_def)
  then have inv: "ctx_inv ?c" using ctx_reach_inv [OF assms(1) m(2)] assms(3) by simp
  obtain r c' k' where add: "add_subscription os ?c ?cfg (ffi_kernel w) = (r, c', k')" by (metis prod_cases3)
  note assms(7) [unfolded add_texts [OF assms(4-6) ok add]]
  then obtain i where i: "r = Inr i" "w' = clear_error ((put_context c' k' w)\<lparr>ffi_id_out := sid i\<rparr>)"
    by (cases r) (simp_all add: MCRX_STATUS_OK_def MCRX_STATUS_ERROR_def)
  have out: "ffi_id_out w' = sid i" "fs_context (ffi_shared w') = c'"
    by (simp_all add: i clear_error_def set_state_error_def put_context_def)
  show ?thesis
    using add_remove_lookup [OF inv, where os = os and cfg = ?cfg and k = "ffi_kernel w" and i = i] add i(1) by (cases i) (auto simp: out)
qed

text \<open>A configuration written in texts, and what adding it to an empty context gives.\<close>

definition text_config :: subscription_config where
  "text_config = \<lparr>cfg_group = V4 (Quad 232 1 2 3), cfg_source = Source (V4 (Quad 10 0 0 1)),
     cfg_dst_port = 5000, cfg_interface = Some (V4 (Quad 192 168 1 20)), cfg_interface_index = None\<rparr>"

lemmas text_config_texts = example_texts(1,2) interface_text_ip [OF example_texts(3)]

lemma text_config_added:
  "\<exists>c k. add_subscription (sim_os Linux) context_new text_config sim_init = (Inr (SubscriptionId 1), c, k)"
proof -
  have "validate text_config = Inr ()" by code_simp
  moreover have "res_ok (fst (open_bound_socket (sim_os Linux) text_config sim_init)) \<noteq> None" by code_simp
  ultimately have "fst (add_subscription (sim_os Linux) context_new text_config sim_init) = Inr (SubscriptionId 1)"
    by (cases "open_bound_socket (sim_os Linux) text_config sim_init";
        cases "fst (open_bound_socket (sim_os Linux) text_config sim_init)")
       (simp_all add: add_subscription_def res_simps context_new_def
        ensure_subscription_config_is_unique_def insert_subscription_def Let_def res_ok_def)
  then show ?thesis by (cases "add_subscription (sim_os Linux) context_new text_config sim_init") auto
qed

theorem ffi_add_roundtrip_witness:
  "\<exists>w. mcrx_context_add_subscription (sim_os Linux) ValidPtr (Some ''232.1.2.3'') 5000 (Some ''10.0.0.1'')
       (Some ''192.168.1.20'') ValidPtr demo_ffi = (MCRX_STATUS_OK, w) \<and>
     (\<exists>sub. get_subscription (fs_context (ffi_shared w)) (SubscriptionId (ffi_id_out w)) = Some sub \<and>
       sub_config sub = \<lparr>cfg_group = V4 (Quad 232 1 2 3), cfg_source = Source (V4 (Quad 10 0 0 1)),
         cfg_dst_port = 5000, cfg_interface = Some (V4 (Quad 192 168 1 20)), cfg_interface_index = None\<rparr>)"
proof -
  obtain c k where "add_subscription (sim_os Linux) context_new text_config sim_init = (Inr (SubscriptionId 1), c, k)"
    using text_config_added by blast
  then obtain w where w: "mcrx_context_add_subscription (sim_os Linux) ValidPtr (Some ''232.1.2.3'') 5000 (Some ''10.0.0.1'')
       (Some ''192.168.1.20'') ValidPtr demo_ffi = (MCRX_STATUS_OK, w)"
    using add_texts [OF text_config_texts, of demo_ffi "sim_os Linux" 5000] by (simp add: demo_ffi_def text_config_def)
  from ffi_add_roundtrip [OF sim_accounts demo_ffi_reach _ text_config_texts w] w show ?thesis by auto
qed

end
