(* ===== verification/Tokio.thy ===== *)
theory Tokio
  imports Subscription
begin

text \<open>
  \<open>src/tokio_adapter.rs\<close>: waiting for packets of one subscription in an asynchronous task. An
  asynchronous receive is a function that its runtime polls; it keeps no packet of its own between
  two polls, so it is a function on the subscription. Tokio's \<open>AsyncFd\<close> and its timer are
  parameters. Lemmas: a poll returns; dropping a pending receive loses nothing; and a long burst of
  foreign datagrams leaves the receive waiting although packets are queued.
\<close>

section \<open>The runtime\<close>

datatype readiness = ReadyNow | NotReady | ReadyFailed io_error

record 'k async_fd =
  fd_new :: "socket \<Rightarrow> 'k \<Rightarrow> (io_error + unit) \<times> 'k"
  fd_poll_read_ready :: "socket \<Rightarrow> 'k \<Rightarrow> readiness \<times> 'k"
  fd_clear_ready :: "socket \<Rightarrow> 'k \<Rightarrow> 'k"

text \<open>A timer starts a sleep, known by its deadline, and tells whether one is over.\<close>

record 'k timer =
  tm_sleep :: "nat \<Rightarrow> 'k \<Rightarrow> nat \<times> 'k"
  tm_elapsed :: "nat \<Rightarrow> 'k \<Rightarrow> bool \<times> 'k"

section \<open>The adapter\<close>

datatype tokio_receive_error = Readiness io_error | Receive mcrx_error

record tokio_subscription =
  tokio_inner :: subscription
  tokio_poll_interval :: nat   \<comment> \<open>milliseconds; not on Unix\<close>

text \<open>Without a registration the subscription is dropped, which closes its socket.\<close>

definition tokio_new ::
  "'k os \<Rightarrow> 'k async_fd \<Rightarrow> subscription \<Rightarrow> 'k \<Rightarrow> (io_error + tokio_subscription) \<times> 'k" where
  "tokio_new os fd s k =
     (if target_unix (os_target os)
      then (case fd_new fd (into_socket s) k of
          (Inl e, k') \<Rightarrow> (Inl e, os_close os (into_socket s) k')
        | (Inr _, k') \<Rightarrow> (Inr \<lparr>tokio_inner = s, tokio_poll_interval = 0\<rparr>, k'))
      else (Inr \<lparr>tokio_inner = s, tokio_poll_interval = 10\<rparr>, k))"

definition tokio_into_subscription :: "tokio_subscription \<Rightarrow> subscription" where
  "tokio_into_subscription t = tokio_inner t"

definition with_poll_interval :: "nat \<Rightarrow> tokio_subscription \<Rightarrow> tokio_subscription" where
  "with_poll_interval interval t = t\<lparr>tokio_poll_interval := interval\<rparr>"

text \<open>
  One poll of the Unix loop: \<open>None\<close> is pending. The loop has no bound of its own, so it is a
  partial function.
\<close>

partial_function (option) readiness_loop ::
  "'k async_fd \<Rightarrow> ('k, 'p) receiver \<Rightarrow> subscription \<Rightarrow> 'k \<Rightarrow>
   ((tokio_receive_error + 'p) option \<times> subscription \<times> 'k) option" where
  "readiness_loop fd recv s k =
     (case fd_poll_read_ready fd (into_socket s) k of (readiness, k1) \<Rightarrow>
        (case readiness of
           NotReady \<Rightarrow> Some (None, s, k1)
         | ReadyFailed e \<Rightarrow> Some (Some (Inl (Readiness e)), s, k1)
         | ReadyNow \<Rightarrow>
             (case recv s k1 of (received, s', k2) \<Rightarrow>
                (case received of
                   Inl e \<Rightarrow> Some (Some (Inl (Receive e)), s', k2)
                 | Inr packet \<Rightarrow>
                     (case packet of
                        Some p \<Rightarrow> Some (Some (Inr p), s', k2)
                      | None \<Rightarrow> readiness_loop fd recv s' (fd_clear_ready fd (into_socket s') k2))))))"

text \<open>One poll of the loop elsewhere; between polls it may be in a sleep.\<close>

partial_function (option) sleep_loop ::
  "'k timer \<Rightarrow> nat \<Rightarrow> ('k, 'p) receiver \<Rightarrow> nat option \<Rightarrow> subscription \<Rightarrow> 'k \<Rightarrow>
   ((tokio_receive_error + 'p) option \<times> nat option \<times> subscription \<times> 'k) option" where
  "sleep_loop tm interval recv sleeping s k =
     (case sleeping of
        Some deadline \<Rightarrow>
          (case tm_elapsed tm deadline k of (over, k1) \<Rightarrow>
             (if over then sleep_loop tm interval recv None s k1 else Some (None, Some deadline, s, k1)))
      | None \<Rightarrow>
          (case recv s k of (received, s', k1) \<Rightarrow>
             (case received of
                Inl e \<Rightarrow> Some (Some (Inl (Receive e)), None, s', k1)
              | Inr packet \<Rightarrow>
                  (case packet of
                     Some p \<Rightarrow> Some (Some (Inr p), None, s', k1)
                   | None \<Rightarrow>
                       (case tm_sleep tm interval k1 of
                          (deadline, k2) \<Rightarrow> sleep_loop tm interval recv (Some deadline) s' k2)))))"

text \<open>A poll of a receive; \<open>sleeping\<close> is all that the receive itself remembers.\<close>

definition tokio_poll ::
  "'k os \<Rightarrow> 'k async_fd \<Rightarrow> 'k timer \<Rightarrow> ('k, 'p) receiver \<Rightarrow> nat option \<Rightarrow> tokio_subscription \<Rightarrow> 'k \<Rightarrow>
   ((tokio_receive_error + 'p) option \<times> nat option \<times> tokio_subscription \<times> 'k) option" where
  "tokio_poll os fd tm recv sleeping t k =
     (if target_unix (os_target os)
      then map_option (\<lambda>(r, s, k'). (r, None, t\<lparr>tokio_inner := s\<rparr>, k')) (readiness_loop fd recv (tokio_inner t) k)
      else map_option (\<lambda>(r, sleeping', s, k'). (r, sleeping', t\<lparr>tokio_inner := s\<rparr>, k'))
        (sleep_loop tm (tokio_poll_interval t) recv sleeping (tokio_inner t) k))"

definition tokio_recv ::
  "'k os \<Rightarrow> 'k async_fd \<Rightarrow> 'k timer \<Rightarrow> nat option \<Rightarrow> tokio_subscription \<Rightarrow> 'k \<Rightarrow>
   ((tokio_receive_error + packet) option \<times> nat option \<times> tokio_subscription \<times> 'k) option" where
  "tokio_recv os fd tm = tokio_poll os fd tm (try_recv os)"

definition tokio_recv_with_metadata ::
  "'k os \<Rightarrow> 'k async_fd \<Rightarrow> 'k timer \<Rightarrow> nat option \<Rightarrow> tokio_subscription \<Rightarrow> 'k \<Rightarrow>
   ((tokio_receive_error + packet_with_metadata) option \<times> nat option \<times> tokio_subscription \<times> 'k) option" where
  "tokio_recv_with_metadata os fd tm = tokio_poll os fd tm (try_recv_with_metadata os)"

section \<open>What the runtime promises\<close>

text \<open>
  After \<open>clear_ready\<close>, tokio waits for the next edge-triggered notification: during the poll none
  arrives, and a receive that is not ready stays so until one does. A sleep of a positive length is
  not over when it has just been started.
\<close>

definition edge_triggered :: "'k async_fd \<Rightarrow> bool" where
  "edge_triggered fd \<longleftrightarrow>
     (\<forall>s k. fst (fd_poll_read_ready fd s (fd_clear_ready fd s k)) = NotReady) \<and>
     (\<forall>s k k'. fd_poll_read_ready fd s k = (NotReady, k') \<longrightarrow> fd_poll_read_ready fd s k' = (NotReady, k'))"

definition sleeps :: "'k timer \<Rightarrow> bool" where
  "sleeps tm \<longleftrightarrow> (\<forall>n k d k'. 0 < n \<longrightarrow> tm_sleep tm n k = (d, k') \<longrightarrow> \<not> fst (tm_elapsed tm d k'))"

lemma not_ready_after_clear:
  "edge_triggered fd \<Longrightarrow> fd_poll_read_ready fd s (fd_clear_ready fd s k) =
     (NotReady, snd (fd_poll_read_ready fd s (fd_clear_ready fd s k)))"
  by (simp add: edge_triggered_def prod_eq_iff)

section \<open>A poll is at most one receive\<close>

definition lift_result :: "mcrx_error + 'p option \<Rightarrow> (tokio_receive_error + 'p) option" where
  "lift_result r = (case r of Inl e \<Rightarrow> Some (Inl (Receive e)) | Inr (Some p) \<Rightarrow> Some (Inr p) | Inr None \<Rightarrow> None)"

lemma readiness_loop_eq:
  assumes "edge_triggered fd"
  shows "readiness_loop fd recv s k =
    (case fd_poll_read_ready fd (into_socket s) k of
       (NotReady, k1) \<Rightarrow> Some (None, s, k1)
     | (ReadyFailed e, k1) \<Rightarrow> Some (Some (Inl (Readiness e)), s, k1)
     | (ReadyNow, k1) \<Rightarrow>
         (case recv s k1 of (r, s', k2) \<Rightarrow>
            Some (lift_result r, s',
              if r = Inr None
              then snd (fd_poll_read_ready fd (into_socket s') (fd_clear_ready fd (into_socket s') k2)) else k2)))"
proof (cases "fd_poll_read_ready fd (into_socket s) k")
  case (Pair q k1)
  show ?thesis
  proof (cases q)
    case ReadyNow
    obtain r s' k2 where r: "recv s k1 = (r, s', k2)" by (metis prod_cases3)
    have cleared: "readiness_loop fd recv s' (fd_clear_ready fd (into_socket s') k2) =
        Some (None, s', snd (fd_poll_read_ready fd (into_socket s') (fd_clear_ready fd (into_socket s') k2)))"
      by (subst readiness_loop.simps) (subst not_ready_after_clear [OF assms], simp)
    show ?thesis
      by (subst readiness_loop.simps)
         (simp add: Pair ReadyNow r cleared lift_result_def split: sum.split option.split)
  qed (subst readiness_loop.simps, simp add: Pair)+
qed

lemma sleep_loop_once:
  assumes "sleeps tm" and "0 < interval"
  shows "sleep_loop tm interval recv None s k =
    (case recv s k of (r, s', k1) \<Rightarrow>
       if r = Inr None
       then (case tm_sleep tm interval k1 of (d, k2) \<Rightarrow> Some (None, Some d, s', snd (tm_elapsed tm d k2)))
       else Some (lift_result r, None, s', k1))"
proof -
  obtain r s' k1 where r: "recv s k = (r, s', k1)" by (metis prod_cases3)
  obtain d k2 where d: "tm_sleep tm interval k1 = (d, k2)" by force
  then have "\<not> fst (tm_elapsed tm d k2)" using assms unfolding sleeps_def by blast
  then obtain k3 where k3: "tm_elapsed tm d k2 = (False, k3)" by (cases "tm_elapsed tm d k2") auto
  have asleep: "sleep_loop tm interval recv (Some d) s' k2 = Some (None, Some d, s', snd (tm_elapsed tm d k2))"
    by (subst sleep_loop.simps) (simp add: k3)
  show ?thesis
    by (subst sleep_loop.simps) (simp add: r d asleep lift_result_def split: sum.split option.split)
qed

lemma sleep_loop_eq:
  assumes "sleeps tm" and "0 < interval"
  shows "sleep_loop tm interval recv (Some d) s k =
    (case tm_elapsed tm d k of (over, k1) \<Rightarrow>
       if over then sleep_loop tm interval recv None s k1 else Some (None, Some d, s, k1))"
  by (subst sleep_loop.simps) simp

text \<open>
  Whatever the platform, a poll takes at most one receive: it returns without one, or with the result
  of one, and is pending exactly if it had none or the receive delivered nothing.
\<close>

definition one_receive ::
  "('k, 'p) receiver \<Rightarrow> subscription \<Rightarrow> (tokio_receive_error + 'p) option \<Rightarrow> subscription \<Rightarrow> bool" where
  "one_receive recv s r s' \<longleftrightarrow>
     (s' = s \<and> (r = None \<or> (\<exists>e. r = Some (Inl (Readiness e))))) \<or>
     (\<exists>k k' q. recv s k = (q, s', k') \<and> r = lift_result q)"

lemma readiness_loop_one:
  assumes "edge_triggered fd"
  shows "\<exists>r s' k'. readiness_loop fd recv s k = Some (r, s', k') \<and> one_receive recv s r s'"
proof (cases "fd_poll_read_ready fd (into_socket s) k")
  case (Pair q k1)
  show ?thesis
  proof (cases q)
    case ReadyNow
    obtain r s' k2 where r: "recv s k1 = (r, s', k2)" by (metis prod_cases3)
    then have "one_receive recv s (lift_result r) s'" unfolding one_receive_def by blast
    then show ?thesis using readiness_loop_eq [OF assms, of recv s k] Pair ReadyNow r by simp
  qed (use readiness_loop_eq [OF assms, of recv s k] Pair in \<open>auto simp: one_receive_def\<close>)
qed

lemma sleep_loop_none:
  assumes "sleeps tm" and "0 < interval"
  shows "\<exists>r d s' k'. sleep_loop tm interval recv None s k = Some (r, d, s', k') \<and> one_receive recv s r s'"
proof -
  obtain r s' k2 where r: "recv s k = (r, s', k2)" by (metis prod_cases3)
  then have "one_receive recv s (lift_result r) s'" unfolding one_receive_def by blast
  then show ?thesis
    using sleep_loop_once [OF assms, of recv s k] r
    by (cases "r = Inr None") (auto simp: lift_result_def split: prod.splits)
qed

lemma sleep_loop_one:
  assumes "sleeps tm" and "0 < interval"
  shows "\<exists>r d s' k'. sleep_loop tm interval recv sleeping s k = Some (r, d, s', k') \<and> one_receive recv s r s'"
proof (cases sleeping)
  case None
  then show ?thesis using sleep_loop_none [OF assms] by simp
next
  case (Some d)
  then show ?thesis
    using sleep_loop_eq [OF assms, of recv d s k] sleep_loop_none [OF assms, of recv s "snd (tm_elapsed tm d k)"]
    by (cases "tm_elapsed tm d k"; cases "fst (tm_elapsed tm d k)") (auto simp: one_receive_def)
qed

lemma poll_one:
  assumes "edge_triggered fd" and "sleeps tm" and "target_unix (os_target os) \<or> 0 < tokio_poll_interval t"
  shows "\<exists>r d t' k'. tokio_poll os fd tm recv sleeping t k = Some (r, d, t', k') \<and>
    one_receive recv (tokio_inner t) r (tokio_inner t')"
  using readiness_loop_one [OF assms(1), of recv "tokio_inner t" k]
    sleep_loop_one [OF assms(2), of "tokio_poll_interval t" recv sleeping "tokio_inner t" k] assms(3)
  by (cases "target_unix (os_target os)") (auto simp: tokio_poll_def)

text \<open>What a poll did to the history of the subscription.\<close>

lemma history_recv:
  assumes "one_receive (try_recv os) s r s'" and "sub_history os i cfg s ps"
  shows "sub_history os i cfg s' (ps @ (case r of Some (Inr p) \<Rightarrow> [p] | _ \<Rightarrow> []))"
proof -
  consider "s' = s" "r = None \<or> (\<exists>e. r = Some (Inl (Readiness e)))"
    | k k' q where "try_recv os s k = (q, s', k')" "r = lift_result q"
    using assms(1) unfolding one_receive_def by blast
  then show ?thesis
  proof cases
    case 1
    then show ?thesis using assms(2) by auto
  next
    case 2
    then show ?thesis using received [OF assms(2) 2(1)]
      by (simp add: lift_result_def delivered_def split: sum.splits option.splits)
  qed
qed

lemma history_recv_with_metadata:
  assumes "one_receive (try_recv_with_metadata os) s r s'" and "sub_history os i cfg s ps"
  shows "sub_history os i cfg s' (ps @ (case r of Some (Inr p) \<Rightarrow> [pwm_packet p] | _ \<Rightarrow> []))"
proof -
  consider "s' = s" "r = None \<or> (\<exists>e. r = Some (Inl (Readiness e)))"
    | k k' q where "try_recv_with_metadata os s k = (q, s', k')" "r = lift_result q"
    using assms(1) unfolding one_receive_def by blast
  then show ?thesis
  proof cases
    case 1
    then show ?thesis using assms(2) by auto
  next
    case 2
    then show ?thesis using received_with_metadata [OF assms(2) 2(1)]
      by (simp add: lift_result_def delivered_def split: sum.splits option.splits)
  qed
qed

section \<open>Bursts\<close>

lemma receive_filters_all:
  assumes "target_unix (os_target os)" and "rs_setup_error rs = None"
    and "ancillary_buffer_size os (family cfg) \<le> ANCILLARY_STACK_BUFFER_SIZE"
    and "\<forall>j < 256. fst (recv_unix_body os rs i cfg (ancillary_buffer_size os (family cfg))
      (runs (recv_unix_body os rs i cfg (ancillary_buffer_size os (family cfg))) j k)) = None"
  shows "recv_packet_with_metadata os rs i cfg k =
    (Inr None, runs (recv_unix_body os rs i cfg (ancillary_buffer_size os (family cfg))) 256 k)"
proof -
  let ?body = "recv_unix_body os rs i cfg (ancillary_buffer_size os (family cfg))"
  have eq: "recv_packet_with_metadata os rs i cfg k = filtered_loop 256 (Inr None) ?body 0 k"
    using assms(1-3)
    by (simp add: recv_packet_with_metadata_def recv_packet_with_ancillary_metadata_def
        recv_packet_with_metadata_unix_def ensure_ready_def res_simps Let_def
        MAX_FILTERED_DATAGRAMS_PER_RECEIVE_def)
  have zero_less: "0 < (256 :: nat)" by simp
  obtain n where n: "0 < n" "n \<le> 256" "snd (filtered_loop 256 (Inr None) ?body 0 k) = runs ?body n k"
    and last: "case fst (?body (runs ?body (n - 1) k)) of
        Some r \<Rightarrow> fst (filtered_loop 256 (Inr None) ?body 0 k) = r
      | None \<Rightarrow> n = 256 \<and> fst (filtered_loop 256 (Inr None) ?body 0 k) = Inr None"
    using filtered_loop_runs [OF zero_less, of ?body k "Inr None"] unfolding diff_zero by blast
  have "fst (?body (runs ?body (n - 1) k)) = None" using assms(4) n by simp
  then have "n = 256" "fst (filtered_loop 256 (Inr None) ?body 0 k) = Inr None" using last by simp_all
  then show ?thesis using n(3) by (simp add: eq prod_eq_iff)
qed

text \<open>A single read of a subscription on Unix; \<open>None\<close> is a datagram that is not meant for it.\<close>

definition sub_read :: "'k os \<Rightarrow> subscription \<Rightarrow> 'k \<Rightarrow> (mcrx_error + packet_with_metadata option) option \<times> 'k" where
  "sub_read os s =
     recv_unix_body os (sub_socket s) (sub_id s) (sub_config s) (ancillary_buffer_size os (family (sub_config s)))"

lemma into_socket_would_block [simp]: "into_socket (record_would_block s) = into_socket s"
  by (simp add: into_socket_def record_would_block_def)

section \<open>Properties\<close>

text \<open>
  C30. Receiving in an asynchronous task is cancel safe: a poll always returns, and the packets that
  the subscription has counted as delivered are exactly those handed to the task. A receive that is
  dropped while it is pending, or that failed, has taken no packet with it.
\<close>

theorem tokio_receive_is_cancel_safe:
  assumes "edge_triggered fd" and "sleeps tm" and "target_unix (os_target os) \<or> 0 < tokio_poll_interval t"
    and "sub_history os i cfg (tokio_inner t) ps"
  shows "(\<exists>r d t' k'. tokio_recv os fd tm sleeping t k = Some (r, d, t', k') \<and>
      sub_history os i cfg (tokio_inner t') (ps @ (case r of Some (Inr p) \<Rightarrow> [p] | _ \<Rightarrow> []))) \<and>
    (\<exists>r d t' k'. tokio_recv_with_metadata os fd tm sleeping t k = Some (r, d, t', k') \<and>
      sub_history os i cfg (tokio_inner t') (ps @ (case r of Some (Inr p) \<Rightarrow> [pwm_packet p] | _ \<Rightarrow> [])))"
  unfolding tokio_recv_def tokio_recv_with_metadata_def
  using poll_one [OF assms(1-3), of "try_recv os" sleeping k]
    poll_one [OF assms(1-3), of "try_recv_with_metadata os" sleeping k]
    history_recv [OF _ assms(4)] history_recv_with_metadata [OF _ assms(4)] by blast

text \<open>
  C31. A burst of foreign datagrams leaves a receive waiting for the next notification although
  datagrams are queued: the receive gives up after 256 of them and reports that nothing is there, the
  adapter takes that for an empty queue and clears the readiness. Polling again does not read on.
\<close>

theorem tokio_burst_stalls:
  assumes "target_unix (os_target os)" and "edge_triggered fd" and "is_joined s"
    and "rs_setup_error (sub_socket s) = None"
    and "ancillary_buffer_size os (family (sub_config s)) \<le> ANCILLARY_STACK_BUFFER_SIZE"
    and "fd_poll_read_ready fd (into_socket s) k = (ReadyNow, k1)"
    and "\<forall>j < 256. fst (sub_read os s (runs (sub_read os s) j k1)) = None"
  shows "\<exists>t' k'.
    k' = snd (fd_poll_read_ready fd (into_socket s) (fd_clear_ready fd (into_socket s) (runs (sub_read os s) 256 k1))) \<and>
    tokio_recv_with_metadata os fd tm None \<lparr>tokio_inner = s, tokio_poll_interval = p\<rparr> k = Some (None, None, t', k') \<and>
    tokio_recv_with_metadata os fd tm None t' k' = Some (None, None, t', k')"
proof -
  let ?t = "\<lparr>tokio_inner = record_would_block s, tokio_poll_interval = p\<rparr>"
  let ?c = "fd_clear_ready fd (into_socket s) (runs (sub_read os s) 256 k1)"
  let ?k = "snd (fd_poll_read_ready fd (into_socket s) ?c)"
  have "try_recv_with_metadata os s k1 = (Inr None, record_would_block s, runs (sub_read os s) 256 k1)"
    using receive_filters_all [OF assms(1,4,5) assms(7) [unfolded sub_read_def]] assms(3)
    by (simp add: try_recv_with_metadata_def sub_read_def)
  then have once: "tokio_recv_with_metadata os fd tm None \<lparr>tokio_inner = s, tokio_poll_interval = p\<rparr> k = Some (None, None, ?t, ?k)"
    using readiness_loop_eq [OF assms(2), of "try_recv_with_metadata os" s k] assms(1,6)
    by (simp add: tokio_recv_with_metadata_def tokio_poll_def lift_result_def)
  have "fd_poll_read_ready fd (into_socket s) ?k = (NotReady, ?k)"
    using assms(2) not_ready_after_clear [OF assms(2), of "into_socket s" "runs (sub_read os s) 256 k1"]
    unfolding edge_triggered_def by blast
  then have "tokio_recv_with_metadata os fd tm None ?t ?k = Some (None, None, ?t, ?k)"
    using readiness_loop_eq [OF assms(2), of "try_recv_with_metadata os" "record_would_block s" ?k] assms(1)
    by (simp add: tokio_recv_with_metadata_def tokio_poll_def)
  then show ?thesis using once by blast
qed

text \<open>A reactor and a timer over the simulated system.\<close>

definition sim_fd :: "sim async_fd" where
  "sim_fd =
     \<lparr>fd_new = (\<lambda>s k. (Inr (), k\<lparr>sim_ready := True\<rparr>)),
      fd_poll_read_ready = (\<lambda>s k. (if sim_ready k then ReadyNow else NotReady, k)),
      fd_clear_ready = (\<lambda>s k. k\<lparr>sim_ready := False\<rparr>)\<rparr>"

definition sim_timer :: "sim timer" where
  "sim_timer =
     \<lparr>tm_sleep = (\<lambda>n k. (sim_next k + n, k)), tm_elapsed = (\<lambda>d k. (d \<le> sim_next k, k))\<rparr>"

lemma sim_runtime: "edge_triggered sim_fd" "sleeps sim_timer"
  by (simp_all add: edge_triggered_def sleeps_def sim_fd_def sim_timer_def)

theorem tokio_receive_is_cancel_safe_witness:
  "\<exists>d t k. tokio_recv_with_metadata (sim_os Linux) sim_fd sim_timer None
      \<lparr>tokio_inner = demo_joined, tokio_poll_interval = 0\<rparr> demo_state = Some (Some (Inr demo_packet), d, t, k) \<and>
    sub_history (sim_os Linux) (SubscriptionId 1) demo_config (tokio_inner t) [pwm_packet demo_packet]"
proof -
  let ?t = "\<lparr>tokio_inner = demo_joined, tokio_poll_interval = 0\<rparr>"
  have unix: "target_unix (os_target (sim_os Linux)) \<or> 0 < tokio_poll_interval ?t" by (simp add: sim_os_def)
  from tokio_receive_is_cancel_safe [OF sim_runtime unix, where i = "SubscriptionId 1" and cfg = demo_config
      and ps = "[]" and k = demo_state and sleeping = None] demo_joined_history
  obtain r d t k where run: "tokio_recv_with_metadata (sim_os Linux) sim_fd sim_timer None ?t demo_state = Some (r, d, t, k)"
    and h: "sub_history (sim_os Linux) (SubscriptionId 1) demo_config (tokio_inner t)
      (case r of Some (Inr p) \<Rightarrow> [pwm_packet p] | _ \<Rightarrow> [])" by auto
  obtain s' k2 where "try_recv_with_metadata (sim_os Linux) demo_joined demo_state = (Inr (Some demo_packet), s', k2)"
    using demo_try_recv by (metis prod.collapse)
  then have "r = Some (Inr demo_packet)"
    using run readiness_loop_eq [OF sim_runtime(1), of "try_recv_with_metadata (sim_os Linux)" demo_joined demo_state]
    by (simp add: tokio_recv_with_metadata_def tokio_poll_def sim_fd_def demo_state_def sim_init_def sim_os_def lift_result_def)
  then show ?thesis using run h by auto
qed

text \<open>256 foreign datagrams, and one for the subscription behind them.\<close>

definition foreign_msg :: recv_msg where
  "foreign_msg = pktinfo_msg (SocketAddrV4 (Quad 10 0 0 9) 700) (Quad 239 9 9 9) 2 [1]"

definition good_msg :: recv_msg where
  "good_msg = pktinfo_msg (SocketAddrV4 (Quad 10 0 0 1) 700) demo_group 2 [7, 8]"

definition burst_state :: sim where
  "burst_state = sim_init\<lparr>sim_inbox := replicate 256 foreign_msg @ [good_msg]\<rparr>"

lemma foreign_filtered:
  "sub_read (sim_os Linux) demo_joined (k\<lparr>sim_inbox := foreign_msg # ms\<rparr>) = (None, k\<lparr>sim_inbox := ms\<rparr>)"
  by (simp add: sub_read_def demo_joined_def with_socket_def foreign_msg_def receive_unfold demo_defs sim_simps pktinfo_msg_def)

lemma runs_foreign:
  "runs (sub_read (sim_os Linux) demo_joined) n (k\<lparr>sim_inbox := replicate n foreign_msg @ ms\<rparr>) = k\<lparr>sim_inbox := ms\<rparr>"
  by (induction n) (simp_all add: runs_Suc foreign_filtered)

theorem tokio_burst_stalls_witness:
  "\<exists>t k. tokio_recv_with_metadata (sim_os Linux) sim_fd sim_timer None
      \<lparr>tokio_inner = demo_joined, tokio_poll_interval = 0\<rparr> burst_state = Some (None, None, t, k) \<and>
    tokio_recv_with_metadata (sim_os Linux) sim_fd sim_timer None t k = Some (None, None, t, k) \<and>
    sim_inbox k = [good_msg]"
proof -
  let ?read = "sub_read (sim_os Linux) demo_joined"
  have "ancillary_buffer_size (sim_os Linux) (family demo_config) = 32" by code_simp
  then have a: "ancillary_buffer_size (sim_os Linux) (family (sub_config demo_joined)) \<le> ANCILLARY_STACK_BUFFER_SIZE"
    by (simp add: demo_joined_def with_socket_def ANCILLARY_STACK_BUFFER_SIZE_def)
  have j: "is_joined demo_joined" "rs_setup_error (sub_socket demo_joined) = None" "target_unix (os_target (sim_os Linux))"
    by (simp_all add: is_joined_def demo_joined_def with_socket_def demo_receive_socket_def sim_os_def)
  have r: "fd_poll_read_ready sim_fd (into_socket demo_joined) burst_state = (ReadyNow, burst_state)"
    by (simp add: sim_fd_def burst_state_def sim_init_def)
  have state: "burst_state = burst_state\<lparr>sim_inbox := replicate m foreign_msg @ replicate (256 - m) foreign_msg @ [good_msg]\<rparr>"
    if "m \<le> 256" for m
    using that by (simp add: burst_state_def flip: replicate_add append_assoc)
  have all: "\<forall>m < 256. fst (?read (runs ?read m burst_state)) = None"
  proof (intro allI impI)
    fix m :: nat assume m: "m < 256"
    then obtain l where l: "256 - m = Suc l" by (metis Suc_diff_Suc)
    have "runs ?read m burst_state = burst_state\<lparr>sim_inbox := foreign_msg # replicate l foreign_msg @ [good_msg]\<rparr>"
      using runs_foreign [where n = m and k = burst_state and ms = "replicate (256 - m) foreign_msg @ [good_msg]"] state [of m] m l by simp
    then show "fst (?read (runs ?read m burst_state)) = None" by (simp add: foreign_filtered)
  qed
  have rest: "runs ?read 256 burst_state = burst_state\<lparr>sim_inbox := [good_msg]\<rparr>"
    using runs_foreign [where n = 256 and k = burst_state and ms = "[good_msg]"] state [of 256] by simp
  from tokio_burst_stalls [OF j(3) sim_runtime(1) j(1,2) a r all, where p = 0 and tm = sim_timer]
  show ?thesis by (auto simp: rest sim_fd_def)
qed

end
