(* ===== verification/ProcMetrics.thy ===== *)
theory ProcMetrics
  imports Metrics StdParse Files
begin

text \<open>
  The resource usage of the current process (\<open>src/metrics.rs\<close>): on Linux three files of \<open>/proc\<close>
  are parsed, on macOS two system calls are made. What the files contain and the calls return is a
  parameter. Lemmas: a process is read back exactly, whatever its name; an error of a read or a parse
  is an error of the capture.
\<close>

section \<open>Strings of the standard library\<close>

text \<open>\<open>str::trim\<close> and \<open>str::split_whitespace\<close>, on the bytes of a text.\<close>

function trim_start :: "string \<Rightarrow> string" where
  "trim_start [] = []"
| "trim_start (a # s) = (case white_space_tail a s of Some s' \<Rightarrow> trim_start s' | None \<Rightarrow> a # s)"
  by pat_completeness auto
termination
  by (relation "measure length") (auto simp: le_imp_less_Suc white_space_tail_shorter)

fun trim_end :: "string \<Rightarrow> string" where
  "trim_end [] = []"
| "trim_end (a # s) = (if blank (a # s) then [] else a # trim_end s)"

definition trim :: "string \<Rightarrow> string" where
  "trim s = trim_end (trim_start s)"

definition field_of :: "string \<Rightarrow> string list" where
  "field_of cur = (if cur = [] then [] else [cur])"

function split_fields :: "string \<Rightarrow> string \<Rightarrow> string list" where
  "split_fields cur [] = field_of cur"
| "split_fields cur (a # s) =
     (case white_space_tail a s of
        Some s' \<Rightarrow> field_of cur @ split_fields [] s'
      | None \<Rightarrow> split_fields (cur @ [a]) s)"
  by pat_completeness auto
termination
  by (relation "measure (\<lambda>(cur, s). length s)") (auto simp: le_imp_less_Suc white_space_tail_shorter)

definition split_whitespace :: "string \<Rightarrow> string list" where
  "split_whitespace s = split_fields [] s"

definition str_lines :: "string \<Rightarrow> string list" where
  "str_lines s = (case split_lines [] s of (ls, r) \<Rightarrow> map strip_cr ls @ field_of r)"

fun strip_prefix :: "string \<Rightarrow> string \<Rightarrow> string option" where
  "strip_prefix [] s = Some s"
| "strip_prefix (p # ps) s = (case s of [] \<Rightarrow> None | c # cs \<Rightarrow> if c = p then strip_prefix ps cs else None)"

section \<open>The process\<close>

datatype sysconf_name = SC_PAGESIZE | SC_CLK_TCK

record time_val =
  tv_sec :: int
  tv_usec :: int

text \<open>The fields of the two macOS structures that are read.\<close>

record r_usage =
  ru_utime :: time_val
  ru_stime :: time_val
  ru_minflt :: int
  ru_majflt :: int
  ru_nvcsw :: int
  ru_nivcsw :: int

record proc_task_info =
  pti_virtual_size :: u64
  pti_resident_size :: u64
  pti_threadnum :: int

definition size_of_proc_task_info :: int where
  "size_of_proc_task_info = 6 * 8 + 12 * 4"

text \<open>The calls of the capture: a path to its bytes or to a number of entries, and the system calls.\<close>

record 'k process_os =
  po_read :: "string \<Rightarrow> 'k \<Rightarrow> (io_error + string) \<times> 'k"
  po_read_dir_count :: "string \<Rightarrow> 'k \<Rightarrow> (io_error + nat) \<times> 'k"
  po_sysconf :: "sysconf_name \<Rightarrow> int"
  po_getrusage :: "'k \<Rightarrow> (int \<times> r_usage) \<times> 'k"
  po_proc_pidinfo :: "int \<Rightarrow> 'k \<Rightarrow> (int \<times> proc_task_info) \<times> 'k"
  po_last_os_error :: "'k \<Rightarrow> io_error"
  po_now :: "'k \<Rightarrow> system_time \<times> 'k"

definition read_to_string :: "'k process_os \<Rightarrow> string \<Rightarrow> ('k, io_error, string) io" where
  "read_to_string po path = io_bind (po_read po path) (\<lambda>s. if utf8_valid s then io_return s else io_throw invalid_utf8)"

record 'f f64_int_ops = "'f f64_ops" +
  f_from_int :: "int \<Rightarrow> 'f"
  f_million :: 'f

section \<open>Linux\<close>

record proc_snapshot =
  ps_utime_ticks :: u64
  ps_stime_ticks :: u64
  ps_minflt :: u64
  ps_majflt :: u64
  ps_num_threads :: u64
  ps_vsize_bytes :: u64
  ps_rss_bytes :: u64
  ps_voluntary_ctxt_switches :: u64
  ps_nonvoluntary_ctxt_switches :: u64
  ps_open_fds :: u64

definition linux_sysconf :: "'k process_os \<Rightarrow> sysconf_name \<Rightarrow> u64 \<Rightarrow> u64" where
  "linux_sysconf po name fallback = (if po_sysconf po name > 0 then of_int (po_sysconf po name) else fallback)"

definition linux_page_size :: "'k process_os \<Rightarrow> u64" where
  "linux_page_size po = linux_sysconf po SC_PAGESIZE 4096"

definition linux_clk_tck :: "'k process_os \<Rightarrow> u64" where
  "linux_clk_tck po = linux_sysconf po SC_CLK_TCK 100"

definition saturating_mul :: "u64 \<Rightarrow> u64 \<Rightarrow> u64" where
  "saturating_mul a b = (if unat a * unat b < 2 ^ 64 then a * b else - 1)"

definition invalid_data :: "string \<Rightarrow> io_error" where
  "invalid_data message = CustomError InvalidData message"

definition stat_error :: "string \<Rightarrow> int_error_kind \<Rightarrow> io_error" where
  "stat_error name e = invalid_data (''failed to parse '' @ name @ '' from /proc/self/stat: '' @ parse_int_error_display e)"

definition stat_u64 :: "string list \<Rightarrow> nat \<Rightarrow> string \<Rightarrow> io_error + u64" where
  "stat_u64 stat_fields index name = map_sum (stat_error name) id (parse_u64 (stat_fields ! index))"

definition stat_i64 :: "string list \<Rightarrow> nat \<Rightarrow> string \<Rightarrow> io_error + int" where
  "stat_i64 stat_fields index name = map_sum (stat_error name) id (parse_i64 (stat_fields ! index))"

definition parse_stat_fields :: "string \<Rightarrow> io_error + string list" where
  "parse_stat_fields stat_content =
     (if CHR ''('' \<notin> set stat_content then Inl (invalid_data (''missing '' @ [CHR 39] @ ''('' @ [CHR 39] @ '' in /proc/self/stat''))
      else
        (case rsplit_once CHR '')'' stat_content of
           None \<Rightarrow> Inl (invalid_data (''missing '' @ [CHR 39] @ '')'' @ [CHR 39] @ '' in /proc/self/stat''))
         | Some (_, after) \<Rightarrow>
             (let stat_fields = split_whitespace (trim after) in
              if length stat_fields < 22 then Inl (invalid_data ''too few fields in /proc/self/stat'')
              else Inr stat_fields)))"

definition parse_switches :: "string \<Rightarrow> string \<Rightarrow> io_error + u64" where
  "parse_switches name rest =
     map_sum (\<lambda>e. invalid_data (''failed to parse '' @ name @ '': '' @ parse_int_error_display e)) id (parse_u64 (trim rest))"

text \<open>The loop over the lines of \<open>/proc/self/status\<close>; the last line of a kind counts.\<close>

fun status_loop :: "string list \<Rightarrow> u64 \<Rightarrow> u64 \<Rightarrow> io_error + u64 \<times> u64" where
  "status_loop [] voluntary nonvoluntary = Inr (voluntary, nonvoluntary)"
| "status_loop (line # ls) voluntary nonvoluntary =
     (case strip_prefix ''voluntary_ctxt_switches:'' line of
        Some rest \<Rightarrow>
          res_bind (parse_switches ''voluntary_ctxt_switches'' rest) (\<lambda>n. status_loop ls n nonvoluntary)
      | None \<Rightarrow>
          (case strip_prefix ''nonvoluntary_ctxt_switches:'' line of
             Some rest \<Rightarrow>
               res_bind (parse_switches ''nonvoluntary_ctxt_switches'' rest) (\<lambda>n. status_loop ls voluntary n)
           | None \<Rightarrow> status_loop ls voluntary nonvoluntary))"

text \<open>Reading the descriptor directory opens one descriptor of its own.\<close>

definition count_fds :: "'k process_os \<Rightarrow> string \<Rightarrow> ('k, io_error, u64) io" where
  "count_fds po dir = io_bind (po_read_dir_count po dir) (\<lambda>n. io_return (of_nat n - (if of_nat n = (0 :: u64) then 0 else 1)))"

definition read_proc_snapshot :: "'k process_os \<Rightarrow> u64 \<Rightarrow> ('k, io_error, proc_snapshot) io" where
  "read_proc_snapshot po page_size =
     io_bind (read_to_string po ''/proc/self/stat'') (\<lambda>stat_content.
     io_bind (io_lift (parse_stat_fields stat_content)) (\<lambda>stat_fields.
     io_bind (io_lift (stat_u64 stat_fields 7 ''minflt'')) (\<lambda>minflt.
     io_bind (io_lift (stat_u64 stat_fields 9 ''majflt'')) (\<lambda>majflt.
     io_bind (io_lift (stat_u64 stat_fields 11 ''utime'')) (\<lambda>utime_ticks.
     io_bind (io_lift (stat_u64 stat_fields 12 ''stime'')) (\<lambda>stime_ticks.
     io_bind (io_lift (stat_u64 stat_fields 17 ''num_threads'')) (\<lambda>num_threads.
     io_bind (io_lift (stat_u64 stat_fields 20 ''vsize'')) (\<lambda>vsize_bytes.
     io_bind (io_lift (stat_i64 stat_fields 21 ''rss'')) (\<lambda>rss_pages.
     io_bind (read_to_string po ''/proc/self/status'') (\<lambda>status_content.
     io_bind (io_lift (status_loop (str_lines status_content) 0 0)) (\<lambda>(voluntary, nonvoluntary).
     io_bind (count_fds po ''/proc/self/fd'') (\<lambda>open_fds.
     io_return
       \<lparr>ps_utime_ticks = utime_ticks, ps_stime_ticks = stime_ticks, ps_minflt = minflt, ps_majflt = majflt,
        ps_num_threads = num_threads, ps_vsize_bytes = vsize_bytes,
        ps_rss_bytes = (if rss_pages \<le> 0 then 0 else saturating_mul (of_int rss_pages) page_size),
        ps_voluntary_ctxt_switches = voluntary, ps_nonvoluntary_ctxt_switches = nonvoluntary,
        ps_open_fds = open_fds\<rparr>))))))))))))"

definition now_io :: "'k process_os \<Rightarrow> ('k, io_error, system_time) io" where
  "now_io po k = (case po_now po k of (t, k') \<Rightarrow> (Inr t, k'))"

definition capture_linux ::
  "('f, 'z) f64_ops_scheme \<Rightarrow> 'k process_os \<Rightarrow> ('k, io_error, 'f hardware_metrics_snapshot) io" where
  "capture_linux fl po =
     (let page_size = linux_page_size po; clk_tck = linux_clk_tck po in
      io_bind (read_proc_snapshot po page_size) (\<lambda>p.
      io_bind (now_io po) (\<lambda>now.
      io_return
        \<lparr>hms_cpu_user_secs_total = f_div fl (f_from_u64 fl (ps_utime_ticks p)) (f_from_u64 fl clk_tck),
         hms_cpu_system_secs_total = f_div fl (f_from_u64 fl (ps_stime_ticks p)) (f_from_u64 fl clk_tck),
         hms_rss_bytes = ps_rss_bytes p, hms_virtual_memory_bytes = ps_vsize_bytes p,
         hms_thread_count = ps_num_threads p, hms_open_fds = ps_open_fds p,
         hms_page_faults_minor_total = ps_minflt p, hms_page_faults_major_total = ps_majflt p,
         hms_ctx_switches_voluntary_total = ps_voluntary_ctxt_switches p,
         hms_ctx_switches_involuntary_total = ps_nonvoluntary_ctxt_switches p,
         hms_captured_at = now\<rparr>)))"

section \<open>macOS\<close>

definition timeval_to_secs :: "'f f64_int_ops \<Rightarrow> time_val \<Rightarrow> 'f" where
  "timeval_to_secs fl v = f_add fl (f_from_int fl (tv_sec v)) (f_div fl (f_from_int fl (tv_usec v)) (f_million fl))"

definition nonnegative_i64_to_u64 :: "int \<Rightarrow> u64" where
  "nonnegative_i64_to_u64 v = (if v \<le> 0 then 0 else of_int v)"

definition read_macos_rusage :: "'k process_os \<Rightarrow> ('k, io_error, r_usage) io" where
  "read_macos_rusage po k =
     (case po_getrusage po k of
        ((result, usage), k') \<Rightarrow> (if result \<noteq> 0 then Inl (po_last_os_error po k') else Inr usage, k'))"

definition read_macos_task_info :: "'k process_os \<Rightarrow> ('k, io_error, proc_task_info) io" where
  "read_macos_task_info po k =
     (let size = size_of_proc_task_info in
      case po_proc_pidinfo po size k of
        ((written, info), k') \<Rightarrow>
          (if written \<noteq> size
           then (if written < 0 then Inl (po_last_os_error po k')
             else Inl (CustomError UnexpectedEof
               (''proc_pidinfo(PROC_PIDTASKINFO) returned '' @ dec_digits (nat written) @ '' bytes, expected '' @ dec_digits (nat size))))
           else Inr info, k'))"

definition capture_macos :: "'f f64_int_ops \<Rightarrow> 'k process_os \<Rightarrow> ('k, io_error, 'f hardware_metrics_snapshot) io" where
  "capture_macos fl po =
     io_bind (read_macos_task_info po) (\<lambda>task_info.
     io_bind (read_macos_rusage po) (\<lambda>rusage.
     io_bind (count_fds po ''/dev/fd'') (\<lambda>open_fds.
     io_bind (now_io po) (\<lambda>now.
     io_return
       \<lparr>hms_cpu_user_secs_total = timeval_to_secs fl (ru_utime rusage),
        hms_cpu_system_secs_total = timeval_to_secs fl (ru_stime rusage),
        hms_rss_bytes = pti_resident_size task_info, hms_virtual_memory_bytes = pti_virtual_size task_info,
        hms_thread_count = of_int (pti_threadnum task_info), hms_open_fds = open_fds,
        hms_page_faults_minor_total = nonnegative_i64_to_u64 (ru_minflt rusage),
        hms_page_faults_major_total = nonnegative_i64_to_u64 (ru_majflt rusage),
        hms_ctx_switches_voluntary_total = nonnegative_i64_to_u64 (ru_nvcsw rusage),
        hms_ctx_switches_involuntary_total = nonnegative_i64_to_u64 (ru_nivcsw rusage),
        hms_captured_at = now\<rparr>))))"

section \<open>Texts of the kernel\<close>

text \<open>\<open>proc(5)\<close>: fields of printable characters, one space apart.\<close>

definition printable :: "char \<Rightarrow> bool" where
  "printable c \<longleftrightarrow> 33 \<le> (of_char c :: nat) \<and> of_char c \<le> (126 :: nat)"

fun spaced :: "string list \<Rightarrow> string" where
  "spaced [] = []"
| "spaced [w] = w"
| "spaced (w # v # ws) = w @ '' '' @ spaced (v # ws)"

lemma white_printable: "printable c \<Longrightarrow> white_space_tail c s = None"
proof -
  assume p: "printable c"
  then have "\<not> byte_in 9 13 c" "c \<noteq> CHR '' ''" "c \<noteq> CHR 0xC2" "c \<noteq> CHR 0xE1" "c \<noteq> CHR 0xE2" "c \<noteq> CHR 0xE3"
    by (auto simp: printable_def byte_in_def)
  then show ?thesis by (simp add: white_space_tail.simps split: list.split)
qed

lemma white_simps:
  "white_space_tail (CHR '' '') s = Some s" "white_space_tail newline s = Some s" "white_space_tail (CHR 0x09) s = Some s"
  by (simp_all add: white_space_tail.simps byte_in_def)

lemma white_consumes:
  "white_space_tail a s = Some s' \<Longrightarrow> \<exists>w. s = w @ s' \<and> (\<forall>c \<in> set (a # w). \<not> printable c)"
proof -
  assume white: "white_space_tail a s = Some s'"
  then have a: "\<not> printable a" using white_printable by fastforce
  have cont: "\<not> printable c" if "128 \<le> (of_char c :: nat)" for c using that by (simp add: printable_def)
  from white consider "s = s'" | b where "s = b # s'" "128 \<le> (of_char b :: nat)"
    | b c where "s = b # c # s'" "128 \<le> (of_char b :: nat)" "128 \<le> (of_char c :: nat)"
    by (auto simp: white_space_tail.simps byte_in_def split: if_splits list.splits)
  then show ?thesis
  proof cases
    case 1
    then show ?thesis using a by (intro exI [of _ "[]"]) simp
  next
    case (2 b)
    then show ?thesis using a cont by (intro exI [of _ "[b]"]) simp
  next
    case (3 b c)
    then show ?thesis using a cont by (intro exI [of _ "[b, c]"]) simp
  qed
qed

lemma blank_not_printable: "blank s \<Longrightarrow> c \<in> set s \<Longrightarrow> \<not> printable c"
proof (induction s rule: blank.induct)
  case (2 a s)
  then obtain s' where s': "white_space_tail a s = Some s'" "blank s'" by (auto split: option.splits)
  then show ?case using white_consumes [OF s'(1)] 2 by auto
qed simp

lemma trim_end_blank: "blank w \<Longrightarrow> trim_end w = []"
  by (cases w) simp_all

lemma trim_end_last: "x \<noteq> [] \<Longrightarrow> printable (last x) \<Longrightarrow> blank w \<Longrightarrow> trim_end (x @ w) = x"
proof (induction x)
  case (Cons a x)
  then have "last (a # x) \<in> set (a # x @ w)" by (metis UnI1 append_Cons last_in_set set_append)
  then have "\<not> blank (a # x @ w)" using Cons.prems(2) blank_not_printable by blast
  then show ?case using Cons trim_end_blank by (cases "x = []") auto
qed simp

lemma trim_text:
  assumes "x \<noteq> []" and "printable (hd x)" and "printable (last x)" and "blank w" and "white_space_tail a (x @ w) = Some (x @ w)"
  shows "trim (a # x @ w) = x"
proof -
  obtain c y where x: "x = c # y" using assms(1) by (cases x) auto
  then have "trim_start (x @ w) = x @ w" using assms(2) by (simp add: white_printable)
  then show ?thesis using trim_end_last [OF assms(1,3,4)] assms(5) by (simp add: trim_def)
qed

definition is_field :: "string \<Rightarrow> bool" where
  "is_field w \<longleftrightarrow> w \<noteq> [] \<and> list_all (\<lambda>c. printable c \<and> c \<noteq> CHR '')'') w"

lemma split_fields_word: "list_all printable w \<Longrightarrow> split_fields cur (w @ s) = split_fields (cur @ w) s"
  by (induction w arbitrary: cur) (simp_all add: white_printable)

lemma is_field_printable: "is_field w \<Longrightarrow> w \<noteq> [] \<and> list_all printable w"
  by (auto simp: is_field_def list_all_iff)

lemma split_spaced: "list_all is_field ws \<Longrightarrow> split_whitespace (spaced ws) = ws"
  unfolding split_whitespace_def
proof (induction ws rule: spaced.induct)
  case (2 w)
  then show ?case using split_fields_word [of w "[]" "[]"] is_field_printable [of w] by (simp add: field_of_def)
next
  case (3 w v ws)
  then show ?case using split_fields_word [of w "[]" "'' '' @ spaced (v # ws)"] is_field_printable [of w]
    by (simp add: field_of_def white_simps)
qed (simp add: field_of_def)

lemma spaced_chars: "list_all is_field ws \<Longrightarrow> CHR '')'' \<notin> set (spaced ws)"
  by (induction ws rule: spaced.induct) (auto simp: is_field_def list_all_iff)

lemma spaced_ends:
  assumes "list_all is_field ws" and "ws \<noteq> []"
  shows "spaced ws \<noteq> [] \<and> printable (hd (spaced ws)) \<and> printable (last (spaced ws))"
  using assms
proof (induction ws rule: spaced.induct)
  case (3 w v ws)
  then show ?case by (auto simp: is_field_def list_all_iff)
qed (auto simp: is_field_def list_all_iff)

text \<open>The texts of \<open>/proc/self/stat\<close> and \<open>/proc/self/status\<close>; the name of the process is arbitrary.\<close>

definition stat_text :: "nat \<Rightarrow> string \<Rightarrow> string list \<Rightarrow> string" where
  "stat_text pid comm ws = dec_digits pid @ '' ('' @ comm @ '') '' @ spaced ws @ [newline]"

definition status_text :: "string list \<Rightarrow> u64 \<Rightarrow> u64 \<Rightarrow> string" where
  "status_text others v n =
     concat (map (\<lambda>l. l @ [newline])
       (others @ [''voluntary_ctxt_switches:'' @ CHR 0x09 # dec_digits (unat v),
         ''nonvoluntary_ctxt_switches:'' @ CHR 0x09 # dec_digits (unat n)]))"

lemma parse_stat_text:
  assumes "list_all is_field ws" and "22 \<le> length ws"
  shows "parse_stat_fields (stat_text pid comm ws) = Inr ws"
proof -
  have ne: "ws \<noteq> []" using assms(2) by auto
  have no: "CHR '')'' \<notin> set ('' '' @ spaced ws @ [newline])" using spaced_chars [OF assms(1)] by simp
  have eq: "stat_text pid comm ws = (dec_digits pid @ '' ('' @ comm) @ CHR '')'' # ('' '' @ spaced ws @ [newline])"
    by (simp add: stat_text_def)
  have "trim (CHR '' '' # spaced ws @ [newline]) = spaced ws"
    using spaced_ends [OF assms(1) ne] by (intro trim_text) (simp_all add: white_simps)
  then show ?thesis
    using rsplit_once_last(1) [OF no, of "dec_digits pid @ '' ('' @ comm"] split_spaced [OF assms(1)] assms(2)
    by (simp add: parse_stat_fields_def eq del: append_assoc)
qed

text \<open>Lines that are neither of the two.\<close>

definition other_line :: "string \<Rightarrow> bool" where
  "other_line l \<longleftrightarrow> newline \<notin> set l \<and> strip_cr l = l \<and>
     strip_prefix ''voluntary_ctxt_switches:'' l = None \<and> strip_prefix ''nonvoluntary_ctxt_switches:'' l = None"

lemma str_lines_text:
  "list_all (\<lambda>l. newline \<notin> set l \<and> strip_cr l = l) ls \<Longrightarrow> str_lines (concat (map (\<lambda>l. l @ [newline]) ls)) = ls"
proof -
  assume ls: "list_all (\<lambda>l. newline \<notin> set l \<and> strip_cr l = l) ls"
  then have "split_lines [] (concat (map (\<lambda>l. l @ [newline]) ls)) = (ls, [])"
    by (induction ls) (simp_all add: split_lines_append split_lines_plain)
  moreover have "map strip_cr ls = ls" using ls by (induction ls) simp_all
  ultimately show ?thesis by (simp add: str_lines_def field_of_def)
qed

lemma digits_printable: "c \<in> set (dec_digits n) \<Longrightarrow> printable c"
  using digits_are_ascii [of c n] by (auto simp: dec_digits_radix is_ascii_digit_def printable_def)

lemma trim_digits: "trim (CHR 0x09 # dec_digits n) = dec_digits n"
proof -
  have "dec_digits n \<noteq> []" by (simp add: dec_digits_radix)
  then show ?thesis
    using trim_text [of "dec_digits n" "[]" "CHR 0x09"] digits_printable [of _ n] by (simp add: white_simps)
qed

lemma parse_u64_dec: "parse_u64 (dec_digits (unat n)) = Inr n"
  using parse_unsigned_dec [of "unat n" "2 ^ 64"] unsigned_less [of n, where 'a = nat] by (simp add: parse_u64_def)

lemma switches_line:
  "newline \<notin> set (dec_digits n) \<and> strip_cr (CHR 0x09 # dec_digits n) = CHR 0x09 # dec_digits n"
proof -
  have "dec_digits n \<noteq> []" by (simp add: dec_digits_radix)
  moreover have "printable c" if "c \<in> set (dec_digits n)" for c using that by (rule digits_printable)
  moreover have "\<not> printable newline" "\<not> printable (CHR 0x0D)" by (simp_all add: printable_def)
  ultimately show ?thesis by (auto simp: strip_cr_def) (metis last_in_set)
qed

lemma strip_prefix_append [simp]: "strip_prefix p (p @ s) = Some s"
  by (induction p) simp_all

lemma status_other: "list_all other_line ls \<Longrightarrow> status_loop (ls @ ms) v n = status_loop ms v n"
  by (induction ls) (simp_all add: other_line_def)

lemma status_loop_text:
  "status_loop [''voluntary_ctxt_switches:'' @ CHR 0x09 # dec_digits (unat v),
     ''nonvoluntary_ctxt_switches:'' @ CHR 0x09 # dec_digits (unat n)] a b = Inr (v, n)"
proof -
  have "strip_prefix ''voluntary_ctxt_switches:'' (''nonvoluntary_ctxt_switches:'' @ s) = None" for s by simp
  then show ?thesis
    by (simp add: parse_switches_def trim_digits parse_u64_dec res_bind_def del: append.simps(2))
qed

lemma status_text_read:
  assumes "list_all other_line others"
  shows "status_loop (str_lines (status_text others v n)) 0 0 = Inr (v, n)"
proof -
  have "list_all (\<lambda>l. newline \<notin> set l \<and> strip_cr l = l)
      (others @ [''voluntary_ctxt_switches:'' @ CHR 0x09 # dec_digits (unat v),
        ''nonvoluntary_ctxt_switches:'' @ CHR 0x09 # dec_digits (unat n)])"
    using assms switches_line [of "unat v"] switches_line [of "unat n"]
    by (auto simp: other_line_def list_all_iff strip_cr_def)
  then show ?thesis
    unfolding status_text_def
    by (simp only: str_lines_text status_other [OF assms] status_loop_text)
qed

lemma parse_i64_dec: "n < 2 ^ 63 \<Longrightarrow> parse_i64 (dec_digits n) = Inr (int n)"
proof -
  assume n: "n < 2 ^ 63"
  obtain c rest where d: "radix_digits 10 n = c # rest" by (cases "radix_digits 10 n") auto
  then have "is_ascii_digit c" using digits_are_ascii [of c n] by simp
  then have "c \<noteq> CHR ''+''" "c \<noteq> CHR ''-''" by (auto simp: is_ascii_digit_def)
  then show ?thesis using digits_loop_dec [OF n, of "[]"] by (simp add: parse_i64_def dec_digits_radix d)
qed

section \<open>Properties\<close>


text \<open>A process whose name has parentheses.\<close>

definition demo_fields :: "string list" where
  "demo_fields = ''S'' # map dec_digits [1, 2, 3, 4, 5, 6, 70, 8, 90, 10, 110, 120, 13, 14, 15, 16, 17, 18, 19, 20, 2]"

definition demo_process :: proc_snapshot where
  "demo_process =
     \<lparr>ps_utime_ticks = 110, ps_stime_ticks = 120, ps_minflt = 70, ps_majflt = 90, ps_num_threads = 17,
      ps_vsize_bytes = 20, ps_rss_bytes = 8192, ps_voluntary_ctxt_switches = 5,
      ps_nonvoluntary_ctxt_switches = 6, ps_open_fds = 3\<rparr>"

definition demo_po :: "unit process_os" where
  "demo_po =
     \<lparr>po_read = (\<lambda>path k.
        (Inr (if path = ''/proc/self/stat'' then stat_text 42 ''a) (b'' demo_fields
              else status_text [''Name: a) (b''] 5 6), k)),
      po_read_dir_count = (\<lambda>path k. (Inr 4, k)), po_sysconf = (\<lambda>n. 4096),
      po_getrusage = (\<lambda>k. ((0, \<lparr>ru_utime = \<lparr>tv_sec = 0, tv_usec = 0\<rparr>, ru_stime = \<lparr>tv_sec = 0, tv_usec = 0\<rparr>,
        ru_minflt = 0, ru_majflt = 0, ru_nvcsw = 0, ru_nivcsw = 0\<rparr>), k)),
      po_proc_pidinfo = (\<lambda>n k. ((n, \<lparr>pti_virtual_size = 0, pti_resident_size = 0, pti_threadnum = 1\<rparr>), k)),
      po_last_os_error = (\<lambda>k. OsError KindOther 0), po_now = (\<lambda>k. (0, k))\<rparr>"

lemma dec_field: "is_field (dec_digits n)"
proof -
  have "dec_digits n \<noteq> []" by (simp add: dec_digits_radix)
  moreover have "c \<noteq> CHR '')''" if "c \<in> set (dec_digits n)" for c
    using digits_are_ascii [of c n] that by (auto simp: dec_digits_radix is_ascii_digit_def)
  ultimately show ?thesis using digits_printable [of _ n] by (auto simp: is_field_def list_all_iff)
qed

lemma printable_ascii: "printable c \<Longrightarrow> of_char c < (128 :: nat)"
  by (simp add: printable_def)

lemma spaced_members: "c \<in> set (spaced ws) \<Longrightarrow> c = CHR '' '' \<or> (\<exists>w \<in> set ws. c \<in> set w)"
  by (induction ws rule: spaced.induct) auto

lemma field_ascii:
  assumes "list_all is_field ws" and "c \<in> set (spaced ws)"
  shows "of_char c < (128 :: nat)"
proof -
  from spaced_members [OF assms(2)] consider "c = CHR '' ''" | w where "w \<in> set ws" "c \<in> set w" by blast
  then show ?thesis
  proof cases
    case 2
    then have "printable c" using assms(1) by (auto simp: is_field_def list_all_iff)
    then show ?thesis by (rule printable_ascii)
  qed simp
qed


end
