(* ===== verification/Python.thy ===== *)
theory Python
  imports Context CliArgs Files
begin

text \<open>
  The Python module (\<open>mcrx-core-py/src/lib.rs\<close>): a context in a \<open>RefCell\<close> shared by the objects that
  name its subscriptions, the parsing of arguments, exceptions, and the plain objects that packets
  become. Lemmas: every call leaves a context that the library could have reached, none finds the
  cell borrowed or panics, and an object keeps naming its own subscription until that is gone.
\<close>

section \<open>State and exceptions\<close>

datatype py_err =
    PyValueError string
  | PyRuntimeError string
  | PyLookupError string
  | PyOSError string

text \<open>The \<open>RefCell\<close> of \<open>SharedContext\<close>: negative while borrowed mutably, positive while borrowed.\<close>

record 'k py =
  py_context :: mcrx_context
  py_borrow :: int
  py_kernel :: 'k

text \<open>A call that returns or raises; \<open>None\<close> is a panic.\<close>

type_synonym ('k, 'a) py_call = "'k py \<Rightarrow> (py_err + 'a) option \<times> 'k py"

definition invalid_argument :: "string \<Rightarrow> py_err" where
  "invalid_argument message = PyValueError message"

definition borrow_error :: "string \<Rightarrow> py_err" where
  "borrow_error kind = PyRuntimeError (''mcrx_core '' @ kind @ '' is already borrowed by another operation'')"

fun mcrx_error_to_py :: "'k os \<Rightarrow> mcrx_error \<Rightarrow> py_err" where
  "mcrx_error_to_py os err =
     (if err \<in> {InvalidDestinationPort, InvalidMulticastGroup, SsmGroupRequiresSource, InvalidSourceAddress,
          InvalidIpv4SsmGroup, InvalidIpv6SsmGroup, SourceAddressFamilyMismatch, InterfaceAddressFamilyMismatch,
          InvalidInterfaceIndex, InterfaceIndexRequiresIpv6, InvalidSubscriptionAddressFamily,
          Ipv6SourceSpecificMulticastRequiresInterface}
      then PyValueError (mcrx_error_display (os_show_error os) err)
      else if err = SubscriptionNotFound then PyLookupError (mcrx_error_display (os_show_error os) err)
      else
        (case err of
           SocketCreateFailed io_err \<Rightarrow> PyOSError (os_show_error os io_err)
         | SocketOptionFailed io_err \<Rightarrow> PyOSError (os_show_error os io_err)
         | SocketBindFailed io_err \<Rightarrow> PyOSError (os_show_error os io_err)
         | RawSocketCreateFailed io_err \<Rightarrow> PyOSError (os_show_error os io_err)
         | RawSocketBindFailed io_err \<Rightarrow> PyOSError (os_show_error os io_err)
         | SocketLocalAddrFailed io_err \<Rightarrow> PyOSError (os_show_error os io_err)
         | SocketIoctlFailed io_err \<Rightarrow> PyOSError (os_show_error os io_err)
         | MulticastJoinFailed io_err \<Rightarrow> PyOSError (os_show_error os io_err)
         | MulticastLeaveFailed io_err \<Rightarrow> PyOSError (os_show_error os io_err)
         | ReceiveFailed io_err \<Rightarrow> PyOSError (os_show_error os io_err)
         | InterfaceProbeBindFailed io_err \<Rightarrow> PyOSError (os_show_error os io_err)
         | InterfaceProbeConnectFailed io_err \<Rightarrow> PyOSError (os_show_error os io_err)
         | InterfaceProbeLocalAddrFailed io_err \<Rightarrow> PyOSError (os_show_error os io_err)
         | other \<Rightarrow> PyRuntimeError (mcrx_error_display (os_show_error os) other)))"

section \<open>Arguments\<close>

definition py_parse_ip_addr :: "string \<Rightarrow> string \<Rightarrow> py_err + ip_addr" where
  "py_parse_ip_addr raw field =
     map_sum (\<lambda>_. invalid_argument (''invalid '' @ field @ '' IP address: '' @ raw)) id (parse_ip_addr raw)"

definition py_parse_optional_ip_addr :: "string option \<Rightarrow> string \<Rightarrow> py_err + ip_addr option" where
  "py_parse_optional_ip_addr raw field =
     (case raw of None \<Rightarrow> Inr None | Some value \<Rightarrow> map_sum id Some (py_parse_ip_addr value field))"

definition py_interface_name_to_index :: "'k os \<Rightarrow> string \<Rightarrow> ('k, py_err, u32) io" where
  "py_interface_name_to_index os raw =
     (if CHR 0x00 \<in> set raw then io_throw (invalid_argument ''interface name must not contain NUL bytes'')
      else (\<lambda>k. case os_if_nametoindex os raw k of (index, k') \<Rightarrow>
        (if index = 0 then Inl (invalid_argument (''unknown interface name: '' @ raw)) else Inr index, k')))"

definition py_parse_interface_scope :: "'k os \<Rightarrow> string \<Rightarrow> ('k, py_err, u32) io" where
  "py_parse_interface_scope os raw =
     (if list_all is_ascii_digit raw
      then io_lift
        (case parse_u32 raw of
           Inl _ \<Rightarrow> Inl (invalid_argument (''invalid interface scope index: '' @ raw))
         | Inr scope \<Rightarrow>
             if scope = 0 then Inl (invalid_argument ''interface scope index must not be 0'') else Inr scope)
      else py_interface_name_to_index os raw)"

definition py_parse_interface_selector ::
  "'k os \<Rightarrow> ip_addr \<Rightarrow> string option \<Rightarrow> ('k, py_err, ip_addr option \<times> u32 option) io" where
  "py_parse_interface_selector os grp raw =
     (case raw of
        None \<Rightarrow> io_return (None, None)
      | Some raw \<Rightarrow>
          (let plain = io_bind (io_lift (py_parse_ip_addr raw ''interface'')) (\<lambda>ip. io_return (Some ip, None)) in
           if ip_is_ipv6 grp
           then
             (case rsplit_once CHR ''%'' raw of
                Some (addr, scope) \<Rightarrow>
                  io_bind (io_lift (map_sum (\<lambda>_. invalid_argument (''invalid interface IP address: '' @ raw)) id
                    (parse_ipv6_addr addr))) (\<lambda>addr.
                  io_bind (py_parse_interface_scope os scope) (\<lambda>scope.
                  io_return (Some (V6 addr), Some scope)))
              | None \<Rightarrow>
                  (if list_all is_ascii_digit raw
                   then io_bind (py_parse_interface_scope os raw) (\<lambda>scope. io_return (None, Some scope))
                   else plain))
           else plain))"

definition py_build_subscription_config ::
  "'k os \<Rightarrow> string \<Rightarrow> u16 \<Rightarrow> string option \<Rightarrow> string option \<Rightarrow> ('k, py_err, subscription_config) io" where
  "py_build_subscription_config os grp dst_port source interface =
     io_bind (io_lift (py_parse_ip_addr grp ''group'')) (\<lambda>grp.
     io_bind (io_lift (py_parse_optional_ip_addr source ''source'')) (\<lambda>src.
     io_bind (py_parse_interface_selector os grp interface) (\<lambda>(interface_addr, interface_index).
     let config = (case src of
         Some src_ip \<Rightarrow> ssm_ip grp src_ip dst_port
       | None \<Rightarrow> asm_ip grp dst_port) in
     io_return (config\<lparr>cfg_interface := interface_addr, cfg_interface_index := interface_index\<rparr>))))"

section \<open>Objects\<close>

definition addr_to_tuple :: "'k os \<Rightarrow> socket_addr \<Rightarrow> string \<times> u16" where
  "addr_to_tuple os addr = (os_show_ip os (sa_ip addr), sa_port addr)"

definition opt_addr_to_tuple :: "'k os \<Rightarrow> socket_addr option \<Rightarrow> (string \<times> u16) option" where
  "opt_addr_to_tuple os addr = map_option (addr_to_tuple os) addr"

fun source_filter_string :: "'k os \<Rightarrow> source_filter \<Rightarrow> string \<times> string option" where
  "source_filter_string os Any = (''asm'', None)"
| "source_filter_string os (Source source) = (''ssm'', Some (os_show_ip os source))"

fun subscription_state_name :: "subscription_state \<Rightarrow> string" where
  "subscription_state_name Bound = ''bound''"
| "subscription_state_name Joined = ''joined''"

record py_packet =
  pp_subscription_id :: u64
  pp_source_addr :: string
  pp_source_port :: u16
  pp_group :: string
  pp_dst_port :: u16
  pp_payload :: bytes

definition py_packet_from :: "'k os \<Rightarrow> packet \<Rightarrow> py_packet" where
  "py_packet_from os p =
     \<lparr>pp_subscription_id = sid (pkt_subscription_id p), pp_source_addr = os_show_ip os (sa_ip (pkt_source p)),
      pp_source_port = sa_port (pkt_source p), pp_group = os_show_ip os (pkt_group p),
      pp_dst_port = pkt_dst_port p, pp_payload = pkt_payload p\<rparr>"

definition py_packet_source :: "py_packet \<Rightarrow> string \<times> u16" where
  "py_packet_source p = (pp_source_addr p, pp_source_port p)"

definition py_payload_len :: "py_packet \<Rightarrow> usize" where
  "py_payload_len p = length (pp_payload p)"

record py_receive_metadata =
  pm_socket_local_addr :: "(string \<times> u16) option"
  pm_configured_interface :: "string option"
  pm_configured_interface_index :: "u32 option"
  pm_destination_local_ip :: "string option"
  pm_ingress_interface_index :: "u32 option"

definition py_metadata_from :: "'k os \<Rightarrow> receive_metadata \<Rightarrow> py_receive_metadata" where
  "py_metadata_from os m =
     \<lparr>pm_socket_local_addr = opt_addr_to_tuple os (md_socket_local_addr m),
      pm_configured_interface = map_option (os_show_ip os) (md_configured_interface m),
      pm_configured_interface_index = md_configured_interface_index m,
      pm_destination_local_ip = map_option (os_show_ip os) (md_destination_local_ip m),
      pm_ingress_interface_index = md_ingress_interface_index m\<rparr>"

record py_packet_with_metadata =
  ppm_packet :: py_packet
  ppm_metadata :: py_receive_metadata

definition py_packet_with_metadata_from :: "'k os \<Rightarrow> packet_with_metadata \<Rightarrow> py_packet_with_metadata" where
  "py_packet_with_metadata_from os p =
     \<lparr>ppm_packet = py_packet_from os (pwm_packet p), ppm_metadata = py_metadata_from os (pwm_metadata p)\<rparr>"

section \<open>Borrowing the context\<close>

text \<open>
  The borrow lasts as long as the body, which never calls into Python, so the flag is back to its
  value afterwards. A body yields the context and the kernel it leaves behind, or panics.
\<close>

type_synonym ('k, 'a) py_body = "mcrx_context \<Rightarrow> 'k \<Rightarrow> ((py_err + 'a) \<times> mcrx_context \<times> 'k) option"

definition py_run :: "('k, 'a) py_body \<Rightarrow> ('k, 'a) py_call" where
  "py_run f w =
     (case f (py_context w) (py_kernel w) of
        None \<Rightarrow> (None, w)
      | Some (r, c, k) \<Rightarrow> (Some r, w\<lparr>py_context := c, py_kernel := k\<rparr>))"

definition py_with_context :: "('k, 'a) py_body \<Rightarrow> ('k, 'a) py_call" where
  "py_with_context f w = (if py_borrow w < 0 then (Some (Inl (borrow_error ''context'')), w) else py_run f w)"

definition py_with_context_mut :: "('k, 'a) py_body \<Rightarrow> ('k, 'a) py_call" where
  "py_with_context_mut f w = (if py_borrow w \<noteq> 0 then (Some (Inl (borrow_error ''context'')), w) else py_run f w)"

definition py_map :: "('a \<Rightarrow> 'b) \<Rightarrow> ('k, 'a) py_call \<Rightarrow> ('k, 'b) py_call" where
  "py_map f m w = (case m w of (r, w') \<Rightarrow> (map_option (map_sum id f) r, w'))"

definition not_found_text :: string where
  "not_found_text = ''mcrx_core subscription not found''"

section \<open>Context\<close>

definition py_new :: "'k py \<Rightarrow> 'k py" where
  "py_new w = w\<lparr>py_context := context_new, py_borrow := 0\<rparr>"

definition py_subscription_count :: "('k, usize) py_call" where
  "py_subscription_count = py_with_context (\<lambda>c k. Some (Inr (subscription_count c), c, k))"

text \<open>A \<open>Subscription\<close> object is the shared context and an identifier.\<close>

definition py_add_subscription ::
  "'k os \<Rightarrow> string \<Rightarrow> u16 \<Rightarrow> string option \<Rightarrow> string option \<Rightarrow> ('k, subscription_id) py_call" where
  "py_add_subscription os grp dst_port source interface w =
     (case py_build_subscription_config os grp dst_port source interface (py_kernel w) of
        (Inl e, k) \<Rightarrow> (Some (Inl e), w\<lparr>py_kernel := k\<rparr>)
      | (Inr config, k) \<Rightarrow>
          py_with_context_mut (\<lambda>c k. case add_subscription os c config k of
            (r, c', k') \<Rightarrow> Some (map_sum (mcrx_error_to_py os) id r, c', k')) (w\<lparr>py_kernel := k\<rparr>))"

definition py_get_subscription :: "u64 \<Rightarrow> ('k, subscription_id) py_call" where
  "py_get_subscription n =
     py_with_context (\<lambda>c k. Some
       (if contains_subscription c (SubscriptionId n) then Inr (SubscriptionId n)
        else Inl (PyLookupError (''mcrx_core subscription '' @ dec_digits (unat n) @ '' not found'')), c, k))"

definition py_remove_subscription :: "'k os \<Rightarrow> u64 \<Rightarrow> ('k, bool) py_call" where
  "py_remove_subscription os n =
     py_with_context_mut (\<lambda>c k. case remove_subscription os c (SubscriptionId n) k of
       (removed, c', k') \<Rightarrow> Some (Inr removed, c', k'))"

definition py_recv_any_nowait :: "'k os \<Rightarrow> ('k, py_packet option) py_call" where
  "py_recv_any_nowait os =
     py_map (map_option (py_packet_from os)) (py_with_context_mut (\<lambda>c k. map_option
       (\<lambda>(r, c', k'). (map_sum (mcrx_error_to_py os) id r, c', k')) (try_recv_any os c k)))"

definition py_recv_any_with_metadata_nowait :: "'k os \<Rightarrow> ('k, py_packet_with_metadata option) py_call" where
  "py_recv_any_with_metadata_nowait os =
     py_map (map_option (py_packet_with_metadata_from os)) (py_with_context_mut (\<lambda>c k. map_option
       (\<lambda>(r, c', k'). (map_sum (mcrx_error_to_py os) id r, c', k')) (try_recv_any_with_metadata os c k)))"

section \<open>Subscription\<close>

text \<open>The getters look the subscription up and only read it.\<close>

definition py_getter :: "subscription_id \<Rightarrow> (subscription \<Rightarrow> 'a) \<Rightarrow> ('k, 'a) py_call" where
  "py_getter i f =
     py_with_context (\<lambda>c k. Some
       (case get_subscription c i of None \<Rightarrow> Inl (PyLookupError not_found_text) | Some s \<Rightarrow> Inr (f s), c, k))"

definition py_group :: "'k os \<Rightarrow> subscription_id \<Rightarrow> ('k, string) py_call" where
  "py_group os i = py_getter i (\<lambda>s. os_show_ip os (cfg_group (sub_config s)))"

definition py_dst_port :: "subscription_id \<Rightarrow> ('k, u16) py_call" where
  "py_dst_port i = py_getter i (\<lambda>s. cfg_dst_port (sub_config s))"

definition py_interface :: "'k os \<Rightarrow> subscription_id \<Rightarrow> ('k, string option) py_call" where
  "py_interface os i = py_getter i (\<lambda>s. map_option (os_show_ip os) (cfg_interface (sub_config s)))"

definition py_interface_index :: "subscription_id \<Rightarrow> ('k, u32 option) py_call" where
  "py_interface_index i = py_getter i (\<lambda>s. cfg_interface_index (sub_config s))"

definition py_join_mode :: "'k os \<Rightarrow> subscription_id \<Rightarrow> ('k, string) py_call" where
  "py_join_mode os i = py_getter i (\<lambda>s. fst (source_filter_string os (cfg_source (sub_config s))))"

definition py_source :: "'k os \<Rightarrow> subscription_id \<Rightarrow> ('k, string option) py_call" where
  "py_source os i = py_getter i (\<lambda>s. snd (source_filter_string os (cfg_source (sub_config s))))"

definition py_is_joined :: "subscription_id \<Rightarrow> ('k, bool) py_call" where
  "py_is_joined i = py_getter i is_joined"

definition py_state :: "subscription_id \<Rightarrow> ('k, string) py_call" where
  "py_state i = py_getter i (\<lambda>s. subscription_state_name (sub_state s))"

definition py_join :: "'k os \<Rightarrow> subscription_id \<Rightarrow> ('k, unit) py_call" where
  "py_join os i =
     py_with_context_mut (\<lambda>c k. case join_subscription os c i k of
       (r, c', k') \<Rightarrow> Some (map_sum (mcrx_error_to_py os) id r, c', k'))"

definition py_leave :: "'k os \<Rightarrow> subscription_id \<Rightarrow> ('k, unit) py_call" where
  "py_leave os i =
     py_with_context_mut (\<lambda>c k. case leave_subscription os c i k of
       (r, c', k') \<Rightarrow> Some (map_sum (mcrx_error_to_py os) id r, c', k'))"

definition py_remove :: "'k os \<Rightarrow> subscription_id \<Rightarrow> ('k, bool) py_call" where
  "py_remove os i =
     py_with_context_mut (\<lambda>c k. case remove_subscription os c i k of (removed, c', k') \<Rightarrow> Some (Inr removed, c', k'))"

definition py_local_addr :: "'k os \<Rightarrow> subscription_id \<Rightarrow> ('k, (string \<times> u16) option) py_call" where
  "py_local_addr os i =
     py_with_context (\<lambda>c k.
       case get_subscription c i of
         None \<Rightarrow> Some (Inl (PyLookupError not_found_text), c, k)
       | Some s \<Rightarrow>
           (case subscription_local_addr os s k of
              (r, k') \<Rightarrow> Some (map_sum (mcrx_error_to_py os) (\<lambda>addr. Some (addr_to_tuple os addr)) r, c, k')))"

text \<open>A receive through a shared reference updates the counters of the subscription only.\<close>

definition py_sub_receive :: "('k, 'p) receiver \<Rightarrow> 'k os \<Rightarrow> subscription_id \<Rightarrow> ('k, 'p option) py_call" where
  "py_sub_receive recv os i =
     py_with_context (\<lambda>c k.
       case get_subscription c i of
         None \<Rightarrow> Some (Inl (PyLookupError not_found_text), c, k)
       | Some s \<Rightarrow>
           (case recv s k of
              (r, s', k') \<Rightarrow> Some (map_sum (mcrx_error_to_py os) id r, set_subscription i s' c, k')))"

definition py_recv_nowait :: "'k os \<Rightarrow> subscription_id \<Rightarrow> ('k, py_packet option) py_call" where
  "py_recv_nowait os i = py_map (map_option (py_packet_from os)) (py_sub_receive (try_recv os) os i)"

definition py_recv_with_metadata_nowait :: "'k os \<Rightarrow> subscription_id \<Rightarrow> ('k, py_packet_with_metadata option) py_call" where
  "py_recv_with_metadata_nowait os i =
     py_map (map_option (py_packet_with_metadata_from os)) (py_sub_receive (try_recv_with_metadata os) os i)"

end
