(* ===== verification/PythonCorrect.thy ===== *)
theory PythonCorrect
  imports Python FfiCorrect
begin

text \<open>
  The Python module is the library too: it reads its arguments as the C interface does, every call
  leaves a context the library could have reached, and identifiers are never reused, so an object
  names one subscription as long as it names any.
\<close>

section \<open>Arguments\<close>

text \<open>An exception with the message of an error.\<close>

definition raised :: "(string + 'a) \<times> 'k \<Rightarrow> (py_err + 'a) \<times> 'k" where
  "raised x = (map_sum PyValueError id (fst x), snd x)"

lemma raised_bind:
  assumes "\<And>k. f k = raised (g k)" and "\<And>a k. f' a k = raised (g' a k)"
  shows "io_bind f f' k = raised (io_bind g g' k)"
  using assms by (auto simp: io_bind_def raised_def split: prod.splits sum.splits)

lemma raised_lift: "r = map_sum PyValueError id q \<Longrightarrow> io_lift r k = raised (io_lift q k)"
  by (simp add: raised_def)

lemma raised_return: "io_return a k = raised (io_return a k)"
  by (simp add: raised_def)

lemma py_scope_raised: "py_parse_interface_scope os s k = raised (ffi_parse_interface_scope os s k)"
  by (auto simp: py_parse_interface_scope_def ffi_parse_interface_scope_def py_interface_name_to_index_def
      ffi_interface_name_to_index_def raised_def invalid_argument_def split: sum.splits prod.splits)

lemma py_ip_raised: "py_parse_ip_addr s field = map_sum PyValueError id (ffi_parse_ip_addr s field)"
  by (cases "parse_ip_addr s") (simp_all add: py_parse_ip_addr_def ffi_parse_ip_addr_def invalid_argument_def)

lemma py_optional_raised:
  "py_parse_optional_ip_addr s field = map_sum PyValueError id (parse_optional_ip_addr s field)"
  by (cases s; cases "ffi_parse_ip_addr (the s) field")
     (simp_all add: py_parse_optional_ip_addr_def parse_optional_ip_addr_def py_ip_raised)

lemma py_selector_raised:
  "py_parse_interface_selector os grp raw k = raised (parse_interface_selector os grp raw k)"
proof -
  have plain: "io_bind (io_lift (py_parse_ip_addr s f)) (\<lambda>ip. io_return (Some ip, None)) k =
      raised (io_bind (io_lift (ffi_parse_ip_addr s f)) (\<lambda>ip. io_return (Some ip, None)) k)" for s f k
    by (intro raised_bind raised_lift raised_return py_ip_raised)
  have scoped: "io_bind (py_parse_interface_scope os s) (\<lambda>x. io_return (f x)) k =
      raised (io_bind (ffi_parse_interface_scope os s) (\<lambda>x. io_return (f x)) k)" for s f k
    by (intro raised_bind raised_return py_scope_raised)
  have both: "io_bind (io_lift (map_sum (\<lambda>_. invalid_argument e) id r)) (\<lambda>a.
        io_bind (py_parse_interface_scope os s) (\<lambda>x. io_return (f a x))) k =
      raised (io_bind (io_lift (map_sum (\<lambda>_. e) id r)) (\<lambda>a.
        io_bind (ffi_parse_interface_scope os s) (\<lambda>x. io_return (f a x))) k)" for e s f k and r :: "'e + 'b"
    by (intro raised_bind raised_lift scoped) (cases r; simp add: invalid_argument_def)
  show ?thesis
    by (simp add: py_parse_interface_selector_def parse_interface_selector_def Let_def plain scoped both
        split: option.split) (simp add: raised_def)
qed

lemma py_config_raised:
  "py_build_subscription_config os grp port source interface k =
     raised (build_subscription_config os grp port source interface k)"
  unfolding py_build_subscription_config_def build_subscription_config_def
  by (intro raised_bind raised_lift py_ip_raised py_optional_raised py_selector_raised)
     (auto simp: raised_def Let_def split: prod.split)

section \<open>Identifiers\<close>

text \<open>An operation keeps the table, appends a subscription, or takes one out.\<close>

lemma ctx_step_shape:
  assumes acc: "accounts os opens" and step: "ctx_step os op c k c' k'"
  shows "ctx_frame c c' \<or> (\<exists>x. c' = snd (insert_subscription c x)) \<or> (\<exists>i. c' = snd (take_subscription c i))"
  using step
proof cases
  case (step_add cfg r)
  have "c' = c \<or> (\<exists>x i. insert_subscription c x = (i, c'))"
    using step_add(2) by (cases r) (auto simp: add_subscription_def split: prod.splits sum.splits)
  then show ?thesis by (metis ctx_frame_refl snd_conv)
next
  case (step_add_with_socket cfg s' r)
  have "c' = c \<or> (\<exists>x i. insert_subscription c x = (i, c'))"
    using step_add_with_socket(2) by (cases r) (auto simp: add_subscription_with_socket_def split: prod.splits sum.splits)
  then show ?thesis by (metis ctx_frame_refl snd_conv)
next
  case (step_remove i b)
  then have "c' = snd (take_subscription c i)"
    by (auto simp: remove_subscription_def split: prod.splits option.splits)
  then show ?thesis by blast
next
  case (step_take i r)
  then have "c' = snd (take_subscription c i)" by simp
  then show ?thesis by blast
qed (use framed_step [OF acc step] in auto)

text \<open>The subscriptions that identifiers given out so far name: the same ones, or none any more.\<close>

definition names_kept :: "mcrx_context \<Rightarrow> mcrx_context \<Rightarrow> bool" where
  "names_kept c c' \<longleftrightarrow>
     unat (ctx_next_subscription_id c) \<le> unat (ctx_next_subscription_id c') \<and>
     (\<forall>i. unat (sid i) < unat (ctx_next_subscription_id c) \<longrightarrow>
        get_subscription c' i = None \<or>
        (\<exists>s s'. get_subscription c i = Some s \<and> get_subscription c' i = Some s' \<and> frame s' = frame s))"

lemma names_kept_refl [simp]: "names_kept c c"
  by (auto simp: names_kept_def)

lemma names_kept_trans: "names_kept a b \<Longrightarrow> names_kept b c \<Longrightarrow> names_kept a c"
  unfolding names_kept_def by (metis le_trans less_le_trans option.distinct(1) option.inject)

lemma find_frame:
  "map frame xs = map frame ys \<Longrightarrow>
     map_option frame (find (\<lambda>s. sub_id s = i) xs) = map_option frame (find (\<lambda>s. sub_id s = i) ys)"
proof (induction xs arbitrary: ys)
  case (Cons x xs)
  then obtain y zs where ys: "ys = y # zs" "frame x = frame y" "map frame xs = map frame zs" by auto
  then have "sub_id x = sub_id y" by (simp add: frame_def)
  then show ?case using Cons.IH [OF ys(3)] ys by auto
qed simp

lemma names_kept_frame:
  assumes "ctx_frame c c'"
  shows "names_kept c c'"
proof -
  have "map_option frame (get_subscription c' i) = map_option frame (get_subscription c i)" for i
    using assms find_frame unfolding get_subscription_def ctx_frame_def by blast
  then have "get_subscription c' i = None \<or>
      (\<exists>s s'. get_subscription c i = Some s \<and> get_subscription c' i = Some s' \<and> frame s' = frame s)" for i
    by (cases "get_subscription c' i"; cases "get_subscription c i")
       (metis option.simps(8,9) option.distinct(1) option.inject)+
  then show ?thesis using assms by (simp add: names_kept_def ctx_frame_def)
qed

lemma find_snoc: "find P (xs @ [y]) = (case find P xs of None \<Rightarrow> if P y then Some y else None | Some s \<Rightarrow> Some s)"
  by (induction xs) auto

lemma names_kept_insert:
  assumes "unat (ctx_next_subscription_id c) < 2 ^ 64 - 1"
  shows "names_kept c (snd (insert_subscription c x))"
proof -
  have next': "unat (ctx_next_subscription_id c + 1) = Suc (unat (ctx_next_subscription_id c))"
    using assms by (rule unat_Suc_u64)
  have "get_subscription (snd (insert_subscription c x)) i = get_subscription c i"
    if "unat (sid i) < unat (ctx_next_subscription_id c)" for i
  proof -
    have "SubscriptionId (ctx_next_subscription_id c) \<noteq> i" using that by auto
    then show ?thesis
      by (simp add: get_subscription_def insert_subscription_def Let_def find_snoc from_receive_socket_def
          with_socket_def split: option.split)
  qed
  then show ?thesis using next' by (auto simp: names_kept_def insert_subscription_def Let_def)
qed

lemma names_kept_take:
  fixes os :: "'k os"
  assumes "ctx_inv c"
  shows "names_kept c (snd (take_subscription c i))"
proof -
  have same: "snd (take_subscription c i) = fst (snd (remove_subscription os c i k))" for k :: 'k
    by (simp add: remove_subscription_def split: prod.split option.split)
  obtain k :: 'k where True by simp
  obtain b c' k' where r: "remove_subscription os c i k = (b, c', k')" by (metis prod_cases3)
  then have look: "get_subscription c' i = None" "j = i \<or> get_subscription c' j = get_subscription c j" for j
    using add_remove_lookup [OF assms, where os = os and k = k and i = i] by auto
  have "ctx_next_subscription_id c' = ctx_next_subscription_id c"
    using r by (auto simp: remove_subscription_def take_subscription_def finish_subscription_removal_def Let_def
        split: option.splits)
  then show ?thesis unfolding same [of k] r using look
    by (auto simp: names_kept_def) (metis option.exhaust)
qed

lemma ctx_step_names:
  assumes "accounts os opens" and "ctx_inv c" and "unat (ctx_next_subscription_id c) < 2 ^ 64 - 1"
    and "ctx_step os op c k c' k'"
  shows "names_kept c c'"
  using ctx_step_shape [OF assms(1,4)] names_kept_frame names_kept_insert [OF assms(3)] names_kept_take [OF assms(2)]
  by blast

section \<open>Calls\<close>

text \<open>The calls that change the context or the kernel; the others only look.\<close>

inductive py_call :: "'k os \<Rightarrow> 'k py \<Rightarrow> 'k py \<Rightarrow> bool" for os where
  call_add: "py_add_subscription os grp port source interface w = (r, w') \<Longrightarrow> py_call os w w'"
| call_remove: "py_remove_subscription os n w = (q, w') \<Longrightarrow> py_call os w w'"
| call_recv_any: "py_recv_any_nowait os w = (r1, w') \<Longrightarrow> py_call os w w'"
| call_recv_any_with_metadata: "py_recv_any_with_metadata_nowait os w = (r2, w') \<Longrightarrow> py_call os w w'"
| call_join: "py_join os i w = (r3, w') \<Longrightarrow> py_call os w w'"
| call_leave: "py_leave os i w = (r3, w') \<Longrightarrow> py_call os w w'"
| call_sub_remove: "py_remove os i w = (q, w') \<Longrightarrow> py_call os w w'"
| call_local_addr: "py_local_addr os i w = (r4, w') \<Longrightarrow> py_call os w w'"
| call_recv: "py_recv_nowait os i w = (r1, w') \<Longrightarrow> py_call os w w'"
| call_recv_with_metadata: "py_recv_with_metadata_nowait os i w = (r2, w') \<Longrightarrow> py_call os w w'"

text \<open>
  Everything that happens to a context from one state to another: \<open>n\<close> calls, and changes of the world
  that leave it and its sockets alone.
\<close>

inductive py_steps :: "'k os \<Rightarrow> ('k \<Rightarrow> socket set) \<Rightarrow> 'k py \<Rightarrow> nat \<Rightarrow> 'k py \<Rightarrow> bool" for os opens w0 where
  py_start: "py_steps os opens w0 0 w0"
| py_world: "py_steps os opens w0 n w \<Longrightarrow> py_context w' = py_context w \<Longrightarrow> py_borrow w' = py_borrow w \<Longrightarrow>
    owned (py_context w') \<subseteq> opens (py_kernel w') \<Longrightarrow> py_steps os opens w0 n w'"
| py_do: "py_steps os opens w0 n w \<Longrightarrow> py_call os w w' \<Longrightarrow> py_steps os opens w0 (Suc n) w'"

text \<open>A call is at most one operation of the library, after reading its arguments.\<close>

definition one_op :: "'k os \<Rightarrow> ('k \<Rightarrow> socket set) \<Rightarrow> 'k py \<Rightarrow> 'k py \<Rightarrow> bool" where
  "one_op os opens w w' \<longleftrightarrow>
     py_borrow w' = py_borrow w \<and>
     (\<exists>k. opens k = opens (py_kernel w) \<and>
       (py_context w' = py_context w \<and> opens (py_kernel w') = opens k \<or>
        (\<exists>op. (\<forall>cfg s. op \<noteq> OpAddWithSocket cfg s) \<and>
          ctx_step os op (py_context w) k (py_context w') (py_kernel w'))))"

lemma one_op_same: "py_borrow w' = py_borrow w \<Longrightarrow> py_context w' = py_context w \<Longrightarrow>
    opens (py_kernel w') = opens (py_kernel w) \<Longrightarrow> one_op os opens w w'"
  by (auto simp: one_op_def)

lemma one_op_step:
  assumes "py_borrow w' = py_borrow w" and "opens k = opens (py_kernel w)"
    and "ctx_step os op (py_context w) k (py_context w') (py_kernel w')" and "\<And>cfg s. op \<noteq> OpAddWithSocket cfg s"
  shows "one_op os opens w w'"
  using assms unfolding one_op_def by blast

lemma run_one_op:
  assumes "\<And>q c k. f (py_context w) (py_kernel w) = Some (q, c, k) \<Longrightarrow>
      c = py_context w \<and> opens k = opens (py_kernel w) \<or>
      (\<exists>op. (\<forall>cfg s. op \<noteq> OpAddWithSocket cfg s) \<and> ctx_step os op (py_context w) (py_kernel w) c k)"
  shows "py_with_context f w = (r, w') \<Longrightarrow> one_op os opens w w'"
    and "py_with_context_mut f w = (r, w') \<Longrightarrow> one_op os opens w w'"
proof -
  have "one_op os opens w w'" if "py_run f w = (r, w') \<or> w' = w"
  proof (cases "f (py_context w) (py_kernel w)")
    case None
    then have "w' = w" using that by (auto simp: py_run_def)
    then show ?thesis by (simp add: one_op_same)
  next
    case (Some x)
    obtain q c k where x: "x = (q, c, k)" by (cases x) auto
    have "one_op os opens w (w\<lparr>py_context := c, py_kernel := k\<rparr>)"
      using assms [of q c k] Some x by (auto intro: one_op_same one_op_step)
    then show ?thesis using that Some x by (auto simp: py_run_def one_op_same)
  qed
  then show "py_with_context f w = (r, w') \<Longrightarrow> one_op os opens w w'"
    "py_with_context_mut f w = (r, w') \<Longrightarrow> one_op os opens w w'"
    by (auto simp: py_with_context_def py_with_context_mut_def split: if_splits)
qed

lemma map_one_op:
  assumes "py_map g m w = (r, w')" and "\<And>q. m w = (q, w') \<Longrightarrow> one_op os opens w w'"
  shows "one_op os opens w w'"
  using assms by (auto simp: py_map_def split: prod.splits)

lemma sub_receive_one_op:
  assumes "py_sub_receive recv os i w = (r, w')"
    and "\<And>s q s' k k'. recv s k = (q, s', k') \<Longrightarrow> \<exists>q'. try_recv os s k = (q', s', k')"
  shows "one_op os opens w w'"
proof (rule run_one_op(1) [OF _ assms(1) [unfolded py_sub_receive_def]])
  fix q c k
  assume run: "(case get_subscription (py_context w) i of
         None \<Rightarrow> Some (Inl (PyLookupError not_found_text), py_context w, py_kernel w)
       | Some s \<Rightarrow>
           (case recv s (py_kernel w) of
              (r, s', k') \<Rightarrow> Some (map_sum (mcrx_error_to_py os) id r, set_subscription i s' (py_context w), k'))) = Some (q, c, k)"
  show "c = py_context w \<and> opens k = opens (py_kernel w) \<or>
      (\<exists>op. (\<forall>cfg s. op \<noteq> OpAddWithSocket cfg s) \<and> ctx_step os op (py_context w) (py_kernel w) c k)"
  proof (cases "get_subscription (py_context w) i")
    case None
    then show ?thesis using run by simp
  next
    case (Some s)
    obtain r1 s' k' where r1: "recv s (py_kernel w) = (r1, s', k')" by (metis prod_cases3)
    then obtain q' where "try_recv os s (py_kernel w) = (q', s', k')" using assms(2) by blast
    from step_try_recv [OF Some this] show ?thesis using run Some r1 by auto
  qed
qed

lemma keeps_subscription_local_addr:
  assumes "accounts os opens"
  shows "opens (snd (subscription_local_addr os s k)) = opens k"
proof -
  note reads = keeps_run [OF keeps_try_socket_local_addr [OF assms]]
  have "opens k' = opens k" if "rs_local_addr_op os rs k = (r, k')" for rs k r k'
    using that reads unfolding rs_local_addr_op_def by (auto split: option.splits prod.splits)
  moreover obtain r k1 where r: "rs_local_addr_op os (sub_socket s) k = (r, k1)" by force
  ultimately have k1: "opens k1 = opens k" .
  obtain q k2 where q: "try_socket_local_addr os (rs_socket (sub_socket s)) k1 = (q, k2)" by force
  show ?thesis
    using r k1 q reads [OF q] by (cases r) (simp_all add: subscription_local_addr_def socket_local_addr_def)
qed

text \<open>Every call is at most one operation.\<close>

lemma add_one_op:
  assumes acc: "accounts os opens" and "py_add_subscription os grp port source interface w = (r, w')"
  shows "one_op os opens w w'"
proof -
  obtain q k where b: "build_subscription_config os grp port source interface (py_kernel w) = (q, k)" by force
  then have k: "opens k = opens (py_kernel w)" using keeps_run [OF keeps_build_config [OF acc]] by metis
  show ?thesis
  proof (cases q)
    case (Inl e)
    then have "w' = w\<lparr>py_kernel := k\<rparr>"
      using assms(2) b by (simp add: py_add_subscription_def py_config_raised raised_def)
    then show ?thesis using k by (intro one_op_same) simp_all
  next
    case (Inr cfg)
    let ?w = "w\<lparr>py_kernel := k\<rparr>"
    obtain p c' k' where add: "add_subscription os (py_context w) cfg k = (p, c', k')" by (metis prod_cases3)
    then have "w' = ?w \<or> w' = ?w\<lparr>py_context := c', py_kernel := k'\<rparr>"
      using assms(2) b Inr
      by (auto simp: py_add_subscription_def py_config_raised raised_def py_with_context_mut_def py_run_def split: if_splits)
    moreover have "one_op os opens w ?w" using k by (intro one_op_same) simp_all
    moreover have "one_op os opens w (?w\<lparr>py_context := c', py_kernel := k'\<rparr>)"
      using step_add [OF add] k by (intro one_op_step [where k = k and op = "OpAdd cfg"]) simp_all
    ultimately show ?thesis by auto
  qed
qed

lemma call_one_op:
  assumes acc: "accounts os opens" and "py_call os w w'"
  shows "one_op os opens w w'"
  using assms(2)
proof cases
  case (call_add grp port source interface r)
  then show ?thesis by (intro add_one_op [OF acc])
next
  case (call_remove n q)
  show ?thesis
    by (rule run_one_op(2) [OF _ call_remove [unfolded py_remove_subscription_def]])
       (fastforce intro: step_remove split: prod.splits)
next
  case (call_recv_any r)
  show ?thesis
    by (rule map_one_op [OF call_recv_any [unfolded py_recv_any_nowait_def]], erule run_one_op(2) [rotated])
       (fastforce intro: step_recv_any split: prod.splits)
next
  case (call_recv_any_with_metadata r)
  show ?thesis
    by (rule map_one_op [OF call_recv_any_with_metadata [unfolded py_recv_any_with_metadata_nowait_def]],
        erule run_one_op(2) [rotated])
       (fastforce intro: step_recv_any_with_metadata split: prod.splits)
next
  case (call_join i r)
  show ?thesis
    by (rule run_one_op(2) [OF _ call_join [unfolded py_join_def]]) (fastforce intro: step_join split: prod.splits)
next
  case (call_leave i r)
  show ?thesis
    by (rule run_one_op(2) [OF _ call_leave [unfolded py_leave_def]]) (fastforce intro: step_leave split: prod.splits)
next
  case (call_sub_remove i q)
  show ?thesis
    by (rule run_one_op(2) [OF _ call_sub_remove [unfolded py_remove_def]]) (fastforce intro: step_remove split: prod.splits)
next
  case (call_local_addr i r)
  show ?thesis
  proof (rule run_one_op(1) [OF _ call_local_addr [unfolded py_local_addr_def]])
    fix q c k
    assume run: "(case get_subscription (py_context w) i of
         None \<Rightarrow> Some (Inl (PyLookupError not_found_text), py_context w, py_kernel w)
       | Some s \<Rightarrow>
           (case subscription_local_addr os s (py_kernel w) of
              (r, k') \<Rightarrow> Some (map_sum (mcrx_error_to_py os) (\<lambda>addr. Some (addr_to_tuple os addr)) r, py_context w, k'))) =
        Some (q, c, k)"
    show "c = py_context w \<and> opens k = opens (py_kernel w) \<or>
      (\<exists>op. (\<forall>cfg s. op \<noteq> OpAddWithSocket cfg s) \<and> ctx_step os op (py_context w) (py_kernel w) c k)"
    proof (cases "get_subscription (py_context w) i")
      case (Some s)
      then have "c = py_context w" "k = snd (subscription_local_addr os s (py_kernel w))"
        using run by (auto split: prod.splits)
      then show ?thesis using keeps_subscription_local_addr [OF acc] by simp
    qed (use run in simp)
  qed
next
  case (call_recv i r)
  show ?thesis
    by (rule map_one_op [OF call_recv [unfolded py_recv_nowait_def]], erule sub_receive_one_op) blast
next
  case (call_recv_with_metadata i r)
  show ?thesis
    by (rule map_one_op [OF call_recv_with_metadata [unfolded py_recv_with_metadata_nowait_def]], erule sub_receive_one_op)
       (simp add: try_recv_eq)
qed

section \<open>Simulation\<close>

text \<open>The context is free and reachable for the library within \<open>n\<close> operations.\<close>

definition py_simulates :: "'k os \<Rightarrow> ('k \<Rightarrow> socket set) \<Rightarrow> nat \<Rightarrow> 'k py \<Rightarrow> bool" where
  "py_simulates os opens n w \<longleftrightarrow>
     py_borrow w = 0 \<and> (\<exists>m \<le> n. ctx_reach os opens m (py_context w) (py_kernel w))"

lemma py_simulates_new: "py_simulates os opens 0 (py_new w)"
  by (auto simp: py_simulates_def py_new_def intro: reach_new)

lemma py_simulates_call:
  assumes acc: "accounts os opens" and sim: "py_simulates os opens n w" and n: "Suc n < 2 ^ 64 - 1"
    and "one_op os opens w w'"
  shows "py_simulates os opens (Suc n) w' \<and> names_kept (py_context w) (py_context w')"
proof -
  obtain m where m: "m \<le> n" "ctx_reach os opens m (py_context w) (py_kernel w)" and free: "py_borrow w = 0"
    using sim by (auto simp: py_simulates_def)
  note inv = ctx_reach_inv [OF acc m(2)]
  have ctx: "ctx_inv (py_context w)" "owned (py_context w) \<subseteq> opens (py_kernel w)"
    "unat (ctx_next_subscription_id (py_context w)) \<le> Suc m"
    using inv m(1) n by auto
  obtain k where k: "py_borrow w' = py_borrow w" "opens k = opens (py_kernel w)"
    and op: "py_context w' = py_context w \<and> opens (py_kernel w') = opens k \<or>
        (\<exists>op. (\<forall>cfg s. op \<noteq> OpAddWithSocket cfg s) \<and>
          ctx_step os op (py_context w) k (py_context w') (py_kernel w'))"
    using assms(4) unfolding one_op_def by blast
  from op show ?thesis
  proof
    assume same: "py_context w' = py_context w \<and> opens (py_kernel w') = opens k"
    then have "ctx_reach os opens m (py_context w) (py_kernel w')"
      using reach_world [OF m(2)] ctx(2) k(2) by simp
    then show ?thesis using same free k(1) m(1) unfolding py_simulates_def by (metis le_SucI names_kept_refl)
  next
    assume "\<exists>op. (\<forall>cfg s. op \<noteq> OpAddWithSocket cfg s) \<and>
          ctx_step os op (py_context w) k (py_context w') (py_kernel w')"
    then obtain op where op: "\<forall>cfg s. op \<noteq> OpAddWithSocket cfg s"
      "ctx_step os op (py_context w) k (py_context w') (py_kernel w')" by blast
    have "ctx_reach os opens m (py_context w) k" using reach_world [OF m(2)] ctx(2) k(2) by simp
    then have "ctx_reach os opens (Suc m) (py_context w') (py_kernel w')"
      using reach_step [OF _ op(2)] op(1) by (cases op) auto
    moreover have "unat (ctx_next_subscription_id (py_context w)) < 2 ^ 64 - 1" using ctx(3) m(1) n by linarith
    then have "names_kept (py_context w) (py_context w')" by (rule ctx_step_names [OF acc ctx(1) _ op(2)])
    ultimately show ?thesis using free k(1) m(1) unfolding py_simulates_def by (metis Suc_le_mono)
  qed
qed

lemma py_steps_simulates:
  assumes acc: "accounts os opens" and "py_steps os opens w0 n w" and "py_simulates os opens m w0" and "m + n < 2 ^ 64 - 1"
  shows "py_simulates os opens (m + n) w \<and> names_kept (py_context w0) (py_context w)"
  using assms(2,4)
proof induction
  case py_start
  then show ?case using assms(3) by simp
next
  case (py_world n w w')
  then obtain l where "l \<le> m + n" "ctx_reach os opens l (py_context w) (py_kernel w)" "py_borrow w = 0"
    by (auto simp: py_simulates_def)
  then show ?case using py_world reach_world [of os opens l "py_context w" "py_kernel w" "py_kernel w'"]
    by (auto simp: py_simulates_def)
next
  case (py_do n w w')
  then have "py_simulates os opens (m + n) w" "names_kept (py_context w0) (py_context w)" by auto
  then show ?case
    using py_simulates_call [OF acc _ _ call_one_op [OF acc py_do.hyps(2)], of "m + n"] py_do.prems names_kept_trans
    by auto
qed

lemma getter_free:
  assumes "py_borrow w = 0"
  shows "py_getter i f w =
    (Some (case get_subscription (py_context w) i of
       None \<Rightarrow> Inl (PyLookupError not_found_text) | Some s \<Rightarrow> Inr (f s)), w)"
  using assms by (simp add: py_getter_def py_with_context_def py_run_def)

section \<open>Properties\<close>

text \<open>
  C33. The C interface and the Python module read the same configuration from the same texts, and
  refuse the same texts with the same message.
\<close>

theorem bindings_read_alike:
  "py_build_subscription_config os grp port source interface k =
     (case build_subscription_config os grp port source interface k of
        (Inl message, k') \<Rightarrow> (Inl (PyValueError message), k')
      | (Inr cfg, k') \<Rightarrow> (Inr cfg, k'))"
  by (simp add: py_config_raised raised_def split: prod.split sum.split)

text \<open>
  What is behind the objects of a Python program is always a context that the library could have
  reached in as many operations; it is never found borrowed, and no receive panics.
\<close>

theorem py_simulates_context:
  assumes "accounts os opens" and "py_steps os opens (py_new w0) n w" and "n < 2 ^ 64 - 1"
  shows "py_borrow w = 0 \<and> (\<exists>m \<le> n. ctx_reach os opens m (py_context w) (py_kernel w)) \<and>
    fst (py_recv_any_nowait os w) \<noteq> None \<and> fst (py_recv_any_with_metadata_nowait os w) \<noteq> None"
proof -
  have sim: "py_simulates os opens n w"
    using py_steps_simulates [OF assms(1,2) py_simulates_new] assms(3) by simp
  then obtain m where m: "m \<le> n" "ctx_reach os opens m (py_context w) (py_kernel w)" and free: "py_borrow w = 0"
    by (auto simp: py_simulates_def)
  note returns = context_receives_return [OF assms(1) m(2), of "py_kernel w"]
  have "fst (py_recv_any_nowait os w) \<noteq> None" "fst (py_recv_any_with_metadata_nowait os w) \<noteq> None"
    using returns m(1) assms(3) free
    by (auto simp: py_recv_any_nowait_def py_recv_any_with_metadata_nowait_def py_map_def py_with_context_mut_def py_run_def
        split: prod.splits option.splits)
  then show ?thesis using m free by blast
qed

text \<open>What an addition leaves behind: the new subscription, under an identifier that is used up.\<close>

lemma py_added:
  assumes "py_add_subscription os grp port source interface w = (Some (Inr i), w1)" and "py_borrow w = 0"
    and "ctx_inv (py_context w)" and "unat (ctx_next_subscription_id (py_context w)) < 2 ^ 64 - 1"
  obtains cfg k s where "py_build_subscription_config os grp port source interface (py_kernel w) = (Inr cfg, k)"
    and "cfg_dst_port cfg = port" and "get_subscription (py_context w1) i = Some s" and "sub_config s = cfg"
    and "unat (sid i) < unat (ctx_next_subscription_id (py_context w1))"
proof -
  obtain q k where b: "py_build_subscription_config os grp port source interface (py_kernel w) = (q, k)" by force
  obtain cfg where q: "q = Inr cfg" using assms(1) b by (cases q) (auto simp: py_add_subscription_def)
  obtain r c' k' where add: "add_subscription os (py_context w) cfg k = (r, c', k')" by (metis prod_cases3)
  have w1: "r = Inr i" "py_context w1 = c'"
    using assms(1) b q add assms(2)
    by (auto simp: py_add_subscription_def py_with_context_mut_def py_run_def)
  have port: "cfg_dst_port cfg = port"
    using b q by (auto simp: py_build_subscription_config_def io_eqs Let_def ssm_ip_def asm_ip_def split: option.splits)
  from add_remove_lookup [OF assms(3), where os = os and cfg = cfg and k = k and i = i]
  obtain s where s: "get_subscription c' i = Some s" "sub_config s = cfg" using add w1(1) by auto
  obtain rs where "insert_subscription (py_context w) (cfg, rs) = (i, c')"
    using add w1(1) by (auto simp: add_subscription_def split: prod.splits sum.splits)
  then have "i = SubscriptionId (ctx_next_subscription_id (py_context w))"
    "ctx_next_subscription_id c' = ctx_next_subscription_id (py_context w) + 1"
    by (auto simp: insert_subscription_def Let_def)
  then have "unat (sid i) < unat (ctx_next_subscription_id (py_context w1))"
    using w1(2) unat_Suc_u64 [OF assms(4)] by simp
  then show thesis using that b q port s w1(2) by blast
qed


section \<open>Witnesses\<close>

definition demo_py :: "sim py" where
  "demo_py = \<lparr>py_context = context_new, py_borrow = 0, py_kernel = sim_init\<rparr>"

lemma demo_py_new: "py_new demo_py = demo_py"
  by (simp add: py_new_def demo_py_def)

lemma demo_py_add:
  "\<exists>w. py_add_subscription (sim_os Linux) ''232.1.2.3'' 5000 (Some ''10.0.0.1'') (Some ''192.168.1.20'') demo_py =
     (Some (Inr (SubscriptionId 1)), w)"
proof -
  have "build_subscription_config (sim_os Linux) ''232.1.2.3'' 5000 (Some ''10.0.0.1'') (Some ''192.168.1.20'') sim_init =
      (Inr text_config, sim_init)"
    using build_config_text [OF text_config_texts] by (simp add: text_config_def)
  then have config: "py_build_subscription_config (sim_os Linux) ''232.1.2.3'' 5000 (Some ''10.0.0.1'') (Some ''192.168.1.20'')
      sim_init = (Inr text_config, sim_init)"
    by (simp add: py_config_raised raised_def)
  obtain c k where "add_subscription (sim_os Linux) context_new text_config sim_init = (Inr (SubscriptionId 1), c, k)"
    using text_config_added by blast
  then show ?thesis
    using config by (simp add: py_add_subscription_def demo_py_def py_with_context_mut_def py_run_def)
qed

theorem py_simulates_context_witness:
  "\<exists>w. py_add_subscription (sim_os Linux) ''232.1.2.3'' 5000 (Some ''10.0.0.1'') (Some ''192.168.1.20'') demo_py =
       (Some (Inr (SubscriptionId 1)), w) \<and>
     (\<exists>m \<le> 1. ctx_reach (sim_os Linux) sim_sockets m (py_context w) (py_kernel w)) \<and>
     fst (py_recv_any_nowait (sim_os Linux) w) \<noteq> None"
proof -
  obtain w where w: "py_add_subscription (sim_os Linux) ''232.1.2.3'' 5000 (Some ''10.0.0.1'') (Some ''192.168.1.20'') demo_py =
       (Some (Inr (SubscriptionId 1)), w)" using demo_py_add by blast
  have "py_steps (sim_os Linux) sim_sockets (py_new demo_py) 1 w"
    using py_do [OF py_start call_add [OF w]] by (simp add: demo_py_new)
  from py_simulates_context [OF sim_accounts this] w show ?thesis by auto
qed


end
