(* ===== verification/Console.thy ===== *)
theory Console
  imports Context CliArgs Files
begin

text \<open>
  What the receiver binaries (\<open>src/bin\<close>) share: a program is its kernel, what it printed and its
  local variables; it ends with a message or a panic. The texts they print for addresses and
  payloads. Lemmas: a preview of a payload is a valid text of bounded size that never cuts a character
  in two; the states of a run; programs that own sockets, as a locale.
\<close>

section \<open>Programs\<close>

datatype console = Out string | Err string

text \<open>How a program ends before its end: an \<open>Err\<close> of \<open>run\<close>, or a panic.\<close>

datatype failure = Failed string | Panicked

text \<open>The local variables of a program extend this record.\<close>

record 'k program =
  pg_kernel :: 'k
  pg_console :: "console list"

type_synonym ('s, 'a) prog = "('s, failure, 'a) io"

definition on_kernel :: "('e \<Rightarrow> string) \<Rightarrow> ('k, 'e, 'a) io \<Rightarrow> (('k, 'z) program_scheme, 'a) prog" where
  "on_kernel message m st =
     (case m (pg_kernel st) of
        (Inl e, k) \<Rightarrow> (Inl (Failed (message e)), st\<lparr>pg_kernel := k\<rparr>)
      | (Inr a, k) \<Rightarrow> (Inr a, st\<lparr>pg_kernel := k\<rparr>))"

definition write_console :: "console list \<Rightarrow> (('k, 'z) program_scheme, unit) prog" where
  "write_console ls st = (Inr (), st\<lparr>pg_console := pg_console st @ ls\<rparr>)"

abbreviation println :: "string list \<Rightarrow> (('k, 'z) program_scheme, unit) prog" where
  "println ls \<equiv> write_console (map Out ls)"

abbreviation eprintln :: "string list \<Rightarrow> (('k, 'z) program_scheme, unit) prog" where
  "eprintln ls \<equiv> write_console (map Err ls)"

text \<open>\<open>thread::sleep\<close> passes time; how is a parameter. Durations are nanoseconds.\<close>

definition POLL_INTERVAL :: nat where
  "POLL_INTERVAL = 10 * 10 ^ 6"

definition thread_sleep :: "(nat \<Rightarrow> 'k \<Rightarrow> 'k) \<Rightarrow> nat \<Rightarrow> (('k, 'z) program_scheme, unit) prog" where
  "thread_sleep sleep d st = (Inr (), st\<lparr>pg_kernel := sleep d (pg_kernel st)\<rparr>)"

text \<open>
  The receivers start and then repeat one turn until an error ends them; \<open>None\<close> is a loop that is
  never left. In the end the local variables are dropped.
\<close>

partial_function (option) forever :: "('s, unit) prog \<Rightarrow> 's \<Rightarrow> (failure \<times> 's) option" where
  "forever turn st =
     (case turn st of (r, st') \<Rightarrow> (case r of Inl e \<Rightarrow> Some (e, st') | Inr _ \<Rightarrow> forever turn st'))"

definition program_run ::
  "('s, unit) prog \<Rightarrow> ('s, unit) prog \<Rightarrow> ('s \<Rightarrow> 's) \<Rightarrow> 's \<Rightarrow> ((failure + unit) \<times> 's) option" where
  "program_run start turn dropped st =
     (case start st of
        (Inl e, st') \<Rightarrow> Some (Inl e, dropped st')
      | (Inr _, st') \<Rightarrow> map_option (\<lambda>(e, st''). (Inl e, dropped st'')) (forever turn st'))"

text \<open>
  \<open>main\<close>: the error of \<open>run\<close> goes to the console and gives the exit code. \<open>None\<close> of \<open>run\<close> is a
  program that does not end; 101 is the exit code of a panic.
\<close>

definition main_of ::
  "string \<Rightarrow> ((failure + unit) \<times> ('k, 'z) program_scheme) option \<Rightarrow> (int \<times> ('k, 'z) program_scheme) option" where
  "main_of name ended =
     map_option (\<lambda>(r, st). case r of
         Inr () \<Rightarrow> (0, st)
       | Inl (Failed err) \<Rightarrow> (1, snd (eprintln [name @ '': '' @ err] st))
       | Inl Panicked \<Rightarrow> (101, st)) ended"

text \<open>
  The arguments: too few of them, or an error in them, prints the usage. The usage names the first
  argument, which may be missing.
\<close>

definition with_usage ::
  "(string \<Rightarrow> string list) \<Rightarrow> nat \<Rightarrow> (string list \<Rightarrow> ('k, string, 'a) io) \<Rightarrow> string list \<Rightarrow>
   (('k, 'z) program_scheme, 'a) prog" where
  "with_usage usage n parse args st =
     (if length args < n
      then (case args of
          [] \<Rightarrow> (Inl Panicked, st)
        | program # _ \<Rightarrow> io_bind (eprintln (usage program)) (\<lambda>_. io_throw (Failed ''invalid arguments'')) st)
      else (case on_kernel id (parse args) st of
          (Inl err, st') \<Rightarrow> io_bind (eprintln (usage (hd args))) (\<lambda>_. io_throw err) st'
        | (Inr parsed, st') \<Rightarrow> (Inr parsed, st')))"

section \<open>Texts\<close>

definition source_string :: "'k os \<Rightarrow> ip_addr option \<Rightarrow> string" where
  "source_string os source = (case source of Some source \<Rightarrow> os_show_ip os source | None \<Rightarrow> ''any'')"

fun interface_string :: "'k os \<Rightarrow> ip_addr option \<Rightarrow> u32 option \<Rightarrow> string" where
  "interface_string os (Some (V6 interface)) (Some interface_index) =
     os_show_ip os (V6 interface) @ ''%'' @ dec_digits (unat interface_index)"
| "interface_string os (Some interface) _ = os_show_ip os interface"
| "interface_string os None (Some interface_index) = ''ifindex:'' @ dec_digits (unat interface_index)"
| "interface_string os None None = ''default''"

text \<open>\<open>str::chars\<close> of a text: its characters, each as its bytes.\<close>

definition char_rest :: "char \<Rightarrow> string \<Rightarrow> string" where
  "char_rest a s = (case utf8_tail a s of Some s' \<Rightarrow> s' | None \<Rightarrow> s)"

lemma char_rest_shorter: "length (char_rest a s) \<le> length s"
  by (simp add: char_rest_def utf8_tail_shorter split: option.split)

function utf8_chars :: "string \<Rightarrow> string list" where
  "utf8_chars [] = []"
| "utf8_chars (a # s) =
     take (Suc (length s) - length (char_rest a s)) (a # s) # utf8_chars (char_rest a s)"
  by pat_completeness auto
termination
  by (relation "measure length") (auto simp: le_imp_less_Suc char_rest_shorter)

definition MAX_PREVIEW_LEN :: nat where
  "MAX_PREVIEW_LEN = 64"

definition truncate_preview :: "string \<Rightarrow> nat \<Rightarrow> string" where
  "truncate_preview s max_len =
     (let char_count = length (utf8_chars s) in
      if char_count \<le> max_len then s else concat (take max_len (utf8_chars s)) @ ''...'')"

definition byte_chars :: "bytes \<Rightarrow> string" where
  "byte_chars = map (\<lambda>b. char_of (unat b))"

definition hex_byte :: "u8 \<Rightarrow> string" where
  "hex_byte b = [digit_char (unat b div 16), digit_char (unat b mod 16)]"

fun join_texts :: "string \<Rightarrow> string list \<Rightarrow> string" where
  "join_texts sep [] = []"
| "join_texts sep [x] = x"
| "join_texts sep (x # y # ys) = x @ sep @ join_texts sep (y # ys)"

definition format_payload :: "bytes \<Rightarrow> string" where
  "format_payload payload =
     (let s = byte_chars payload in
      if utf8_valid s then truncate_preview s MAX_PREVIEW_LEN
      else
        let preview_len = min (length payload) 16;
            hex_preview = join_texts '' '' (map hex_byte (take preview_len payload)) in
        if preview_len < length payload
        then ''0x'' @ hex_preview @ '' ... ('' @ dec_digits (length payload) @ '' bytes total)''
        else ''0x'' @ hex_preview)"

text \<open>\<open>{:?}\<close> of an option; the \<open>Debug\<close> text of addresses and numbers is their \<open>Display\<close> text.\<close>

definition debug_option :: "('a \<Rightarrow> string) \<Rightarrow> 'a option \<Rightarrow> string" where
  "debug_option show x = (case x of None \<Rightarrow> ''None'' | Some a \<Rightarrow> ''Some('' @ show a @ '')'')"

definition show_u32 :: "u32 \<Rightarrow> string" where
  "show_u32 n = dec_digits (unat n)"

section \<open>Previews\<close>

lemma utf8_tail_split:
  assumes "utf8_tail a s = Some s'"
  shows "\<exists>p. s = p @ s' \<and> (\<forall>t. utf8_tail a (p @ t) = Some t) \<and> length p \<le> 3"
proof -
  note simps = utf8_tail.simps
  consider (one) "byte_in 0 0x7F a"
    | (two) b where "\<not> byte_in 0 0x7F a" "byte_in 0xC2 0xDF a" "s = b # s'"
    | (three) b c where "\<not> byte_in 0 0x7F a" "\<not> byte_in 0xC2 0xDF a" "byte_in 0xE0 0xEF a" "s = b # c # s'"
    | (four) b c d where "\<not> byte_in 0 0x7F a" "\<not> byte_in 0xC2 0xDF a" "\<not> byte_in 0xE0 0xEF a" "s = b # c # d # s'"
    using assms by (fastforce simp: simps split: if_splits list.splits)
  then show ?thesis
  proof cases
    case one
    then show ?thesis using assms by (intro exI [of _ "[]"]) (simp add: simps)
  next
    case two
    then show ?thesis using assms by (intro exI [of _ "[b]"]) (simp add: simps split: if_splits)
  next
    case three
    then show ?thesis using assms by (intro exI [of _ "[b, c]"]) (simp add: simps split: if_splits)
  next
    case four
    then show ?thesis using assms by (intro exI [of _ "[b, c, d]"]) (simp add: simps split: if_splits)
  qed
qed

text \<open>A valid text is its characters, each of them valid and at most four bytes.\<close>

lemma utf8_char:
  assumes "utf8_valid (a # s)"
  obtains p t where "s = p @ t" and "utf8_tail a s = Some t" and "utf8_valid t" and "length p \<le> 3"
    and "utf8_chars (a # s) = (a # p) # utf8_chars t"
    and "\<And>u. utf8_valid ((a # p) @ u) = utf8_valid u"
    and "\<And>u. utf8_chars ((a # p) @ u) = (a # p) # utf8_chars u"
proof -
  obtain t where t: "utf8_tail a s = Some t" "utf8_valid t" using assms by (auto split: option.splits)
  then obtain p where p: "s = p @ t" "\<And>u. utf8_tail a (p @ u) = Some u" "length p \<le> 3"
    using utf8_tail_split by blast
  have chars: "utf8_chars ((a # p) @ u) = (a # p) # utf8_chars u" for u using p(2) by (simp add: char_rest_def)
  have valid: "utf8_valid ((a # p) @ u) = utf8_valid u" for u using p(2) by simp
  show ?thesis
    using that [OF p(1) t p(3) _ valid chars] chars [of t] p(1) by simp
qed

lemma utf8_chars_concat: "utf8_valid s \<Longrightarrow> concat (utf8_chars s) = s"
proof (induction s rule: utf8_valid.induct)
  case (2 a s)
  obtain p t where "s = p @ t" "utf8_tail a s = Some t" "utf8_valid t" "utf8_chars (a # s) = (a # p) # utf8_chars t"
    using utf8_char [OF "2.prems"] by metis
  then show ?case using "2.IH" by simp
qed simp

lemma utf8_take_chars:
  "utf8_valid s \<Longrightarrow>
     utf8_valid (concat (take n (utf8_chars s)) @ u) = utf8_valid u \<and>
     utf8_chars (concat (take n (utf8_chars s)) @ u) = take n (utf8_chars s) @ utf8_chars u \<and>
     length (concat (take n (utf8_chars s))) \<le> 4 * n"
proof (induction n arbitrary: s)
  case (Suc n)
  show ?case
  proof (cases s)
    case (Cons a s')
    then have "utf8_valid (a # s')" using Suc.prems by simp
    then obtain p t where "s' = p @ t" "utf8_tail a s' = Some t"
      and t: "utf8_valid t" "length p \<le> 3" "utf8_chars (a # s') = (a # p) # utf8_chars t"
      "\<And>u. utf8_valid ((a # p) @ u) = utf8_valid u" "\<And>u. utf8_chars ((a # p) @ u) = (a # p) # utf8_chars u"
      by (rule utf8_char) (rule that)
    show ?thesis
      using Suc.IH [OF t(1)] t(2) t(4,5) [of "concat (take n (utf8_chars t)) @ u"] Cons
      by (simp add: t(3) del: utf8_chars.simps utf8_valid.simps)
  qed simp
qed simp

lemma ascii_chars:
  "\<forall>c \<in> set s. of_char c < (128 :: nat) \<Longrightarrow> length (utf8_chars s) = length s"
  by (induction s) (simp_all add: char_rest_def utf8_tail.simps byte_in_def)

lemma truncated:
  assumes "utf8_valid s"
  shows "utf8_valid (truncate_preview s n) \<and> length (utf8_chars (truncate_preview s n)) \<le> n + 3 \<and>
    (truncate_preview s n = s \<or> (\<exists>rest. rest \<noteq> [] \<and> s = concat (take n (utf8_chars s)) @ rest \<and>
       truncate_preview s n = concat (take n (utf8_chars s)) @ ''...''))"
proof (cases "length (utf8_chars s) \<le> n")
  case False
  have dots: "utf8_valid ''...''" "length (utf8_chars ''...'') = 3"
    using ascii_utf8 [of "''...''"] ascii_chars [of "''...''"] by simp_all
  let ?rest = "concat (drop n (utf8_chars s))"
  have split: "s = concat (take n (utf8_chars s)) @ ?rest"
    using utf8_chars_concat [OF assms] by (metis append_take_drop_id concat_append)
  moreover have "?rest \<noteq> []"
  proof
    assume none: "?rest = []"
    have whole: "s = concat (take n (utf8_chars s))" using split unfolding none by simp
    have "utf8_chars (concat (take n (utf8_chars s))) = take n (utf8_chars s)"
      using utf8_take_chars [OF assms, of n "[]"] by simp
    then have "length (utf8_chars s) = length (take n (utf8_chars s))" using whole by metis
    with False show False by (metis length_take min.cobounded2)
  qed
  moreover have trunc: "truncate_preview s n = concat (take n (utf8_chars s)) @ ''...''"
    using False by (simp add: truncate_preview_def Let_def)
  moreover have "utf8_valid (truncate_preview s n)" "length (utf8_chars (truncate_preview s n)) \<le> n + 3"
    using utf8_take_chars [OF assms, of n "''...''"] dots unfolding trunc
    by (simp_all del: utf8_valid.simps utf8_chars.simps)
  ultimately show ?thesis by blast
qed (use assms in \<open>simp add: truncate_preview_def\<close>)

text \<open>The hexadecimal preview is ASCII.\<close>

lemma ascii_join:
  "(\<forall>x \<in> set xs. \<forall>c \<in> set x. of_char c < (128 :: nat)) \<Longrightarrow> c \<in> set (join_texts '' '' xs) \<Longrightarrow> of_char c < (128 :: nat)"
  by (induction "'' ''" xs rule: join_texts.induct) auto

lemma length_join: "length (join_texts '' '' (map hex_byte bs)) \<le> 3 * length bs"
proof (induction bs)
  case (Cons b bs)
  then show ?case by (cases bs) (auto simp: hex_byte_def)
qed simp

lemma ascii_digit_char: "d < 16 \<Longrightarrow> of_char (digit_char d) < (128 :: nat)"
  by (simp add: of_char_digit)

lemma hex_ascii: "c \<in> set (hex_byte b) \<Longrightarrow> of_char c < (128 :: nat)"
proof -
  have "unat b < 256" using unsigned_less [of b] by simp
  then have "unat b div 16 < 16" "unat b mod 16 < 16" by auto
  then show "c \<in> set (hex_byte b) \<Longrightarrow> of_char c < (128 :: nat)" by (auto simp: hex_byte_def ascii_digit_char)
qed


section \<open>Programs with a context\<close>

record 'k udp_program = "'k program" +
  ug_context :: mcrx_context

definition error_message :: "'k os \<Rightarrow> string \<Rightarrow> mcrx_error \<Rightarrow> string" where
  "error_message os prefix err = prefix @ '': '' @ mcrx_error_display (os_show_error os) err"

definition on_context ::
  "('e \<Rightarrow> string) \<Rightarrow> (mcrx_context \<Rightarrow> 'k \<Rightarrow> ('e + 'a) \<times> mcrx_context \<times> 'k) \<Rightarrow> (('k, 'z) udp_program_scheme, 'a) prog" where
  "on_context message f st =
     (case f (ug_context st) (pg_kernel st) of
        (r, c, k) \<Rightarrow> (map_sum (\<lambda>e. Failed (message e)) id r, st\<lparr>ug_context := c, pg_kernel := k\<rparr>))"

text \<open>A receive of a context, which may panic.\<close>

definition receiving ::
  "('e \<Rightarrow> string) \<Rightarrow> (mcrx_context \<Rightarrow> 'k \<Rightarrow> (('e + 'a) \<times> mcrx_context \<times> 'k) option) \<Rightarrow> (('k, 'z) udp_program_scheme, 'a) prog" where
  "receiving message f st =
     (case f (ug_context st) (pg_kernel st) of
        None \<Rightarrow> (Inl Panicked, st)
      | Some (r, c, k) \<Rightarrow> (map_sum (\<lambda>e. Failed (message e)) id r, st\<lparr>ug_context := c, pg_kernel := k\<rparr>))"

definition receive_config :: "receive_cli_args \<Rightarrow> subscription_config" where
  "receive_config parsed =
     (case cli_source parsed of
        Some source \<Rightarrow> ssm_ip (cli_group parsed) source (cli_dst_port parsed)
      | None \<Rightarrow> asm_ip (cli_group parsed) (cli_dst_port parsed))
     \<lparr>cfg_interface := cli_interface parsed, cfg_interface_index := cli_interface_index parsed\<rparr>"

definition add_and_join ::
  "'k os \<Rightarrow> receive_cli_args \<Rightarrow> (('k, 'z) udp_program_scheme, subscription_id) prog" where
  "add_and_join os parsed =
     io_bind (on_context (error_message os ''failed to add subscription'')
       (\<lambda>c. add_subscription os c (receive_config parsed))) (\<lambda>subscription_id.
     io_bind (on_context (error_message os ''failed to join subscription'')
       (\<lambda>c. join_subscription os c subscription_id)) (\<lambda>_.
     io_return subscription_id))"

definition receive_banner ::
  "'k os \<Rightarrow> string \<Rightarrow> string \<Rightarrow> receive_cli_args \<Rightarrow> subscription_id \<Rightarrow> string list" where
  "receive_banner os name waiting parsed i =
     [name @ '' ready'',
      ''  group:      '' @ os_show_ip os (cli_group parsed),
      ''  dst_port:   '' @ dec_digits (unat (cli_dst_port parsed)),
      ''  source:     '' @ source_string os (cli_source parsed),
      ''  interface:  '' @ interface_string os (cli_interface parsed) (cli_interface_index parsed),
      ''  sub_id:     '' @ dec_digits (unat (sid i)),
      [],
      waiting]"

definition recv_line :: "'k os \<Rightarrow> packet \<Rightarrow> string" where
  "recv_line os p =
     ''[recv] sub='' @ dec_digits (unat (sid (pkt_subscription_id p))) @ '' src='' @ os_show_socket_addr os (pkt_source p) @
     '' group='' @ os_show_ip os (pkt_group p) @ '' dst_port='' @ dec_digits (unat (pkt_dst_port p)) @
     '' len='' @ dec_digits (length (pkt_payload p))"

definition payload_line :: "packet \<Rightarrow> string" where
  "payload_line p = ''       payload: '' @ format_payload (pkt_payload p)"

text \<open>Dropping a context drops its subscriptions, which close their sockets.\<close>

definition drop_context :: "'k os \<Rightarrow> mcrx_context \<Rightarrow> 'k \<Rightarrow> 'k" where
  "drop_context os c = fold (\<lambda>s. os_close os (into_socket s)) (ctx_subscriptions c)"

section \<open>Runs\<close>

text \<open>The states between the parts of a program, with the error that ends it in one.\<close>

inductive program_at :: "('s, unit) prog \<Rightarrow> ('s, unit) prog \<Rightarrow> 's \<Rightarrow> failure option \<Rightarrow> 's \<Rightarrow> bool"
  for start turn st0 where
  at_start: "start st0 = (r, st) \<Longrightarrow> program_at start turn st0 (res_err r) st"
| at_turn: "program_at start turn st0 None st \<Longrightarrow> turn st = (r, st') \<Longrightarrow> program_at start turn st0 (res_err r) st'"

lemma forever_at:
  assumes "forever turn st = Some (e, st')" and "program_at start turn st0 None st"
  shows "program_at start turn st0 (Some e) st'"
proof -
  have "program_at start turn st0 None st \<longrightarrow> program_at start turn st0 (Some (fst (e, st'))) (snd (e, st'))"
  proof (rule forever.raw_induct
      [where P = "\<lambda>turn st y. program_at start turn st0 None st \<longrightarrow> program_at start turn st0 (Some (fst y)) (snd y)",
       OF _ assms(1)], intro impI)
    fix loop and turn :: "('a, unit) prog" and st y
    assume IH: "\<And>turn st y. loop turn st = Some y \<Longrightarrow>
        program_at start turn st0 None st \<longrightarrow> program_at start turn st0 (Some (fst y)) (snd y)"
      and run: "(case turn st of (r, st') \<Rightarrow> case r of Inl e \<Rightarrow> Some (e, st') | Inr _ \<Rightarrow> loop turn st') = Some y"
      and at0: "program_at start turn st0 None st"
    obtain r st1 where turn: "turn st = (r, st1)" by force
    have at: "program_at start turn st0 (res_err r) st1" using at0 turn by (rule at_turn)
    show "program_at start turn st0 (Some (fst y)) (snd y)"
      using run turn at IH [of turn st1 y] by (cases r) (auto simp: res_err_def)
  qed
  then show ?thesis using assms(2) by simp
qed

lemma run_at:
  assumes "program_run start turn dropped st0 = Some (r, st)"
  obtains e st1 where "program_at start turn st0 (Some e) st1" and "r = Inl e" and "st = dropped st1"
proof -
  obtain r0 st1 where start: "start st0 = (r0, st1)" by force
  have at: "program_at start turn st0 (res_err r0) st1" using start by (rule at_start)
  show ?thesis
  proof (cases r0)
    case (Inl e)
    then show ?thesis using assms start at by (auto simp: program_run_def res_err_def intro: that)
  next
    case (Inr u)
    then obtain e st2 where "forever turn st1 = Some (e, st2)" "r = Inl e" "st = dropped st2"
      using assms start by (auto simp: program_run_def)
    moreover from this(1) have "program_at start turn st0 (Some e) st2"
      using at Inr by (auto intro: forever_at simp: res_err_def)
    ultimately show ?thesis using that by blast
  qed
qed

text \<open>What every part of a sequence does to the state, the sequence does, and so does a run.\<close>

definition always :: "('s \<Rightarrow> 's \<Rightarrow> bool) \<Rightarrow> ('s, 'e, 'a) io \<Rightarrow> bool" where
  "always R m \<longleftrightarrow> (\<forall>s. R s (snd (m s)))"

lemma always_bind:
  assumes "transp R" and "always R m" and "\<And>s a s'. m s = (Inr a, s') \<Longrightarrow> always R (f a)"
  shows "always R (io_bind m f)"
  unfolding always_def
proof
  fix s
  obtain r s1 where m: "m s = (r, s1)" by force
  then have 1: "R s s1" using assms(2) by (metis always_def snd_conv)
  show "R s (snd (io_bind m f s))"
  proof (cases r)
    case (Inr a)
    have "R s1 (snd (f a s1))" using assms(3) m Inr unfolding always_def by blast
    with 1 have "R s (snd (f a s1))" by (rule transpD [OF assms(1)])
    then show ?thesis using m Inr by (simp add: io_bind_def)
  qed (use m 1 in \<open>simp add: io_bind_def\<close>)
qed

lemma at_always:
  assumes "program_at start turn st0 e st" and "transp R" and "R st0 (snd (start st0))" and "always R turn"
  shows "R st0 st"
  using assms(1)
proof (induction rule: program_at.induct)
  case (at_start r st)
  then show ?case using assms(3) by simp
next
  case (at_turn st r st')
  then have "R st st'" using assms(4) unfolding always_def by (metis snd_conv)
  then show ?case using at_turn.IH assms(2) by (blast dest: transpD)
qed

section \<open>Programs that own sockets\<close>

text \<open>
  A program that starts with no socket, opens some while it starts, keeps exactly those in every turn
  and closes them when its variables are dropped. \<open>lawful\<close> is what the program relies on.
\<close>

locale socket_owner =
  fixes kernel :: "'s \<Rightarrow> 'k" and held :: "'s \<Rightarrow> socket set" and fresh :: "'s \<Rightarrow> bool"
    and lawful :: "('k \<Rightarrow> socket set) \<Rightarrow> bool"
    and start :: "('s, unit) prog" and turn :: "('s, unit) prog" and dropped :: "'s \<Rightarrow> 's"
  assumes start_takes: "lawful opens \<Longrightarrow> fresh st \<Longrightarrow> start st = (r, st') \<Longrightarrow>
      held st' \<subseteq> opens (kernel st') \<and> opens (kernel st') - held st' = opens (kernel st)"
    and turn_keeps: "lawful opens \<Longrightarrow> turn st = (r, st') \<Longrightarrow>
      held st' = held st \<and> opens (kernel st') = opens (kernel st)"
    and dropped_closes: "lawful opens \<Longrightarrow> opens (kernel (dropped st)) = opens (kernel st) - held st"
begin

lemma at_owns:
  assumes "lawful opens" and "fresh init" and "program_at start turn init e st"
  shows "held st \<subseteq> opens (kernel st) \<and> opens (kernel st) - held st = opens (kernel init)"
  using assms(3)
proof (induction rule: program_at.induct)
  case (at_start r st)
  then show ?case using start_takes [OF assms(1,2)] by blast
next
  case (at_turn st r st')
  then show ?case using turn_keeps [OF assms(1)] by blast
qed

lemma run_closes:
  assumes "lawful opens" and "fresh init" and "program_run start turn dropped init = Some (r, st)"
  shows "opens (kernel st) = opens (kernel init)"
proof -
  obtain e st1 where at: "program_at start turn init (Some e) st1" and st: "st = dropped st1"
    using assms(3) by (rule run_at)
  show ?thesis using at_owns [OF assms(1,2) at] dropped_closes [OF assms(1)] st by simp
qed

end

end
