(* ===== verification/Receivers.thy ===== *)
theory Receivers
  imports Console RawContext Tokio
begin

text \<open>
  The other receiver binaries: \<open>src/bin/mcrx_recv_meta.rs\<close> prints packets with their metadata,
  \<open>src/bin/mcrx_raw_recv.rs\<close> whole datagrams, and \<open>src/bin/mcrx_tokio_recv.rs\<close> waits in an
  asynchronous task for packets or for Ctrl-C, whichever comes first.
\<close>

section \<open>Receiving with metadata\<close>

definition meta_line :: "'k os \<Rightarrow> receive_metadata \<Rightarrow> string" where
  "meta_line os md =
     ''       meta: socket_local_addr='' @ debug_option (os_show_socket_addr os) (md_socket_local_addr md) @
     '' configured_interface='' @ debug_option (os_show_ip os) (md_configured_interface md) @
     '' configured_interface_index='' @ debug_option show_u32 (md_configured_interface_index md) @
     '' destination_local_ip='' @ debug_option (os_show_ip os) (md_destination_local_ip md) @
     '' ingress_ifindex='' @ debug_option show_u32 (md_ingress_interface_index md)"

definition meta_lines :: "'k os \<Rightarrow> packet_with_metadata \<Rightarrow> string list" where
  "meta_lines os p =
     [recv_line os (pwm_packet p), meta_line os (pwm_metadata p), payload_line (pwm_packet p)]"

definition meta_usage :: "string \<Rightarrow> string list" where
  "meta_usage program =
     [''usage: '' @ program @ '' <group> <dst_port> [source] [interface]'',
      ''       '' @ program @ '' <group> <dst_port> [--source <source>] [--interface <interface>]'',
      ''  group      multicast group, e.g. 239.1.2.3 or ff01::1234'',
      ''  dst_port   destination UDP port'',
      ''  source     optional source for SSM'',
      ''  interface  optional local interface address'',
      ''examples:'',
      ''  '' @ program @ '' ff01::1234 5000 --interface ::1'',
      ''  '' @ program @ '' ff12::8000:1234 5000 --interface fe80::1%7'',
      ''  '' @ program @ '' ff12::8000:1234 5000 --interface fe80::1%en0'',
      ''  '' @ program @ '' ff1e::8000:1234 5000 --interface 7'',
      ''  '' @ program @ '' ff31::8000:1234 5000 <sender-ipv6> --interface <receiver-ipv6>'',
      ''  '' @ program @ '' ff32::8000:1234 5000 <sender-fe80> --interface <receiver-fe80-or-other-local-ipv6>'',
      ''notes:'',
      ''  - for IPv4 SSM, use 232.0.0.0/8 groups such as 232.1.2.3'',
      ''  - for IPv6 SSM, use ff3x::/32 groups such as ff3e::8000:1234'',
      ''  - for IPv6 SSM, pass --interface <receiver-ipv6-or-ifindex>; this is required on macOS'']"

definition meta_init :: "'k \<Rightarrow> 'k udp_program" where
  "meta_init k = \<lparr>pg_kernel = k, pg_console = [], ug_context = context_new\<rparr>"

definition meta_start :: "'k os \<Rightarrow> string list \<Rightarrow> ('k udp_program, unit) prog" where
  "meta_start os args =
     io_bind (with_usage meta_usage 3 (parse_receive_cli_args os) args) (\<lambda>parsed.
     io_bind (add_and_join os parsed) (\<lambda>subscription_id.
     println (receive_banner os ''mcrx-recv-meta'' ''waiting for packets with rich metadata ...'' parsed subscription_id)))"

definition meta_turn :: "'k os \<Rightarrow> (nat \<Rightarrow> 'k \<Rightarrow> 'k) \<Rightarrow> ('k udp_program, unit) prog" where
  "meta_turn os sleep =
     io_bind (receiving (error_message os ''receive failed'') (try_recv_any_with_metadata os)) (\<lambda>received.
     case received of
       Some packet \<Rightarrow> println (meta_lines os packet)
     | None \<Rightarrow> thread_sleep sleep POLL_INTERVAL)"

definition meta_drop :: "'k os \<Rightarrow> 'k udp_program \<Rightarrow> 'k udp_program" where
  "meta_drop os st = st\<lparr>pg_kernel := drop_context os (ug_context st) (pg_kernel st), ug_context := context_new\<rparr>"

definition meta_run ::
  "'k os \<Rightarrow> (nat \<Rightarrow> 'k \<Rightarrow> 'k) \<Rightarrow> string list \<Rightarrow> 'k udp_program \<Rightarrow> ((failure + unit) \<times> 'k udp_program) option" where
  "meta_run os sleep args = program_run (meta_start os args) (meta_turn os sleep) (meta_drop os)"

definition meta_main ::
  "'k os \<Rightarrow> (nat \<Rightarrow> 'k \<Rightarrow> 'k) \<Rightarrow> string list \<Rightarrow> 'k udp_program \<Rightarrow> (int \<times> 'k udp_program) option" where
  "meta_main os sleep args st = main_of ''mcrx-recv-meta'' (meta_run os sleep args st)"

section \<open>Receiving datagrams\<close>

record 'k raw_program = "'k program" +
  wg_context :: raw_context

definition on_raw_context ::
  "('e \<Rightarrow> string) \<Rightarrow> (raw_context \<Rightarrow> 'k \<Rightarrow> ('e + 'a) \<times> raw_context \<times> 'k) \<Rightarrow> ('k raw_program, 'a) prog" where
  "on_raw_context message f st =
     (case f (wg_context st) (pg_kernel st) of
        (r, c, k) \<Rightarrow> (map_sum (\<lambda>e. Failed (message e)) id r, st\<lparr>wg_context := c, pg_kernel := k\<rparr>))"

definition raw_receiving ::
  "('e \<Rightarrow> string) \<Rightarrow> (raw_context \<Rightarrow> 'k \<Rightarrow> (('e + 'a) \<times> raw_context \<times> 'k) option) \<Rightarrow> ('k raw_program, 'a) prog" where
  "raw_receiving message f st =
     (case f (wg_context st) (pg_kernel st) of
        None \<Rightarrow> (Inl Panicked, st)
      | Some (r, c, k) \<Rightarrow> (map_sum (\<lambda>e. Failed (message e)) id r, st\<lparr>wg_context := c, pg_kernel := k\<rparr>))"

definition raw_receive_config :: "raw_receive_cli_args \<Rightarrow> raw_subscription_config" where
  "raw_receive_config parsed =
     (case rcli_source parsed of
        Some source \<Rightarrow> raw_ssm_ip (rcli_group parsed) source
      | None \<Rightarrow> raw_asm_ip (rcli_group parsed))
     \<lparr>rcfg_interface := rcli_interface parsed, rcfg_interface_index := rcli_interface_index parsed\<rparr>"

fun raw_interface_string :: "'k os \<Rightarrow> ip_addr option \<Rightarrow> u32 option \<Rightarrow> string" where
  "raw_interface_string os (Some interface) (Some index) = os_show_ip os interface @ ''%'' @ show_u32 index"
| "raw_interface_string os (Some interface) None = os_show_ip os interface"
| "raw_interface_string os None (Some index) = show_u32 index"
| "raw_interface_string os None None = ''default''"

definition raw_usage :: "string \<Rightarrow> string list" where
  "raw_usage program =
     [''usage: '' @ program @ '' <group> [source] [interface]'',
      ''       '' @ program @ '' <group> [--source <source>] [--interface <interface>]'',
      ''  group      multicast group, e.g. 239.1.2.3 or ff1e::8000:1234'',
      ''  source     optional source for SSM'',
      ''  interface  optional local interface address or IPv6 interface index'',
      ''examples:'',
      ''  '' @ program @ '' 239.1.2.3 --interface 192.168.1.20'',
      ''  '' @ program @ '' ff1e::8000:1234 --interface 7'',
      ''  '' @ program @ '' ff3e::8000:1234 2001:db8::10 --interface 2001:db8::20'',
      ''notes:'',
      ''  - for IPv4 SSM, use 232.0.0.0/8 groups such as 232.1.2.3'',
      ''  - for IPv6 SSM, use ff3x::/32 groups such as ff3e::8000:1234'']"

definition raw_banner :: "'k os \<Rightarrow> raw_receive_cli_args \<Rightarrow> subscription_id \<Rightarrow> string list" where
  "raw_banner os parsed i =
     [''mcrx-raw-recv ready'',
      ''  group:      '' @ os_show_ip os (rcli_group parsed),
      ''  source:     '' @ source_string os (rcli_source parsed),
      ''  interface:  '' @ raw_interface_string os (rcli_interface parsed) (rcli_interface_index parsed),
      ''  sub_id:     '' @ dec_digits (unat (sid i)),
      [],
      ''waiting for raw multicast IP datagrams ...'']"

text \<open>\<open>{:02x?}\<close> of a slice\<close>

definition hex_list :: "bytes \<Rightarrow> string" where
  "hex_list bs = ''['' @ join_texts '', '' (map hex_byte bs) @ '']''"

definition raw_lines :: "'k os \<Rightarrow> raw_packet \<Rightarrow> string list" where
  "raw_lines os packet =
     [''received '' @ dec_digits (datagram_len packet) @ '' raw bytes source='' @
        debug_option (os_show_ip os) (rp_source_ip packet) @ '' group='' @
        debug_option (os_show_ip os) (rp_group packet) @ '' protocol='' @
        debug_option (\<lambda>p. dec_digits (unat p)) (rp_ip_protocol packet) @ '' ingress_if='' @
        debug_option show_u32 (md_ingress_interface_index (rp_metadata packet)),
      ''  first bytes: '' @ hex_list (take (min (datagram_len packet) MAX_PREVIEW_LEN) (rp_datagram packet))]"

definition raw_init :: "'k \<Rightarrow> 'k raw_program" where
  "raw_init k = \<lparr>pg_kernel = k, pg_console = [], wg_context = raw_context_new\<rparr>"

definition raw_start :: "'k os \<Rightarrow> bpf_abi \<Rightarrow> string list \<Rightarrow> ('k raw_program, unit) prog" where
  "raw_start os ba args =
     io_bind (with_usage raw_usage 2 (parse_raw_receive_cli_args os) args) (\<lambda>parsed.
     io_bind (on_raw_context (error_message os ''failed to add raw subscription'')
       (\<lambda>c. raw_add_subscription os ba c (raw_receive_config parsed))) (\<lambda>i.
     io_bind (on_raw_context (error_message os ''failed to join raw subscription'')
       (\<lambda>c. raw_join_subscription os c i)) (\<lambda>_.
     println (raw_banner os parsed i))))"

definition raw_turn :: "'k os \<Rightarrow> bpf_abi \<Rightarrow> (nat \<Rightarrow> 'k \<Rightarrow> 'k) \<Rightarrow> ('k raw_program, unit) prog" where
  "raw_turn os ba sleep =
     io_bind (raw_receiving (error_message os ''failed to receive raw packet'') (raw_try_recv_any os ba)) (\<lambda>received.
     case received of
       Some packet \<Rightarrow> println (raw_lines os packet)
     | None \<Rightarrow> thread_sleep sleep POLL_INTERVAL)"

definition raw_drop :: "'k os \<Rightarrow> 'k raw_program \<Rightarrow> 'k raw_program" where
  "raw_drop os st =
     st\<lparr>pg_kernel := fold (\<lambda>s. drop_raw_socket os (rsub_socket s)) (rctx_subscriptions (wg_context st)) (pg_kernel st),
        wg_context := raw_context_new\<rparr>"

definition raw_run ::
  "'k os \<Rightarrow> bpf_abi \<Rightarrow> (nat \<Rightarrow> 'k \<Rightarrow> 'k) \<Rightarrow> string list \<Rightarrow> 'k raw_program \<Rightarrow>
   ((failure + unit) \<times> 'k raw_program) option" where
  "raw_run os ba sleep args = program_run (raw_start os ba args) (raw_turn os ba sleep) (raw_drop os)"

definition raw_main ::
  "'k os \<Rightarrow> bpf_abi \<Rightarrow> (nat \<Rightarrow> 'k \<Rightarrow> 'k) \<Rightarrow> string list \<Rightarrow> 'k raw_program \<Rightarrow> (int \<times> 'k raw_program) option" where
  "raw_main os ba sleep args st = main_of ''mcrx-raw-recv'' (raw_run os ba sleep args st)"

section \<open>Receiving in a task\<close>

text \<open>
  What the task relies on: \<open>rt_first\<close> is the branch that \<open>select!\<close> polls first, which it chooses at
  random; \<open>rt_ctrl_c\<close> polls \<open>ctrl_c()\<close>; \<open>rt_park\<close> passes the time until the runtime polls the task
  again.
\<close>

record 'k runtime =
  rt_fd :: "'k async_fd"
  rt_timer :: "'k timer"
  rt_first :: "'k \<Rightarrow> bool \<times> 'k"
  rt_ctrl_c :: "'k \<Rightarrow> (io_error + unit) option \<times> 'k"
  rt_park :: "'k \<Rightarrow> 'k"

datatype selected =
    Received "tokio_receive_error + packet_with_metadata"
  | Signalled "io_error + unit"

text \<open>
  One poll of the \<open>select!\<close>: the second branch is polled only if the first is pending, and a branch
  that is ready drops the other one. \<open>sleeping\<close> belongs to the receive.
\<close>

definition poll_receive ::
  "'k os \<Rightarrow> 'k runtime \<Rightarrow> nat option \<Rightarrow> tokio_subscription \<Rightarrow> 'k \<Rightarrow>
   (selected option \<times> nat option \<times> tokio_subscription \<times> 'k) option" where
  "poll_receive os rt sleeping t k =
     map_option (\<lambda>(r, sleeping', t', k'). (map_option Received r, sleeping', t', k'))
       (tokio_recv_with_metadata os (rt_fd rt) (rt_timer rt) sleeping t k)"

definition poll_signal ::
  "'k runtime \<Rightarrow> nat option \<Rightarrow> tokio_subscription \<Rightarrow> 'k \<Rightarrow>
   (selected option \<times> nat option \<times> tokio_subscription \<times> 'k) option" where
  "poll_signal rt sleeping t k =
     (case rt_ctrl_c rt k of (r, k') \<Rightarrow> Some (map_option Signalled r, sleeping, t, k'))"

definition poll_both ::
  "(nat option \<Rightarrow> tokio_subscription \<Rightarrow> 'k \<Rightarrow> (selected option \<times> nat option \<times> tokio_subscription \<times> 'k) option) \<Rightarrow>
   (nat option \<Rightarrow> tokio_subscription \<Rightarrow> 'k \<Rightarrow> (selected option \<times> nat option \<times> tokio_subscription \<times> 'k) option) \<Rightarrow>
   nat option \<Rightarrow> tokio_subscription \<Rightarrow> 'k \<Rightarrow> (selected option \<times> nat option \<times> tokio_subscription \<times> 'k) option" where
  "poll_both f g sleeping t k =
     Option.bind (f sleeping t k) (\<lambda>(r, sleeping', t', k').
     case r of Some _ \<Rightarrow> Some (r, sleeping', t', k') | None \<Rightarrow> g sleeping' t' k')"

definition poll_select ::
  "'k os \<Rightarrow> 'k runtime \<Rightarrow> nat option \<Rightarrow> tokio_subscription \<Rightarrow> 'k \<Rightarrow>
   (selected option \<times> nat option \<times> tokio_subscription \<times> 'k) option" where
  "poll_select os rt sleeping t k =
     (case rt_first rt k of (receive_first, k') \<Rightarrow>
        if receive_first then poll_both (poll_receive os rt) (poll_signal rt) sleeping t k'
        else poll_both (poll_signal rt) (poll_receive os rt) sleeping t k')"

text \<open>\<open>None\<close> is a task that is never left ready.\<close>

partial_function (option) select_loop ::
  "'k os \<Rightarrow> 'k runtime \<Rightarrow> nat option \<Rightarrow> tokio_subscription \<Rightarrow> 'k \<Rightarrow> (selected \<times> tokio_subscription \<times> 'k) option" where
  "select_loop os rt sleeping t k =
     Option.bind (poll_select os rt sleeping t k) (\<lambda>(r, sleeping', t', k').
     case r of
       Some ready \<Rightarrow> Some (ready, t', k')
     | None \<Rightarrow> select_loop os rt sleeping' t' (rt_park rt k'))"

definition tokio_usage :: "string \<Rightarrow> string list" where
  "tokio_usage program =
     [''usage: '' @ program @ '' <group> <dst_port> [source] [interface]'',
      ''       '' @ program @ '' <group> <dst_port> [--source <source>] [--interface <interface>]'',
      ''  group      multicast group, e.g. 239.1.2.3 or ff01::1234'',
      ''  dst_port   destination UDP port'',
      ''  source     optional source for SSM'',
      ''  interface  optional local interface address'',
      ''examples:'',
      ''  '' @ program @ '' ff01::1234 5000 --interface ::1'',
      ''  '' @ program @ '' ff12::8000:1234 5000 --interface fe80::1%7'',
      ''  '' @ program @ '' ff12::8000:1234 5000 --interface fe80::1%en0'',
      ''  '' @ program @ '' ff1e::8000:1234 5000 --interface 7'',
      ''  '' @ program @ '' ff31::8000:1234 5000 <sender-ipv6> --interface <receiver-ipv6>'',
      ''notes:'',
      ''  - for IPv4 SSM, use 232.0.0.0/8 groups such as 232.1.2.3'',
      ''  - for IPv6 SSM, use ff3x::/32 groups such as ff3e::8000:1234'',
      ''  - for IPv6 SSM, pass --interface <receiver-ipv6-or-ifindex>; this is required on macOS'']"

definition extract_subscription :: "subscription_id \<Rightarrow> ('k udp_program, subscription) prog" where
  "extract_subscription i st =
     (case take_subscription (ug_context st) i of
        (None, c) \<Rightarrow> (Inl (Failed ''failed to extract subscription from context''), st\<lparr>ug_context := c\<rparr>)
      | (Some s, c) \<Rightarrow> (Inr s, st\<lparr>ug_context := c\<rparr>))"

definition tokio_start :: "'k os \<Rightarrow> 'k runtime \<Rightarrow> string list \<Rightarrow> ('k udp_program, tokio_subscription) prog" where
  "tokio_start os rt args =
     io_bind (with_usage tokio_usage 3 (parse_receive_cli_args os) args) (\<lambda>parsed.
     io_bind (add_and_join os parsed) (\<lambda>subscription_id.
     io_bind (extract_subscription subscription_id) (\<lambda>subscription.
     io_bind (on_kernel (\<lambda>err. ''failed to create tokio adapter: '' @ os_show_error os err)
       (tokio_new os (rt_fd rt) subscription)) (\<lambda>subscription.
     io_bind (println (receive_banner os ''mcrx-tokio-recv'' ''waiting for packets with Tokio ...'' parsed subscription_id)) (\<lambda>_.
     io_return subscription)))))"

definition tokio_error_display :: "'k os \<Rightarrow> tokio_receive_error \<Rightarrow> string" where
  "tokio_error_display os err =
     (case err of
        Readiness e \<Rightarrow> ''MCRX: tokio readiness failed: '' @ os_show_error os e
      | Receive e \<Rightarrow> mcrx_error_display (os_show_error os) e)"

text \<open>What a turn of the loop does with the branch that was ready; \<open>Inr False\<close> leaves the loop.\<close>

definition tokio_handle :: "'k os \<Rightarrow> selected \<Rightarrow> ('k udp_program, bool) prog" where
  "tokio_handle os ready =
     (case ready of
        Received (Inl err) \<Rightarrow> io_throw (Failed (''receive failed: '' @ tokio_error_display os err))
      | Received (Inr packet) \<Rightarrow> io_bind (println (meta_lines os packet)) (\<lambda>_. io_return True)
      | Signalled (Inl err) \<Rightarrow> io_throw (Failed (''failed to wait for Ctrl-C: '' @ os_show_error os err))
      | Signalled (Inr _) \<Rightarrow> io_bind (println [''shutting down'']) (\<lambda>_. io_return False))"

partial_function (option) tokio_loop ::
  "'k os \<Rightarrow> 'k runtime \<Rightarrow> tokio_subscription \<Rightarrow> 'k udp_program \<Rightarrow>
   ((failure + unit) \<times> tokio_subscription \<times> 'k udp_program) option" where
  "tokio_loop os rt t st =
     Option.bind (select_loop os rt None t (pg_kernel st)) (\<lambda>(ready, t', k).
     case tokio_handle os ready (st\<lparr>pg_kernel := k\<rparr>) of (r, st') \<Rightarrow>
       (case r of
          Inl e \<Rightarrow> Some (Inl e, t', st')
        | Inr goes_on \<Rightarrow> if goes_on then tokio_loop os rt t' st' else Some (Inr (), t', st')))"

text \<open>The adapter is dropped first, which closes its socket.\<close>

definition tokio_drop :: "'k os \<Rightarrow> tokio_subscription \<Rightarrow> 'k udp_program \<Rightarrow> 'k udp_program" where
  "tokio_drop os t st = st\<lparr>pg_kernel := os_close os (into_socket (tokio_inner t)) (pg_kernel st)\<rparr>"

definition tokio_run ::
  "'k os \<Rightarrow> 'k runtime \<Rightarrow> string list \<Rightarrow> 'k udp_program \<Rightarrow> ((failure + unit) \<times> 'k udp_program) option" where
  "tokio_run os rt args st =
     (case tokio_start os rt args st of
        (Inl e, st') \<Rightarrow> Some (Inl e, meta_drop os st')
      | (Inr t, st') \<Rightarrow>
          map_option (\<lambda>(r, t', st''). (r, meta_drop os (tokio_drop os t' st''))) (tokio_loop os rt t st'))"

definition tokio_main ::
  "'k os \<Rightarrow> 'k runtime \<Rightarrow> string list \<Rightarrow> 'k udp_program \<Rightarrow> (int \<times> 'k udp_program) option" where
  "tokio_main os rt args st = main_of ''mcrx-tokio-recv'' (tokio_run os rt args st)"

end
