(* ===== verification/Receiver.thy ===== *)
theory Receiver
  imports Console Jsonl ProcMetrics
begin

text \<open>
  \<open>src/bin/mcrx_recv.rs\<close>: the receiver that prints packets and, when the environment asks for it,
  periodic summaries of its metrics, to the console or to metrics files.
\<close>

section \<open>What the program relies on\<close>

text \<open>
  The environment is bytes by name; \<open>Instant\<close> is a number of nanoseconds; \<open>wd_fixed n\<close> prints a
  float with \<open>n\<close> decimals.
\<close>

record ('k, 'v, 'f) world =
  wd_os :: "'k os"
  wd_process :: "'k process_os"
  wd_float :: "'f f64_int_ops"
  wd_fixed :: "nat \<Rightarrow> 'f \<Rightarrow> string"
  wd_json :: "('v, 'f) json_ops"
  wd_u64 :: "u64 \<Rightarrow> 'v"          \<comment> \<open>\<open>json!\<close> of an integer\<close>
  wd_bool :: "bool \<Rightarrow> 'v"        \<comment> \<open>\<open>Value::Bool\<close>\<close>
  wd_env :: "string \<Rightarrow> string option"
  wd_instant :: "'k \<Rightarrow> int \<times> 'k"
  wd_sleep :: "nat \<Rightarrow> 'k \<Rightarrow> 'k"

abbreviation wd_f64 :: "('k, 'v, 'f) world \<Rightarrow> 'f f64_ops" where
  "wd_f64 W \<equiv> f64_ops.truncate (wd_float W)"

text \<open>\<open>env::var(name).ok()\<close>\<close>

definition env_var :: "('k, 'v, 'f) world \<Rightarrow> string \<Rightarrow> string option" where
  "env_var W name =
     Option.bind (wd_env W name) (\<lambda>value. if utf8_valid value then Some value else None)"

text \<open>
  \<open>Instant + Duration\<close> panics beyond what the clock of the target can hold: seconds are an \<open>i64\<close> on
  Unix and a \<open>u64\<close> on Windows.
\<close>

definition instant_limit :: "target \<Rightarrow> int" where
  "instant_limit target = (if target = WindowsTarget then 2 ^ 64 else 2 ^ 63) * 10 ^ 9"

definition instant_add :: "target \<Rightarrow> int \<Rightarrow> nat \<Rightarrow> int option" where
  "instant_add target t secs =
     (if t + int secs * 10 ^ 9 < instant_limit target then Some (t + int secs * 10 ^ 9) else None)"

text \<open>\<open>PathBuf::from\<close> of a text, on Unix.\<close>

fun path_parts :: "string \<Rightarrow> string \<Rightarrow> string list" where
  "path_parts cur [] = [cur]"
| "path_parts cur (c # s) = (if c = CHR ''/'' then cur # path_parts [] s else path_parts (cur @ [c]) s)"

definition path_from :: "string \<Rightarrow> path" where
  "path_from s =
     (let parts = path_parts [] s in
      (if s \<noteq> [] \<and> hd s = CHR ''/'' then [RootDir] else if hd parts = ''.'' then [CurDir] else []) @
      map (\<lambda>p. if p = ''..'' then ParentDir else Normal p) (filter (\<lambda>p. p \<noteq> [] \<and> p \<noteq> ''.'') parts))"

section \<open>The environment\<close>

text \<open>Seconds.\<close>

definition summary_interval_from_env :: "('k, 'v, 'f) world \<Rightarrow> nat option" where
  "summary_interval_from_env W =
     Option.bind (env_var W ''MCRX_METRICS_SUMMARY_SECS'') (\<lambda>raw.
     Option.bind (res_ok (parse_u64 raw)) (\<lambda>secs.
     if secs = 0 then None else Some (unat secs)))"

definition summary_file_from_env :: "('k, 'v, 'f) world \<Rightarrow> path option" where
  "summary_file_from_env W =
     Option.bind (env_var W ''MCRX_METRICS_SUMMARY_FILE'') (\<lambda>raw.
     if trim raw = [] then None else Some (path_from raw))"

definition file_extension :: "path \<Rightarrow> string option" where
  "file_extension p =
     Option.bind (file_name p) (\<lambda>n.
     Option.bind (rsplit_once CHR ''.'' n) (\<lambda>(before, after).
     if before = [] then None else Some after))"

definition to_str :: "string \<Rightarrow> string option" where
  "to_str s = (if utf8_valid s then Some s else None)"

definition hardware_summary_file_path :: "path \<Rightarrow> path" where
  "hardware_summary_file_path network_path =
     (let parent = unwrap_or (path_parent network_path) [];
          stem = unwrap_or (Option.bind (file_stem network_path) to_str) ''metrics'';
          extension = Option.bind (file_extension network_path) to_str;
          file_name =
            (case extension of
               Some ext \<Rightarrow> if ext \<noteq> [] then stem @ ''_hardware.'' @ ext else stem @ ''_hardware''
             | None \<Rightarrow> stem @ ''_hardware'')
      in parent @ [Normal file_name])"

definition metrics_node_id_from_env :: "('k, 'v, 'f) world \<Rightarrow> string option" where
  "metrics_node_id_from_env W =
     Option.bind (map_option trim (env_var W ''MCRX_METRICS_NODE_ID''))
       (\<lambda>value. if value \<noteq> [] then Some value else None)"

definition metrics_flags_from_env :: "('k, 'v, 'f) world \<Rightarrow> string + (string \<Rightarrow> 'v option)" where
  "metrics_flags_from_env W =
     (case env_var W ''MCRX_METRICS_FLAGS_JSON'' of
        None \<Rightarrow> Inr Map.empty
      | Some raw \<Rightarrow>
          (let trimmed = trim raw in
           if trimmed = [] then Inr Map.empty
           else
             (case js_from_str (wd_json W) trimmed of
                Inl err \<Rightarrow> Inl (''MCRX_METRICS_FLAGS_JSON must be valid JSON: '' @ err)
              | Inr parsed \<Rightarrow>
                  (case js_as_object (wd_json W) parsed of
                     Some m \<Rightarrow> Inr m
                   | None \<Rightarrow> Inl ''MCRX_METRICS_FLAGS_JSON must be a JSON object''))))"

definition receiver_flags :: "('k, 'v, 'f) world \<Rightarrow> receive_cli_args \<Rightarrow> string \<Rightarrow> 'v option" where
  "receiver_flags W parsed =
     (let str = js_string (wd_json W);
          flags =
            [''transport'' \<mapsto> str ''udp-multicast'',
             ''role'' \<mapsto> str ''receiver'',
             ''multicast_group'' \<mapsto> str (os_show_ip (wd_os W) (cli_group parsed)),
             ''multicast_port'' \<mapsto> wd_u64 W (ucast (cli_dst_port parsed)),
             ''multicast_interface'' \<mapsto>
               str (interface_string (wd_os W) (cli_interface parsed) (cli_interface_index parsed)),
             ''join_mode'' \<mapsto> str (if cli_source parsed \<noteq> None then ''ssm'' else ''asm''),
             ''source_filter'' \<mapsto> str (if cli_source parsed \<noteq> None then ''source-specific'' else ''any''),
             ''batch_receive_enabled'' \<mapsto> wd_bool W False]
      in case cli_source parsed of
           Some source \<Rightarrow> flags(''source_addr'' \<mapsto> str (os_show_ip (wd_os W) source))
         | None \<Rightarrow> flags)"

text \<open>\<open>entry(key).or_insert(value)\<close> for every flag of the environment.\<close>

definition build_receiver_metrics_flags ::
  "('k, 'v, 'f) world \<Rightarrow> receive_cli_args \<Rightarrow> string + (string \<Rightarrow> 'v option)" where
  "build_receiver_metrics_flags W parsed =
     res_bind (metrics_flags_from_env W) (\<lambda>extra.
     Inr (\<lambda>key. opt_or (receiver_flags W parsed key) (extra key)))"

record 'v metrics_jsonl_output_config =
  out_network_path :: path
  out_node_id :: string
  out_flags :: "string \<Rightarrow> 'v option"

definition summary_output_from_env ::
  "('k, 'v, 'f) world \<Rightarrow> receive_cli_args \<Rightarrow> string + 'v metrics_jsonl_output_config option" where
  "summary_output_from_env W parsed =
     (case summary_file_from_env W of
        None \<Rightarrow> Inr None
      | Some network_path \<Rightarrow>
          res_bind (build_receiver_metrics_flags W parsed) (\<lambda>flags.
          Inr (Some \<lparr>out_network_path = network_path,
                     out_node_id = unwrap_or (metrics_node_id_from_env W) (infer_node_id_from_path network_path),
                     out_flags = flags\<rparr>)))"

section \<open>State\<close>

record metrics_jsonl_writers =
  mw_network :: metrics_jsonl_writer
  mw_hardware :: "metrics_jsonl_writer option"

text \<open>The local variables of \<open>run\<close>, empty until they are declared, and the file system.\<close>

record ('k, 'f) recv_program = "'k udp_program" +
  rc_files :: store
  rc_interval :: "nat option"
  rc_sampler :: "context_metrics_snapshot sampler"
  rc_hardware :: "'f hardware_metrics_snapshot sampler option"
  rc_writers :: "metrics_jsonl_writers option"
  rc_next :: "int option"

type_synonym ('k, 'f, 'a) recv_prog = "(('k, 'f) recv_program, 'a) prog"

definition recv_init :: "'k \<Rightarrow> store \<Rightarrow> ('k, 'f) recv_program" where
  "recv_init k s =
     \<lparr>pg_kernel = k, pg_console = [], ug_context = context_new, rc_files = s, rc_interval = None,
      rc_sampler = sampler_new, rc_hardware = None, rc_writers = None, rc_next = None\<rparr>"

definition on_files :: "('k, 'v, 'f) world \<Rightarrow> string \<Rightarrow> 'a fs \<Rightarrow> ('k, 'f, 'a) recv_prog" where
  "on_files W prefix m st =
     (case m (rc_files st) of
        (r, s) \<Rightarrow> (map_sum (\<lambda>err. Failed (prefix @ '': '' @ os_show_error (wd_os W) err)) id r, st\<lparr>rc_files := s\<rparr>))"

section \<open>Summaries\<close>

definition NETWORK_ARTIFACT_TYPE :: string where "NETWORK_ARTIFACT_TYPE = ''mcrx-network''"
definition HARDWARE_ARTIFACT_TYPE :: string where "HARDWARE_ARTIFACT_TYPE = ''process-hardware''"
definition RECEIVER_PRODUCER :: string where "RECEIVER_PRODUCER = ''mcrx-core/mcrx_recv''"

definition receiver_header ::
  "('k, 'v, 'f) world \<Rightarrow> string \<Rightarrow> system_time \<Rightarrow> 'v metrics_jsonl_output_config \<Rightarrow> 'v" where
  "receiver_header W artifact_type created_at output =
     header_json (wd_json W) (wd_f64 W) artifact_type RECEIVER_PRODUCER (out_node_id output) created_at (out_flags output)"

text \<open>The network writer is dropped when the hardware writer cannot be opened.\<close>

definition open_writers ::
  "('k, 'v, 'f) world \<Rightarrow> 'v metrics_jsonl_output_config \<Rightarrow> bool \<Rightarrow> system_time \<Rightarrow> metrics_jsonl_writers fs" where
  "open_writers W output include_hardware created_at =
     io_bind (writer_open (wd_json W) (out_network_path output) (receiver_header W NETWORK_ARTIFACT_TYPE created_at output)) (\<lambda>network.
     if include_hardware
     then closing_on_error (writer_file network)
       (io_bind (writer_open (wd_json W) (hardware_summary_file_path (out_network_path output))
           (receiver_header W HARDWARE_ARTIFACT_TYPE created_at output)) (\<lambda>hardware.
        io_return \<lparr>mw_network = network, mw_hardware = Some hardware\<rparr>))
     else io_return \<lparr>mw_network = network, mw_hardware = None\<rparr>)"

definition system_now :: "('k, 'v, 'f) world \<Rightarrow> ('k, 'f, system_time) recv_prog" where
  "system_now W st = (case os_now (wd_os W) (pg_kernel st) of (t, k) \<Rightarrow> (Inr t, st\<lparr>pg_kernel := k\<rparr>))"

definition metrics_jsonl_writers_from_output ::
  "('k, 'v, 'f) world \<Rightarrow> 'v metrics_jsonl_output_config \<Rightarrow> bool \<Rightarrow> ('k, 'f, metrics_jsonl_writers) recv_prog" where
  "metrics_jsonl_writers_from_output W output include_hardware =
     io_bind (system_now W) (\<lambda>created_at.
     on_files W ''failed to initialize metrics JSONL output'' (open_writers W output include_hardware created_at))"

definition capture_current_process ::
  "('k, 'v, 'f) world \<Rightarrow> ('k, io_error, 'f hardware_metrics_snapshot) io" where
  "capture_current_process W =
     (if os_target (wd_os W) = Linux then capture_linux (wd_float W) (wd_process W)
      else capture_macos (wd_float W) (wd_process W))"

definition has_process_metrics :: "target \<Rightarrow> bool" where
  "has_process_metrics target \<longleftrightarrow> target = Linux \<or> target = Apple"

definition process_error :: "('k, 'v, 'f) world \<Rightarrow> string \<Rightarrow> io_error \<Rightarrow> string" where
  "process_error W prefix err = prefix @ '': '' @ os_show_error (wd_os W) err"

definition init_hardware_metrics_sampler ::
  "('k, 'v, 'f) world \<Rightarrow> ('k, 'f, 'f hardware_metrics_snapshot sampler option) recv_prog" where
  "init_hardware_metrics_sampler W =
     (if has_process_metrics (os_target (wd_os W))
      then io_bind (on_kernel (process_error W ''failed to capture initial hardware metrics'')
          (capture_current_process W)) (\<lambda>snapshot.
        io_return (Some (snd (hardware_sample (wd_f64 W) sampler_new snapshot))))
      else io_return None)"

definition capture_hardware_metrics_snapshot ::
  "('k, 'v, 'f) world \<Rightarrow> ('k, 'f, 'f hardware_metrics_snapshot option) recv_prog" where
  "capture_hardware_metrics_snapshot W =
     (if has_process_metrics (os_target (wd_os W))
      then io_bind (on_kernel (process_error W ''failed to capture hardware metrics'')
          (capture_current_process W)) (\<lambda>snapshot. io_return (Some snapshot))
      else io_return None)"

text \<open>Rows\<close>

definition network_row ::
  "('k, 'v, 'f) world \<Rightarrow> context_metrics_snapshot \<Rightarrow> 'f context_metrics_delta \<Rightarrow> string \<Rightarrow> 'v option" where
  "network_row W snapshot delta =
     (let num = js_number (wd_json W); int = wd_u64 W; fl = wd_f64 W in
      [''ts'' \<mapsto> num (unix_timestamp_secs fl (cms_captured_at snapshot)),
       ''interval_secs'' \<mapsto> num (cmd_interval_secs delta),
       ''active_subscriptions'' \<mapsto> int (of_nat (cms_active_subscriptions snapshot)),
       ''joined_subscriptions'' \<mapsto> int (of_nat (cms_joined_subscriptions snapshot)),
       ''packets_received_total'' \<mapsto> int (cms_total_packets_received snapshot),
       ''bytes_received_total'' \<mapsto> int (cms_total_bytes_received snapshot),
       ''packets_received_delta'' \<mapsto> int (cmd_packets_received delta),
       ''bytes_received_delta'' \<mapsto> int (cmd_bytes_received delta),
       ''would_block_count_total'' \<mapsto> int (cms_total_would_block_count snapshot),
       ''would_block_count_delta'' \<mapsto> int (cmd_would_block_count delta),
       ''receive_errors_total'' \<mapsto> int (cms_total_receive_errors snapshot),
       ''receive_errors_delta'' \<mapsto> int (cmd_receive_errors delta),
       ''join_count_total'' \<mapsto> int (cms_total_join_count snapshot),
       ''join_count_delta'' \<mapsto> int (cmd_join_count delta),
       ''leave_count_total'' \<mapsto> int (cms_total_leave_count snapshot),
       ''leave_count_delta'' \<mapsto> int (cmd_leave_count delta),
       ''batch_calls_total'' \<mapsto> int (cms_batch_calls snapshot),
       ''batch_calls_delta'' \<mapsto> int (cmd_batch_calls delta),
       ''batch_packets_received_total'' \<mapsto> int (cms_batch_packets_received snapshot),
       ''batch_packets_received_delta'' \<mapsto> int (cmd_batch_packets_received delta),
       ''packets_per_sec'' \<mapsto> num (ctx_packets_per_sec fl delta),
       ''bytes_per_sec'' \<mapsto> num (ctx_bytes_per_sec fl delta),
       ''would_block_per_sec'' \<mapsto> num (ctx_would_block_per_sec fl delta),
       ''receive_errors_per_sec'' \<mapsto> num (ctx_receive_errors_per_sec fl delta)])"

definition write_metrics_summary_jsonl ::
  "('k, 'v, 'f) world \<Rightarrow> context_metrics_snapshot \<Rightarrow> 'f context_metrics_delta \<Rightarrow> metrics_jsonl_writer \<Rightarrow> unit fs" where
  "write_metrics_summary_jsonl W snapshot delta writer =
     append_sample_row (wd_json W) writer (js_object (wd_json W) (network_row W snapshot delta))"

definition hardware_row ::
  "('k, 'v, 'f) world \<Rightarrow> 'f hardware_metrics_snapshot \<Rightarrow> 'f hardware_metrics_delta \<Rightarrow> string \<Rightarrow> 'v option" where
  "hardware_row W snapshot delta =
     (let num = js_number (wd_json W); int = wd_u64 W in
      [''ts'' \<mapsto> num (unix_timestamp_secs (wd_f64 W) (hms_captured_at snapshot)),
       ''interval_secs'' \<mapsto> num (hmd_interval_secs delta),
       ''cpu_user_secs'' \<mapsto> num (hmd_cpu_user_secs delta),
       ''cpu_system_secs'' \<mapsto> num (hmd_cpu_system_secs delta),
       ''cpu_total_secs'' \<mapsto> num (hmd_cpu_total_secs delta),
       ''cpu_util_percent'' \<mapsto> num (hmd_cpu_util_percent delta),
       ''rss_bytes'' \<mapsto> int (hmd_rss_bytes delta),
       ''virtual_memory_bytes'' \<mapsto> int (hmd_virtual_memory_bytes delta),
       ''thread_count'' \<mapsto> int (hmd_thread_count delta),
       ''open_fds'' \<mapsto> int (hmd_open_fds delta),
       ''page_faults_minor'' \<mapsto> int (hmd_page_faults_minor delta),
       ''page_faults_major'' \<mapsto> int (hmd_page_faults_major delta),
       ''ctx_switches_voluntary'' \<mapsto> int (hmd_ctx_switches_voluntary delta),
       ''ctx_switches_involuntary'' \<mapsto> int (hmd_ctx_switches_involuntary delta)])"

definition write_hardware_metrics_summary_jsonl ::
  "('k, 'v, 'f) world \<Rightarrow> 'f hardware_metrics_snapshot \<Rightarrow> 'f hardware_metrics_delta \<Rightarrow> metrics_jsonl_writer \<Rightarrow> unit fs" where
  "write_hardware_metrics_summary_jsonl W snapshot delta writer =
     append_sample_row (wd_json W) writer (js_object (wd_json W) (hardware_row W snapshot delta))"

text \<open>The console\<close>

definition show_u64 :: "u64 \<Rightarrow> string" where
  "show_u64 n = dec_digits (unat n)"

definition print_metrics_summary ::
  "('k, 'v, 'f) world \<Rightarrow> context_metrics_snapshot \<Rightarrow> 'f context_metrics_delta \<Rightarrow> ('k, 'f, unit) recv_prog" where
  "print_metrics_summary W snapshot delta =
     println
       [''[metrics]'',
        ''  interval_secs:         '' @ wd_fixed W 3 (cmd_interval_secs delta),
        ''  active_subscriptions:  '' @ dec_digits (cms_active_subscriptions snapshot),
        ''  joined_subscriptions:  '' @ dec_digits (cms_joined_subscriptions snapshot),
        ''  packets_received_total: '' @ show_u64 (cms_total_packets_received snapshot),
        ''  packets_received_delta: '' @ show_u64 (cmd_packets_received delta),
        ''  bytes_received_total:   '' @ show_u64 (cms_total_bytes_received snapshot),
        ''  bytes_received_delta:   '' @ show_u64 (cmd_bytes_received delta),
        ''  would_block_count_total: '' @ show_u64 (cms_total_would_block_count snapshot),
        ''  would_block_count_delta: '' @ show_u64 (cmd_would_block_count delta),
        ''  receive_errors_total:   '' @ show_u64 (cms_total_receive_errors snapshot),
        ''  receive_errors_delta:   '' @ show_u64 (cmd_receive_errors delta),
        ''  join_count_total:       '' @ show_u64 (cms_total_join_count snapshot),
        ''  join_count_delta:       '' @ show_u64 (cmd_join_count delta),
        ''  leave_count_total:      '' @ show_u64 (cms_total_leave_count snapshot),
        ''  leave_count_delta:      '' @ show_u64 (cmd_leave_count delta),
        ''  batch_calls_total:      '' @ show_u64 (cms_batch_calls snapshot),
        ''  batch_calls_delta:      '' @ show_u64 (cmd_batch_calls delta),
        ''  batch_packets_received_total: '' @ show_u64 (cms_batch_packets_received snapshot),
        ''  batch_packets_received_delta: '' @ show_u64 (cmd_batch_packets_received delta),
        ''  packets_per_sec:       '' @ wd_fixed W 3 (ctx_packets_per_sec (wd_f64 W) delta),
        ''  bytes_per_sec:         '' @ wd_fixed W 3 (ctx_bytes_per_sec (wd_f64 W) delta),
        ''  would_block_per_sec:   '' @ wd_fixed W 3 (ctx_would_block_per_sec (wd_f64 W) delta),
        ''  recv_errors_per_sec:   '' @ wd_fixed W 3 (ctx_receive_errors_per_sec (wd_f64 W) delta)]"

definition print_hardware_metrics_summary ::
  "('k, 'v, 'f) world \<Rightarrow> 'f hardware_metrics_delta \<Rightarrow> ('k, 'f, unit) recv_prog" where
  "print_hardware_metrics_summary W delta =
     println
       [''[hardware]'',
        ''  interval_secs:              '' @ wd_fixed W 3 (hmd_interval_secs delta),
        ''  cpu_user_secs:              '' @ wd_fixed W 6 (hmd_cpu_user_secs delta),
        ''  cpu_system_secs:            '' @ wd_fixed W 6 (hmd_cpu_system_secs delta),
        ''  cpu_total_secs:             '' @ wd_fixed W 6 (hmd_cpu_total_secs delta),
        ''  cpu_util_percent:           '' @ wd_fixed W 3 (hmd_cpu_util_percent delta),
        ''  rss_bytes:                  '' @ show_u64 (hmd_rss_bytes delta),
        ''  virtual_memory_bytes:       '' @ show_u64 (hmd_virtual_memory_bytes delta),
        ''  thread_count:               '' @ show_u64 (hmd_thread_count delta),
        ''  open_fds:                   '' @ show_u64 (hmd_open_fds delta),
        ''  page_faults_minor:          '' @ show_u64 (hmd_page_faults_minor delta),
        ''  page_faults_major:          '' @ show_u64 (hmd_page_faults_major delta),
        ''  ctx_switches_voluntary:     '' @ show_u64 (hmd_ctx_switches_voluntary delta),
        ''  ctx_switches_involuntary:   '' @ show_u64 (hmd_ctx_switches_involuntary delta)]"

section \<open>Starting\<close>

definition recv_usage :: "target \<Rightarrow> string \<Rightarrow> string list" where
  "recv_usage target program =
     [''Usage:'',
      ''  '' @ program @ '' <group> <dst_port> [source] [interface]'',
      ''  '' @ program @ '' <group> <dst_port> [--source <source>] [--interface <interface>]'',
      [],
      ''Examples:'',
      ''  '' @ program @ '' 239.1.2.3 5000'',
      ''  '' @ program @ '' 232.1.2.3 5000 192.168.1.10'',
      ''  '' @ program @ '' 232.1.2.3 5000 192.168.1.10 192.168.1.20'',
      ''  '' @ program @ '' ff01::1234 5000'',
      ''  '' @ program @ '' ff01::1234 5000 --interface ::1'',
      ''  '' @ program @ '' ff12::8000:1234 5000 --interface fe80::1%7'',
      ''  '' @ program @ '' ff12::8000:1234 5000 --interface fe80::1%en0'',
      ''  '' @ program @ '' ff1e::8000:1234 5000 --interface 7'',
      ''  '' @ program @ '' ff31::8000:1234 5000 <sender-ipv6> --interface <receiver-ipv6>'',
      [],
      ''Notes:'',
      ''  - omit <source> for ASM'',
      ''  - provide <source> for SSM'',
      ''  - for IPv4 SSM, use 232.0.0.0/8 groups such as 232.1.2.3'',
      ''  - use --interface for ASM when you want to set the join interface without also setting a source'',
      ''  - <interface> selects the local join interface address'',
      ''  - for IPv6, <interface> may also be a scoped address like fe80::1%7 or fe80::1%en0, or a numeric interface index'',
      ''  - for IPv6 SSM, use ff3x::/32 groups such as ff31::8000:1234 or ff3e::8000:1234'',
      ''  - for IPv6 SSM, pass --interface <receiver-ipv6-or-ifindex>; this is required on macOS'',
      ''  - for link-local IPv6 SSM groups such as ff32::/32, send from a fe80:: source'',
      [],
      ''Metrics (when built with --features metrics):'',
      ''  MCRX_METRICS_SUMMARY_SECS=<n>   emit a delta metrics summary every n seconds'',
      ''  MCRX_METRICS_NODE_ID=<id>       override JSONL header node_id (defaults to parent dir, then file stem)'',
      ''  MCRX_METRICS_FLAGS_JSON=<json>  merge extra JSON object fields into the header flags map'',
      (if has_process_metrics target
       then ''  MCRX_METRICS_SUMMARY_FILE=<p>   write single-header JSONL network metrics to <p> and process hardware metrics to a sibling *_hardware file''
       else ''  MCRX_METRICS_SUMMARY_FILE=<p>   write single-header JSONL network metrics to <p>'')]"

definition instant_now :: "('k, 'v, 'f) world \<Rightarrow> ('k, 'f, int) recv_prog" where
  "instant_now W st = (case wd_instant W (pg_kernel st) of (t, k) \<Rightarrow> (Inr t, st\<lparr>pg_kernel := k\<rparr>))"

text \<open>\<open>Instant::now() + interval\<close>\<close>

definition next_summary_at :: "('k, 'v, 'f) world \<Rightarrow> nat \<Rightarrow> ('k, 'f, int) recv_prog" where
  "next_summary_at W interval =
     io_bind (instant_now W) (\<lambda>now.
     case instant_add (os_target (wd_os W)) now interval of
       None \<Rightarrow> io_throw Panicked
     | Some deadline \<Rightarrow> io_return deadline)"

definition snapshot_now :: "('k, 'v, 'f) world \<Rightarrow> ('k, 'f, context_metrics_snapshot) recv_prog" where
  "snapshot_now W st =
     (case ctx_metrics_snapshot (wd_os W) (ug_context st) (pg_kernel st) of
        (snapshot, k) \<Rightarrow> (Inr snapshot, st\<lparr>pg_kernel := k\<rparr>))"

text \<open>An update of the locals.\<close>

definition assign :: "('s \<Rightarrow> 's) \<Rightarrow> ('s, unit) prog" where
  "assign f st = (Inr (), f st)"

text \<open>\<open>run\<close> up to its loop\<close>

definition receiver_start :: "('k, 'v, 'f) world \<Rightarrow> string list \<Rightarrow> ('k, 'f, unit) recv_prog" where
  "receiver_start W args =
     io_bind (with_usage (recv_usage (os_target (wd_os W))) 3 (parse_receive_cli_args (wd_os W)) args) (\<lambda>parsed.
     io_bind (add_and_join (wd_os W) parsed) (\<lambda>subscription_id.
     io_bind (println (receive_banner (wd_os W) ''mcrx-recv'' ''waiting for packets ...'' parsed subscription_id)) (\<lambda>_.
     io_bind (assign (\<lambda>st. st\<lparr>rc_interval := summary_interval_from_env W\<rparr>)) (\<lambda>_.
     io_bind (io_lift (map_sum Failed id (summary_output_from_env W parsed))) (\<lambda>summary_output.
     io_bind (snapshot_now W) (\<lambda>snapshot.
     io_bind (assign (\<lambda>st. st\<lparr>rc_sampler := snd (ctx_sample (wd_f64 W) sampler_new snapshot)\<rparr>)) (\<lambda>_.
     io_bind (init_hardware_metrics_sampler W) (\<lambda>hardware.
     io_bind (assign (\<lambda>st. st\<lparr>rc_hardware := hardware\<rparr>)) (\<lambda>_.
     io_bind
       (case summary_output of
          Some output \<Rightarrow>
            io_bind (metrics_jsonl_writers_from_output W output (hardware \<noteq> None)) (\<lambda>writers.
            assign (\<lambda>st. st\<lparr>rc_writers := Some writers\<rparr>))
        | None \<Rightarrow> io_return ()) (\<lambda>_.
     case summary_interval_from_env W of
       None \<Rightarrow> io_return ()
     | Some interval \<Rightarrow>
         io_bind (next_summary_at W interval) (\<lambda>deadline.
         assign (\<lambda>st. st\<lparr>rc_next := Some deadline\<rparr>))))))))))))"

section \<open>One turn of the loop\<close>

definition network_summary :: "('k, 'v, 'f) world \<Rightarrow> ('k, 'f, unit) recv_prog" where
  "network_summary W st =
     io_bind (snapshot_now W) (\<lambda>snapshot.
     case ctx_sample (wd_f64 W) (rc_sampler st) snapshot of
       (sampled, sampler) \<Rightarrow>
         io_bind (assign (\<lambda>st. st\<lparr>rc_sampler := sampler\<rparr>)) (\<lambda>_.
         case sampled of
           None \<Rightarrow> io_return ()
         | Some delta \<Rightarrow>
             (case rc_writers st of
                Some writers \<Rightarrow>
                  on_files W ''failed to write metrics summary''
                    (write_metrics_summary_jsonl W snapshot delta (mw_network writers))
              | None \<Rightarrow> print_metrics_summary W snapshot delta))) st"

definition hardware_summary :: "('k, 'v, 'f) world \<Rightarrow> ('k, 'f, unit) recv_prog" where
  "hardware_summary W st =
     (case rc_hardware st of
        None \<Rightarrow> io_return ()
      | Some hardware_sampler \<Rightarrow>
          io_bind (capture_hardware_metrics_snapshot W) (\<lambda>captured.
          case captured of
            None \<Rightarrow> io_return ()
          | Some snapshot \<Rightarrow>
              (case hardware_sample (wd_f64 W) hardware_sampler snapshot of
                 (sampled, sampler) \<Rightarrow>
                   io_bind (assign (\<lambda>st. st\<lparr>rc_hardware := Some sampler\<rparr>)) (\<lambda>_.
                   case sampled of
                     None \<Rightarrow> io_return ()
                   | Some delta \<Rightarrow>
                       (case rc_writers st of
                          Some writers \<Rightarrow>
                            (case mw_hardware writers of
                               Some writer \<Rightarrow>
                                 on_files W ''failed to write hardware metrics summary''
                                   (write_hardware_metrics_summary_jsonl W snapshot delta writer)
                             | None \<Rightarrow> io_return ())
                        | None \<Rightarrow> print_hardware_metrics_summary W delta))))) st"

definition receive_and_print :: "('k, 'v, 'f) world \<Rightarrow> ('k, 'f, unit) recv_prog" where
  "receive_and_print W =
     io_bind (receiving (error_message (wd_os W) ''receive failed'') (try_recv_any (wd_os W))) (\<lambda>received.
     case received of
       Some packet \<Rightarrow> println [recv_line (wd_os W) packet, payload_line packet]
     | None \<Rightarrow> thread_sleep (wd_sleep W) POLL_INTERVAL)"

definition summaries_when_due :: "('k, 'v, 'f) world \<Rightarrow> ('k, 'f, unit) recv_prog" where
  "summaries_when_due W st =
     (case (rc_interval st, rc_next st) of
        (Some interval, Some deadline) \<Rightarrow>
          io_bind (instant_now W) (\<lambda>now.
          if deadline \<le> now
          then
            io_bind (network_summary W) (\<lambda>_.
            io_bind (hardware_summary W) (\<lambda>_.
            io_bind (next_summary_at W interval) (\<lambda>deadline.
            assign (\<lambda>st. st\<lparr>rc_next := Some deadline\<rparr>))))
          else io_return ())
      | _ \<Rightarrow> io_return ()) st"

definition receiver_turn :: "('k, 'v, 'f) world \<Rightarrow> ('k, 'f, unit) recv_prog" where
  "receiver_turn W = io_bind (receive_and_print W) (\<lambda>_. summaries_when_due W)"

section \<open>The program\<close>

text \<open>The writers and the context are dropped when \<open>run\<close> is left.\<close>

definition writer_list :: "metrics_jsonl_writers option \<Rightarrow> metrics_jsonl_writer list" where
  "writer_list ws =
     (case ws of None \<Rightarrow> []
      | Some ws \<Rightarrow> (case mw_hardware ws of None \<Rightarrow> [] | Some w \<Rightarrow> [w]) @ [mw_network ws])"

definition receiver_drop :: "('k, 'v, 'f) world \<Rightarrow> ('k, 'f) recv_program \<Rightarrow> ('k, 'f) recv_program" where
  "receiver_drop W st =
     st\<lparr>rc_files := fold close_file (map writer_file (writer_list (rc_writers st))) (rc_files st),
        pg_kernel := drop_context (wd_os W) (ug_context st) (pg_kernel st),
        rc_writers := None, ug_context := context_new\<rparr>"

definition receiver_run ::
  "('k, 'v, 'f) world \<Rightarrow> string list \<Rightarrow> ('k, 'f) recv_program \<Rightarrow> ((failure + unit) \<times> ('k, 'f) recv_program) option" where
  "receiver_run W args = program_run (receiver_start W args) (receiver_turn W) (receiver_drop W)"

definition receiver_main ::
  "('k, 'v, 'f) world \<Rightarrow> string list \<Rightarrow> ('k, 'f) recv_program \<Rightarrow> (int \<times> ('k, 'f) recv_program) option" where
  "receiver_main W args st = main_of ''mcrx-recv'' (receiver_run W args st)"

end
