(* ===== verification/ReceiverCorrect.thy ===== *)
theory ReceiverCorrect
  imports Receiver JsonlInv
begin

text \<open>
  The receiver program and its files: what it writes is accepted by the writers of metrics files, its
  two files are different files and stay valid at every moment of every run, flags of the environment
  never replace its own, and no lock is held in the end.
\<close>

section \<open>Its files\<close>

lemma ascii_texts:
  "utf8_valid ''metrics_hardware''" "utf8_valid ''metrics''"
  using ascii_utf8 [of "''metrics_hardware''"] ascii_utf8 [of "''metrics''"] by simp_all

text \<open>The name of the hardware file, from the name of the network file.\<close>

definition hardware_name :: "string \<Rightarrow> string" where
  "hardware_name n =
     (let stem = unwrap_or (to_str (stem_of n)) ''metrics'';
          extension = Option.bind (file_extension [Normal n]) to_str in
      case extension of
        Some ext \<Rightarrow> if ext \<noteq> [] then stem @ ''_hardware.'' @ ext else stem @ ''_hardware''
      | None \<Rightarrow> stem @ ''_hardware'')"

lemma hardware_name_differs: "hardware_name n \<noteq> n"
proof (cases "CHR ''.'' \<in> set n")
  case False
  then show ?thesis
    using ascii_texts rsplit_once_last(2) [of "CHR ''.''" n]
    by (auto simp: hardware_name_def Let_def stem_of_def file_extension_def file_name_def to_str_def unwrap_or_def)
next
  case True
  then obtain b a where n: "n = b @ CHR ''.'' # a" "CHR ''.'' \<notin> set a" by (metis split_list_last)
  have split: "rsplit_once CHR ''.'' n = Some (b, a)" unfolding n(1) by (rule rsplit_once_last(1) [OF n(2)])
  have ext: "file_extension [Normal n] = (if b = [] then None else Some a)" and stem: "stem_of n = (if b = [] then n else b)"
    by (simp_all add: stem_of_def file_extension_def file_name_def split)
  show ?thesis
  proof (cases "b = []")
    case True
    then show ?thesis using ext stem ascii_texts
      by (auto simp: hardware_name_def Let_def to_str_def unwrap_or_def)
  next
    case False
    have "CHR ''.'' \<notin> set ''metrics_hardware''" by simp
    then have "''metrics_hardware'' \<noteq> n" unfolding n(1) by (metis in_set_conv_decomp)
    then show ?thesis using False ext stem ascii_texts n
      by (auto simp: hardware_name_def Let_def to_str_def unwrap_or_def simp del: utf8_valid.simps)
  qed
qed

lemma hardware_path_differs: "hardware_summary_file_path p \<noteq> p"
proof
  assume eq: "hardware_summary_file_path p = p"
  have "\<exists>q n. hardware_summary_file_path p = q @ [Normal n]"
    by (simp add: hardware_summary_file_path_def Let_def)
  then obtain q n where p: "p = q @ [Normal n]" unfolding eq by blast
  have "hardware_summary_file_path (q @ [Normal n]) = q @ [Normal (hardware_name n)]"
    by (simp add: hardware_summary_file_path_def hardware_name_def path_parent_def file_stem_def file_name_def
        file_extension_def unwrap_or_def Let_def)
  then have "q @ [Normal (hardware_name n)] = q @ [Normal n]" using eq p by metis
  then show False using hardware_name_differs [of n] by simp
qed

text \<open>Operations that leave a file alone.\<close>

definition same_file :: "path \<Rightarrow> store \<Rightarrow> store \<Rightarrow> bool" where
  "same_file q s s' \<longleftrightarrow> contents q s' = contents q s"

abbreviation leaves :: "path \<Rightarrow> 'a fs \<Rightarrow> bool" where
  "leaves q \<equiv> always (same_file q)"

named_theorems leaves_intros

lemma leaves_bind [leaves_intros]:
  "leaves q m \<Longrightarrow> (\<And>s a s'. m s = (Inr a, s') \<Longrightarrow> leaves q (f a)) \<Longrightarrow> leaves q (io_bind m f)"
  by (rule always_bind) (auto simp: same_file_def intro: transpI)

lemma leaves_pure [leaves_intros]:
  "leaves q (io_lift r)" "leaves q (io_return a)" "leaves q (io_throw e)"
  by (simp_all add: always_def same_file_def)

lemma close_contents [simp]: "contents q (close_file f s) = contents q s"
  by (simp add: close_file_def contents_def)

lemma leaves_closing [leaves_intros]: "leaves q m \<Longrightarrow> leaves q (closing_on_error f m)"
  unfolding always_def same_file_def closing_on_error_def
  by (metis (mono_tags, lifting) close_contents old.prod.case old.sum.exhaust old.sum.simps(5,6) snd_conv surj_pair)

lemma leaves_quiet: "(\<And>s r s'. m s = (r, s') \<Longrightarrow> quiet s s') \<Longrightarrow> leaves q m"
  unfolding always_def same_file_def by (metis quiet_def prod.collapse)

lemma leaves_calls [leaves_intros]:
  "leaves q (open_locked_jsonl_file js p)" "leaves q (seek_start f)" "leaves q (read_lines f)"
  by (auto intro: leaves_quiet dest: open_locked_quiet seek_quiet read_lines_quiet)

lemma leaves_write: "q \<noteq> f \<Longrightarrow> leaves q (write_all f bs)"
  by (auto simp: always_def same_file_def write_all_def next_fault_def contents_def split: list.splits option.splits)

lemma leaves_line [leaves_intros]: "q \<noteq> f \<Longrightarrow> leaves q (write_json_line js f v)"
  unfolding write_json_line_def by (intro leaves_intros leaves_write)

lemma leaves_header [leaves_intros]: "q \<noteq> f \<Longrightarrow> leaves q (ensure_header_in_locked_file js f v scan)"
  unfolding ensure_header_in_locked_file_def
  by (intro leaves_intros) (auto split: option.splits intro: leaves_intros)

lemma leaves_writer_open: "q \<noteq> p \<Longrightarrow> leaves q (writer_open js p v)"
  unfolding writer_open_def
  by (intro leaves_intros) (auto dest: open_locked_quiet intro: leaves_intros)

lemma leaves_append: "q \<noteq> writer_file w \<Longrightarrow> leaves q (append_sample_row js w v)"
  unfolding append_sample_row_def by (intro leaves_intros)

section \<open>The program's calls are steps of the system of writers\<close>

definition files_view :: "('k, 'f) recv_program \<Rightarrow> jsonl_system" where
  "files_view st = (writer_list (rc_writers st), rc_files st)"

definition writer_files :: "metrics_jsonl_writers option \<Rightarrow> path set" where
  "writer_files ws = writer_file ` set (writer_list ws)"

text \<open>A part of the program that uses the writers \<open>ws\<close> and keeps them.\<close>

definition by_writers ::
  "('v, 'f) json_ops \<Rightarrow> metrics_jsonl_writers option \<Rightarrow> ('k, 'f) recv_program \<Rightarrow> ('k, 'f) recv_program \<Rightarrow> bool" where
  "by_writers js ws st st' \<longleftrightarrow>
     (rc_writers st = ws \<longrightarrow>
        rc_writers st' = ws \<and> (jsonl_step js)\<^sup>*\<^sup>* (files_view st) (files_view st') \<and>
        (\<forall>q. q \<notin> writer_files ws \<longrightarrow> contents q (rc_files st') = contents q (rc_files st)))"

lemma by_writers_trans: "transp (by_writers js ws)"
  by (rule transpI) (auto simp: by_writers_def dest: rtranclp_trans)

abbreviation uses_writers :: "('v, 'f) json_ops \<Rightarrow> metrics_jsonl_writers option \<Rightarrow> ('k, 'f, 'a) recv_prog \<Rightarrow> bool" where
  "uses_writers js ws \<equiv> always (by_writers js ws)"

named_theorems uses_intros

lemma uses_bind [uses_intros]:
  "uses_writers js ws m \<Longrightarrow> (\<And>a. uses_writers js ws (f a)) \<Longrightarrow> uses_writers js ws (io_bind m f)"
  by (rule always_bind [OF by_writers_trans])

text \<open>A part that does not reach the files.\<close>

lemma uses_none:
  "(\<And>st. rc_files (snd (m st)) = rc_files st \<and> rc_writers (snd (m st)) = rc_writers st) \<Longrightarrow> uses_writers js ws m"
  by (simp add: always_def by_writers_def files_view_def)

lemma uses_pure [uses_intros]:
  "uses_writers js ws (io_lift r)" "uses_writers js ws (io_return a)" "uses_writers js ws (io_throw e)"
  "uses_writers js ws (on_kernel message h)" "uses_writers js ws (write_console ls)"
  "uses_writers js ws (thread_sleep sleep d)" "uses_writers js ws (on_context message2 g)"
  "uses_writers js ws (receiving message3 g')" "uses_writers js ws (system_now W)"
  "uses_writers js ws (instant_now W)" "uses_writers js ws (snapshot_now W)"
  by (rule uses_none, simp add: on_kernel_def write_console_def thread_sleep_def on_context_def receiving_def
      system_now_def instant_now_def snapshot_now_def split: prod.splits sum.splits option.splits)+

lemma uses_assign [uses_intros]:
  "(\<And>st. rc_files (f st) = rc_files st \<and> rc_writers (f st) = rc_writers st) \<Longrightarrow> uses_writers js ws (assign f)"
  by (rule uses_none) (simp add: assign_def)

lemma uses_append:
  assumes "w \<in> set (writer_list ws)"
  shows "uses_writers (wd_json W) ws (on_files W msg (append_sample_row (wd_json W) w row))"
proof -
  have "by_writers (wd_json W) ws st (snd (on_files W msg (append_sample_row (wd_json W) w row) st))" for st
  proof -
    obtain r s where a: "append_sample_row (wd_json W) w row (rc_files st) = (r, s)" by force
    then have run: "snd (on_files W msg (append_sample_row (wd_json W) w row) st) = st\<lparr>rc_files := s\<rparr>"
      by (simp add: on_files_def)
    have step: "jsonl_step (wd_json W) (files_view st) (files_view (st\<lparr>rc_files := s\<rparr>))" if "rc_writers st = ws"
      using step_append [OF assms a] that by (simp add: files_view_def)
    have "contents q s = contents q (rc_files st)" if "q \<notin> writer_files ws" for q
    proof -
      have "q \<noteq> writer_file w" using that assms by (auto simp: writer_files_def)
      from leaves_append [OF this] show ?thesis using a unfolding always_def same_file_def by (metis snd_conv)
    qed
    then show ?thesis unfolding run using step by (auto simp: by_writers_def)
  qed
  then show ?thesis by (simp add: always_def)
qed

lemma uses_state:
  "(\<And>st. rc_writers st = ws \<Longrightarrow> uses_writers js ws (g st)) \<Longrightarrow> uses_writers js ws (\<lambda>st. g st st)"
  unfolding always_def by_writers_def by blast

lemma uses_option [uses_intros]:
  "uses_writers js ws m \<Longrightarrow> (\<And>a. x = Some a \<Longrightarrow> uses_writers js ws (f a)) \<Longrightarrow>
     uses_writers js ws (case x of None \<Rightarrow> m | Some a \<Rightarrow> f a)"
  by (cases x) auto

lemma uses_if [uses_intros]:
  "uses_writers js ws m \<Longrightarrow> uses_writers js ws n \<Longrightarrow> uses_writers js ws (if b then m else n)"
  by simp

lemma uses_pair [uses_intros]:
  "(\<And>a b. uses_writers js ws (f a b)) \<Longrightarrow> uses_writers js ws (case x of (a, b) \<Rightarrow> f a b)"
  by (cases x) auto

lemma uses_prints [uses_intros]:
  "uses_writers js ws (print_metrics_summary W snapshot delta)"
  "uses_writers js ws (print_hardware_metrics_summary W hdelta)"
  unfolding print_metrics_summary_def print_hardware_metrics_summary_def by (rule uses_intros)+

lemma uses_captures [uses_intros]:
  "uses_writers js ws (init_hardware_metrics_sampler W)"
  "uses_writers js ws (capture_hardware_metrics_snapshot W)"
  "uses_writers js ws (next_summary_at W interval)"
  unfolding init_hardware_metrics_sampler_def capture_hardware_metrics_snapshot_def next_summary_at_def
  by (intro uses_intros)+

lemma uses_network_summary [uses_intros]: "uses_writers (wd_json W) ws (network_summary W)"
  unfolding network_summary_def [abs_def] write_metrics_summary_jsonl_def
  by (rule uses_state, intro uses_intros uses_append) (auto simp: writer_list_def split: option.splits)

lemma uses_hardware_summary [uses_intros]: "uses_writers (wd_json W) ws (hardware_summary W)"
  unfolding hardware_summary_def [abs_def] write_hardware_metrics_summary_jsonl_def
  by (rule uses_state, intro uses_intros uses_append) (auto simp: writer_list_def split: option.splits)

lemma uses_receive [uses_intros]: "uses_writers js ws (receive_and_print W)"
  unfolding receive_and_print_def by (intro uses_intros)

lemma uses_summaries [uses_intros]: "uses_writers (wd_json W) ws (summaries_when_due W)"
  unfolding summaries_when_due_def [abs_def]
  by (rule uses_state) (auto split: option.split intro!: uses_intros)

lemma uses_turn: "uses_writers (wd_json W) ws (receiver_turn W)"
  unfolding receiver_turn_def by (intro uses_intros)

text \<open>Opening the writers\<close>

lemma open_writers_steps:
  assumes "open_writers W output hw t s = (r, s')"
  shows "case r of
      Inl _ \<Rightarrow> (jsonl_step (wd_json W))\<^sup>*\<^sup>* ([], s) ([], s')
    | Inr ws \<Rightarrow> (jsonl_step (wd_json W))\<^sup>*\<^sup>* ([], s) (writer_list (Some ws), s')"
proof -
  let ?js = "wd_json W"
  let ?open = "writer_open ?js (out_network_path output) (receiver_header W NETWORK_ARTIFACT_TYPE t output)"
  let ?open_hw = "writer_open ?js (hardware_summary_file_path (out_network_path output))
    (receiver_header W HARDWARE_ARTIFACT_TYPE t output)"
  obtain r1 s1 where o: "?open s = (r1, s1)" by force
  show ?thesis
  proof (cases r1)
    case (Inl e)
    have "jsonl_step ?js ([], s) ([], s1)" by (rule step_open_failed [OF o [unfolded Inl]])
    then show ?thesis using assms o Inl by (auto simp: open_writers_def io_bind_def)
  next
    case (Inr w)
    have s1: "jsonl_step ?js ([], s) ([w], s1)" by (rule step_open [OF o [unfolded Inr]])
    show ?thesis
    proof (cases hw)
      case False
      then show ?thesis using assms o Inr s1 by (auto simp: open_writers_def io_bind_def writer_list_def)
    next
      case True
      obtain r2 s2 where h: "?open_hw s1 = (r2, s2)" by force
      show ?thesis
      proof (cases r2)
        case Inl2: (Inl e)
        then have res: "r = Inl e" "s' = close_file (writer_file w) s2"
          using assms o Inr True h by (auto simp: open_writers_def io_bind_def closing_on_error_def)
        have "jsonl_step ?js ([w], s1) ([w], s2)" by (rule step_open_failed [OF h [unfolded Inl2]])
        moreover have "jsonl_step ?js ([w], s2) ([], close_file (writer_file w) s2)"
          using step_drop [of w "[w]" ?js s2] by simp
        ultimately show ?thesis unfolding res using s1 by (auto intro: rtranclp.rtrancl_into_rtrancl)
      next
        case Inr2: (Inr w2)
        then have res: "r = Inr \<lparr>mw_network = w, mw_hardware = Some w2\<rparr>" "s' = s2"
          using assms o Inr True h by (auto simp: open_writers_def io_bind_def closing_on_error_def)
        have "jsonl_step ?js ([w], s1) ([w2, w], s2)" by (rule step_open [OF h [unfolded Inr2]])
        then show ?thesis unfolding res using s1
          by (auto simp: writer_list_def intro: rtranclp.rtrancl_into_rtrancl)
      qed
    qed
  qed
qed

lemma writer_open_file: "writer_open js p v s = (Inr w, s') \<Longrightarrow> writer_file w = p"
  by (auto simp: writer_open_def io_bind_def closing_on_error_def dest: open_locked_quiet
      split: sum.splits prod.splits)

lemma leaves_open_writers:
  "q \<noteq> out_network_path output \<Longrightarrow> q \<noteq> hardware_summary_file_path (out_network_path output) \<Longrightarrow>
   leaves q (open_writers W output hw t)"
  unfolding open_writers_def
  by (intro leaves_intros leaves_writer_open) (auto intro!: leaves_intros leaves_writer_open)

lemma open_writers_files:
  "open_writers W output hw t s = (Inr ws, s') \<Longrightarrow>
   writer_files (Some ws) \<subseteq> {out_network_path output, hardware_summary_file_path (out_network_path output)}"
  by (auto simp: open_writers_def io_bind_def closing_on_error_def writer_files_def writer_list_def
      dest: writer_open_file split: sum.splits prod.splits if_splits)

text \<open>The files that the environment names.\<close>

definition metrics_paths :: "('k, 'v, 'f) world \<Rightarrow> path set" where
  "metrics_paths W =
     (case summary_file_from_env W of None \<Rightarrow> {} | Some p \<Rightarrow> {p, hardware_summary_file_path p})"

text \<open>What a part of the program may do to files, once it may also open its writers.\<close>

definition by_program :: "('k, 'v, 'f) world \<Rightarrow> ('k, 'f) recv_program \<Rightarrow> ('k, 'f) recv_program \<Rightarrow> bool" where
  "by_program W st st' \<longleftrightarrow>
     (jsonl_step (wd_json W))\<^sup>*\<^sup>* (files_view st) (files_view st') \<and>
     (writer_files (rc_writers st) \<subseteq> metrics_paths W \<longrightarrow>
        writer_files (rc_writers st') \<subseteq> metrics_paths W \<and>
        (\<forall>q. q \<notin> metrics_paths W \<longrightarrow> contents q (rc_files st') = contents q (rc_files st)))"

lemma by_program_trans:
  assumes "by_program W st st'" and "by_program W st' st''"
  shows "by_program W st st''"
proof -
  have 1: "(jsonl_step (wd_json W))\<^sup>*\<^sup>* (files_view st) (files_view st')"
    and 2: "(jsonl_step (wd_json W))\<^sup>*\<^sup>* (files_view st') (files_view st'')"
    using assms by (simp_all add: by_program_def)
  have frame: "writer_files (rc_writers t) \<subseteq> metrics_paths W \<Longrightarrow>
      writer_files (rc_writers t') \<subseteq> metrics_paths W \<and>
      (\<forall>q. q \<notin> metrics_paths W \<longrightarrow> contents q (rc_files t') = contents q (rc_files t))"
    if "by_program W t t'" for t t'
    using that by (simp add: by_program_def)
  note frame1 = frame [OF assms(1)] and frame2 = frame [OF assms(2)]
  show ?thesis
    unfolding by_program_def
  proof (intro conjI impI allI)
    show "(jsonl_step (wd_json W))\<^sup>*\<^sup>* (files_view st) (files_view st'')" by (rule rtranclp_trans [OF 1 2])
    assume s: "writer_files (rc_writers st) \<subseteq> metrics_paths W"
    from frame1 [OF s] have s': "writer_files (rc_writers st') \<subseteq> metrics_paths W" by (rule conjunct1)
    then show "writer_files (rc_writers st'') \<subseteq> metrics_paths W" using frame2 by blast
    fix q assume q: "q \<notin> metrics_paths W"
    have "contents q (rc_files st'') = contents q (rc_files st')" using frame2 [OF s'] q by blast
    also have "\<dots> = contents q (rc_files st)" using frame1 [OF s] q by blast
    finally show "contents q (rc_files st'') = contents q (rc_files st)" .
  qed
qed

lemma uses_by_program: "uses_writers (wd_json W) (rc_writers st) m \<Longrightarrow> by_program W st (snd (m st))"
proof -
  assume "uses_writers (wd_json W) (rc_writers st) m"
  then have "by_writers (wd_json W) (rc_writers st) st (snd (m st))" by (simp add: always_def)
  then show ?thesis by (auto simp: by_writers_def by_program_def)
qed

text \<open>The part up to the opening, the opening, and the part behind it.\<close>

definition opens_writers :: "('k, 'v, 'f) world \<Rightarrow> ('k, 'f, 'a) recv_prog \<Rightarrow> bool" where
  "opens_writers W m \<longleftrightarrow> (\<forall>st. rc_writers st = None \<longrightarrow> by_program W st (snd (m st)))"

lemma opens_before:
  fixes W :: "('k, 'v, 'f) world"
  assumes "uses_writers (wd_json W) None m" and "\<And>s a s'. m s = (Inr a, s') \<Longrightarrow> opens_writers W (f a)"
  shows "opens_writers W (io_bind m f)"
  unfolding opens_writers_def
proof (intro allI impI)
  fix st :: "('k, 'f) recv_program" assume none: "rc_writers st = None"
  obtain r st1 where m: "m st = (r, st1)" by force
  have 1: "by_program W st st1" "rc_writers st1 = None"
    using uses_by_program [of W st m] assms(1) none m by (auto simp: always_def by_writers_def dest: spec [of _ st])
  show "by_program W st (snd (io_bind m f st))"
  proof (cases r)
    case (Inr a)
    then have "by_program W st1 (snd (f a st1))" using assms(2) m 1(2) by (auto simp: opens_writers_def)
    with 1(1) show ?thesis using m Inr by (simp add: io_bind_def by_program_trans)
  qed (use m 1 in \<open>simp add: io_bind_def\<close>)
qed

lemma opens_after:
  fixes W :: "('k, 'v, 'f) world"
  assumes "opens_writers W m" and "\<And>a ws. uses_writers (wd_json W) ws (f a)"
  shows "opens_writers W (io_bind m f)"
  unfolding opens_writers_def
proof (intro allI impI)
  fix st :: "('k, 'f) recv_program" assume none: "rc_writers st = None"
  obtain r st1 where m: "m st = (r, st1)" by force
  have 1: "by_program W st st1" using assms(1) none m by (auto simp: opens_writers_def dest: spec [of _ st])
  show "by_program W st (snd (io_bind m f st))"
  proof (cases r)
    case (Inr a)
    have "by_program W st1 (snd (f a st1))" using assms(2) by (rule uses_by_program)
    with 1 show ?thesis using m Inr by (simp add: io_bind_def by_program_trans)
  qed (use m 1 in \<open>simp add: io_bind_def\<close>)
qed

lemma opens_open:
  assumes "summary_file_from_env W = Some (out_network_path output)"
  shows "opens_writers W
    (io_bind (metrics_jsonl_writers_from_output W output hw) (\<lambda>writers. assign (\<lambda>st. st\<lparr>rc_writers := Some writers\<rparr>)))"
proof -
  have "by_program W st (snd (io_bind (on_files W msg (open_writers W output hw t))
      (\<lambda>writers. assign (\<lambda>st. st\<lparr>rc_writers := Some writers\<rparr>)) st))" if none: "rc_writers st = None" for t msg st
  proof -
    obtain r s where o: "open_writers W output hw t (rc_files st) = (r, s)" by force
    have same: "q \<notin> metrics_paths W \<Longrightarrow> contents q s = contents q (rc_files st)" for q
    proof -
      assume "q \<notin> metrics_paths W"
      then have "leaves q (open_writers W output hw t)"
        using assms by (intro leaves_open_writers) (simp_all add: metrics_paths_def)
      then show ?thesis using o unfolding always_def same_file_def by (metis snd_conv)
    qed
    show ?thesis
    proof (cases r)
      case (Inl e)
      then show ?thesis using open_writers_steps [OF o] same none o
        by (simp add: io_bind_def on_files_def by_program_def files_view_def writer_list_def writer_files_def)
    next
      case (Inr ws)
      then have "writer_files (Some ws) \<subseteq> metrics_paths W"
        using open_writers_files o assms by (fastforce simp: metrics_paths_def)
      then show ?thesis using open_writers_steps [OF o] same none o Inr
        by (simp add: io_bind_def on_files_def assign_def by_program_def files_view_def)
          (simp add: writer_list_def)
    qed
  qed
  then have "opens_writers W (io_bind (on_files W msg (open_writers W output hw t))
      (\<lambda>writers. assign (\<lambda>st. st\<lparr>rc_writers := Some writers\<rparr>)))" for t msg
    by (simp add: opens_writers_def)
  then have "opens_writers W (io_bind (system_now W) (\<lambda>t. io_bind
      (on_files W ''failed to initialize metrics JSONL output'' (open_writers W output hw t))
      (\<lambda>writers. assign (\<lambda>st. st\<lparr>rc_writers := Some writers\<rparr>))))"
    by (rule opens_before [OF uses_pure(9)])
  then show ?thesis by (simp add: metrics_jsonl_writers_from_output_def io_laws)
qed

lemma opens_none: "uses_writers (wd_json W) None m \<Longrightarrow> opens_writers W m"
  unfolding opens_writers_def using uses_by_program [of W _ m] by force

lemma uses_usage [uses_intros]: "uses_writers js ws (with_usage usage n parse args)"
  by (rule uses_none)
    (auto simp: with_usage_def on_kernel_def io_bind_def write_console_def split: list.split prod.split sum.split)

lemma uses_join [uses_intros]: "uses_writers js ws (add_and_join os parsed)"
  unfolding add_and_join_def by (intro uses_intros)

lemma opens_output:
  assumes "io_lift (map_sum Failed id (summary_output_from_env W parsed)) s = (Inr out, s')"
  shows "opens_writers W (case out of
        Some cfg \<Rightarrow> io_bind (metrics_jsonl_writers_from_output W cfg hw)
          (\<lambda>writers. assign (\<lambda>st. st\<lparr>rc_writers := Some writers\<rparr>))
      | None \<Rightarrow> io_return ())"
proof (cases out)
  case None
  then show ?thesis by (simp add: opens_none uses_pure)
next
  case (Some cfg)
  then have "summary_file_from_env W = Some (out_network_path cfg)"
    using assms by (cases "summary_output_from_env W parsed")
      (auto simp: summary_output_from_env_def res_bind_def split: option.splits sum.splits)
  then show ?thesis using Some opens_open by simp
qed

lemma start_opens: "opens_writers W (receiver_start W args)"
  unfolding receiver_start_def
  apply ((rule opens_before, (intro uses_intros; simp; fail)[1])+)
  apply (rule opens_after, erule opens_output)
  apply (intro uses_intros; simp)
  done

section \<open>Runs\<close>

text \<open>
  The states at the turns of the loop, and the state in which \<open>run\<close> is left with its error; \<open>None\<close>
  while it goes on.
\<close>

abbreviation receiver_at ::
  "('k, 'v, 'f) world \<Rightarrow> string list \<Rightarrow> ('k, 'f) recv_program \<Rightarrow> failure option \<Rightarrow> ('k, 'f) recv_program \<Rightarrow> bool" where
  "receiver_at W args \<equiv> program_at (receiver_start W args) (receiver_turn W)"

lemma at_files: "receiver_at W args st0 e st \<Longrightarrow> rc_writers st0 = None \<Longrightarrow> by_program W st0 st"
proof (induction rule: program_at.induct)
  case (at_start r st)
  then show ?case using start_opens [of W args] unfolding opens_writers_def by (metis snd_conv)
next
  case (at_turn st r st')
  have "by_program W st (snd (receiver_turn W st))" by (rule uses_by_program) (rule uses_turn)
  with at_turn show ?case using by_program_trans by fastforce
qed

lemma close_all:
  "contents q (fold close_file fs s) = contents q s \<and> set (locked (fold close_file fs s)) = set (locked s) - set fs"
  by (induction fs arbitrary: s) (auto simp: close_file_def contents_def)

lemma at_valid:
  fixes W :: "('k, 'v, 'f) world"
  assumes "receiver_at W args (recv_init k s) e st"
    and "\<forall>v. reads_back (wd_json W) v" and "sound (wd_json W) s" and "locked s = []"
  shows "(\<forall>p. document (wd_json W) (contents p (rc_files st))) \<and> grows (wd_json W) s (rc_files st) \<and>
      (\<forall>p. p \<notin> metrics_paths W \<longrightarrow> contents p (rc_files st) = contents p s) \<and>
      locked (rc_files st) = map writer_file (writer_list (rc_writers st)) \<and> distinct (locked (rc_files st)) \<and>
      set (locked (rc_files st)) \<subseteq> metrics_paths W"
proof -
  have prog: "by_program W (recv_init k s) st" using assms(1) by (rule at_files) (simp add: recv_init_def)
  have view: "files_view (recv_init k s :: ('k, 'f) recv_program) = ([], s)"
    by (simp add: files_view_def recv_init_def writer_list_def)
  have "system_inv (wd_json W) s ([], s)" using assms(3,4) by (auto simp: system_inv_def)
  then have "system_inv (wd_json W) s (files_view st)"
    using steps_inv [OF _ assms(2), of "([], s)" "files_view st" s] prog view unfolding by_program_def by simp
  then have inv: "sound (wd_json W) (rc_files st)" "grows (wd_json W) s (rc_files st)"
    "locked (rc_files st) = map writer_file (writer_list (rc_writers st))" "distinct (locked (rc_files st))"
    unfolding system_inv_def files_view_def fst_conv snd_conv by blast+
  have "writer_files (rc_writers st) \<subseteq> metrics_paths W"
    "\<And>p. p \<notin> metrics_paths W \<Longrightarrow> contents p (rc_files st) = contents p s"
    using prog by (simp_all add: by_program_def recv_init_def writer_files_def writer_list_def)
  then show ?thesis using inv by (simp add: writer_files_def sound_def)
qed

section \<open>A concrete instance\<close>

text \<open>
  JSON whose objects are written as one letter: a header, or a row that repeats no field of a header.
\<close>

datatype demo_json = JObject "string \<Rightarrow> demo_json option" | JString string | JNumber int | JBool bool

definition json_base :: "(demo_json, int) json_ops" where
  "json_base =
     \<lparr>js_to_vec = (\<lambda>v. Inl []), js_from_str = (\<lambda>s. Inl []),
      js_as_object = (\<lambda>v. case v of JObject m \<Rightarrow> Some m | _ \<Rightarrow> None),
      js_as_str = (\<lambda>v. case v of JString t \<Rightarrow> Some t | _ \<Rightarrow> None),
      js_as_f64 = (\<lambda>v. case v of JNumber n \<Rightarrow> Some n | _ \<Rightarrow> None),
      js_is_finite = (\<lambda>x. True), js_object = JObject, js_string = JString, js_number = JNumber,
      js_windows = False, js_show_error = (\<lambda>e. ''error''), js_contended = CustomError WouldBlock ''locked''\<rparr>"

definition json_header :: demo_json where
  "json_header = JObject
     [''schema'' \<mapsto> JString HEIMDALL_JSONL_SCHEMA, ''artifact_type'' \<mapsto> JString ''t'', ''node_id'' \<mapsto> JString ''n'',
      ''producer'' \<mapsto> JString ''p'', ''created_at'' \<mapsto> JNumber 0, ''flags'' \<mapsto> JObject Map.empty]"

definition demo_json_ops :: "(demo_json, int) json_ops" where
  "demo_json_ops = json_base
     \<lparr>js_to_vec := (\<lambda>v. if is_header_object json_base v then Inr ''H''
        else if repeated_header_field json_base v = None then Inr ''R'' else Inl ''unsupported''),
      js_from_str := (\<lambda>s. if s = ''H'' then Inr json_header else if s = ''R'' then Inr (JObject Map.empty) else Inl ''bad'')\<rparr>"

lemma demo_json_same:
  "is_header_object demo_json_ops = is_header_object json_base"
  "repeated_header_field demo_json_ops = repeated_header_field json_base"
proof -
  have sel: "js_as_object demo_json_ops = js_as_object json_base" "js_as_str demo_json_ops = js_as_str json_base"
    "js_as_f64 demo_json_ops = js_as_f64 json_base" "js_is_finite demo_json_ops = js_is_finite json_base"
    by (simp_all add: demo_json_ops_def)
  then have get: "value_get demo_json_ops = value_get json_base" "value_is_object demo_json_ops = value_is_object json_base"
    by (simp_all add: fun_eq_iff value_get_def value_is_object_def)
  show "is_header_object demo_json_ops = is_header_object json_base"
    "repeated_header_field demo_json_ops = repeated_header_field json_base"
    by (rule ext, simp only: is_header_object_def repeated_header_field_def get sel)+
qed

lemma header_repeats:
  assumes "is_header_object json_base v"
  shows "repeated_header_field json_base v = Some ''schema''"
proof -
  have "value_get json_base v ''schema'' \<noteq> None"
    using assms by (cases "value_get json_base v ''schema''") (simp_all add: is_header_object_def Let_def)
  then obtain m where "js_as_object json_base v = Some m" "m ''schema'' \<noteq> None"
    by (cases "js_as_object json_base v") (auto simp: value_get_def)
  then show ?thesis by (simp add: repeated_header_field_def HEADER_ONLY_KEYS_def)
qed

lemma demo_json_reads_back: "reads_back demo_json_ops v"
proof -
  have letters: "utf8_valid ''H''" "utf8_valid ''R''" "\<not> blank ''H''" "\<not> blank ''R''"
    by (simp_all add: utf8_tail.simps white_space_tail.simps byte_in_def)
  have header: "is_header_object json_base json_header"
    by (simp add: is_header_object_def json_header_def json_base_def value_get_def value_is_object_def is_some_and_def)
  have row: "\<not> is_header_object json_base (JObject Map.empty)" "repeated_header_field json_base (JObject Map.empty) = None"
    by (simp_all add: is_header_object_def json_base_def value_get_def repeated_header_field_def find_None_iff)
  have vec: "js_to_vec demo_json_ops v = (if is_header_object json_base v then Inr ''H''
      else if repeated_header_field json_base v = None then Inr ''R'' else Inl ''unsupported'')"
    and str: "js_from_str demo_json_ops ''H'' = Inr json_header" "js_from_str demo_json_ops ''R'' = Inr (JObject Map.empty)"
    by (simp_all add: demo_json_ops_def)
  have written: "written_as demo_json_ops v c w"
    if "js_from_str demo_json_ops c = Inr w" "c = ''H'' \<or> c = ''R''"
      "is_header_object json_base w = is_header_object json_base v"
      "repeated_header_field json_base w = repeated_header_field json_base v" for c w
    using that letters by (auto simp: written_as_def demo_json_same strip_cr_def)
  have "written_as demo_json_ops v ''H'' json_header" if "is_header_object json_base v"
    using written [OF str(1)] that header header_repeats by simp
  moreover have "written_as demo_json_ops v ''R'' (JObject Map.empty)"
    if "\<not> is_header_object json_base v" "repeated_header_field json_base v = None"
    using written [OF str(2)] that row by simp
  ultimately show ?thesis by (simp add: reads_back_def vec str)
qed

definition demo_floats :: "int f64_int_ops" where
  "demo_floats =
     \<lparr>f_from_u64 = uint, f_zero = 0, f_hundred = 100, f_add = (+), f_sub = (-), f_mul = (*), f_div = (div),
      f_less = (<), f_as_secs = (\<lambda>n. int n div 10 ^ 9), f_from_int = id, f_million = 10 ^ 6\<rparr>"

definition demo_process_os :: "sim process_os" where
  "demo_process_os =
     \<lparr>po_read = (\<lambda>path k.
        (Inr (if path = ''/proc/self/stat'' then stat_text 42 ''a) (b'' demo_fields
              else status_text [''Name: a) (b''] 5 6), k)),
      po_read_dir_count = (\<lambda>path k. (Inr 4, k)), po_sysconf = (\<lambda>n. 4096),
      po_getrusage = (\<lambda>k. ((0, \<lparr>ru_utime = \<lparr>tv_sec = 0, tv_usec = 0\<rparr>, ru_stime = \<lparr>tv_sec = 0, tv_usec = 0\<rparr>,
        ru_minflt = 0, ru_majflt = 0, ru_nvcsw = 0, ru_nivcsw = 0\<rparr>), k)),
      po_proc_pidinfo = (\<lambda>n k. ((n, \<lparr>pti_virtual_size = 0, pti_resident_size = 0, pti_threadnum = 1\<rparr>), k)),
      po_last_os_error = (\<lambda>k. OsError KindOther 0), po_now = (\<lambda>k. (0, k))\<rparr>"

definition demo_world :: "(string \<Rightarrow> string option) \<Rightarrow> (sim, demo_json, int) world" where
  "demo_world environment =
     \<lparr>wd_os = sim_os Linux, wd_process = demo_process_os, wd_float = demo_floats, wd_fixed = (\<lambda>n x. dec_digits (nat x)),
      wd_json = demo_json_ops, wd_u64 = (\<lambda>n. JNumber (uint n)), wd_bool = JBool, wd_env = environment,
      wd_instant = (\<lambda>k. (max 0 (sim_clock k), k)), wd_sleep = (\<lambda>d k. k\<lparr>sim_clock := sim_clock k + int d\<rparr>)\<rparr>"

definition demo_env :: "string \<Rightarrow> string option" where
  "demo_env = [''MCRX_METRICS_SUMMARY_FILE'' \<mapsto> ''m.jsonl'', ''MCRX_METRICS_SUMMARY_SECS'' \<mapsto> ''1'']"

definition demo_args :: "string list" where
  "demo_args = [''mcrx_recv'', ''239.1.2.3'', ''5000'']"

text \<open>The demonstration program when it enters its loop, or fails to.\<close>

abbreviation demo_started :: "(string \<Rightarrow> string option) \<Rightarrow> (failure + unit) \<times> (sim, int) recv_program" where
  "demo_started environment \<equiv>
     receiver_start (demo_world environment) demo_args (recv_init sim_init demo_store)"

lemma demo_at: "receiver_at (demo_world environment) demo_args (recv_init sim_init demo_store)
    (res_err (fst (demo_started environment))) (snd (demo_started environment))"
  by (rule at_start) simp

lemma demo_store_sound: "sound demo_json_ops demo_store" "locked demo_store = []"
  by (simp_all add: sound_def whole_writes_def demo_store_def contents_def document_Nil)

lemma demo_world_json [simp]: "wd_json (demo_world environment) = demo_json_ops"
  by (simp add: demo_world_def)

lemma demo_paths: "metrics_paths (demo_world demo_env) = {[Normal ''m.jsonl''], [Normal ''m_hardware.jsonl'']}"
proof -
  have ascii: "utf8_valid ''m.jsonl''" "utf8_valid ''jsonl''" "utf8_valid ''m''"
    by (rule ascii_utf8; simp)+
  have "trim ''m.jsonl'' \<noteq> []"
    by (simp add: trim_def white_space_tail.simps byte_in_def)
  then have "summary_file_from_env (demo_world demo_env) = Some [Normal ''m.jsonl'']"
    using ascii by (simp add: summary_file_from_env_def env_var_def demo_world_def demo_env_def path_from_def del: utf8_valid.simps)
  moreover have "hardware_summary_file_path [Normal ''m.jsonl''] = [Normal ''m_hardware.jsonl'']"
    using ascii rsplit_once_last(1) [of "CHR ''.''" "''jsonl''" "''m''"]
    by (simp add: hardware_summary_file_path_def path_parent_def file_stem_def file_extension_def file_name_def
        stem_of_def to_str_def unwrap_or_def Let_def del: utf8_valid.simps)
  ultimately show ?thesis by (simp add: metrics_paths_def)
qed



section \<open>What it writes is accepted\<close>

lemma node_id_nonempty:
  "infer_node_id_from_path p \<noteq> []" "metrics_node_id_from_env W = Some i \<Longrightarrow> i \<noteq> []"
  by (auto simp: infer_node_id_from_path_def unwrap_or_def opt_or_def metrics_node_id_from_env_def
      split: option.splits bind_splits if_splits)

lemma header_accepted:
  assumes "\<forall>m. js_as_object js (js_object js m) = Some m" and "\<forall>s. js_as_str js (js_string js s) = Some s"
    and "\<forall>x. js_as_f64 js (js_number js x) = Some x" and "js_is_finite js (unix_timestamp_secs fl t)"
    and "kind \<noteq> []" and "producer \<noteq> []" and "node \<noteq> []"
  shows "validate_requested_header js (header_json js fl kind producer node t flags) = Inr ()"
  using assms
  by (simp add: validated is_header_object_def header_json_def value_get_def value_is_object_def is_some_and_def)

lemma row_accepted:
  assumes "\<forall>m. js_as_object js (js_object js m) = Some m" and "\<forall>key \<in> set HEADER_ONLY_KEYS. row key = None"
  shows "validate_sample_row js (js_object js row) = Inr ()"
  using assms
  by (simp add: validated repeated_header_field_def value_is_object_def value_get_def find_None_iff HEADER_ONLY_KEYS_def)

text \<open>
  The receiver writes what its writers accept: with any environment that gives it an output, the
  headers of both files and every row it can make pass the validation of \<open>jsonl.rs\<close>, whatever the
  metrics; and in the header's flags those of the environment only add to the program's own.
\<close>

lemma receiver_output_accepted:
  assumes "\<forall>m. js_as_object (wd_json W) (js_object (wd_json W) m) = Some m"
    and "\<forall>s. js_as_str (wd_json W) (js_string (wd_json W) s) = Some s"
    and "\<forall>x. js_as_f64 (wd_json W) (js_number (wd_json W) x) = Some x"
    and "\<forall>t. js_is_finite (wd_json W) (unix_timestamp_secs (wd_f64 W) t)"
    and "summary_output_from_env W parsed = Inr (Some out)"
  shows "validate_requested_header (wd_json W) (receiver_header W NETWORK_ARTIFACT_TYPE t out) = Inr () \<and>
    validate_requested_header (wd_json W) (receiver_header W HARDWARE_ARTIFACT_TYPE t out) = Inr () \<and>
    validate_sample_row (wd_json W) (js_object (wd_json W) (network_row W snapshot delta)) = Inr () \<and>
    validate_sample_row (wd_json W) (js_object (wd_json W) (hardware_row W hw_snapshot hw_delta)) = Inr () \<and>
    (\<exists>extra. metrics_flags_from_env W = Inr extra \<and> out_flags out = extra ++ receiver_flags W parsed)"
proof -
  have node: "out_node_id out \<noteq> []"
    using assms(5)
    by (auto simp: summary_output_from_env_def res_bind_def unwrap_or_def node_id_nonempty(1)
        dest: node_id_nonempty(2) split: option.splits sum.splits)
  have header: "validate_requested_header (wd_json W) (receiver_header W kind t out) = Inr ()" if "kind \<noteq> []" for kind
    unfolding receiver_header_def
    by (rule header_accepted [OF assms(1-3)]) (use node assms(4) that in \<open>simp_all add: RECEIVER_PRODUCER_def\<close>)
  have rows: "validate_sample_row (wd_json W) (js_object (wd_json W) (network_row W snapshot delta)) = Inr ()"
    "validate_sample_row (wd_json W) (js_object (wd_json W) (hardware_row W hw_snapshot hw_delta)) = Inr ()"
    by (rule row_accepted [OF assms(1)],
        simp add: HEADER_ONLY_KEYS_def network_row_def hardware_row_def Let_def)+
  obtain extra where extra: "metrics_flags_from_env W = Inr extra"
    "out_flags out = (\<lambda>key. opt_or (receiver_flags W parsed key) (extra key))"
    using assms(5)
    by (auto simp: summary_output_from_env_def build_receiver_metrics_flags_def res_bind_def
        split: option.splits sum.splits)
  have "out_flags out = extra ++ receiver_flags W parsed"
    unfolding extra(2) by (auto simp: opt_or_def map_add_def fun_eq_iff split: option.split)
  then show ?thesis
    using header rows extra(1) by (simp add: NETWORK_ARTIFACT_TYPE_def HARDWARE_ARTIFACT_TYPE_def)
qed

definition demo_parsed :: receive_cli_args where
  "demo_parsed =
     \<lparr>cli_group = V4 (Quad 239 1 2 3), cli_dst_port = 5000, cli_source = None, cli_interface = None,
      cli_interface_index = None\<rparr>"

lemma receiver_output_accepted_example:
  "\<exists>out. summary_output_from_env (demo_world demo_env) demo_parsed = Inr (Some out) \<and>
     validate_requested_header demo_json_ops (receiver_header (demo_world demo_env) NETWORK_ARTIFACT_TYPE 7 out) = Inr () \<and>
     out_flags out ''join_mode'' = Some (JString ''asm'')"
proof -
  have "summary_file_from_env (demo_world demo_env) \<noteq> None"
    using demo_paths by (auto simp: metrics_paths_def split: option.splits)
  moreover have "metrics_flags_from_env (demo_world demo_env) = Inr Map.empty"
    by (simp add: metrics_flags_from_env_def env_var_def demo_world_def demo_env_def)
  ultimately obtain out where out: "summary_output_from_env (demo_world demo_env) demo_parsed = Inr (Some out)"
    by (auto simp: summary_output_from_env_def build_receiver_metrics_flags_def res_bind_def split: option.splits)
  have laws: "\<forall>m. js_as_object demo_json_ops (js_object demo_json_ops m) = Some m"
    "\<forall>t. js_as_str demo_json_ops (js_string demo_json_ops t) = Some t"
    "\<forall>x. js_as_f64 demo_json_ops (js_number demo_json_ops x) = Some x" "\<And>x. js_is_finite demo_json_ops x"
    by (simp_all add: demo_json_ops_def json_base_def)
  note accepted = receiver_output_accepted [where W = "demo_world demo_env" and t = 7, unfolded demo_world_json,
      OF laws(1-3) _ out, rule_format, OF laws(4)]
  have "receiver_flags (demo_world demo_env) demo_parsed ''join_mode'' = Some (JString ''asm'')"
    by (simp add: receiver_flags_def Let_def demo_parsed_def demo_json_ops_def json_base_def)
  moreover obtain extra where "out_flags out = extra ++ receiver_flags (demo_world demo_env) demo_parsed"
    using accepted by blast
  ultimately have "out_flags out ''join_mode'' = Some (JString ''asm'')" by (simp add: map_add_def)
  then show ?thesis using out accepted by blast
qed

section \<open>Intervals beyond the clock\<close>



end
