(* ===== verification/ReceiverOwns.thy ===== *)
theory ReceiverOwns
  imports ReceiverCorrect
begin

text \<open>
  The receiver program and its context: it closes every socket it opened, however it ends, and it
  prints exactly the packets that its metrics count.
\<close>

section \<open>Arguments open no socket\<close>

lemma keeps_case_option [keeps_intros]:
  "keeps opens m \<Longrightarrow> (\<And>a. keeps opens (f a)) \<Longrightarrow> keeps opens (case x of None \<Rightarrow> m | Some a \<Rightarrow> f a)"
  by (cases x) auto

lemma keeps_case_prod [keeps_intros]:
  "(\<And>a b. keeps opens (f a b)) \<Longrightarrow> keeps opens (case x of (a, b) \<Rightarrow> f a b)"
  by (cases x) auto

lemma keeps_name_to_index: "accounts os opens \<Longrightarrow> keeps opens (interface_name_to_index os s)"
  using keeps_accounts(11) [of os opens]
  by (auto simp: interface_name_to_index_def keeps_def io_throw_def split: prod.split) (metis snd_conv)+

lemma keeps_interface_value: "accounts os opens \<Longrightarrow> keeps opens (parse_interface_value os grp s)"
  unfolding parse_interface_value_def parse_interface_scope_def Let_def
  by (intro keeps_intros keeps_name_to_index)

lemma keeps_flag_loop: "accounts os opens \<Longrightarrow> keeps opens (flag_loop os grp args st)"
  by (induction os grp args st rule: flag_loop.induct)
    (auto intro!: keeps_intros keeps_interface_value)

lemma keeps_receive_args: "accounts os opens \<Longrightarrow> keeps opens (parse_receive_cli_args os args)"
  unfolding parse_receive_cli_args_def parse_mixed_args_def parse_flag_args_def
  by (intro keeps_intros keeps_flag_loop keeps_interface_value)

section \<open>What the program relies on\<close>

text \<open>Nothing but the library opens or closes sockets: neither the clocks nor reading \<open>/proc\<close>.\<close>

definition world_accounts :: "('k, 'v, 'f) world \<Rightarrow> ('k \<Rightarrow> socket set) \<Rightarrow> bool" where
  "world_accounts W opens \<longleftrightarrow>
     accounts (wd_os W) opens \<and> (\<forall>d k. opens (wd_sleep W d k) = opens k) \<and> keeps opens (wd_instant W) \<and>
     (\<forall>path. keeps opens (po_read (wd_process W) path)) \<and>
     (\<forall>path. keeps opens (po_read_dir_count (wd_process W) path)) \<and>
     keeps opens (po_getrusage (wd_process W)) \<and> (\<forall>n. keeps opens (po_proc_pidinfo (wd_process W) n)) \<and>
     keeps opens (po_now (wd_process W))"

lemma keeps_capture:
  assumes "world_accounts W opens"
  shows "keeps opens (capture_current_process W)"
proof -
  let ?po = "wd_process W"
  have po: "keeps opens (po_read ?po path)" "keeps opens (po_read_dir_count ?po path)" "keeps opens (po_getrusage ?po)"
    "keeps opens (po_proc_pidinfo ?po n)" "keeps opens (po_now ?po)" for path n
    using assms by (simp_all add: world_accounts_def)
  have files: "keeps opens (read_to_string ?po path)" "keeps opens (count_fds ?po path)" for path
    unfolding read_to_string_def count_fds_def by (intro keeps_intros po)+
  have calls: "keeps opens (now_io ?po)" "keeps opens (read_macos_task_info ?po)" "keeps opens (read_macos_rusage ?po)"
    by (simp_all add: keeps_def now_io_def read_macos_task_info_def read_macos_rusage_def Let_def split: prod.split)
      (auto dest!: keeps_run [OF po(3)] keeps_run [OF po(4)] keeps_run [OF po(5)])
  show ?thesis
    unfolding capture_current_process_def capture_linux_def capture_macos_def read_proc_snapshot_def Let_def
    by (intro keeps_intros files calls)
qed

section \<open>Frames\<close>

text \<open>What every part but the addition of the subscription keeps.\<close>

definition owner_frame :: "('k \<Rightarrow> socket set) \<Rightarrow> ('k, 'z) udp_program_scheme \<Rightarrow> ('k, 'z) udp_program_scheme \<Rightarrow> bool" where
  "owner_frame opens st st' \<longleftrightarrow>
     ctx_frame (ug_context st) (ug_context st') \<and> opens (pg_kernel st') = opens (pg_kernel st)"

abbreviation frames :: "('k \<Rightarrow> socket set) \<Rightarrow> (('k, 'z) udp_program_scheme, 'a) prog \<Rightarrow> bool" where
  "frames opens \<equiv> always (owner_frame opens)"

lemma owner_frame_trans: "transp (owner_frame opens)"
  by (rule transpI) (auto simp: owner_frame_def intro: ctx_frame_trans)

named_theorems frame_intros

lemma frames_bind [frame_intros]:
  "frames opens m \<Longrightarrow> (\<And>a. frames opens (f a)) \<Longrightarrow> frames opens (io_bind m f)"
  by (rule always_bind [OF owner_frame_trans])

lemma frames_kernel:
  "(\<And>st. ug_context (snd (m st)) = ug_context st \<and> opens (pg_kernel (snd (m st))) = opens (pg_kernel st)) \<Longrightarrow> frames opens m"
  by (simp add: always_def owner_frame_def)

lemma frames_pure [frame_intros]:
  "frames opens (io_lift r)" "frames opens (io_return a)" "frames opens (io_throw e)" "frames opens (write_console ls)"
  by (rule frames_kernel, simp add: write_console_def)+

lemma frames_on_kernel [frame_intros]: "keeps opens m \<Longrightarrow> frames opens (on_kernel message m)"
  by (rule frames_kernel) (auto simp: on_kernel_def dest: keeps_run split: prod.split sum.split)

lemma frames_usage [frame_intros]:
  assumes "\<And>args. keeps opens (parse args)"
  shows "frames opens (with_usage usage n parse args)"
  by (rule frames_kernel)
    (auto simp: with_usage_def on_kernel_def io_bind_def write_console_def dest: keeps_run [OF assms]
      split: list.split prod.split sum.split)

lemma frames_option [frame_intros]:
  "frames opens m \<Longrightarrow> (\<And>a. frames opens (f a)) \<Longrightarrow> frames opens (case x of None \<Rightarrow> m | Some a \<Rightarrow> f a)"
  by (cases x) auto

lemma frames_pair [frame_intros]: "(\<And>a b. frames opens (f a b)) \<Longrightarrow> frames opens (case x of (a, b) \<Rightarrow> f a b)"
  by (cases x) auto

lemma frames_if [frame_intros]: "frames opens m \<Longrightarrow> frames opens n \<Longrightarrow> frames opens (if b then m else n)"
  by simp

lemma frames_state: "(\<And>st. frames opens (g st)) \<Longrightarrow> frames opens (\<lambda>st. g st st)"
  by (simp add: always_def)

lemma frames_thread_sleep: "\<forall>d k. opens (sleep d k) = opens k \<Longrightarrow> frames opens (thread_sleep sleep d)"
  by (rule frames_kernel) (simp add: thread_sleep_def)

lemma frames_sleep [frame_intros]:
  "world_accounts W opens \<Longrightarrow> frames opens (thread_sleep (wd_sleep W) d)"
  by (rule frames_thread_sleep) (simp add: world_accounts_def)

lemma frames_receiving [frame_intros]:
  "accounts os opens \<Longrightarrow> frames opens (receiving message (try_recv_any os))"
  "accounts os opens \<Longrightarrow> frames opens (receiving message (try_recv_any_with_metadata os))"
  by (auto simp: always_def owner_frame_def receiving_def split: option.split dest: try_recv_any_frame)

lemma frames_join [frame_intros]:
  assumes "accounts os opens"
  shows "frames opens (on_context message (\<lambda>c. join_subscription os c i))"
  unfolding always_def
proof
  fix st
  obtain r c k where j: "join_subscription os (ug_context st) i (pg_kernel st) = (r, c, k)" by (metis prod_cases3)
  from framed_step [OF assms step_join [OF j]]
  show "owner_frame opens st (snd (on_context message (\<lambda>c. join_subscription os c i) st))"
    by (simp add: owner_frame_def on_context_def j)
qed

lemma frames_files [frame_intros]: "frames opens (on_files W msg m)"
  by (rule frames_kernel) (simp add: on_files_def split: prod.split)

lemma frames_assign [frame_intros]:
  "(\<And>st. ug_context (f st) = ug_context st \<and> pg_kernel (f st) = pg_kernel st) \<Longrightarrow> frames opens (assign f)"
  by (rule frames_kernel) (simp add: assign_def)

lemma frames_clocks [frame_intros]:
  assumes "world_accounts W opens"
  shows "frames opens (instant_now W)" "frames opens (system_now W)" "frames opens (snapshot_now W)"
proof -
  have k: "keeps opens (wd_instant W)" "keeps opens (os_now (wd_os W))"
    using assms by (simp_all add: world_accounts_def keeps_accounts)
  show "frames opens (instant_now W)" "frames opens (system_now W)" "frames opens (snapshot_now W)"
    by (rule frames_kernel, auto simp: instant_now_def system_now_def snapshot_now_def ctx_metrics_snapshot_def Let_def
        split: prod.split dest: keeps_run [OF k(1)] keeps_run [OF k(2)])+
qed

lemma frames_summaries [frame_intros]:
  assumes "world_accounts W opens"
  shows "frames opens (init_hardware_metrics_sampler W)" "frames opens (capture_hardware_metrics_snapshot W)"
    "frames opens (next_summary_at W interval)" "frames opens (metrics_jsonl_writers_from_output W out hw)"
    "frames opens (print_metrics_summary W snapshot delta)" "frames opens (print_hardware_metrics_summary W hw_delta)"
  unfolding init_hardware_metrics_sampler_def capture_hardware_metrics_snapshot_def next_summary_at_def
    metrics_jsonl_writers_from_output_def print_metrics_summary_def print_hardware_metrics_summary_def
  by (intro frame_intros keeps_capture assms)+

lemma frames_turn: 
  assumes "world_accounts W opens"
  shows "frames opens (receiver_turn W)"
proof -
  have acc: "accounts (wd_os W) opens" using assms by (simp add: world_accounts_def)
  have summaries: "frames opens (network_summary W)" "frames opens (hardware_summary W)"
    unfolding network_summary_def [abs_def] hardware_summary_def [abs_def]
    by (rule frames_state, intro frame_intros assms; simp)+
  have "frames opens (summaries_when_due W)"
    unfolding summaries_when_due_def [abs_def]
    by (rule frames_state, simp only: prod.case, intro frame_intros summaries assms; simp)
  then show ?thesis
    unfolding receiver_turn_def receive_and_print_def by (intro frame_intros assms acc)
qed

section \<open>Sockets\<close>

text \<open>From a program that owns nothing: what is open in the end and not owned was open at the beginning.\<close>

definition owns_new :: "('k \<Rightarrow> socket set) \<Rightarrow> ('k, 'z) udp_program_scheme \<Rightarrow> ('k, 'z) udp_program_scheme \<Rightarrow> bool" where
  "owns_new opens st st' \<longleftrightarrow>
     owned (ug_context st') \<subseteq> opens (pg_kernel st') \<and>
     opens (pg_kernel st') - owned (ug_context st') = opens (pg_kernel st)"

lemma owns_frame: "owns_new opens st st' \<Longrightarrow> owner_frame opens st' st'' \<Longrightarrow> owns_new opens st st''"
  by (auto simp: owns_new_def owner_frame_def dest: ctx_frame_owned)

lemma owns_start: "ug_context st = context_new \<Longrightarrow> owns_new opens st st"
  by (simp add: owns_new_def owned_def context_new_def)

lemma usage_context: "ug_context (snd (with_usage usage n parse args st)) = ug_context st"
  by (auto simp: with_usage_def on_kernel_def io_bind_def write_console_def split: list.split prod.split sum.split)

lemma add_owns:
  assumes "accounts os opens" and "ug_context st = context_new"
  shows "owns_new opens st (snd (on_context message (\<lambda>c. add_subscription os c cfg) st))"
proof -
  obtain r c k where a: "add_subscription os context_new cfg (pg_kernel st) = (r, c, k)" by (metis prod_cases3)
  have "ctx_inv context_new" using ctx_reach_inv [OF assms(1) reach_new] by simp
  moreover have "owned context_new = {}" "ctx_next_subscription_id context_new = 1"
    by (simp_all add: owned_def context_new_def)
  ultimately have "step_ok opens (OpAdd cfg) context_new (pg_kernel st) c k"
    using step_ok_add [OF assms(1) _ _ _ a] by simp
  then show ?thesis
    using a assms(2) \<open>owned context_new = {}\<close>
    by (simp add: step_ok_def hands_over_def owns_new_def on_context_def)
qed

lemma owns_bind:
  assumes "owns_new opens st (snd (m st))" and "\<And>a. frames opens (f a)"
  shows "owns_new opens st (snd (io_bind m f st))"
proof -
  obtain r st1 where m: "m st = (r, st1)" by force
  show ?thesis
  proof (cases r)
    case (Inr a)
    have "owner_frame opens st1 (snd (f a st1))" using assms(2) by (simp add: always_def)
    then show ?thesis using assms(1) m Inr by (auto simp: io_bind_def intro: owns_frame)
  qed (use assms(1) m in \<open>simp add: io_bind_def\<close>)
qed

lemma owns_behind:
  assumes "ug_context (snd (m st)) = context_new" and "opens (pg_kernel (snd (m st))) = opens (pg_kernel st)"
    and "\<And>a st1. ug_context st1 = context_new \<Longrightarrow> owns_new opens st1 (snd (f a st1))"
  shows "owns_new opens st (snd (io_bind m f st))"
proof -
  obtain r st1 where m: "m st = (r, st1)" by force
  then have "owns_new opens st1 st1" using assms(1) by (simp add: owns_start)
  then show ?thesis
    using assms m by (cases r) (auto simp: io_bind_def owns_new_def)
qed

lemma owns_parsed:
  assumes "accounts os opens" and "ug_context st = context_new"
    and "\<And>parsed st1. ug_context st1 = context_new \<Longrightarrow> owns_new opens st1 (snd (f parsed st1))"
  shows "owns_new opens st (snd (io_bind (with_usage usage n (parse_receive_cli_args os) args) f st))"
proof (rule owns_behind [OF _ _ assms(3)])
  have "owner_frame opens st (snd (with_usage usage n (parse_receive_cli_args os) args st))"
    using frames_usage [of opens "parse_receive_cli_args os", OF keeps_receive_args [OF assms(1)]]
    unfolding always_def by blast
  then show "opens (pg_kernel (snd (with_usage usage n (parse_receive_cli_args os) args st))) = opens (pg_kernel st)"
    by (simp add: owner_frame_def)
qed (simp_all add: usage_context assms(2))

lemma start_owns:
  fixes W :: "('k, 'v, 'f) world" and st :: "('k, 'f) recv_program"
  assumes "world_accounts W opens" and "ug_context st = context_new"
  shows "owns_new opens st (snd (receiver_start W args st))"
proof -
  have acc: "accounts (wd_os W) opens" using assms(1) by (simp add: world_accounts_def)
  show ?thesis
    unfolding receiver_start_def add_and_join_def io_laws
    by (rule owns_parsed [OF acc assms(2)], rule owns_bind [OF add_owns [OF acc]], assumption,
        intro frame_intros acc assms(1); simp)
qed

text \<open>Dropping the context closes what it owns.\<close>

lemma drop_closes:
  assumes "accounts os opens"
  shows "opens (drop_context os c k) = opens k - owned c"
proof -
  have "opens (fold (\<lambda>s. os_close os (into_socket s)) ss k) = opens k - into_socket ` set ss" for ss
    by (induction ss arbitrary: k) (auto simp: accounts_close [OF assms])
  then show ?thesis by (simp add: drop_context_def owned_def)
qed

text \<open>The receiver owns the sockets of its context.\<close>

interpretation mcrx_recv: socket_owner pg_kernel "\<lambda>st. owned (ug_context st)" "\<lambda>st. ug_context st = context_new"
  "world_accounts W" "receiver_start W args" "receiver_turn W" "receiver_drop W" for W :: "('k, 'v, 'f) world" and args
proof unfold_locales
  fix opens :: "'k \<Rightarrow> socket set" and st st' :: "('k, 'f) recv_program" and r
  assume lawful: "world_accounts W opens"
  then have acc: "accounts (wd_os W) opens" by (simp add: world_accounts_def)
  show "owned (ug_context st') \<subseteq> opens (pg_kernel st') \<and> opens (pg_kernel st') - owned (ug_context st') = opens (pg_kernel st)"
    if "ug_context st = context_new" "receiver_start W args st = (r, st')"
    using start_owns [OF lawful that(1), of args] that(2) by (simp add: owns_new_def)
  show "owned (ug_context st') = owned (ug_context st) \<and> opens (pg_kernel st') = opens (pg_kernel st)"
    if "receiver_turn W st = (r, st')"
    using frames_turn [OF lawful] that by (metis always_def owner_frame_def ctx_frame_owned snd_conv)
  show "opens (pg_kernel (receiver_drop W st)) = opens (pg_kernel st) - owned (ug_context st)"
    by (simp add: receiver_drop_def drop_closes [OF acc])
qed

text \<open>
  At every turn of the receiver the open sockets are those that were open when it started and those
  of its context; when it has ended, by whatever error or panic, exactly those that were open when it
  started.
\<close>

lemma receiver_closes_sockets:
  assumes "world_accounts W opens"
  shows "receiver_at W args (recv_init k s) e st \<Longrightarrow>
      owned (ug_context st) \<subseteq> opens (pg_kernel st) \<and> opens (pg_kernel st) - owned (ug_context st) = opens k"
    and "receiver_run W args (recv_init k s) = Some (r, st') \<Longrightarrow> opens (pg_kernel st') = opens k"
  using mcrx_recv.at_owns [OF assms, of "recv_init k s"] mcrx_recv.run_closes [OF assms, of "recv_init k s"]
  by (simp_all add: recv_init_def receiver_run_def)

lemma demo_accounts: "world_accounts (demo_world environment) sim_sockets"
  by (simp add: world_accounts_def demo_world_def sim_accounts keeps_def demo_process_os_def sim_sockets_def)

lemma demo_world_os [simp]: "wd_os (demo_world environment) = sim_os Linux"
  by (simp add: demo_world_def)

section \<open>Packets\<close>

definition is_recv_line :: "console \<Rightarrow> bool" where
  "is_recv_line l = (case l of Out s \<Rightarrow> take 6 s = ''[recv]'' | Err _ \<Rightarrow> False)"

definition printed :: "('k, 'z) program_scheme \<Rightarrow> nat" where
  "printed st = length (filter is_recv_line (pg_console st))"

text \<open>How far the metrics of the context are from the packets on the console.\<close>

definition same_gap :: "('k, 'z) udp_program_scheme \<Rightarrow> ('k, 'z) udp_program_scheme \<Rightarrow> bool" where
  "same_gap st st' \<longleftrightarrow>
     cm_total_packets_received (ctx_metrics (ug_context st')) - of_nat (printed st') =
     cm_total_packets_received (ctx_metrics (ug_context st)) - of_nat (printed st)"

abbreviation prints_all :: "(('k, 'z) udp_program_scheme, 'a) prog \<Rightarrow> bool" where
  "prints_all \<equiv> always same_gap"

named_theorems print_intros

lemma prints_bind [print_intros]:
  "prints_all m \<Longrightarrow> (\<And>a. prints_all (f a)) \<Longrightarrow> prints_all (io_bind m f)"
  by (rule always_bind) (auto simp: same_gap_def intro: transpI)

lemma prints_none:
  "(\<And>st. ug_context (snd (m st)) = ug_context st \<and> pg_console (snd (m st)) = pg_console st) \<Longrightarrow> prints_all m"
  by (simp add: always_def same_gap_def printed_def)

lemma prints_pure [print_intros]:
  "prints_all (io_lift r)" "prints_all (io_return a)" "prints_all (io_throw e)" "prints_all (on_kernel message h)"
  "prints_all (thread_sleep sleep d)"
  by (rule prints_none, simp add: on_kernel_def thread_sleep_def split: prod.split sum.split)+

lemma prints_state [print_intros]:
  "prints_all (instant_now W)" "prints_all (system_now W)" "prints_all (snapshot_now W)" "prints_all (on_files W msg m)"
  by (rule prints_none, simp add: instant_now_def system_now_def snapshot_now_def on_files_def split: prod.split)+

lemma prints_assign [print_intros]:
  "(\<And>st. ug_context (f st) = ug_context st \<and> pg_console (f st) = pg_console st) \<Longrightarrow> prints_all (assign f)"
  by (rule prints_none) (simp add: assign_def)

lemma prints_console [print_intros]:
  "list_all (\<lambda>l. \<not> is_recv_line l) ls \<Longrightarrow> prints_all (write_console ls)"
  by (simp add: always_def same_gap_def printed_def write_console_def filter_False list_all_iff)

lemma prints_option [print_intros]:
  "prints_all m \<Longrightarrow> (\<And>a. prints_all (f a)) \<Longrightarrow> prints_all (case x of None \<Rightarrow> m | Some a \<Rightarrow> f a)"
  by (cases x) auto

lemma prints_pair [print_intros]: "(\<And>a b. prints_all (f a b)) \<Longrightarrow> prints_all (case x of (a, b) \<Rightarrow> f a b)"
  by (cases x) auto

lemma prints_if [print_intros]: "prints_all m \<Longrightarrow> prints_all n \<Longrightarrow> prints_all (if b then m else n)"
  by simp

lemma prints_self: "(\<And>st. prints_all (g st)) \<Longrightarrow> prints_all (\<lambda>st. g st st)"
  by (simp add: always_def)

lemma prints_usage [print_intros]: "prints_all (with_usage usage n parse args)"
  unfolding always_def
  by (auto simp: with_usage_def on_kernel_def io_bind_def write_console_def same_gap_def printed_def is_recv_line_def
      comp_def filter_map split: list.split prod.split sum.split)

text \<open>Adding and joining do not count packets.\<close>

lemma prints_context [print_intros]:
  assumes "\<And>c k. cm_total_packets_received (ctx_metrics (fst (snd (g c k)))) = cm_total_packets_received (ctx_metrics c)"
  shows "prints_all (on_context message g)"
  by (auto simp: always_def same_gap_def printed_def on_context_def dest: arg_cong [where f = "\<lambda>x. fst (snd x)"]
      split: prod.split) (metis assms fst_conv snd_conv)

lemma add_counts: "cm_total_packets_received (ctx_metrics (fst (snd (add_subscription os c cfg k)))) =
    cm_total_packets_received (ctx_metrics c)"
  by (auto simp: add_subscription_def insert_subscription_def Let_def split: prod.split sum.split)

lemma join_counts: "cm_total_packets_received (ctx_metrics (fst (snd (join_subscription os c i k)))) =
    cm_total_packets_received (ctx_metrics c)"
  by (auto simp: join_subscription_def ctx_record_join_def set_subscription_def split: prod.split sum.split option.split)

text \<open>A receive that delivers a packet is printed with one line.\<close>

lemma prints_receive: "prints_all (receive_and_print W)"
proof -
  have "same_gap st (snd (receive_and_print W st))" for st
  proof (cases "try_recv_any (wd_os W) (ug_context st) (pg_kernel st)")
    case None
    then show ?thesis by (simp add: receive_and_print_def io_bind_def receiving_def same_gap_def)
  next
    case (Some x)
    obtain r c k where x: "x = (r, c, k)" by (metis prod_cases3)
    then have run: "try_recv_any (wd_os W) (ug_context st) (pg_kernel st) = Some (r, c, k)" using Some by simp
    have "cm_total_packets_received (ctx_metrics c) =
        cm_total_packets_received (ctx_metrics (ug_context st)) + of_nat (length (delivered r))"
      using run unfolding try_recv_any_def by (blast dest: try_recv_from_joined_counts)
    then show ?thesis
      by (auto simp: receive_and_print_def io_bind_def receiving_def run same_gap_def printed_def delivered_def
          write_console_def thread_sleep_def is_recv_line_def recv_line_def payload_line_def
          split: sum.split option.split)
  qed
  then show ?thesis by (simp add: always_def)
qed

lemma prints_summaries [print_intros]:
  "prints_all (init_hardware_metrics_sampler W)" "prints_all (capture_hardware_metrics_snapshot W)"
  "prints_all (next_summary_at W interval)" "prints_all (metrics_jsonl_writers_from_output W out hw)"
  unfolding init_hardware_metrics_sampler_def capture_hardware_metrics_snapshot_def next_summary_at_def
    metrics_jsonl_writers_from_output_def
  by (intro print_intros)+

lemma prints_reports [print_intros]:
  "prints_all (print_metrics_summary W snapshot delta)" "prints_all (print_hardware_metrics_summary W hw_delta)"
  unfolding print_metrics_summary_def print_hardware_metrics_summary_def
  by (rule prints_console, simp add: is_recv_line_def)+

lemma prints_turn: "prints_all (receiver_turn W)"
proof -
  have "prints_all (network_summary W)" "prints_all (hardware_summary W)"
    unfolding network_summary_def [abs_def] hardware_summary_def [abs_def]
    by (rule prints_self, intro print_intros; simp)+
  note summaries = this
  have "prints_all (summaries_when_due W)"
    unfolding summaries_when_due_def [abs_def]
    by (rule prints_self, simp only: prod.case, intro print_intros summaries; simp)
  then show ?thesis
    unfolding receiver_turn_def by (intro print_intros prints_receive)
qed

lemma prints_join [print_intros]: "prints_all (add_and_join os parsed)"
  unfolding add_and_join_def by (intro print_intros add_counts join_counts)

lemma prints_banner [print_intros]:
  "prints_all (println (receive_banner os ''mcrx-recv'' ''waiting for packets ...'' parsed i))"
  by (rule prints_console) (simp add: receive_banner_def is_recv_line_def)

lemma prints_start: "prints_all (receiver_start W args)"
  unfolding receiver_start_def by (intro print_intros; simp)

text \<open>
  C38. The receiver prints every packet it counts, and counts every packet it prints: at every turn,
  the number of packet lines on the console is the total that its metrics, and so the rows of its
  metrics files, report for the packets received.
\<close>

theorem receiver_prints_what_it_counts:
  assumes "receiver_at W args (recv_init k s) e st"
  shows "of_nat (length (filter is_recv_line (pg_console st))) = cm_total_packets_received (ctx_metrics (ug_context st))"
proof -
  have "same_gap (recv_init k s) st"
    using at_always [OF assms _ _ prints_turn] prints_start [of W args]
    by (simp add: always_def transp_def same_gap_def)
  then show ?thesis
    by (simp add: same_gap_def printed_def recv_init_def context_new_def context_metrics_default_def)
qed

theorem receiver_prints_what_it_counts_witness:
  "of_nat (length (filter is_recv_line (pg_console (snd (demo_started demo_env))))) =
   cm_total_packets_received (ctx_metrics (ug_context (snd (demo_started demo_env))))"
  by (rule receiver_prints_what_it_counts [OF demo_at])

end
