(* ===== verification/ReceiversCorrect.thy ===== *)
theory ReceiversCorrect
  imports Receivers ReceiverOwns
begin

text \<open>
  The other receiver programs: each closes every socket it opened, however it ends; the asynchronous
  one prints every packet its subscription counts, in order, also when Ctrl-C ends it.
\<close>

section \<open>The receiver with metadata\<close>

lemma meta_start_owns:
  assumes "accounts os opens" and "ug_context st = context_new"
  shows "owns_new opens st (snd (meta_start os args st))"
  unfolding meta_start_def add_and_join_def io_laws
  by (rule owns_parsed [OF assms], rule owns_bind [OF add_owns [OF assms(1)]], assumption,
      intro frame_intros assms(1))

lemma frames_meta_turn:
  assumes "accounts os opens" and "\<forall>d k. opens (sleep d k) = opens k"
  shows "frames opens (meta_turn os sleep)"
  unfolding meta_turn_def by (intro frame_intros frames_thread_sleep assms)

interpretation mcrx_recv_meta: socket_owner pg_kernel "\<lambda>st. owned (ug_context st)" "\<lambda>st. ug_context st = context_new"
  "\<lambda>opens. accounts os opens \<and> (\<forall>d k. opens (sleep d k) = opens k)"
  "meta_start os args" "meta_turn os sleep" "meta_drop os" for os :: "'k os" and sleep args
proof unfold_locales
  fix opens :: "'k \<Rightarrow> socket set" and st st' :: "'k udp_program" and r
  assume lawful: "accounts os opens \<and> (\<forall>d k. opens (sleep d k) = opens k)"
  show "owned (ug_context st') \<subseteq> opens (pg_kernel st') \<and> opens (pg_kernel st') - owned (ug_context st') = opens (pg_kernel st)"
    if "ug_context st = context_new" "meta_start os args st = (r, st')"
    using meta_start_owns [OF _ that(1), of os opens args] lawful that(2) by (simp add: owns_new_def)
  show "owned (ug_context st') = owned (ug_context st) \<and> opens (pg_kernel st') = opens (pg_kernel st)"
    if "meta_turn os sleep st = (r, st')"
    using frames_meta_turn lawful that by (metis always_def owner_frame_def ctx_frame_owned snd_conv)
  show "opens (pg_kernel (meta_drop os st)) = opens (pg_kernel st) - owned (ug_context st)"
    using lawful by (simp add: meta_drop_def drop_closes)
qed

section \<open>The receiver of datagrams\<close>

text \<open>From a program that owns nothing, as for the other receivers.\<close>

definition raw_owns_new :: "('k \<Rightarrow> socket set) \<Rightarrow> 'k raw_program \<Rightarrow> 'k raw_program \<Rightarrow> bool" where
  "raw_owns_new opens st st' \<longleftrightarrow> raw_owned (wg_context st') \<subseteq> opens (pg_kernel st') \<and>
     opens (pg_kernel st') - raw_owned (wg_context st') = opens (pg_kernel st)"

definition raw_owner_frame :: "('k \<Rightarrow> socket set) \<Rightarrow> 'k raw_program \<Rightarrow> 'k raw_program \<Rightarrow> bool" where
  "raw_owner_frame opens st st' \<longleftrightarrow>
     raw_owned (wg_context st') = raw_owned (wg_context st) \<and> opens (pg_kernel st') = opens (pg_kernel st)"

abbreviation raw_frames :: "('k \<Rightarrow> socket set) \<Rightarrow> ('k raw_program, 'a) prog \<Rightarrow> bool" where
  "raw_frames opens \<equiv> always (raw_owner_frame opens)"

lemma raw_frames_bind:
  "raw_frames opens m \<Longrightarrow> (\<And>a. raw_frames opens (f a)) \<Longrightarrow> raw_frames opens (io_bind m f)"
  by (rule always_bind) (auto simp: raw_owner_frame_def intro: transpI)

lemma raw_ctx_frame_owned: "raw_ctx_frame c c' \<Longrightarrow> raw_owned c' = raw_owned c"
  unfolding raw_ctx_frame_def raw_owned_def using raw_kept_maps(3) by metis

lemma raw_frames_turn:
  assumes "accounts os opens" and "\<forall>d k. opens (sleep d k) = opens k"
  shows "raw_frames opens (raw_turn os ba sleep)"
proof -
  have "raw_frames opens (raw_receiving message (raw_try_recv_any os ba))" for message
    using raw_scan_framed [OF assms(1) refl] raw_ctx_frame_owned
    by (fastforce simp: always_def raw_owner_frame_def raw_receiving_def raw_try_recv_any_def Let_def
        split: option.split if_splits)
  moreover have "raw_frames opens (write_console ls)" "raw_frames opens (thread_sleep sleep d)" for ls d
    using assms(2) by (simp_all add: always_def raw_owner_frame_def write_console_def thread_sleep_def)
  ultimately show ?thesis
    unfolding raw_turn_def by (intro raw_frames_bind) (auto split: option.split)
qed

lemma keeps_raw_receive_args: "accounts os opens \<Longrightarrow> keeps opens (parse_raw_receive_cli_args os args)"
  unfolding parse_raw_receive_cli_args_def parse_mixed_args_def parse_flag_args_def
  by (intro keeps_intros keeps_flag_loop keeps_interface_value)

lemma raw_add_owns:
  assumes "accounts os opens" and "wg_context st = raw_context_new"
  shows "raw_owns_new opens st (snd (on_raw_context message (\<lambda>c. raw_add_subscription os ba c cfg) st))"
proof -
  obtain r c k where a: "raw_add_subscription os ba raw_context_new cfg (pg_kernel st) = (r, c, k)" by (metis prod_cases3)
  have "raw_inv raw_context_new" by (simp add: raw_inv_def raw_context_new_def table_ok_def)
  then have "raw_step_ok opens raw_context_new (pg_kernel st) c k"
    using raw_step_ok_add [OF assms(1) _ _ _ a] by (simp add: raw_owned_def raw_context_new_def)
  then show ?thesis
    using a assms(2) by (simp add: raw_step_ok_def raw_owns_new_def on_raw_context_def raw_owned_def raw_context_new_def)
qed

lemma raw_frames_join:
  fixes opens :: "'k \<Rightarrow> socket set"
  assumes "accounts os opens"
  shows "raw_frames opens (on_raw_context message (\<lambda>c. raw_join_subscription os c i))"
  unfolding always_def
proof
  fix st :: "'k raw_program"
  obtain r c k where j: "raw_join_subscription os (wg_context st) i (pg_kernel st) = (r, c, k)" by (metis prod_cases3)
  have "raw_ctx_frame (wg_context st) c \<and> opens k = opens (pg_kernel st)"
    by (rule raw_on_subscription_framed [OF raw_sub_membership_kept(1) [OF assms] j [unfolded raw_join_subscription_def]])
  then show "raw_owner_frame opens st (snd (on_raw_context message (\<lambda>c. raw_join_subscription os c i) st))"
    by (simp add: raw_owner_frame_def on_raw_context_def j raw_ctx_frame_owned)
qed

lemma raw_start_owns:
  assumes "accounts os opens" and "wg_context st = raw_context_new"
  shows "raw_owns_new opens st (snd (raw_start os ba args st))"
proof -
  have behind: "raw_owns_new opens st (snd (io_bind m f st))"
    if "raw_owns_new opens st (snd (m st))" "\<And>a. raw_frames opens (f a)" for m :: "('a raw_program, 'b) prog" and f st
    using that by (auto simp: io_bind_def raw_owns_new_def always_def raw_owner_frame_def split: prod.split sum.split)
  let ?parse = "with_usage raw_usage 2 (parse_raw_receive_cli_args os) args"
  have parsed: "wg_context (snd (?parse st)) = raw_context_new \<and> opens (pg_kernel (snd (?parse st))) = opens (pg_kernel st)"
    using assms(2)
    by (auto simp: with_usage_def on_kernel_def io_bind_def write_console_def
        dest: keeps_run [OF keeps_raw_receive_args [OF assms(1)]] split: list.split prod.split sum.split)
  show ?thesis
  proof (cases "?parse st")
    case (Pair r st1)
    show ?thesis
    proof (cases r)
      case (Inl e)
      then show ?thesis using parsed Pair
        by (simp add: raw_start_def io_bind_def raw_owns_new_def raw_owned_def raw_context_new_def)
    next
      case (Inr p)
      have "raw_owns_new opens st1 (snd (io_bind (on_raw_context (error_message os ''failed to add raw subscription'')
          (\<lambda>c. raw_add_subscription os ba c (raw_receive_config p))) (\<lambda>i.
        io_bind (on_raw_context (error_message os ''failed to join raw subscription'')
          (\<lambda>c. raw_join_subscription os c i)) (\<lambda>_. println (raw_banner os p i))) st1))"
        using parsed Pair
        by (intro behind raw_add_owns assms(1) raw_frames_bind raw_frames_join)
          (simp_all add: always_def raw_owner_frame_def write_console_def)
      then show ?thesis using parsed Pair Inr by (simp add: raw_start_def io_bind_def [of ?parse] raw_owns_new_def)
    qed
  qed
qed

lemma raw_drop_closes:
  assumes "accounts os opens"
  shows "opens (pg_kernel (raw_drop os st)) = opens (pg_kernel st) - raw_owned (wg_context st)"
proof -
  have "opens (fold (\<lambda>s. drop_raw_socket os (rsub_socket s)) ss k) = opens k - \<Union> (raw_held ` set ss)" for ss k
    by (induction ss arbitrary: k) (auto simp: opens_drop_raw_socket [OF assms] raw_held_def)
  then show ?thesis by (simp add: raw_drop_def raw_owned_def)
qed

interpretation mcrx_raw_recv: socket_owner pg_kernel "\<lambda>st. raw_owned (wg_context st)" "\<lambda>st. wg_context st = raw_context_new"
  "\<lambda>opens. accounts os opens \<and> (\<forall>d k. opens (sleep d k) = opens k)"
  "raw_start os ba args" "raw_turn os ba sleep" "raw_drop os" for os :: "'k os" and ba sleep args
proof unfold_locales
  fix opens :: "'k \<Rightarrow> socket set" and st st' :: "'k raw_program" and r
  assume lawful: "accounts os opens \<and> (\<forall>d k. opens (sleep d k) = opens k)"
  show "raw_owned (wg_context st') \<subseteq> opens (pg_kernel st') \<and> opens (pg_kernel st') - raw_owned (wg_context st') = opens (pg_kernel st)"
    if "wg_context st = raw_context_new" "raw_start os ba args st = (r, st')"
    using raw_start_owns [OF _ that(1), of os opens ba args] lawful that(2) by (simp add: raw_owns_new_def)
  show "raw_owned (wg_context st') = raw_owned (wg_context st) \<and> opens (pg_kernel st') = opens (pg_kernel st)"
    if "raw_turn os ba sleep st = (r, st')"
    using raw_frames_turn lawful that by (metis always_def raw_owner_frame_def snd_conv)
  show "opens (pg_kernel (raw_drop os st)) = opens (pg_kernel st) - raw_owned (wg_context st)"
    using lawful by (simp add: raw_drop_closes)
qed

section \<open>The asynchronous receiver\<close>

text \<open>Neither the reactor, the timer nor the signal handler opens or closes sockets.\<close>

definition runtime_accounts :: "'k runtime \<Rightarrow> ('k \<Rightarrow> socket set) \<Rightarrow> bool" where
  "runtime_accounts rt opens \<longleftrightarrow>
     (\<forall>s. keeps opens (fd_new (rt_fd rt) s)) \<and> (\<forall>s. keeps opens (fd_poll_read_ready (rt_fd rt) s)) \<and>
     (\<forall>s k. opens (fd_clear_ready (rt_fd rt) s k) = opens k) \<and>
     (\<forall>n. keeps opens (tm_sleep (rt_timer rt) n)) \<and> (\<forall>d. keeps opens (tm_elapsed (rt_timer rt) d)) \<and>
     keeps opens (rt_first rt) \<and> keeps opens (rt_ctrl_c rt) \<and> (\<forall>k. opens (rt_park rt k) = opens k)"

text \<open>What a receive, a poll and the task keep: the socket and the open sockets.\<close>

definition stays_open :: "('k \<Rightarrow> socket set) \<Rightarrow> subscription \<Rightarrow> 'k \<Rightarrow> subscription \<Rightarrow> 'k \<Rightarrow> bool" where
  "stays_open opens s k s' k' \<longleftrightarrow> into_socket s' = into_socket s \<and> opens k' = opens k"

lemma stays_open_trans: "stays_open opens s k s1 k1 \<Longrightarrow> stays_open opens s1 k1 s2 k2 \<Longrightarrow> stays_open opens s k s2 k2"
  by (simp add: stays_open_def)

lemma stays_open_kernel: "opens k' = opens k \<Longrightarrow> stays_open opens s k s k'"
  by (simp add: stays_open_def)

lemma receive_stays_open:
  assumes "accounts os opens" and "try_recv_with_metadata os s k = (r, s', k')"
  shows "stays_open opens s k s' k'"
  using keeps_try_recv_with_metadata [OF assms(1), of s k] try_recv_with_metadata_preserves [OF assms(2)] assms(2)
  by (simp add: stays_open_def same_identity_def into_socket_def)

lemma runtime_keeps:
  assumes "runtime_accounts rt opens"
  shows "opens (snd (fd_new (rt_fd rt) s k)) = opens k" "opens (snd (fd_poll_read_ready (rt_fd rt) s k)) = opens k"
    "opens (fd_clear_ready (rt_fd rt) s k) = opens k" "opens (snd (tm_sleep (rt_timer rt) n k)) = opens k"
    "opens (snd (tm_elapsed (rt_timer rt) d k)) = opens k" "opens (snd (rt_first rt k)) = opens k"
    "opens (snd (rt_ctrl_c rt k)) = opens k" "opens (rt_park rt k) = opens k"
  using assms by (simp_all add: runtime_accounts_def keeps_def)

lemma readiness_loop_open:
  assumes "edge_triggered (rt_fd rt)" and "accounts os opens" and "runtime_accounts rt opens"
    and "readiness_loop (rt_fd rt) (try_recv_with_metadata os) s k = Some (r, s', k')"
  shows "stays_open opens s k s' k'"
proof -
  note rt = runtime_keeps [OF assms(3)]
  obtain q k1 where q: "fd_poll_read_ready (rt_fd rt) (into_socket s) k = (q, k1)" by force
  have k1: "opens k1 = opens k" using rt(2) [of "into_socket s" k] q by simp
  obtain r1 s2 k2 where r1: "try_recv_with_metadata os s k1 = (r1, s2, k2)" by (metis prod_cases3)
  then have "stays_open opens s k1 s2 k2" using receive_stays_open [OF assms(2)] by blast
  then show ?thesis
    using assms(4) readiness_loop_eq [OF assms(1), of "try_recv_with_metadata os" s k] q r1 k1 rt(2,3)
    by (cases q) (auto simp: stays_open_def split: if_splits)
qed

lemma sleep_loop_open:
  assumes "sleeps (rt_timer rt)" and "0 < interval" and "accounts os opens" and "runtime_accounts rt opens"
    and "sleep_loop (rt_timer rt) interval (try_recv_with_metadata os) sleeping s k = Some (r, d, s', k')"
  shows "stays_open opens s k s' k'"
proof -
  note rt = runtime_keeps [OF assms(4)]
  have none: "stays_open opens s k s' k'"
    if run: "sleep_loop (rt_timer rt) interval (try_recv_with_metadata os) None s k = Some (r, d, s', k')" for k
  proof -
    obtain r1 s2 k2 where r1: "try_recv_with_metadata os s k = (r1, s2, k2)" by (metis prod_cases3)
    obtain e k3 where e: "tm_sleep (rt_timer rt) interval k2 = (e, k3)" by force
    have "opens k3 = opens k2" using rt(4) [of interval k2] e by simp
    then show ?thesis
      using run sleep_loop_once [OF assms(1,2), of "try_recv_with_metadata os" s k] r1 e rt(5)
        receive_stays_open [OF assms(3) r1]
      by (auto simp: stays_open_def split: if_splits)
  qed
  show ?thesis
  proof (cases sleeping)
    case (Some e)
    obtain b k1 where b: "tm_elapsed (rt_timer rt) e k = (b, k1)" by force
    then have k1: "opens k1 = opens k" using rt(5) [of e k] by simp
    then show ?thesis
      using assms(5) sleep_loop_eq [OF assms(1,2), of "try_recv_with_metadata os" e s k] b none [of k1] Some
      by (auto simp: stays_open_def split: if_splits)
  qed (use none assms(5) in simp)
qed

text \<open>What the task relies on, and what it keeps of its adapter.\<close>

definition task_ok :: "'k os \<Rightarrow> 'k runtime \<Rightarrow> tokio_subscription \<Rightarrow> bool" where
  "task_ok os rt t \<longleftrightarrow> edge_triggered (rt_fd rt) \<and> sleeps (rt_timer rt) \<and>
     (target_unix (os_target os) \<or> 0 < tokio_poll_interval t)"

lemma poll_interval_stays:
  "tokio_recv_with_metadata os fd tm sleeping t k = Some (r, d, t', k') \<Longrightarrow> tokio_poll_interval t' = tokio_poll_interval t"
  by (auto simp: tokio_recv_with_metadata_def tokio_poll_def split: if_splits)

lemma receive_poll_open:
  assumes "task_ok os rt t" and "accounts os opens" and "runtime_accounts rt opens"
    and "tokio_recv_with_metadata os (rt_fd rt) (rt_timer rt) sleeping t k = Some (r, d, t', k')"
  shows "stays_open opens (tokio_inner t) k (tokio_inner t') k' \<and> task_ok os rt t'"
proof -
  have "stays_open opens (tokio_inner t) k (tokio_inner t') k'"
    using assms(1,4) readiness_loop_open [OF _ assms(2,3)] sleep_loop_open [OF _ _ assms(2,3)]
    by (auto simp: tokio_recv_with_metadata_def tokio_poll_def task_ok_def split: if_splits)
  then show ?thesis using assms(1) poll_interval_stays [OF assms(4)] by (simp add: task_ok_def)
qed

text \<open>Rules: an invariant of the polls of a task, and one of the turns of its loop.\<close>

lemma poll_select_rule:
  assumes "poll_select os rt sleeping t k = Some (r, sleeping', t', k')" and "Q t k"
    and "\<And>k. Q t k \<Longrightarrow> Q t (snd (rt_first rt k))"
    and "\<And>k d r d' t' k'. Q t k \<Longrightarrow>
      tokio_recv_with_metadata os (rt_fd rt) (rt_timer rt) d t k = Some (r, d', t', k') \<Longrightarrow>
      case r of None \<Rightarrow> Q t' k' | Some p \<Rightarrow> R (Received p) t' k'"
    and "\<And>t k. Q t k \<Longrightarrow>
      case rt_ctrl_c rt k of (None, k') \<Rightarrow> Q t k' | (Some e, k') \<Rightarrow> R (Signalled e) t k'"
  shows "case r of None \<Rightarrow> Q t' k' | Some ready \<Rightarrow> R ready t' k'"
proof -
  obtain b k1 where b: "rt_first rt k = (b, k1)" by force
  then have 1: "Q t k1" using assms(2,3) by (metis snd_conv)
  show ?thesis
  proof (cases b)
    case True
    then obtain r1 d1 t1 k2 where recv: "tokio_recv_with_metadata os (rt_fd rt) (rt_timer rt) sleeping t k1 = Some (r1, d1, t1, k2)"
      using assms(1) b by (auto simp: poll_select_def poll_both_def poll_receive_def bind_eq_Some_conv)
    show ?thesis
      using assms(1) b True recv assms(4) [OF 1 recv] assms(5) [of t1 k2]
      by (auto simp: poll_select_def poll_both_def poll_receive_def poll_signal_def split: option.splits prod.splits)
  next
    case False
    obtain s k2 where s: "rt_ctrl_c rt k1 = (s, k2)" by force
    show ?thesis
      using assms(1) b False s assms(5) [OF 1] assms(4) [of k2 sleeping]
      by (auto simp: poll_select_def poll_both_def poll_receive_def poll_signal_def split: option.splits)
  qed
qed

lemma select_loop_rule:
  assumes "select_loop os rt sleeping t k = Some (ready, t', k')" and "Q t k"
    and "\<And>d t k r d' t' k'. Q t k \<Longrightarrow> poll_select os rt d t k = Some (r, d', t', k') \<Longrightarrow>
      case r of None \<Rightarrow> Q t' (rt_park rt k') | Some ready \<Rightarrow> R ready t' k'"
  shows "R ready t' k'"
proof -
  have "os = os \<and> rt = rt \<and> Q t k \<longrightarrow> (case (ready, t', k') of (ready, t', k') \<Rightarrow> R ready t' k')"
  proof (rule select_loop.raw_induct
      [where P = "\<lambda>os' rt' d t k y. os' = os \<and> rt' = rt \<and> Q t k \<longrightarrow> (case y of (ready, t', k') \<Rightarrow> R ready t' k')",
       OF _ assms(1)], intro impI, elim conjE)
    fix loop os' rt' d t k y
    assume IH: "\<And>os' rt' d t k y. loop os' rt' d t k = Some y \<Longrightarrow>
        os' = os \<and> rt' = rt \<and> Q t k \<longrightarrow> (case y of (ready, t', k') \<Rightarrow> R ready t' k')"
      and run: "Option.bind (poll_select os' rt' d t k) (\<lambda>(r, sleeping', t', k').
        case r of Some ready \<Rightarrow> Some (ready, t', k') | None \<Rightarrow> loop os' rt' sleeping' t' (rt_park rt' k')) = Some y"
      and ok: "os' = os" "rt' = rt" "Q t k"
    obtain r d1 t1 k1 where poll: "poll_select os rt d t k = Some (r, d1, t1, k1)" using run ok by (auto simp: bind_eq_Some_conv)
    show "case y of (ready, t', k') \<Rightarrow> R ready t' k'"
      using run ok poll assms(3) [OF ok(3) poll] IH [of os rt d1 t1 "rt_park rt k1" y]
      by (cases r) auto
  qed
  then show ?thesis using assms(2) by simp
qed

lemma tokio_loop_rule:
  assumes "tokio_loop os rt t st = Some (r, t', st')" and "Q t st"
    and "\<And>t st ready t' k. Q t st \<Longrightarrow> select_loop os rt None t (pg_kernel st) = Some (ready, t', k) \<Longrightarrow>
      case tokio_handle os ready (st\<lparr>pg_kernel := k\<rparr>) of
        (Inl e, st') \<Rightarrow> R (Inl e) t' st'
      | (Inr goes_on, st') \<Rightarrow> if goes_on then Q t' st' else R (Inr ()) t' st'"
  shows "R r t' st'"
proof -
  have "os = os \<and> rt = rt \<and> Q t st \<longrightarrow> (case (r, t', st') of (r, t', st') \<Rightarrow> R r t' st')"
  proof (rule tokio_loop.raw_induct
      [where P = "\<lambda>os' rt' t st y. os' = os \<and> rt' = rt \<and> Q t st \<longrightarrow> (case y of (r, t', st') \<Rightarrow> R r t' st')",
       OF _ assms(1)], intro impI, elim conjE)
    fix loop os' rt' t st y
    assume IH: "\<And>os' rt' t st y. loop os' rt' t st = Some y \<Longrightarrow>
        os' = os \<and> rt' = rt \<and> Q t st \<longrightarrow> (case y of (r, t', st') \<Rightarrow> R r t' st')"
      and run: "Option.bind (select_loop os' rt' None t (pg_kernel st)) (\<lambda>(ready, t', k).
        case tokio_handle os' ready (st\<lparr>pg_kernel := k\<rparr>) of (r, st') \<Rightarrow>
          (case r of
             Inl e \<Rightarrow> Some (Inl e, t', st')
           | Inr goes_on \<Rightarrow> if goes_on then loop os' rt' t' st' else Some (Inr (), t', st'))) = Some y"
      and ok: "os' = os" "rt' = rt" "Q t st"
    obtain ready t1 k1 where sel: "select_loop os rt None t (pg_kernel st) = Some (ready, t1, k1)"
      using run ok by (auto simp: bind_eq_Some_conv)
    obtain q st1 where handle: "tokio_handle os ready (st\<lparr>pg_kernel := k1\<rparr>) = (q, st1)" by force
    show "case y of (r, t', st') \<Rightarrow> R r t' st'"
      using run ok sel handle assms(3) [OF ok(3) sel] IH [of os rt t1 st1 y]
      by (cases q) (auto split: if_splits)
  qed
  then show ?thesis using assms(2) by simp
qed

section \<open>Its socket\<close>

text \<open>\<open>run\<close> up to the point where it takes the subscription out of the context.\<close>

definition tokio_joined :: "'k os \<Rightarrow> string list \<Rightarrow> ('k udp_program, receive_cli_args \<times> subscription_id) prog" where
  "tokio_joined os args =
     io_bind (with_usage tokio_usage 3 (parse_receive_cli_args os) args) (\<lambda>parsed.
     io_bind (add_and_join os parsed) (\<lambda>i. io_return (parsed, i)))"

lemma tokio_start_split:
  "tokio_start os rt args =
     io_bind (tokio_joined os args) (\<lambda>(parsed, i).
     io_bind (extract_subscription i) (\<lambda>s.
     io_bind (on_kernel (\<lambda>err. ''failed to create tokio adapter: '' @ os_show_error os err) (tokio_new os (rt_fd rt) s)) (\<lambda>t.
     io_bind (println (receive_banner os ''mcrx-tokio-recv'' ''waiting for packets with Tokio ...'' parsed i)) (\<lambda>_.
     io_return t))))"
  by (simp add: tokio_start_def tokio_joined_def io_laws)

lemma joined_owns:
  assumes "accounts os opens" and "ug_context st = context_new"
  shows "owns_new opens st (snd (tokio_joined os args st))"
  unfolding tokio_joined_def add_and_join_def io_laws
  by (rule owns_parsed [OF assms], rule owns_bind [OF add_owns [OF assms(1)]], assumption,
      intro frame_intros assms(1))

lemma take_owned:
  assumes "take_subscription c i = (Some s, c')"
  shows "owned c = insert (into_socket s) (owned c')"
proof -
  obtain n where n: "position (\<lambda>s. sub_id s = i) (ctx_subscriptions c) = Some n"
    "finish_subscription_removal c n = (s, c')"
    using assms by (auto simp: take_subscription_def split: option.splits prod.splits)
  have lt: "n < length (ctx_subscriptions c)" using position_Some [OF n(1)] by simp
  have c': "s = ctx_subscriptions c ! n" "ctx_subscriptions c' = swap_remove (ctx_subscriptions c) n"
    using n(2) by (auto simp: finish_subscription_removal_def Let_def)
  have "set (ctx_subscriptions c) = insert s (set (ctx_subscriptions c'))"
    unfolding c'
    by (rule swap_remove_split [OF lt]) (drule arg_cong [where f = set], force)+
  then show ?thesis by (simp add: owned_def)
qed

text \<open>Closing the adapter and dropping the context leaves what was open at the start.\<close>

definition task_owns :: "'k os \<Rightarrow> ('k \<Rightarrow> socket set) \<Rightarrow> 'k \<Rightarrow> tokio_subscription \<Rightarrow> 'k udp_program \<Rightarrow> bool" where
  "task_owns os opens k t st \<longleftrightarrow>
     opens (pg_kernel st) - insert (into_socket (tokio_inner t)) (owned (ug_context st)) = opens k"

lemma tokio_start_owns:
  assumes "accounts os opens" and "runtime_accounts rt opens"
  shows "case tokio_start os rt args (meta_init k) of
      (Inl e, st) \<Rightarrow> opens (pg_kernel st) - owned (ug_context st) = opens k
    | (Inr t, st) \<Rightarrow> task_owns os opens k t st \<and> (target_unix (os_target os) \<or> 0 < tokio_poll_interval t)"
proof -
  obtain r st1 where j: "tokio_joined os args (meta_init k) = (r, st1)" by force
  have o1: "opens (pg_kernel st1) - owned (ug_context st1) = opens k"
    using joined_owns [OF assms(1), of "meta_init k" args] j by (simp add: owns_new_def meta_init_def)
  show ?thesis
  proof (cases r)
    case (Inl e)
    then show ?thesis using o1 j by (simp add: tokio_start_split io_bind_def)
  next
    case (Inr p)
    obtain parsed i where p: "p = (parsed, i)" by force
    obtain x c where take: "take_subscription (ug_context st1) i = (x, c)" by force
    show ?thesis
    proof (cases x)
      case None
      then have "c = ug_context st1" using take by (auto simp: take_subscription_def split: option.splits prod.splits)
      then show ?thesis using o1 j Inr p take None
        by (simp add: tokio_start_split io_bind_def extract_subscription_def)
    next
      case (Some s)
      then have owned: "owned (ug_context st1) = insert (into_socket s) (owned c)" using take take_owned by blast
      obtain q k2 where q: "tokio_new os (rt_fd rt) s (pg_kernel st1) = (q, k2)" by force
      obtain y k1 where y: "fd_new (rt_fd rt) (into_socket s) (pg_kernel st1) = (y, k1)" by force
      have k1: "opens k1 = opens (pg_kernel st1)"
        using runtime_keeps(1) [OF assms(2), of "into_socket s" "pg_kernel st1"] y by simp
      have k2: "case q of Inl _ \<Rightarrow> opens k2 = opens (pg_kernel st1) - {into_socket s}
          | Inr t \<Rightarrow> opens k2 = opens (pg_kernel st1) \<and> tokio_inner t = s \<and>
              (target_unix (os_target os) \<or> 0 < tokio_poll_interval t)"
        using q [symmetric] y k1 accounts_close [OF assms(1), of "into_socket s" k1]
        by (cases "target_unix (os_target os)"; cases y) (simp_all add: tokio_new_def)
      have left: "opens (pg_kernel st1) - insert (into_socket s) (owned c) = opens k"
        using o1 unfolding owned .
      show ?thesis
      proof (cases q)
        case (Inl e)
        have "opens k2 - owned c = opens k" using k2 left Inl by auto
        then show ?thesis using j \<open>r = Inr p\<close> p take Some q Inl
          by (simp add: tokio_start_split io_bind_def extract_subscription_def on_kernel_def)
      next
        case (Inr t)
        then show ?thesis using j \<open>r = Inr p\<close> p take Some q k2 left
          by (simp add: tokio_start_split io_bind_def extract_subscription_def on_kernel_def write_console_def task_owns_def)
      qed
    qed
  qed
qed

lemma select_open:
  assumes "select_loop os rt sleeping t k = Some (ready, t', k')" and "task_ok os rt t"
    and "accounts os opens" and "runtime_accounts rt opens"
  shows "stays_open opens (tokio_inner t) k (tokio_inner t') k' \<and> task_ok os rt t'"
proof (rule select_loop_rule [OF assms(1), where
      Q = "\<lambda>t1 k1. stays_open opens (tokio_inner t) k (tokio_inner t1) k1 \<and> task_ok os rt t1" and
      R = "\<lambda>_ t1 k1. stays_open opens (tokio_inner t) k (tokio_inner t1) k1 \<and> task_ok os rt t1"])
  let ?Q = "\<lambda>t1 k1. stays_open opens (tokio_inner t) k (tokio_inner t1) k1 \<and> task_ok os rt t1"
  note rt = runtime_keeps [OF assms(4)]
  show "?Q t k" using assms(2) by (simp add: stays_open_def)
  fix d t1 k1 r d' t2 k2
  assume Q: "?Q t1 k1" and poll: "poll_select os rt d t1 k1 = Some (r, d', t2, k2)"
  have "case r of None \<Rightarrow> ?Q t2 k2 | Some ready \<Rightarrow> ?Q t2 k2"
  proof (rule poll_select_rule [where Q = ?Q and R = "\<lambda>_. ?Q", OF poll Q])
    show "?Q t1 (snd (rt_first rt k1))" if "?Q t1 k1" for k1 using that rt(6) by (simp add: stays_open_def)
    show "case r of None \<Rightarrow> ?Q t2 k2 | Some p \<Rightarrow> ?Q t2 k2"
      if "?Q t1 k1" "tokio_recv_with_metadata os (rt_fd rt) (rt_timer rt) d t1 k1 = Some (r, d', t2, k2)" for d k1 r d' t2 k2
      using that receive_poll_open [OF _ assms(3,4) that(2)] by (auto dest: stays_open_trans split: option.split)
    show "case rt_ctrl_c rt k1 of (None, k') \<Rightarrow> ?Q t1 k' | (Some e, k') \<Rightarrow> ?Q t1 k'" if "?Q t1 k1" for t1 k1
      using that rt(7) [of k1] by (auto simp: stays_open_def split: prod.split option.split)
  qed
  then show "case r of None \<Rightarrow> ?Q t2 (rt_park rt k2) | Some ready \<Rightarrow> ?Q t2 k2"
    using rt(8) by (auto simp: stays_open_def split: option.splits)
qed

lemma handle_keeps:
  "ug_context (snd (tokio_handle os ready st)) = ug_context st \<and> pg_kernel (snd (tokio_handle os ready st)) = pg_kernel st"
  by (auto simp: tokio_handle_def io_bind_def write_console_def split: selected.split sum.split)

lemma loop_owns:
  assumes "tokio_loop os rt t st = Some (r, t', st')" and "task_owns os opens k t st" and "task_ok os rt t"
    and "accounts os opens" and "runtime_accounts rt opens"
  shows "task_owns os opens k t' st'"
proof (rule tokio_loop_rule [OF assms(1), where Q = "\<lambda>t st. task_owns os opens k t st \<and> task_ok os rt t" and
      R = "\<lambda>_. task_owns os opens k"])
  fix t1 st1 ready t2 k2
  assume Q: "task_owns os opens k t1 st1 \<and> task_ok os rt t1"
    and sel: "select_loop os rt None t1 (pg_kernel st1) = Some (ready, t2, k2)"
  obtain q st2 where h: "tokio_handle os ready (st1\<lparr>pg_kernel := k2\<rparr>) = (q, st2)" by force
  have "task_owns os opens k t2 st2 \<and> task_ok os rt t2"
    using select_open [OF sel _ assms(4,5)] Q handle_keeps [of os ready "st1\<lparr>pg_kernel := k2\<rparr>"] h
    by (simp add: task_owns_def stays_open_def)
  then show "case tokio_handle os ready (st1\<lparr>pg_kernel := k2\<rparr>) of
      (Inl e, st') \<Rightarrow> task_owns os opens k t2 st'
    | (Inr goes_on, st') \<Rightarrow> if goes_on then task_owns os opens k t2 st' \<and> task_ok os rt t2 else task_owns os opens k t2 st'"
    using h by (cases q) auto
qed (use assms(2,3) in simp)

lemma tokio_closes:
  assumes "accounts os opens" and "runtime_accounts rt opens" and "edge_triggered (rt_fd rt)" and "sleeps (rt_timer rt)"
    and "tokio_run os rt args (meta_init k) = Some (r, st)"
  shows "opens (pg_kernel st) = opens k"
proof -
  note start = tokio_start_owns [OF assms(1,2), where args = args and k = k]
  obtain r0 st1 where s: "tokio_start os rt args (meta_init k) = (r0, st1)" by force
  show ?thesis
  proof (cases r0)
    case (Inl e)
    then show ?thesis using assms(5) s start
      by (auto simp: tokio_run_def meta_drop_def drop_closes [OF assms(1)])
  next
    case (Inr t)
    obtain r' t' st2 where loop: "tokio_loop os rt t st1 = Some (r', t', st2)"
      and st: "st = meta_drop os (tokio_drop os t' st2)"
      using assms(5) s Inr by (auto simp: tokio_run_def)
    have "task_owns os opens k t st1" "task_ok os rt t" using start s Inr assms(3,4) by (simp_all add: task_ok_def)
    then have "task_owns os opens k t' st2" using loop_owns [OF loop _ _ assms(1,2)] by blast
    then show ?thesis
      by (auto simp: st meta_drop_def tokio_drop_def drop_closes [OF assms(1)] accounts_close [OF assms(1)] task_owns_def)
  qed
qed

section \<open>Its packets\<close>

text \<open>Every subscription of a context that has not received is at the beginning of its history.\<close>

definition unread :: "'k os \<Rightarrow> mcrx_context \<Rightarrow> bool" where
  "unread os c \<longleftrightarrow> (\<forall>s \<in> set (ctx_subscriptions c). sub_history os (sub_id s) (sub_config s) s [])"

lemma history_names: "sub_history os i cfg s ps \<Longrightarrow> sub_id s = i \<and> sub_config s = cfg"
  using sub_history_ok [of os i cfg s ps] by (simp add: history_ok_def)

lemma unread_add: "unread os c \<Longrightarrow> add_subscription os c cfg k = (r, c', k') \<Longrightarrow> unread os c'"
  using created [of os]
  by (auto simp: add_subscription_def insert_subscription_def from_receive_socket_def unread_def with_socket_def Let_def
      split: prod.splits sum.splits)

lemma unread_join:
  assumes "unread os c" and "join_subscription os c i k = (r, c', k')"
  shows "unread os c'"
proof -
  have keep: "s \<in> set (update_first p (\<lambda>_. y) xs) \<Longrightarrow> s = y \<or> s \<in> set xs" for s y :: subscription and p xs
    by (induction xs) (auto split: if_splits)
  have found: "get_subscription c i = Some s \<Longrightarrow> s \<in> set (ctx_subscriptions c)" for s
    by (auto simp: get_subscription_def find_Some_iff)
  have mark: "sub_history os (sub_id s') (sub_config s') s' []"
    if "sub_history os (sub_id s) (sub_config s) s []" "mark_joined s = Inr s'" for s s'
    using joined [OF that] by (metis history_names)
  show ?thesis
    using assms found mark unfolding unread_def
    by (auto simp: join_subscription_def ctx_record_join_def set_subscription_def dest!: keep
        split: option.splits if_splits sum.splits prod.splits) blast+
qed

lemma on_context_Inr:
  "on_context message f st = (Inr a, st') \<Longrightarrow> f (ug_context st) (pg_kernel st) = (Inr a, ug_context st', pg_kernel st')"
  by (auto simp: on_context_def map_sum_def split: prod.splits sum.splits)

lemma start_unread:
  assumes "tokio_start os rt args (meta_init k) = (Inr t, st)"
  shows "sub_history os (sub_id (tokio_inner t)) (sub_config (tokio_inner t)) (tokio_inner t) [] \<and>
    (target_unix (os_target os) \<or> 0 < tokio_poll_interval t)"
proof -
  obtain parsed i st1 s st2 st3 where j: "tokio_joined os args (meta_init k) = (Inr (parsed, i), st1)"
    and e: "extract_subscription i st1 = (Inr s, st2)"
    and n: "on_kernel (\<lambda>err. ''failed to create tokio adapter: '' @ os_show_error os err)
      (tokio_new os (rt_fd rt) s) st2 = (Inr t, st3)"
    using assms by (auto simp: tokio_start_split io_bind_eq_Inr)
  obtain st4 st5 where u: "with_usage tokio_usage 3 (parse_receive_cli_args os) args (meta_init k) = (Inr parsed, st4)"
    and "on_context (error_message os ''failed to add subscription'')
      (\<lambda>c. add_subscription os c (receive_config parsed)) st4 = (Inr i, st5)"
    and "on_context (error_message os ''failed to join subscription'') (\<lambda>c. join_subscription os c i) st5 = (Inr (), st1)"
    using j unfolding tokio_joined_def add_and_join_def by (auto simp: io_bind_eq_Inr)
  then have a: "add_subscription os (ug_context st4) (receive_config parsed) (pg_kernel st4) = (Inr i, ug_context st5, pg_kernel st5)"
    and b: "join_subscription os (ug_context st5) i (pg_kernel st5) = (Inr (), ug_context st1, pg_kernel st1)"
    by (blast dest: on_context_Inr)+
  have "unread os (ug_context st4)"
    using u usage_context [of tokio_usage 3 "parse_receive_cli_args os" args "meta_init k"]
    by (simp add: unread_def meta_init_def context_new_def)
  then have unread: "unread os (ug_context st1)" using unread_join [OF unread_add [OF _ a] b] by blast
  have "s \<in> set (ctx_subscriptions (ug_context st1))"
    using e by (auto simp: extract_subscription_def take_subscription_def finish_subscription_removal_def Let_def
        dest: position_Some split: prod.splits option.splits)
  moreover have "tokio_inner t = s \<and> (target_unix (os_target os) \<or> 0 < tokio_poll_interval t)"
    using n by (auto simp: on_kernel_def tokio_new_def split: prod.splits sum.splits if_splits)
  ultimately show ?thesis using unread by (simp add: unread_def)
qed

definition selected_packets :: "selected \<Rightarrow> packet_with_metadata list" where
  "selected_packets ready = (case ready of Received (Inr p) \<Rightarrow> [p] | _ \<Rightarrow> [])"

text \<open>Dropping the receive when Ctrl-C comes first loses nothing: it has taken no packet.\<close>

lemma select_history:
  assumes "select_loop os rt sleeping t k = Some (ready, t', k')" and "task_ok os rt t"
    and "sub_history os i cfg (tokio_inner t) ps"
  shows "task_ok os rt t' \<and> sub_history os i cfg (tokio_inner t') (ps @ map pwm_packet (selected_packets ready))"
proof (rule select_loop_rule [OF assms(1), where
      Q = "\<lambda>t k. task_ok os rt t \<and> sub_history os i cfg (tokio_inner t) ps" and
      R = "\<lambda>ready t k. task_ok os rt t \<and> sub_history os i cfg (tokio_inner t) (ps @ map pwm_packet (selected_packets ready))"])
  let ?Q = "\<lambda>(t :: tokio_subscription) (k :: 'a). task_ok os rt t \<and> sub_history os i cfg (tokio_inner t) ps"
  let ?R = "\<lambda>ready (t :: tokio_subscription) (k :: 'a). task_ok os rt t \<and>
      sub_history os i cfg (tokio_inner t) (ps @ map pwm_packet (selected_packets ready))"
  show "?Q t k" using assms(2,3) by simp
  fix d t1 k1 r d' t2 k2
  assume Q: "?Q t1 k1" and poll: "poll_select os rt d t1 k1 = Some (r, d', t2, k2)"
  show "case r of None \<Rightarrow> ?Q t2 (rt_park rt k2) | Some ready \<Rightarrow> ?R ready t2 k2"
  proof (rule poll_select_rule [where Q = ?Q and R = ?R, OF poll Q])
    fix d k1 r d' t2 k2
    assume Q: "?Q t1 k1" and run: "tokio_recv_with_metadata os (rt_fd rt) (rt_timer rt) d t1 k1 = Some (r, d', t2, k2)"
    have one: "one_receive (try_recv_with_metadata os) (tokio_inner t1) r (tokio_inner t2)"
      using poll_one [of "rt_fd rt" "rt_timer rt" os t1 "try_recv_with_metadata os" d k1] Q run
      by (simp add: task_ok_def tokio_recv_with_metadata_def)
    show "case r of None \<Rightarrow> ?Q t2 k2 | Some p \<Rightarrow> ?R (Received p) t2 k2"
      using history_recv_with_metadata [OF one] Q poll_interval_stays [OF run]
      by (cases r) (auto simp: task_ok_def selected_packets_def split: sum.splits)
  qed (auto simp: selected_packets_def split: prod.split option.split)
qed

lemma loop_prints:
  fixes st :: "'k udp_program"
  assumes "tokio_loop os rt t st = Some (r, t', st')" and "task_ok os rt t"
    and "sub_history os i cfg (tokio_inner t) []"
  shows "\<exists>ps. sub_history os i cfg (tokio_inner t') (map pwm_packet ps) \<and>
    pg_console st' = pg_console st @ map Out (concat (map (meta_lines os) ps)) @
      (if r = Inr () then [Out ''shutting down''] else [])"
proof -
  let ?shown = "\<lambda>t1 st1 ends. \<exists>ps. sub_history os i cfg (tokio_inner t1) (map pwm_packet ps) \<and>
      pg_console st1 = pg_console st @ map Out (concat (map (meta_lines os) ps)) @ ends"
  show ?thesis
  proof (rule tokio_loop_rule [OF assms(1), where Q = "\<lambda>t st. task_ok os rt t \<and> ?shown t st []" and
        R = "\<lambda>r t st. ?shown t st (if r = Inr () then [Out ''shutting down''] else [])"])
    show "task_ok os rt t \<and> ?shown t st []" using assms(2,3) by (auto intro: exI [of _ "[]"])
    fix t1 ready t2 k2 and st1 :: "'k udp_program"
    assume "task_ok os rt t1 \<and> ?shown t1 st1 []"
      and sel: "select_loop os rt None t1 (pg_kernel st1) = Some (ready, t2, k2)"
    then obtain ps where ok: "task_ok os rt t1" and h: "sub_history os i cfg (tokio_inner t1) (map pwm_packet ps)"
      and shown: "pg_console st1 = pg_console st @ map Out (concat (map (meta_lines os) ps))" by auto
    have t2: "task_ok os rt t2" "sub_history os i cfg (tokio_inner t2) (map pwm_packet (ps @ selected_packets ready))"
      using select_history [OF sel ok h] by simp_all
    show "case tokio_handle os ready (st1\<lparr>pg_kernel := k2\<rparr>) of
        (Inl e, st') \<Rightarrow> ?shown t2 st' (if Inl e = (Inr () :: failure + unit) then [Out ''shutting down''] else [])
      | (Inr goes_on, st') \<Rightarrow> if goes_on then task_ok os rt t2 \<and> ?shown t2 st' []
          else ?shown t2 st' (if (Inr () :: failure + unit) = Inr () then [Out ''shutting down''] else [])"
      using t2 shown
      by (cases ready rule: selected.exhaust; cases "\<exists>p. ready = Received (Inr p)")
        (auto simp: tokio_handle_def io_bind_def write_console_def selected_packets_def
          intro!: exI [of _ "ps @ selected_packets ready"] split: sum.splits)
  qed
qed

section \<open>Properties\<close>

text \<open>
  C39. No receiver binary leaves a socket open: whatever its arguments, its packets and the error or
  the signal that ends it, the sockets that are open when it has ended are those that were open when
  it started. The asynchronous one hands its subscription from the context to the adapter in between.
\<close>

theorem receivers_close_sockets:
  assumes "world_accounts W opens" and "runtime_accounts rt opens" and "edge_triggered (rt_fd rt)"
    and "sleeps (rt_timer rt)"
  shows "(receiver_run W args (recv_init k s) = Some (r, st1) \<longrightarrow> opens (pg_kernel st1) = opens k) \<and>
    (meta_run (wd_os W) (wd_sleep W) args (meta_init k) = Some (r, st2) \<longrightarrow> opens (pg_kernel st2) = opens k) \<and>
    (raw_run (wd_os W) ba (wd_sleep W) args (raw_init k) = Some (r, st3) \<longrightarrow> opens (pg_kernel st3) = opens k) \<and>
    (tokio_run (wd_os W) rt args (meta_init k) = Some (r, st2) \<longrightarrow> opens (pg_kernel st2) = opens k)"
proof -
  have acc: "accounts (wd_os W) opens" "\<forall>d k. opens (wd_sleep W d k) = opens k"
    using assms(1) by (simp_all add: world_accounts_def)
  note closes = receiver_closes_sockets(2) [OF assms(1)] tokio_closes [OF acc(1) assms(2-4)]
    mcrx_recv_meta.run_closes [where os = "wd_os W" and sleep = "wd_sleep W" and args = args and init = "meta_init k"]
    mcrx_raw_recv.run_closes [where os = "wd_os W" and sleep = "wd_sleep W" and args = args and init = "raw_init k"]
  show ?thesis
    using closes acc by (auto simp: meta_run_def raw_run_def meta_init_def raw_init_def)
qed

text \<open>
  C40. The asynchronous receiver loses nothing: when an error or Ctrl-C ends its loop, it has printed
  exactly the packets that its subscription has counted, in order and with their metadata, although
  every Ctrl-C drops a receive that is waiting.
\<close>

theorem tokio_receiver_prints_all:
  assumes "edge_triggered (rt_fd rt)" and "sleeps (rt_timer rt)"
    and "tokio_start os rt args (meta_init k) = (Inr t, st)" and "tokio_loop os rt t st = Some (r, t', st')"
  shows "\<exists>ps. sub_history os (sub_id (tokio_inner t)) (sub_config (tokio_inner t)) (tokio_inner t') (map pwm_packet ps) \<and>
    sm_packets_received (sub_metrics (tokio_inner t')) = of_nat (length ps) \<and>
    pg_console st' = pg_console st @ map Out (concat (map (meta_lines os) ps)) @
      (if r = Inr () then [Out ''shutting down''] else [])"
proof -
  note start = start_unread [OF assms(3)]
  then have "task_ok os rt t" using assms(1,2) by (simp add: task_ok_def)
  from loop_prints [OF assms(4) this conjunct1 [OF start]]
  obtain ps where h: "sub_history os (sub_id (tokio_inner t)) (sub_config (tokio_inner t)) (tokio_inner t') (map pwm_packet ps)"
    and shown: "pg_console st' = pg_console st @ map Out (concat (map (meta_lines os) ps)) @
      (if r = Inr () then [Out ''shutting down''] else [])" by blast
  from sub_history_ok [OF h] have "sm_packets_received (sub_metrics (tokio_inner t')) = of_nat (length ps)"
    by (simp add: history_ok_def accounted_def)
  then show ?thesis using h shown by blast
qed

text \<open>A run in which one packet arrives, and then Ctrl-C.\<close>

definition task_runtime :: "sim runtime" where
  "task_runtime =
     \<lparr>rt_fd = sim_fd\<lparr>fd_new := (\<lambda>s k. (Inr (), k\<lparr>sim_ready := True, sim_inbox := [good_msg]\<rparr>))\<rparr>, rt_timer = sim_timer,
      rt_first = (\<lambda>k. (True, k)), rt_ctrl_c = (\<lambda>k. (Some (Inr ()), k)), rt_park = (\<lambda>k. k)\<rparr>"

definition task_args :: "string list" where
  "task_args = [''mcrx_tokio_recv'', ''239.1.2.3'', ''5000'']"

lemma task_runtime_ok:
  "edge_triggered (rt_fd task_runtime)" "sleeps (rt_timer task_runtime)" "runtime_accounts task_runtime sim_sockets"
  using sim_runtime
  by (simp_all add: task_runtime_def edge_triggered_def runtime_accounts_def keeps_def sim_fd_def sim_timer_def sim_sockets_def)

lemma task_runtime_calls:
  "rt_first task_runtime k = (True, k)" "rt_ctrl_c task_runtime k = (Some (Inr ()), k)"
  "fd_poll_read_ready (rt_fd task_runtime) s k = (if sim_ready k then ReadyNow else NotReady, k)"
  "fd_clear_ready (rt_fd task_runtime) s k = k\<lparr>sim_ready := False\<rparr>"
  by (simp_all add: task_runtime_def sim_fd_def)

lemma demo_delivers:
  "recv_packet_with_metadata (sim_os Linux) demo_receive_socket (SubscriptionId 1) demo_config (k\<lparr>sim_inbox := good_msg # ms\<rparr>) =
     (Inr (Some demo_packet), k\<lparr>sim_inbox := ms\<rparr>)"
  "recv_packet_with_metadata (sim_os Linux) demo_receive_socket (SubscriptionId 1) demo_config (k\<lparr>sim_inbox := []\<rparr>) =
     (Inr None, k\<lparr>sim_inbox := []\<rparr>)"
  by (simp_all add: receive_unfold demo_defs good_msg_def filtered_loop.simps sim_simps pktinfo_msg_def would_block_def)

lemma task_args_parse: "parse_receive_cli_args os task_args k =
    (Inr \<lparr>cli_group = V4 demo_group, cli_dst_port = 5000, cli_source = None, cli_interface = None,
       cli_interface_index = None\<rparr>, k)"
proof -
  have "ip_text ''239.1.2.3'' (V4 demo_group)"
    using ip_text_v4 [of demo_group] by (simp add: demo_group_def dec_digits.simps char_of_def bit_Suc_0_iff)
  from receive_cli_text [OF this, where port = 5000 and opts = "[]" and src = None and ifc = None and ix = None]
  show ?thesis by (simp add: task_args_def example_numbers cli_options.intros demo_group_def)
qed

lemma demo_joins: "\<exists>k'. join_multicast_group (sim_os Linux) (Socket 3) demo_config k = (Inr (), k')"
proof -
  have "family demo_config = Ipv4" "ipv4_membership demo_config = Inr \<lparr>m4_group = demo_group, m4_source = None, m4_interface = None\<rparr>"
    by (simp_all add: demo_config_def asm_def asm_ip_def config_ipv4_membership_def ipv4_membership_def family_def
      source_addr_def res_simps)
  then show ?thesis
    by (simp add: join_multicast_group_def resolve_ipv4_interface_def res_simps)
      (simp add: sim_os_def io_bind_def io_map_err_def res_bind_def io_lift_def)
qed

lemma task_starts:
  obtains t st where "tokio_start (sim_os Linux) task_runtime task_args (meta_init sim_init) = (Inr t, st)"
    and "tokio_inner t = demo_joined" and "sim_inbox (pg_kernel st) = [good_msg]" and "sim_ready (pg_kernel st)"
proof -
  let ?parsed = "\<lparr>cli_group = V4 demo_group, cli_dst_port = 5000, cli_source = None, cli_interface = None,
      cli_interface_index = None\<rparr> :: receive_cli_args"
  have cfg: "receive_config ?parsed = demo_config"
    by (simp add: receive_config_def demo_config_def asm_def asm_ip_def)
  have len: "length task_args = 3" by (simp add: task_args_def)
  have linux: "os_target (sim_os Linux) = Linux" by (simp add: sim_os_def)
  define k1 where "k1 = snd (open_bound_socket (sim_os Linux) demo_config sim_init)"
  define c1 where "c1 = context_new\<lparr>ctx_next_subscription_id := 2,
       ctx_subscriptions := [with_socket (SubscriptionId 1) demo_config demo_receive_socket],
       ctx_metrics := context_metrics_default\<lparr>cm_subscriptions_added := 1\<rparr>\<rparr>"
  have add: "add_subscription (sim_os Linux) context_new demo_config sim_init = (Inr (SubscriptionId 1), c1, k1)"
    using demo_added_eq by (simp add: demo_added_def c1_def k1_def)
  obtain k2 where j: "join_multicast_group (sim_os Linux) (Socket 3) demo_config k1 = (Inr (), k2)" using demo_joins by blast
  have marked: "mark_joined (with_socket (SubscriptionId 1) demo_config demo_receive_socket) = Inr demo_joined"
    by (simp add: mark_joined_def with_socket_def demo_joined_def subscription_metrics_default_def)
  obtain c2 where join: "join_subscription (sim_os Linux) c1 (SubscriptionId 1) k1 = (Inr (), c2, k2)"
    and c2: "ctx_subscriptions c2 = [demo_joined]"
    using j marked
    by (simp add: join_subscription_def get_subscription_def c1_def with_socket_def is_joined_def demo_receive_socket_def
        set_subscription_def ctx_record_join_def)
  obtain c3 where take: "take_subscription c2 (SubscriptionId 1) = (Some demo_joined, c3)"
    using c2 by (simp add: take_subscription_def finish_subscription_removal_def Let_def demo_joined_def with_socket_def)
  show ?thesis
    by (rule that [where t = "\<lparr>tokio_inner = demo_joined, tokio_poll_interval = 0\<rparr>" and
        st = "\<lparr>pg_kernel = k2\<lparr>sim_ready := True, sim_inbox := [good_msg]\<rparr>,
          pg_console = map Out (receive_banner (sim_os Linux) ''mcrx-tokio-recv'' ''waiting for packets with Tokio ...'' ?parsed
            (SubscriptionId 1)), ug_context = c3\<rparr>"])
      (simp_all add: tokio_start_def with_usage_def task_args_parse on_kernel_def io_bind_def len
        add_and_join_def on_context_def cfg add join extract_subscription_def take meta_init_def tokio_new_def
        task_runtime_def sim_fd_def linux write_console_def)
qed

lemma task_receives:
  assumes "same_identity demo_joined s" and "is_joined s"
  shows "sim_inbox k = [good_msg] \<Longrightarrow> \<exists>s' k'. try_recv_with_metadata (sim_os Linux) s k = (Inr (Some demo_packet), s', k') \<and>
      same_identity demo_joined s' \<and> is_joined s' \<and> sim_inbox k' = [] \<and> sim_ready k' = sim_ready k"
    and "sim_inbox k = [] \<Longrightarrow> \<exists>s' k'. try_recv_with_metadata (sim_os Linux) s k = (Inr None, s', k') \<and>
      sim_ready k' = sim_ready k"
proof -
  have s: "sub_id s = SubscriptionId 1" "sub_config s = demo_config" "sub_socket s = demo_receive_socket"
    using assms(1) by (simp_all add: same_identity_def demo_joined_def with_socket_def)
  have same_inbox: "sim_inbox k = ms \<Longrightarrow> k\<lparr>sim_inbox := ms\<rparr> = k" for ms by (cases k) simp
  show "\<exists>s' k'. try_recv_with_metadata (sim_os Linux) s k = (Inr (Some demo_packet), s', k') \<and>
      same_identity demo_joined s' \<and> is_joined s' \<and> sim_inbox k' = [] \<and> sim_ready k' = sim_ready k"
    if "sim_inbox k = [good_msg]"
  proof -
    have "recv_packet_with_metadata (sim_os Linux) (sub_socket s) (sub_id s) (sub_config s) k =
        (Inr (Some demo_packet), k\<lparr>sim_inbox := []\<rparr>)"
      using demo_delivers(1) [where k = k and ms = "[]"] same_inbox [OF that] by (simp add: s)
    moreover obtain s' k' where "record_received_packet (sim_os Linux) (pwm_packet demo_packet) s (k\<lparr>sim_inbox := []\<rparr>) = (s', k')"
      by force
    moreover have "k' = k\<lparr>sim_inbox := [], sim_clock := sim_clock k + 1\<rparr>"
      using calculation(2) by (simp add: record_received_packet_def sim_os_def)
    moreover have "same_identity s s' \<and> sub_state s' = sub_state s" using record_preserves(1) [OF calculation(2)] .
    ultimately show ?thesis using assms by (simp add: try_recv_with_metadata_def same_identity_def is_joined_def)
  qed
  show "\<exists>s' k'. try_recv_with_metadata (sim_os Linux) s k = (Inr None, s', k') \<and> sim_ready k' = sim_ready k"
    if "sim_inbox k = []"
  proof -
    have "recv_packet_with_metadata (sim_os Linux) (sub_socket s) (sub_id s) (sub_config s) k = (Inr None, k\<lparr>sim_inbox := []\<rparr>)"
      using demo_delivers(2) [where k = k] same_inbox [OF that] by (simp add: s)
    then show ?thesis using assms(2) by (simp add: try_recv_with_metadata_def)
  qed
qed

lemma task_runs:
  obtains t st r t' st' where "tokio_start (sim_os Linux) task_runtime task_args (meta_init sim_init) = (Inr t, st)"
    and "tokio_loop (sim_os Linux) task_runtime t st = Some (Inr (), t', st')"
    and "length (pg_console st') = length (pg_console st) + 4"
proof -
  have linux: "target_unix (os_target (sim_os Linux))" by (simp add: sim_os_def)
  obtain t st where start: "tokio_start (sim_os Linux) task_runtime task_args (meta_init sim_init) = (Inr t, st)"
    and t: "tokio_inner t = demo_joined" "sim_inbox (pg_kernel st) = [good_msg]" "sim_ready (pg_kernel st)"
    by (rule task_starts)
  have joined: "is_joined demo_joined" by (simp add: demo_joined_def is_joined_def)
  obtain s1 k1 where 1: "try_recv_with_metadata (sim_os Linux) demo_joined (pg_kernel st) = (Inr (Some demo_packet), s1, k1)"
    and s1: "same_identity demo_joined s1" "is_joined s1" "sim_inbox k1 = []" "sim_ready k1"
    using task_receives(1) [OF same_identity_refl joined t(2)] t(3) by auto
  let ?t1 = "t\<lparr>tokio_inner := s1\<rparr>"
  have poll1: "tokio_recv_with_metadata (sim_os Linux) (rt_fd task_runtime) (rt_timer task_runtime) None t (pg_kernel st) =
      Some (Some (Inr demo_packet), None, ?t1, k1)"
    using readiness_loop_eq [OF task_runtime_ok(1), of "try_recv_with_metadata (sim_os Linux)" demo_joined "pg_kernel st"] 1 t linux
    by (simp add: tokio_recv_with_metadata_def tokio_poll_def task_runtime_calls lift_result_def)
  have sel1: "select_loop (sim_os Linux) task_runtime None t (pg_kernel st) = Some (Received (Inr demo_packet), ?t1, k1)"
    by (subst select_loop.simps) (simp add: poll_select_def poll_both_def poll_receive_def task_runtime_calls poll1)
  obtain s2 k2 where 2: "try_recv_with_metadata (sim_os Linux) s1 k1 = (Inr None, s2, k2)"
    using task_receives(2) [OF s1(1,2,3)] by auto
  let ?t2 = "t\<lparr>tokio_inner := s2\<rparr>" and ?k = "k2\<lparr>sim_ready := False\<rparr>"
  have poll2: "tokio_recv_with_metadata (sim_os Linux) (rt_fd task_runtime) (rt_timer task_runtime) None ?t1 k1 =
      Some (None, None, ?t2, ?k)"
    using readiness_loop_eq [OF task_runtime_ok(1), of "try_recv_with_metadata (sim_os Linux)" s1 k1] 2 s1(4) linux
    by (simp add: tokio_recv_with_metadata_def tokio_poll_def task_runtime_calls lift_result_def)
  have sel2: "select_loop (sim_os Linux) task_runtime None ?t1 k1 = Some (Signalled (Inr ()), ?t2, ?k)"
    by (subst select_loop.simps)
      (simp add: poll_select_def poll_both_def poll_receive_def poll_signal_def task_runtime_calls poll2)
  define st1 where "st1 = st\<lparr>pg_kernel := k1, pg_console := pg_console st @ map Out (meta_lines (sim_os Linux) demo_packet)\<rparr>"
  have "tokio_loop (sim_os Linux) task_runtime t st = tokio_loop (sim_os Linux) task_runtime ?t1 st1"
    by (subst tokio_loop.simps) (simp add: sel1 tokio_handle_def io_bind_def write_console_def st1_def)
  moreover have "tokio_loop (sim_os Linux) task_runtime ?t1 st1 =
      Some (Inr (), ?t2, st1\<lparr>pg_kernel := ?k, pg_console := pg_console st1 @ [Out ''shutting down'']\<rparr>)"
    by (subst tokio_loop.simps) (simp add: st1_def sel2 tokio_handle_def io_bind_def write_console_def)
  ultimately have loop: "tokio_loop (sim_os Linux) task_runtime t st =
      Some (Inr (), ?t2, st1\<lparr>pg_kernel := ?k, pg_console := pg_console st1 @ [Out ''shutting down'']\<rparr>)" by (rule trans)
  show ?thesis by (rule that [OF start loop]) (simp add: st1_def meta_lines_def)
qed

theorem tokio_receiver_prints_all_witness:
  "\<exists>t st t' st' p. tokio_start (sim_os Linux) task_runtime task_args (meta_init sim_init) = (Inr t, st) \<and>
     tokio_loop (sim_os Linux) task_runtime t st = Some (Inr (), t', st') \<and>
     sm_packets_received (sub_metrics (tokio_inner t')) = 1 \<and>
     pg_console st' = pg_console st @ map Out (meta_lines (sim_os Linux) p) @ [Out ''shutting down'']"
proof -
  obtain t st t' st' where run: "tokio_start (sim_os Linux) task_runtime task_args (meta_init sim_init) = (Inr t, st)"
    "tokio_loop (sim_os Linux) task_runtime t st = Some (Inr (), t', st')"
    and four: "length (pg_console st') = length (pg_console st) + 4"
    by (rule task_runs)
  from tokio_receiver_prints_all [OF task_runtime_ok(1,2) run] obtain ps
    where ps: "sm_packets_received (sub_metrics (tokio_inner t')) = of_nat (length ps)"
      "pg_console st' = pg_console st @ map Out (concat (map (meta_lines (sim_os Linux)) ps)) @ [Out ''shutting down'']"
    by auto
  have "length (concat (map (meta_lines os) qs)) = 3 * length qs" for os :: "sim os" and qs
    by (induction qs) (simp_all add: meta_lines_def)
  then have "length ps = 1" using four ps(2) by simp
  then obtain p where "ps = [p]" by (auto simp: length_Suc_conv)
  then show ?thesis using run ps by auto
qed

theorem receivers_close_sockets_witness:
  "\<exists>st. tokio_run (sim_os Linux) task_runtime task_args (meta_init sim_init) = Some (Inr (), st) \<and>
     sim_sockets (pg_kernel st) = {}"
proof -
  obtain t st t' st' where run: "tokio_start (sim_os Linux) task_runtime task_args (meta_init sim_init) = (Inr t, st)"
    "tokio_loop (sim_os Linux) task_runtime t st = Some (Inr (), t', st')"
    by (rule task_runs)
  then have "tokio_run (sim_os Linux) task_runtime task_args (meta_init sim_init) =
      Some (Inr (), meta_drop (sim_os Linux) (tokio_drop (sim_os Linux) t' st'))"
    by (simp add: tokio_run_def)
  moreover from this have "sim_sockets (pg_kernel (meta_drop (sim_os Linux) (tokio_drop (sim_os Linux) t' st'))) =
      sim_sockets sim_init"
    using receivers_close_sockets [OF demo_accounts task_runtime_ok(3,1,2)] by (simp add: demo_world_os)
  ultimately show ?thesis by (auto simp: sim_sockets_def sim_init_def)
qed

end
