(* ===== verification/Spec2Isabelle.thy ===== *)
theory Spec2Isabelle
  imports Context RawContext SharedInv CliArgs JsonlInv FfiCorrect Tokio ProcMetrics PythonCorrect
    ReceiversCorrect
begin

text \<open>
  A model of \<open>mcrx-core\<close>, a multicast receiver library with its C interface, its Python module and
  its command-line receivers, and the theorems that make it correct.

  \<^bold>\<open>The program.\<close> A \<open>Context\<close> (\<open>src/context.rs\<close>) owns subscriptions. A subscription
  (\<open>src/subscription.rs\<close>) has a configuration (\<open>src/config.rs\<close>), a non-blocking UDP socket and a
  lifecycle state, bound or joined, and counts what it receives. The platform layer
  (\<open>src/platform/mod.rs\<close>) opens and prepares sockets, joins and leaves groups, and receives
  datagrams; it reads ancillary data to tell whether a datagram belongs to the subscription. A
  \<open>RawContext\<close> (\<open>src/raw/context.rs\<close>) does the same for whole IP datagrams, which
  \<open>src/platform/raw.rs\<close> captures with packet sockets, BPF devices or raw sockets, parses and
  filters. A \<open>SharedRawContext\<close> (\<open>src/raw/shared.rs\<close>) lets many logical subscriptions share few
  capture sockets and reference-counted kernel memberships, and demultiplexes each captured
  datagram once. \<open>src/metrics.rs\<close> takes snapshots and deltas of counters and of the process,
  \<open>src/jsonl.rs\<close> writes them to files with one header, \<open>src/tokio_adapter.rs\<close> waits for packets
  in an asynchronous task. \<open>mcrx-core-ffi/src/lib.rs\<close> puts a context behind a mutex and adds a worker
  thread that calls back with packets; \<open>mcrx-core-py/src/lib.rs\<close> puts it into a \<open>RefCell\<close>.

  \<^bold>\<open>Conventions.\<close> A \<open>Result\<close> is a sum with the error on the left; an operation that reaches the
  operating system also threads its state \<open>'k\<close>, which persists on errors (\<open>io\<close>, \<open>io_bind\<close>,
  \<open>io_map_err\<close> of Prelude). Counters are words and wrap; \<open>usize\<close> is \<open>nat\<close>. A panic, where the
  source has one, is a value: \<open>None\<close> of an option, or a constructor of its own. A function with one
  body per target takes the target from \<open>os_target\<close>.

  \<^bold>\<open>Theories, from the bottom.\<close>
  \<^item> Prelude: words, results, vector operations, the filtered read loop, decimal digits.
  \<^item> Net, Config, Packet: addresses, \<open>io::Error\<close>, \<open>src/error.rs\<close>; \<open>src/config.rs\<close> and
    \<open>src/raw/config.rs\<close> with validation; \<open>src/packet.rs\<close>, \<open>src/raw/packet.rs\<close>. Validation accepts
    exactly the usable selections.
  \<^item> Os, Sim: the operating system as a parameter, one field per call, with \<open>accounts\<close> for what
    resource safety needs of it; Sim is an instance on which witnesses compute.
  \<^item> Platform, Subscription: \<open>src/platform/mod.rs\<close> and \<open>src/subscription.rs\<close>. Lemmas: what a receive
    delivers on every target, how many datagrams it reads, that no socket leaks, that counters are
    exact.
  \<^item> Datagram, Bpf, RawPlatform: \<open>src/platform/raw.rs\<close>, in its pure part (parsing, link layers, VLAN
    tags, BPF records), its packet filters instruction by instruction, and its system part. Lemmas:
    framing round trips, the filters against the matcher of the receive path, receives, joins over
    several sockets as transactions.
  \<^item> Table: two locales, the table of subscriptions with a cursor and the round-robin receive.
    Context interprets them for \<open>src/context.rs\<close>, RawContext for \<open>src/raw/context.rs\<close> and
    \<open>src/raw/subscription.rs\<close>. Lemmas: invariants of reachable contexts, ownership of sockets,
    fairness, termination, accounting.
  \<^item> Demux, Shared, SharedInv: \<open>src/raw/shared.rs\<close>. The index refines a set of registrations; the
    invariant of reachable shared contexts gives exact reference counts, ownership, delivery, bounds
    and the absence of panics.
  \<^item> Metrics, ProcMetrics: \<open>src/metrics.rs\<close>. The samplers interpret the locale \<open>delta_counter\<close>; a
    process is read back from the texts of \<open>/proc\<close> whatever its name.
  \<^item> StdParse, CliArgs: \<open>str::parse\<close> and the texts of addresses, and
    \<open>src/bin/common/recv_args.rs\<close>. Round trip of command lines; accepted arguments are usable.
  \<^item> Files, Jsonl, JsonlInv: paths, UTF-8, a file store whose calls fail at will; \<open>src/jsonl.rs\<close>; and
    the invariant of any interleaving of cooperating writers.
  \<^item> FfiWorker, Ffi, FfiCorrect: \<open>mcrx-core-ffi/src/lib.rs\<close>. The worker is a relation between states
    in which every access to a shared atomic, mutex or condition variable is one step, so a theorem
    speaks of every schedule; the other calls are functions, which simulate those of Context.
  \<^item> Tokio: \<open>src/tokio_adapter.rs\<close>. A future is the function that a poll runs; the loops over the
    readiness are partial functions whose termination is a theorem.
  \<^item> Python, PythonCorrect: \<open>mcrx-core-py/src/lib.rs\<close>, with the borrow counter of the cell.
  \<^item> Console, Receiver, Receivers: the programs under \<open>src/bin\<close>. A program is its kernel, its console
    and its local variables; it starts and then repeats one turn (\<open>program_run\<close>), and whatever ends it
    drops what it owns. Receiver is \<open>mcrx_recv.rs\<close> with its periodic summaries, Receivers the other
    three; the asynchronous one polls the branches of \<open>select!\<close>. ReceiverCorrect, ReceiverOwns,
    ReceiversCorrect: the metrics files stay valid, every packet that is counted is printed and
    conversely, no socket stays open (the locale \<open>socket_owner\<close>, interpreted by three of the
    programs); the relations that every part keeps (\<open>always\<close>) compose over the parts.

  \<^bold>\<open>Parameters.\<close> The operating system and the C ABI (\<open>os\<close>), the BPF machine (\<open>run\<close>), the process
  information (\<open>process_os\<close>), \<open>serde_json\<close> (\<open>json_ops\<close>), \<open>f64\<close> (\<open>f64_ops\<close>), the faults of the file
  store, tokio's \<open>AsyncFd\<close>, timer and runtime, and for the receivers the environment, the clocks, the
  sleep and the formatting of floats (\<open>world\<close>). Nothing is assumed of them except what a theorem names:
  \<open>accounts\<close> and its likes for ownership of descriptors, \<open>edge_triggered\<close> and \<open>sleeps\<close> for tokio, \<open>classic_bpf\<close> for the filters, \<open>reads_back\<close> for JSON.

  \<^bold>\<open>Bounds and fuel.\<close> A filtered receive reads at most 256 datagrams, the macOS capture loop makes
  at most 512 turns; both are loops on their counter. Walks over BPF records and over Windows
  control messages are recursive on the rest of the buffer, which every turn shortens. Batches and
  polls recurse on the number of packets still wanted, drains on \<open>MAX_DRAIN_PACKETS_PER_CALL\<close>.
  Identifiers and worker generations are 64-bit words; theorems that need them fresh say that fewer
  than \<open>2 ^ 64 - 1\<close> were handed out. The loop of the worker does not end by itself, hence the
  relation between states; readiness loops of tokio and the main
  loops of the receivers may not end, hence \<open>partial_function\<close>.

  \<^bold>\<open>Not modelled.\<close> The byte layout of the structures handed to \<open>setsockopt\<close> (a request is a value
  of its own), descriptor accessors (\<open>as_raw_fd\<close>, \<open>socket_mut\<close>, \<open>fileno\<close>, \<open>socket_handle\<close>), the
  validity of pointers given to the C functions, \<open>mcrx_ffi_version\<close>, poisoning of the mutex that a
  worker only waits with, \<open>__repr__\<close> and the registration of the Python module, tests and examples.
  A write to the console is taken
  to succeed (\<open>println!\<close> panics when it fails), and the receivers split paths as on Unix. The Python
  part of the repository (\<open>mcrx_core/asyncio.py\<close>) is not Rust.
\<close>

end
